(* ===== verification/Py_Base.thy ===== *)
theory Py_Base
  imports Main "HOL-Library.AList" "HOL-Library.Product_Lexorder" "HOL-Library.List_Lexorder"
    "HOL-Library.Char_ord" "HOL-Library.Option_ord"
    "HOL-Library.Multiset"
begin

text \<open>
  The prelude: what every component of the model shares.  Python exceptions are values of
  \<open>py_error\<close>, a fallible operation returns \<open>py_error + 'a\<close>; a \<open>dict\<close> is an association
  list in insertion order (\<open>AList.update\<close> keeps the position of an existing key, as Python
  does); \<open>min\<close> and \<open>max\<close> with a key return the first extremal element; \<open>sorted\<close> is the
  stable \<open>sort_key\<close>; an aware \<open>datetime\<close> is its UTC instant in microseconds and a
  \<open>timedelta\<close> a number of microseconds.  Tuples and strings are ordered lexicographically by
  the library's orders.
\<close>

section \<open>Collections of rules\<close>

named_theorems res_simps \<open>evaluation and inversion of result-valued code\<close>
named_theorems time_defs \<open>the durations the code names, in microseconds\<close>

lemma option_eqI: "(\<And>y. a = Some y \<longleftrightarrow> b = Some y) \<Longrightarrow> a = b"
  by (cases a; cases b) auto

section \<open>Exceptions as values\<close>

type_synonym str = string

datatype py_error =
    ValueError str
  | TypeError str
  | KeyError str
  | IndexError str
  | BudgetExceeded str
  | RuntimeError str
  | IntegrityError str
  | AppError str str

text \<open>\<open>type(exc).__name__\<close>; \<open>AppError\<close> is an exception class the program defines.\<close>

fun error_name :: "py_error \<Rightarrow> str" where
  "error_name (ValueError m) = ''ValueError''"
| "error_name (TypeError m) = ''TypeError''"
| "error_name (KeyError m) = ''KeyError''"
| "error_name (IndexError m) = ''IndexError''"
| "error_name (BudgetExceeded m) = ''BudgetExceededError''"
| "error_name (RuntimeError m) = ''RuntimeError''"
| "error_name (IntegrityError m) = ''IntegrityError''"
| "error_name (AppError name m) = name"

type_synonym 'a result = "py_error + 'a"

definition rbind :: "'a result \<Rightarrow> ('a \<Rightarrow> 'b result) \<Rightarrow> 'b result" where
  "rbind m f = (case m of Inl e \<Rightarrow> Inl e | Inr x \<Rightarrow> f x)"

definition ensure :: "bool \<Rightarrow> py_error \<Rightarrow> unit result" where
  "ensure c e = (if c then Inr () else Inl e)"

primrec traverse :: "('a \<Rightarrow> 'b result) \<Rightarrow> 'a list \<Rightarrow> 'b list result" where
  "traverse f [] = Inr []"
| "traverse f (x # xs) = rbind (f x) (\<lambda>y. rbind (traverse f xs) (\<lambda>ys. Inr (y # ys)))"

lemma rbind_Inl [simp]: "rbind (Inl e) f = Inl e"
  by (simp add: rbind_def)

lemma rbind_Inr [simp]: "rbind (Inr x) f = f x"
  by (simp add: rbind_def)

lemma rbind_eq_Inr [res_simps]: "rbind m f = Inr y \<longleftrightarrow> (\<exists>x. m = Inr x \<and> f x = Inr y)"
  by (simp add: rbind_def split: sum.split)

lemma rbind_eq_Inl [res_simps]:
  "rbind m f = Inl e \<longleftrightarrow> m = Inl e \<or> (\<exists>x. m = Inr x \<and> f x = Inl e)"
  by (simp add: rbind_def split: sum.split)

lemma ensure_eq_Inr [res_simps]: "ensure c e = Inr u \<longleftrightarrow> c"
  by (simp add: ensure_def)

lemma ensure_eq_Inl [res_simps]: "ensure c e = Inl e' \<longleftrightarrow> \<not> c \<and> e' = e"
  by (auto simp: ensure_def)

lemma ensure_True [simp]: "ensure True e = Inr ()"
  by (simp add: ensure_def)

lemma ensure_False [simp]: "ensure False e = Inl e"
  by (simp add: ensure_def)

lemma rbind_ensure: "rbind (ensure c e) f = (if c then f () else Inl e)"
  by (simp add: ensure_def)

lemma traverse_eq_Inr:
  "traverse f xs = Inr ys \<longleftrightarrow> list_all2 (\<lambda>x y. f x = Inr y) xs ys"
proof (induction xs arbitrary: ys)
  case Nil
  then show ?case by auto
next
  case (Cons x xs)
  then show ?case by (cases ys) (auto simp: res_simps)
qed

lemma traverse_length: "traverse f xs = Inr ys \<Longrightarrow> length ys = length xs"
  by (auto simp: traverse_eq_Inr dest: list_all2_lengthD)

lemma traverse_total: "(\<And>x. x \<in> set xs \<Longrightarrow> f x = Inr (g x)) \<Longrightarrow> traverse f xs = Inr (map g xs)"
  by (induction xs) auto

section \<open>First extremal element, as min and max with a key\<close>

fun min_by :: "('a \<Rightarrow> 'k::linorder) \<Rightarrow> 'a \<Rightarrow> 'a list \<Rightarrow> 'a" where
  "min_by f x [] = x"
| "min_by f x (y # ys) = min_by f (if f y < f x then y else x) ys"

fun max_by :: "('a \<Rightarrow> 'k::linorder) \<Rightarrow> 'a \<Rightarrow> 'a list \<Rightarrow> 'a" where
  "max_by f x [] = x"
| "max_by f x (y # ys) = max_by f (if f x < f y then y else x) ys"

definition py_min :: "('a \<Rightarrow> 'k::linorder) \<Rightarrow> 'a list \<Rightarrow> 'a option" where
  "py_min f xs = (case xs of [] \<Rightarrow> None | y # ys \<Rightarrow> Some (min_by f y ys))"

definition py_max :: "('a \<Rightarrow> 'k::linorder) \<Rightarrow> 'a list \<Rightarrow> 'a option" where
  "py_max f xs = (case xs of [] \<Rightarrow> None | y # ys \<Rightarrow> Some (max_by f y ys))"

lemma min_by_in: "min_by f x ys \<in> insert x (set ys)"
  by (induction f x ys rule: min_by.induct) auto

lemma max_by_in: "max_by f x ys \<in> insert x (set ys)"
  by (induction f x ys rule: max_by.induct) auto

lemma min_by_le: "z \<in> insert x (set ys) \<Longrightarrow> f (min_by f x ys) \<le> f z"
proof (induction f x ys arbitrary: z rule: min_by.induct)
  case (2 f x y ys)
  show ?case
  proof (cases "z \<in> {x, y}")
    case True
    have "f (min_by f (if f y < f x then y else x) ys) \<le> f (if f y < f x then y else x)"
      by (rule "2.IH") simp
    also have "\<dots> \<le> f z" using True by auto
    finally show ?thesis by simp
  next
    case False
    with "2.prems" "2.IH" show ?thesis by simp
  qed
qed simp

lemma max_by_ge: "z \<in> insert x (set ys) \<Longrightarrow> f z \<le> f (max_by f x ys)"
proof (induction f x ys arbitrary: z rule: max_by.induct)
  case (2 f x y ys)
  show ?case
  proof (cases "z \<in> {x, y}")
    case True
    have "f z \<le> f (if f x < f y then y else x)" using True by auto
    also have "\<dots> \<le> f (max_by f (if f x < f y then y else x) ys)"
      by (rule "2.IH") simp
    finally show ?thesis by simp
  next
    case False
    with "2.prems" "2.IH" show ?thesis by simp
  qed
qed simp

lemma py_min_None [simp]: "py_min f xs = None \<longleftrightarrow> xs = []"
  by (simp add: py_min_def split: list.split)

lemma py_max_None [simp]: "py_max f xs = None \<longleftrightarrow> xs = []"
  by (simp add: py_max_def split: list.split)

lemma py_min_in: "py_min f xs = Some x \<Longrightarrow> x \<in> set xs"
  by (metis (no_types, lifting) list.set(2) list.case_eq_if list.collapse min_by_in option.distinct(1)
      option.inject py_min_def)

lemma py_max_in: "py_max f xs = Some x \<Longrightarrow> x \<in> set xs"
  by (metis (no_types, lifting) list.set(2) list.case_eq_if list.collapse max_by_in option.distinct(1)
      option.inject py_max_def)

lemma py_min_le: "py_min f xs = Some x \<Longrightarrow> y \<in> set xs \<Longrightarrow> f x \<le> f y"
  by (auto simp: py_min_def intro: min_by_le split: list.splits)

lemma py_max_ge: "py_max f xs = Some x \<Longrightarrow> y \<in> set xs \<Longrightarrow> f y \<le> f x"
  by (auto simp: py_max_def intro: max_by_ge split: list.splits)

section \<open>Dictionaries\<close>

type_synonym ('k, 'v) dict = "('k \<times> 'v) list"

abbreviation lookup :: "('k, 'v) dict \<Rightarrow> 'k \<Rightarrow> 'v option" where
  "lookup d k \<equiv> map_of d k"

abbreviation store :: "('k, 'v) dict \<Rightarrow> 'k \<Rightarrow> 'v \<Rightarrow> ('k, 'v) dict" where
  "store d k v \<equiv> AList.update k v d"

abbreviation get_or :: "('k, 'v) dict \<Rightarrow> 'k \<Rightarrow> 'v \<Rightarrow> 'v" where
  "get_or d k v \<equiv> (case map_of d k of None \<Rightarrow> v | Some w \<Rightarrow> w)"

lemma lookup_store [simp]: "lookup (store d k v) k' = (if k' = k then Some v else lookup d k')"
  by (auto simp: update_conv')

lemma keys_store: "fst ` set (store d k v) = insert k (fst ` set d)"
  by (simp add: dom_update)

text \<open>\<open>defaultdict(list)\<close>: \<open>d[k].append(v)\<close>, and a whole loop of it.\<close>

definition push :: "('k, 'v list) dict \<Rightarrow> 'k \<Rightarrow> 'v \<Rightarrow> ('k, 'v list) dict" where
  "push d k v = store d k (get_or d k [] @ [v])"

definition group_by :: "('a \<Rightarrow> 'k) \<Rightarrow> 'a list \<Rightarrow> ('k, 'a list) dict" where
  "group_by key xs = foldl (\<lambda>d x. push d (key x) x) [] xs"

lemma get_or_push: "get_or (push d k v) k' [] = get_or d k' [] @ (if k' = k then [v] else [])"
  by (simp add: push_def split: option.split)

lemma distinct_keys_push: "distinct (map fst d) \<Longrightarrow> distinct (map fst (push d k v))"
  by (simp add: push_def distinct_update)

lemma foldl_push_get:
  "get_or (foldl (\<lambda>d x. push d (key x) x) d xs) k [] = get_or d k [] @ filter (\<lambda>x. key x = k) xs"
  by (induction xs arbitrary: d) (simp_all add: get_or_push)

lemma foldl_push_distinct:
  "distinct (map fst d) \<Longrightarrow> distinct (map fst (foldl (\<lambda>d x. push d (key x) x) d xs))"
  by (induction xs arbitrary: d) (simp_all add: distinct_keys_push)

lemma foldl_push_keys:
  "fst ` set (foldl (\<lambda>d x. push d (key x) x) d xs) = fst ` set d \<union> key ` set xs"
  by (induction xs arbitrary: d) (auto simp: push_def keys_store)

lemma group_by_get: "get_or (group_by key xs) k [] = filter (\<lambda>x. key x = k) xs"
  by (simp add: group_by_def foldl_push_get)

lemma group_by_distinct: "distinct (map fst (group_by key xs))"
  by (simp add: group_by_def foldl_push_distinct)

lemma group_by_keys: "fst ` set (group_by key xs) = key ` set xs"
  by (simp add: group_by_def foldl_push_keys)

lemma group_by_lookup:
  "lookup (group_by key xs) k = (if k \<in> key ` set xs then Some (filter (\<lambda>x. key x = k) xs) else None)"
proof (cases "lookup (group_by key xs) k")
  case None
  then have "k \<notin> fst ` set (group_by key xs)" by (simp add: map_of_eq_None_iff)
  with None show ?thesis by (simp add: group_by_keys)
next
  case (Some ys)
  then have "ys = filter (\<lambda>x. key x = k) xs" using group_by_get [of key xs k] by simp
  moreover from Some have "k \<in> fst ` set (group_by key xs)"
    by (metis map_of_eq_None_iff option.distinct(1))
  ultimately show ?thesis using Some by (simp add: group_by_keys)
qed

section \<open>Keeping the latest revision per identity\<close>

text \<open>
  The loop that several components run: a dict from an identity to the best item seen so far,
  replaced only by an item of strictly larger rank.
\<close>

definition keep_latest_step ::
  "('a \<Rightarrow> 'k) \<Rightarrow> ('a \<Rightarrow> 'r::linorder) \<Rightarrow> ('k, 'a) dict \<Rightarrow> 'a \<Rightarrow> ('k, 'a) dict" where
  "keep_latest_step ident rank d x =
     (case lookup d (ident x) of
        None \<Rightarrow> store d (ident x) x
      | Some y \<Rightarrow> if rank y < rank x then store d (ident x) x else d)"

definition keep_latest ::
  "('a \<Rightarrow> 'k) \<Rightarrow> ('a \<Rightarrow> 'r::linorder) \<Rightarrow> 'a list \<Rightarrow> ('k, 'a) dict" where
  "keep_latest ident rank xs = foldl (keep_latest_step ident rank) [] xs"

lemma keep_latest_snoc:
  "keep_latest ident rank (xs @ [x]) = keep_latest_step ident rank (keep_latest ident rank xs) x"
  by (simp add: keep_latest_def)

lemma keep_latest_distinct: "distinct (map fst (keep_latest ident rank xs))"
proof (induction xs rule: rev_induct)
  case (snoc x xs)
  then show ?case
    by (auto simp: keep_latest_snoc keep_latest_step_def distinct_update split: option.split)
qed (simp add: keep_latest_def)

lemma keep_latest_sound:
  "lookup (keep_latest ident rank xs) k = Some y \<Longrightarrow> y \<in> set xs \<and> ident y = k"
proof (induction xs arbitrary: k y rule: rev_induct)
  case (snoc x xs)
  then show ?case
    by (auto simp: keep_latest_snoc keep_latest_step_def split: option.splits if_splits)
qed (simp add: keep_latest_def)

lemma keep_latest_greatest:
  "x \<in> set xs \<Longrightarrow> \<exists>y. lookup (keep_latest ident rank xs) (ident x) = Some y \<and> rank x \<le> rank y"
proof (induction xs arbitrary: x rule: rev_induct)
  case (snoc z xs)
  show ?case
  proof (cases "x \<in> set xs")
    case True
    then obtain y where "lookup (keep_latest ident rank xs) (ident x) = Some y" "rank x \<le> rank y"
      using snoc.IH by blast
    then show ?thesis
      by (auto simp: keep_latest_snoc keep_latest_step_def split: option.split)
  next
    case False
    with snoc.prems have "x = z" by simp
    then show ?thesis
      by (auto simp: keep_latest_snoc keep_latest_step_def not_less split: option.split)
  qed
qed simp

text \<open>
  The contract its clients rely on: in the inputs they accept (\<open>ok\<close>), ranks identify the items of
  one identity.  Then the selection is the unique greatest item, so it does not depend on the
  order in which the items arrive.
\<close>

locale latest_selection =
  fixes ident :: "'a \<Rightarrow> 'k" and rank :: "'a \<Rightarrow> 'r::linorder" and ok :: "'a list \<Rightarrow> bool"
  assumes rank_identifies:
    "ok xs \<Longrightarrow> x \<in> set xs \<Longrightarrow> y \<in> set xs \<Longrightarrow> ident x = ident y \<Longrightarrow> rank x = rank y \<Longrightarrow> x = y"
begin

lemma lookup_iff:
  assumes "ok xs"
  shows "lookup (keep_latest ident rank xs) k = Some y \<longleftrightarrow>
     y \<in> set xs \<and> ident y = k \<and> (\<forall>x \<in> set xs. ident x = k \<longrightarrow> rank x \<le> rank y)"
proof
  assume l: "lookup (keep_latest ident rank xs) k = Some y"
  have "rank x \<le> rank y" if "x \<in> set xs" "ident x = k" for x
    using keep_latest_greatest [OF that(1), of ident rank] that(2) l by auto
  with keep_latest_sound [OF l] show
    "y \<in> set xs \<and> ident y = k \<and> (\<forall>x \<in> set xs. ident x = k \<longrightarrow> rank x \<le> rank y)" by blast
next
  assume r: "y \<in> set xs \<and> ident y = k \<and> (\<forall>x \<in> set xs. ident x = k \<longrightarrow> rank x \<le> rank y)"
  then obtain z where z: "lookup (keep_latest ident rank xs) k = Some z" "rank y \<le> rank z"
    using keep_latest_greatest [of y xs ident rank] by auto
  from keep_latest_sound [OF z(1)] r have "z \<in> set xs" "rank z \<le> rank y" "ident z = ident y" by auto
  with z(2) r have "z = y" by (intro rank_identifies [OF assms]) auto
  with z(1) show "lookup (keep_latest ident rank xs) k = Some y" by simp
qed

lemma order_irrelevant:
  assumes "ok xs" and "ok ys" and "set xs = set ys"
  shows "lookup (keep_latest ident rank xs) = lookup (keep_latest ident rank ys)"
proof
  fix k
  have "lookup (keep_latest ident rank xs) k = Some y \<longleftrightarrow>
        lookup (keep_latest ident rank ys) k = Some y" for y
    unfolding lookup_iff [OF assms(1)] lookup_iff [OF assms(2)] assms(3) by (rule refl)
  then show "lookup (keep_latest ident rank xs) k = lookup (keep_latest ident rank ys) k"
    by (rule option_eqI)
qed

end

text \<open>Two dictionaries with the same entries list the same items, in some order.\<close>

lemma mset_items_eq:
  assumes "distinct (map fst d)" and "distinct (map fst d')" and "lookup d = lookup d'"
  shows "mset d = mset d'"
proof -
  have "(k, v) \<in> set d \<longleftrightarrow> (k, v) \<in> set d'" for k v
    using assms map_of_eq_Some_iff [of d k v] map_of_eq_Some_iff [of d' k v] by simp
  then have "set d = set d'" by auto
  with assms(1,2) show ?thesis by (metis distinct_map set_eq_iff_mset_eq_distinct)
qed

text \<open>The values of a list of optional values, and \<open>sorted\<close> of a set of strings.\<close>

definition somes :: "'a option list \<Rightarrow> 'a list" where
  "somes xs = [y. Some y \<leftarrow> xs]"

lemma somes_simps [simp]:
  "somes [] = []" "somes (None # xs) = somes xs" "somes (Some x # xs) = x # somes xs"
  by (simp_all add: somes_def)

lemma somes_set [simp]: "x \<in> set (somes xs) \<longleftrightarrow> Some x \<in> set xs"
  by (simp add: somes_def)

definition sorted_set :: "str list \<Rightarrow> str list" where
  "sorted_set xs = sort (remdups xs)"

lemma sorted_set_cong: "set xs = set ys \<Longrightarrow> sorted_set xs = sorted_set ys"
  by (simp add: sorted_set_def sorted_list_of_set_sort_remdups [symmetric])

section \<open>Time\<close>

text \<open>Durations and instants are integers, in microseconds (the resolution of \<open>datetime\<close>).\<close>

type_synonym instant = int
type_synonym duration = int
type_synonym date = int  \<comment> \<open>days since 1970-01-01\<close>

definition second :: duration where "second = 1000000"
definition minute :: duration where "minute = 60 * second"
definition hour :: duration where "hour = 60 * minute"
definition day_len :: duration where "day_len = 24 * hour"
definition half_hour :: duration where "half_hour = 30 * minute"

lemma durations [time_defs]:
  "second = 1000000" "minute = 60000000" "hour = 3600000000" "day_len = 86400000000"
  "half_hour = 1800000000"
  by (simp_all add: second_def minute_def hour_def day_len_def half_hour_def)

lemma durations_pos [simp]: "0 < second" "0 < minute" "0 < hour" "0 < day_len" "0 < half_hour"
  by (simp_all add: durations)

lemma div_bounds: "0 < b \<Longrightarrow> (a div b) * b \<le> a \<and> a < (a div b) * b + b" for a b :: int
  using div_mult_mod_eq [of a b] pos_mod_sign [of b a] pos_mod_bound [of b a] by linarith

text \<open>A \<open>datetime\<close> of the code: without a time zone, or with one and hence an instant.\<close>

datatype datetime = Naive int | Aware instant

definition aware_utc :: "str \<Rightarrow> datetime \<Rightarrow> instant result" where
  "aware_utc message t = (case t of Naive _ \<Rightarrow> Inl (ValueError message) | Aware i \<Rightarrow> Inr i)"

lemma aware_utc_simps [simp]:
  "aware_utc m (Aware i) = Inr i" "aware_utc m (Naive n) = Inl (ValueError m)"
  by (simp_all add: aware_utc_def)

lemma aware_utc_Inr [res_simps]: "aware_utc m t = Inr i \<longleftrightarrow> t = Aware i"
  by (cases t) auto

text \<open>\<open>value.minute in (0, 30) and value.second == 0 and value.microsecond == 0\<close> on a UTC
  instant.\<close>

definition is_half_hour_boundary :: "instant \<Rightarrow> bool" where
  "is_half_hour_boundary t \<longleftrightarrow>
     (t div minute) mod 60 \<in> {0, 30} \<and> (t div second) mod 60 = 0 \<and> t mod second = 0"

lemma is_half_hour_boundary_dvd: "is_half_hour_boundary t \<longleftrightarrow> half_hour dvd t"
proof
  assume "half_hour dvd t"
  then obtain k where k: "t = 1800000000 * k" by (auto simp: time_defs elim: dvdE)
  have "t div 60000000 = 30 * k" "t div 1000000 = 1800 * k" by (simp_all add: k)
  moreover have "30 * k mod 60 \<in> {0, 30}" by (auto simp: mod_mult_mult1 [of 30 k 2, simplified]) 
  ultimately show "is_half_hour_boundary t"
    by (auto simp: is_half_hour_boundary_def time_defs k mod_mult_mult1 [of 60 "30 * k" 1, simplified])
next
  assume b: "is_half_hour_boundary t"
  define s where "s = t div 1000000"
  define m where "m = s div 60"
  from b have t: "t = 1000000 * s" by (auto simp: is_half_hour_boundary_def time_defs s_def)
  then have "t div 60000000 = m" by (simp add: m_def)
  moreover from b have "s = 60 * m" by (auto simp: is_half_hour_boundary_def time_defs s_def m_def)
  moreover from b have "m mod 60 \<in> {0, 30}"
    using \<open>t div 60000000 = m\<close> by (simp add: is_half_hour_boundary_def time_defs)
  then have "30 dvd m" by auto presburger+
  ultimately show "half_hour dvd t" using t by (auto simp: time_defs elim!: dvdE)
qed

end
