(* ===== verification/Float64.thy ===== *)
theory Float64
  imports Complex_Main Py_Base
begin

text \<open>
  Python floats.  A finite float is the rational it denotes; the result of an arithmetic
  operation is the exact result rounded to 53 significant bits, ties to even (IEEE 754
  binary64).  The exponent is unbounded here: overflow to infinity and the loss of precision
  below \<open>2 ^ (-1022)\<close> are not modelled, which the magnitudes of the program (MW, Hz, gCO2/kWh,
  fractions of counts) stay far from.  A float that a guard of the code may meet as infinite or
  not a number has type \<open>pyfloat\<close>.  The locale \<open>rounding\<close> is the interface the components use:
  what they rely on is that rounding is monotone, odd and exact on whole numbers up to
  \<open>2 ^ 53\<close>; the interpretation \<open>f64\<close> proves it of the definition.
\<close>

section \<open>Rounding to 53 bits\<close>

function bit_length :: "int \<Rightarrow> nat" where
  "bit_length n = (if n \<le> 0 then 0 else Suc (bit_length (n div 2)))"
  by pat_completeness auto
termination
  by (relation "measure nat") auto

declare bit_length.simps [simp del]

text \<open>The exponent \<open>e\<close> with \<open>2 powi e \<le> x < 2 powi (e + 1)\<close>, for positive \<open>x\<close>.\<close>

definition ilog2 :: "rat \<Rightarrow> int" where
  "ilog2 x = (if 1 \<le> x then int (bit_length \<lfloor>x\<rfloor>) - 1
              else - int (bit_length (\<lceil>1 / x\<rceil> - 1)))"

text \<open>Round to the nearest integer, ties to the even one.\<close>

definition round_half_even :: "rat \<Rightarrow> int" where
  "round_half_even x =
     (let n = \<lfloor>x\<rfloor>; d = x - of_int n in
        if d < 1 / 2 then n else if 1 / 2 < d then n + 1 else if even n then n else n + 1)"

definition fl :: "rat \<Rightarrow> rat" where
  "fl x = (if x = 0 then 0
           else let u = 2 powi (ilog2 \<bar>x\<bar> - 52) in of_int (round_half_even (x / u)) * u)"

section \<open>The operations of the code\<close>

definition fadd :: "rat \<Rightarrow> rat \<Rightarrow> rat" where "fadd x y = fl (x + y)"
definition fsub :: "rat \<Rightarrow> rat \<Rightarrow> rat" where "fsub x y = fl (x - y)"
definition fmul :: "rat \<Rightarrow> rat \<Rightarrow> rat" where "fmul x y = fl (x * y)"
definition fdiv :: "rat \<Rightarrow> rat \<Rightarrow> rat" where "fdiv x y = fl (x / y)"

text \<open>\<open>a / b\<close> of two ints, correctly rounded.\<close>

definition int_div :: "int \<Rightarrow> int \<Rightarrow> rat" where "int_div a b = fl (of_int a / of_int b)"

text \<open>\<open>math.fsum\<close>: the correctly rounded sum.\<close>

definition fsum :: "rat list \<Rightarrow> rat" where "fsum xs = fl (sum_list xs)"

text \<open>
  The built-in \<open>sum\<close> of floats as of Python 3.12 (the version the image runs): the sum with
  Neumaier's running compensation, added at the end.
\<close>

fun neumaier :: "rat \<Rightarrow> rat \<Rightarrow> rat list \<Rightarrow> rat" where
  "neumaier s c [] = (if c = 0 then s else fadd s c)"
| "neumaier s c (x # xs) =
     (let t = fadd s x
      in neumaier t (if \<bar>x\<bar> \<le> \<bar>s\<bar> then fadd c (fadd (fsub s t) x) else fadd c (fadd (fsub x t) s)) xs)"

definition py_sum :: "rat list \<Rightarrow> rat" where "py_sum xs = neumaier 0 0 xs"

text \<open>\<open>round(x, digits)\<close>: the exact value to the nearest decimal, ties to even, as a float.\<close>

definition py_round :: "nat \<Rightarrow> rat \<Rightarrow> rat" where
  "py_round digits x = fl (of_int (round_half_even (x * 10 ^ digits)) / 10 ^ digits)"

text \<open>\<open>int(x)\<close> of a float: towards zero.\<close>

definition trunc :: "rat \<Rightarrow> int" where
  "trunc x = (if 0 \<le> x then \<lfloor>x\<rfloor> else \<lceil>x\<rceil>)"

text \<open>A float that may also be infinite or not a number.\<close>

datatype pyfloat = Finite rat | PosInf | NegInf | NaN

fun is_finite :: "pyfloat \<Rightarrow> bool" where
  "is_finite (Finite _) = True"
| "is_finite _ = False"

fun finite_value :: "pyfloat \<Rightarrow> rat option" where
  "finite_value (Finite x) = Some x"
| "finite_value _ = None"

text \<open>A value whose Python type the code inspects.\<close>

datatype py_value = PyNone | PyBool bool | PyInt int | PyFloat rat | PyStr str

section \<open>Correctness of the exponent\<close>

lemma bit_length_bounds: "0 < n \<Longrightarrow> 2 ^ (bit_length n - 1) \<le> n \<and> n < 2 ^ bit_length n \<and> 0 < bit_length n"
proof (induction n rule: bit_length.induct)
  case (1 n)
  show ?case
  proof (cases "n div 2 \<le> 0")
    case True
    with "1.prems" have "n = 1" by linarith
    then show ?thesis by (simp add: bit_length.simps [of 1] bit_length.simps [of 0])
  next
    case False
    let ?b = "bit_length (n div 2)"
    from "1.IH" "1.prems" False have h: "2 ^ (?b - 1) \<le> n div 2" "n div 2 < 2 ^ ?b" "0 < ?b" by auto
    from h(3) obtain k where k: "?b = Suc k" by (cases ?b) auto
    from h k have "2 ^ k \<le> n div 2" "n div 2 < 2 * 2 ^ k" by auto
    then have "2 * 2 ^ k \<le> n" "n < 4 * 2 ^ k" by linarith+
    with "1.prems" k show ?thesis by (simp add: bit_length.simps [of n])
  qed
qed

lemma bit_length_rat:
  assumes "0 < n"
  obtains k where "bit_length n = Suc k" and "(2::rat) ^ k \<le> of_int n" and "of_int n + 1 \<le> (2::rat) ^ Suc k"
proof -
  from bit_length_bounds [OF assms] obtain k where k: "bit_length n = Suc k"
    by (cases "bit_length n") auto
  with bit_length_bounds [OF assms] have "2 ^ k \<le> n" "n + 1 \<le> 2 ^ Suc k" by auto
  then have "(of_int (2 ^ k) :: rat) \<le> of_int n" "(of_int (n + 1) :: rat) \<le> of_int (2 ^ Suc k)"
    by (simp_all only: of_int_le_iff)
  with k show thesis by (intro that) auto
qed

lemma ilog2_bounds:
  assumes "0 < x"
  shows "2 powi ilog2 x \<le> x" and "x < 2 powi (ilog2 x + 1)"
proof -
  have "2 powi ilog2 x \<le> x \<and> x < 2 powi (ilog2 x + 1)"
  proof (cases "1 \<le> x")
    case True
    then have n: "0 < \<lfloor>x\<rfloor>" "of_int \<lfloor>x\<rfloor> \<le> x" "x < of_int \<lfloor>x\<rfloor> + 1" by linarith+
    obtain k where k: "bit_length \<lfloor>x\<rfloor> = Suc k" "(2::rat) ^ k \<le> of_int \<lfloor>x\<rfloor>"
      "of_int \<lfloor>x\<rfloor> + 1 \<le> (2::rat) ^ Suc k" by (rule bit_length_rat [OF n(1)])
    with n have "2 ^ k \<le> x" "x < 2 ^ Suc k" by linarith+
    moreover have "ilog2 x = int k" using True k by (simp add: ilog2_def)
    moreover have "2 powi (int k + 1) = (2::rat) ^ Suc k" by (simp add: power_int_add)
    ultimately show ?thesis by simp
  next
    case False
    define m where "m = \<lceil>1 / x\<rceil> - 1"
    from assms False have "1 < 1 / x" by simp
    then have "2 \<le> \<lceil>1 / x\<rceil>" by linarith
    then have m: "0 < m" "of_int m < 1 / x" "1 / x \<le> of_int m + 1"
      by (simp_all add: m_def) linarith+
    obtain k where k: "bit_length m = Suc k" "(2::rat) ^ k \<le> of_int m"
      "of_int m + 1 \<le> (2::rat) ^ Suc k" by (rule bit_length_rat [OF m(1)])
    with m have "(2::rat) ^ k < 1 / x" "1 / x \<le> 2 ^ Suc k" by linarith+
    with assms have "x < 1 / 2 ^ k" "1 / 2 ^ Suc k \<le> x"
      by (simp_all add: field_simps)
    moreover have "ilog2 x = - int (Suc k)" using False k by (simp add: ilog2_def m_def)
    moreover have "2 powi (- int (Suc k)) = (1::rat) / 2 ^ Suc k"
      by (simp only: power_int_minus power_int_of_nat inverse_eq_divide)
    moreover have "2 powi (- int (Suc k) + 1) = (1::rat) / 2 ^ k"
    proof -
      have "- int (Suc k) + 1 = - int k" by simp
      then show ?thesis by (simp only: power_int_minus power_int_of_nat inverse_eq_divide)
    qed
    ultimately show ?thesis by simp
  qed
  then show "2 powi ilog2 x \<le> x" and "x < 2 powi (ilog2 x + 1)" by auto
qed

lemma powi_le_iff: "(2::rat) powi a \<le> 2 powi b \<longleftrightarrow> a \<le> b"
proof
  assume le: "(2::rat) powi a \<le> 2 powi b"
  show "a \<le> b"
  proof (rule ccontr)
    assume "\<not> a \<le> b"
    then have "(2::rat) powi b < 2 powi a" by (intro power_int_strict_increasing) auto
    with le show False by simp
  qed
qed (rule power_int_increasing, simp_all)

lemma powi_less_imp: "(2::rat) powi a < 2 powi b \<Longrightarrow> a < b"
  using powi_le_iff [of b a] by (simp add: not_less [symmetric])

lemma ilog2_eqI:
  assumes "2 powi e \<le> x" and "x < 2 powi (e + 1)"
  shows "ilog2 x = e"
proof -
  from assms(1) have "0 < x" by (rule less_le_trans [rotated]) simp
  note b = ilog2_bounds [OF this]
  from b(1) assms(2) have "(2::rat) powi ilog2 x < 2 powi (e + 1)" by (rule le_less_trans)
  moreover from assms(1) b(2) have "(2::rat) powi e < 2 powi (ilog2 x + 1)" by (rule le_less_trans)
  ultimately show ?thesis using powi_less_imp [of "ilog2 x" "e + 1"] powi_less_imp [of e "ilog2 x + 1"]
    by linarith
qed

section \<open>Correctness of rounding to an integer\<close>

lemma round_half_even_of_int [simp]: "round_half_even (of_int n) = n"
  by (simp add: round_half_even_def Let_def)

lemma round_half_even_near: "\<bar>of_int (round_half_even x) - x\<bar> \<le> 1 / 2"
  unfolding round_half_even_def Let_def by (auto simp: abs_if) linarith+

lemma round_half_even_mono:
  assumes "x \<le> y" shows "round_half_even x \<le> round_half_even y"
proof (cases "\<lfloor>x\<rfloor> = \<lfloor>y\<rfloor>")
  case True
  with assms show ?thesis unfolding round_half_even_def Let_def by auto
next
  case False
  with assms have "\<lfloor>x\<rfloor> + 1 \<le> \<lfloor>y\<rfloor>" using floor_mono by fastforce
  moreover have "round_half_even x \<le> \<lfloor>x\<rfloor> + 1" "\<lfloor>y\<rfloor> \<le> round_half_even y"
    unfolding round_half_even_def Let_def by auto
  ultimately show ?thesis by linarith
qed

lemma round_half_even_minus: "round_half_even (- x) = - round_half_even x"
proof (cases "x = of_int \<lfloor>x\<rfloor>")
  case True
  then show ?thesis by (metis of_int_minus round_half_even_of_int)
next
  case False
  then have "\<lfloor>- x\<rfloor> = - \<lfloor>x\<rfloor> - 1" by linarith
  then show ?thesis unfolding round_half_even_def Let_def by auto
qed

section \<open>Rounding a float\<close>

lemma fl_zero [simp]: "fl 0 = 0"
  by (simp add: fl_def)

lemma fl_minus: "fl (- x) = - fl x"
  by (simp add: fl_def Let_def round_half_even_minus)

lemma fl_pos_bounds:
  assumes "0 < x"
  shows "2 powi ilog2 x \<le> fl x" and "fl x \<le> 2 powi (ilog2 x + 1)"
proof -
  define u :: rat where "u = 2 powi (ilog2 x - 52)"
  have u: "0 < u" by (simp add: u_def)
  have e: "2 powi ilog2 x = 2 ^ 52 * u" "2 powi (ilog2 x + 1) = 2 ^ 53 * u"
    by (simp_all add: u_def power_int_diff power_int_add)
  from ilog2_bounds [OF assms] e u have "of_int (2 ^ 52) \<le> x / u" "x / u \<le> of_int (2 ^ 53)"
    by (simp_all add: field_simps)
  from this [THEN round_half_even_mono] have "2 ^ 52 \<le> round_half_even (x / u)"
    "round_half_even (x / u) \<le> 2 ^ 53"
    by (simp_all only: round_half_even_of_int)
  then have r: "(2::rat) ^ 52 \<le> of_int (round_half_even (x / u))"
    "of_int (round_half_even (x / u)) \<le> (2::rat) ^ 53"
    by (metis of_int_le_iff of_int_numeral of_int_power)+
  moreover have "fl x = of_int (round_half_even (x / u)) * u"
    using assms by (simp add: fl_def u_def Let_def)
  ultimately show "2 powi ilog2 x \<le> fl x" "fl x \<le> 2 powi (ilog2 x + 1)"
    unfolding e using u by (auto intro: mult_right_mono)
qed

lemma fl_pos: "0 < x \<Longrightarrow> 0 < fl x"
  by (rule less_le_trans [OF _ fl_pos_bounds(1)]) simp_all

lemma fl_mono_pos:
  assumes "0 < x" and "x \<le> y"
  shows "fl x \<le> fl y"
proof (cases "ilog2 x = ilog2 y")
  case True
  with assms show ?thesis
    by (auto simp: fl_def Let_def intro!: mult_right_mono round_half_even_mono divide_right_mono)
next
  case False
  from assms have y: "0 < y" by simp
  from ilog2_bounds(1) [OF assms(1)] assms(2) ilog2_bounds(2) [OF y]
  have "(2::rat) powi ilog2 x < 2 powi (ilog2 y + 1)" by linarith
  from powi_less_imp [OF this] False have "ilog2 x + 1 \<le> ilog2 y" by simp
  then have "(2::rat) powi (ilog2 x + 1) \<le> 2 powi ilog2 y" by (simp add: powi_le_iff)
  with fl_pos_bounds(2) [OF assms(1)] fl_pos_bounds(1) [OF y] show ?thesis by linarith
qed

lemma fl_mono:
  assumes "x \<le> y" shows "fl x \<le> fl y"
proof -
  consider "0 < x" | "y < 0" | "x \<le> 0" "0 \<le> y" using assms by linarith
  then show ?thesis
  proof cases
    case 1
    then show ?thesis using assms by (rule fl_mono_pos)
  next
    case 2
    then have "fl (- y) \<le> fl (- x)" using assms by (intro fl_mono_pos) auto
    then show ?thesis by (simp add: fl_minus)
  next
    case 3
    have "fl x \<le> 0" using fl_pos [of "- x"] 3(1) by (cases "x = 0") (auto simp: fl_minus)
    moreover have "0 \<le> fl y" using fl_pos [of y] 3(2) by (cases "y = 0") auto
    ultimately show ?thesis by linarith
  qed
qed

lemma fl_representable:
  assumes "0 < m" and "m < 2 ^ 53"
  shows "fl (of_int m * 2 powi k) = of_int m * 2 powi k"
proof -
  define x :: rat where "x = of_int m * 2 powi k"
  have x: "0 < x" using assms(1) by (simp add: x_def)
  have "of_int m < (2::rat) ^ 53"
    using assms(2) by (metis of_int_less_iff of_int_numeral of_int_power)
  then have "x < 2 ^ 53 * 2 powi k" by (simp add: x_def)
  also have "2 ^ 53 * (2::rat) powi k = 2 powi (k + 53)" by (simp add: power_int_add)
  finally have "(2::rat) powi ilog2 x < 2 powi (k + 53)"
    using ilog2_bounds(1) [OF x] by linarith
  from powi_less_imp [OF this] have le: "0 \<le> k - (ilog2 x - 52)" by simp
  then obtain d where d: "k = ilog2 x - 52 + int d" by (metis diff_add_cancel add.commute nonneg_int_cases)
  have q: "x / 2 powi (ilog2 x - 52) = of_int (m * 2 ^ d)"
    unfolding x_def [symmetric] by (subst x_def, subst d) (simp add: power_int_add)
  have "fl x = of_int (round_half_even (x / 2 powi (ilog2 x - 52))) * 2 powi (ilog2 x - 52)"
    using x by (simp add: fl_def Let_def)
  also have "\<dots> = x / 2 powi (ilog2 x - 52) * 2 powi (ilog2 x - 52)"
    by (simp only: q round_half_even_of_int)
  also have "\<dots> = x" by simp
  finally show ?thesis unfolding x_def .
qed

lemma fl_of_int:
  assumes "\<bar>n\<bar> < 2 ^ 53" shows "fl (of_int n) = of_int n"
proof -
  consider "n = 0" | "0 < n" | "n < 0" by linarith
  then show ?thesis
  proof cases
    case 2
    then show ?thesis using assms fl_representable [of n 0] by simp
  next
    case 3
    then show ?thesis using assms fl_representable [of "- n" 0] by (simp add: fl_minus)
  qed simp
qed

lemma fl_idem: "fl (fl x) = fl x"
proof -
  have pos: "fl (fl y) = fl y" if y: "0 < y" for y
  proof (cases "fl y = 2 powi (ilog2 y + 1)")
    case True
    then show ?thesis using fl_representable [of 1 "ilog2 y + 1"] by simp
  next
    case False
    define m where "m = round_half_even (y / 2 powi (ilog2 y - 52))"
    have f: "fl y = of_int m * 2 powi (ilog2 y - 52)" using y by (simp add: fl_def m_def Let_def)
    have "(0::rat) < 2 powi (ilog2 y - 52)" by simp
    with f fl_pos [OF y] have "0 < m" by (auto simp: zero_less_mult_iff)
    from False fl_pos_bounds(2) [OF y] have "fl y < 2 powi (ilog2 y + 1)" by simp
    then have "of_int m * (2::rat) powi (ilog2 y - 52) < 2 ^ 53 * 2 powi (ilog2 y - 52)"
      by (simp add: f power_int_diff power_int_add)
    then have "of_int m < (2::rat) ^ 53" by simp
    then have "m < 2 ^ 53" by (metis of_int_less_iff of_int_numeral of_int_power)
    with \<open>0 < m\<close> show ?thesis by (simp add: f fl_representable)
  qed
  consider "x = 0" | "0 < x" | "0 < - x" by linarith
  then show ?thesis
    by cases (use pos [of x] pos [of "- x"] in \<open>auto simp: fl_minus\<close>)
qed

section \<open>The interface the components use\<close>

locale rounding =
  fixes rnd :: "rat \<Rightarrow> rat"
  assumes mono: "x \<le> y \<Longrightarrow> rnd x \<le> rnd y"
    and odd: "rnd (- x) = - rnd x"
    and whole: "\<bar>n\<bar> < 2 ^ 53 \<Longrightarrow> rnd (of_int n) = of_int n"
    and idem: "rnd (rnd x) = rnd x"
    and positive: "0 < x \<Longrightarrow> 0 < rnd x"
begin

lemma zero [simp]: "rnd 0 = 0"
  using whole [of 0] by simp

lemma one [simp]: "rnd 1 = 1"
  using whole [of 1] by simp

lemma nonneg: "0 \<le> x \<Longrightarrow> 0 \<le> rnd x"
  using mono [of 0 x] by simp

lemma le_whole: "x \<le> of_int n \<Longrightarrow> \<bar>n\<bar> < 2 ^ 53 \<Longrightarrow> rnd x \<le> of_int n"
  using mono [of x "of_int n"] by (simp add: whole)

lemma ge_whole: "of_int n \<le> x \<Longrightarrow> \<bar>n\<bar> < 2 ^ 53 \<Longrightarrow> of_int n \<le> rnd x"
  using mono [of "of_int n" x] by (simp add: whole)

lemma le_one: "x \<le> 1 \<Longrightarrow> rnd x \<le> 1"
  using le_whole [of x 1] by simp

lemma abs_rnd: "\<bar>rnd x\<bar> = rnd \<bar>x\<bar>"
  using nonneg [of x] nonneg [of "- x"] by (cases "0 \<le> x") (auto simp: odd abs_if)

lemma zero_iff [simp]: "rnd x = 0 \<longleftrightarrow> x = 0"
  using positive [of x] positive [of "- x"] by (cases x "0::rat" rule: linorder_cases) (auto simp: odd)

lemma pos_iff: "0 < rnd x \<longleftrightarrow> 0 < x"
  using positive [of x] nonneg [of "- x"] by (cases "0 < x") (auto simp: odd)

lemma nonneg_iff: "0 \<le> rnd x \<longleftrightarrow> 0 \<le> x"
  using pos_iff [of "- x"] by (auto simp: odd not_less [symmetric])

lemma quotient_le_one: "0 \<le> a \<Longrightarrow> a \<le> b \<Longrightarrow> 0 \<le> rnd (a / b) \<and> rnd (a / b) \<le> 1"
  by (cases "b = 0") (auto intro!: nonneg le_one simp: divide_le_eq_1)

text \<open>The mean of rounded absolute values bounds the rounded mean, whatever the rounding.\<close>

lemma abs_mean_le:
  assumes "0 < n"
  shows "\<bar>rnd (rnd (sum_list xs) / n)\<bar> \<le> rnd (rnd (sum_list (map abs xs)) / n)"
proof -
  have "\<bar>sum_list xs\<bar> \<le> sum_list (map abs xs)" by (rule sum_list_abs)
  then have "\<bar>rnd (sum_list xs)\<bar> \<le> rnd (sum_list (map abs xs))"
    unfolding abs_rnd by (rule mono)
  then have "\<bar>rnd (sum_list xs) / n\<bar> \<le> rnd (sum_list (map abs xs)) / n"
    using assms by (simp add: divide_right_mono)
  then show ?thesis unfolding abs_rnd by (rule mono)
qed

end

interpretation f64: rounding fl
  by unfold_locales (auto intro: fl_mono fl_minus fl_of_int fl_idem fl_pos)

lemma int_div_fraction: "0 \<le> a \<Longrightarrow> a \<le> b \<Longrightarrow> 0 \<le> int_div a b \<and> int_div a b \<le> 1"
  unfolding int_div_def by (rule f64.quotient_le_one) auto

lemma int_div_self: "b \<noteq> 0 \<Longrightarrow> int_div b b = 1"
  by (simp add: int_div_def)

lemma int_div_zero [simp]: "int_div 0 b = 0"
  by (simp add: int_div_def)

lemma py_sum_Nil [simp]: "py_sum [] = 0"
  by (simp add: py_sum_def)

lemma fsum_nonneg: "(\<And>x. x \<in> set xs \<Longrightarrow> 0 \<le> x) \<Longrightarrow> 0 \<le> fsum xs"
  by (simp add: fsum_def f64.nonneg sum_list_nonneg)

text \<open>
  Dividing two durations and truncating, as the settlement code does, is integer division: a
  quotient below a whole number stays below it after rounding.
\<close>

lemma trunc_int_div_bits:
  assumes "0 \<le> a" and "0 < b" and "b \<le> 2 ^ j" and "a div b < 2 ^ (52 - j)" and "j \<le> 52"
  shows "trunc (int_div a b) = a div b"
proof -
  define k where "k = a div b"
  define m :: int where "m = (k + 1) * 2 ^ j - 1"
  define q :: rat where "q = of_int a / of_int b"
  have k: "0 \<le> k" "k < 2 ^ (52 - j)" using assms by (simp_all add: k_def pos_imp_zdiv_nonneg_iff)
  have "(2::int) ^ (52 - j) \<le> 2 ^ 52" by (rule power_increasing) auto
  then have k53: "\<bar>k\<bar> < 2 ^ 53" using k by simp
  have "(k + 1) * 2 ^ j \<le> 2 ^ (52 - j) * 2 ^ j" using k by (intro mult_right_mono) auto
  also have "(2::int) ^ (52 - j) * 2 ^ j = 2 ^ 52" using assms(5) by (simp flip: power_add)
  finally have m: "m < 2 ^ 53" by (simp add: m_def)
  have "k * b \<le> a" "a + 1 \<le> k * b + b"
    using pos_mod_bound [OF assms(2), of a] pos_mod_sign [OF assms(2), of a] div_mult_mod_eq [of a b]
    unfolding k_def by linarith+
  then have "of_int (k * b) \<le> (of_int a :: rat)" "of_int (a + 1) \<le> (of_int (k * b + b) :: rat)"
    by (simp_all only: of_int_le_iff)
  then have lo: "of_int k \<le> q" and hi: "q \<le> of_int k + 1 - 1 / of_int b"
    using assms(2) by (simp_all add: q_def field_simps)
  have "(of_int b :: rat) \<le> of_int (2 ^ j)" using assms(3) by (simp only: of_int_le_iff)
  then have "1 / (2 ^ j) \<le> (1 / of_int b :: rat)" using assms(2) by (intro divide_left_mono) auto
  with hi have "q \<le> of_int k + 1 - 1 / 2 ^ j" by linarith
  also have "\<dots> = of_int m * 2 powi (- int j)" by (simp add: m_def power_int_minus field_simps)
  finally have up: "fl q \<le> fl (of_int m * 2 powi (- int j))" by (rule fl_mono)
  have "fl (of_int m * 2 powi (- int j)) < of_int k + 1"
  proof (cases "m = 0")
    case False
    moreover have "0 < (k + 1) * 2 ^ j" using k(1) by (intro mult_pos_pos) auto
    ultimately have "0 < m" by (simp add: m_def)
    from fl_representable [OF this m]
    have "fl (of_int m * 2 powi (- int j)) = of_int m * 2 powi (- int j)" .
    also have "\<dots> < of_int k + 1" by (simp add: m_def power_int_minus field_simps)
    finally show ?thesis .
  qed (use k in simp)
  with up have "fl q < of_int k + 1" by linarith
  moreover have "of_int k \<le> fl q" using lo k53 by (intro f64.ge_whole) auto
  moreover have "0 \<le> fl q" using calculation(2) k(1) by (meson of_int_0_le_iff order_trans)
  ultimately have "trunc (fl q) = k" by (simp add: trunc_def) linarith
  then show ?thesis by (simp add: int_div_def q_def k_def)
qed

lemma trunc_int_div:
  "0 \<le> a \<Longrightarrow> 0 < b \<Longrightarrow> b \<le> 2 ^ 40 \<Longrightarrow> a div b < 2 ^ 12 \<Longrightarrow> trunc (int_div a b) = a div b"
  using trunc_int_div_bits [of a b 40] by simp

lemma trunc_mono: "x \<le> y \<Longrightarrow> trunc x \<le> trunc y"
proof (cases "0 \<le> x")
  case False
  assume "x \<le> y"
  show ?thesis
  proof (cases "0 \<le> y")
    case True
    from False have "\<lceil>x\<rceil> \<le> 0" by simp
    also from True have "0 \<le> \<lfloor>y\<rfloor>" by simp
    finally show ?thesis using True False by (simp add: trunc_def)
  qed (use False \<open>x \<le> y\<close> in \<open>simp add: trunc_def ceiling_mono\<close>)
qed (simp add: trunc_def floor_mono)

lemma trunc_nonneg: "0 \<le> x \<Longrightarrow> 0 \<le> trunc x"
  by (simp add: trunc_def)

text \<open>Comparing the float seconds with a whole number of seconds compares the microseconds: the
  nearest other quotient is more than \<open>2 ^ (-20)\<close> away, which 53 bits tell apart.\<close>

lemma micro_le_lower:
  assumes "0 \<le> n" and "n < 2 ^ 32"
  shows "of_int n \<le> int_div a 1000000 \<longleftrightarrow> n * 1000000 \<le> a"
proof
  assume "n * 1000000 \<le> a"
  then have "of_int (n * 1000000) \<le> (of_int a :: rat)" by (simp only: of_int_le_iff)
  then have "of_int n \<le> of_int a / (1000000::rat)" by simp
  then show "of_int n \<le> int_div a 1000000"
    using assms unfolding int_div_def by (intro f64.ge_whole) auto
next
  assume le: "of_int n \<le> int_div a 1000000"
  show "n * 1000000 \<le> a"
  proof (rule ccontr)
    assume "\<not> n * 1000000 \<le> a"
    then have "of_int a \<le> (of_int (n * 1000000 - 1) :: rat)" by (simp only: of_int_le_iff)
    then have q: "of_int a / 1000000 \<le> (of_int n - 1 / 1000000 :: rat)" by (simp add: field_simps)
    show False
    proof (cases "n = 0")
      case True
      with q have "int_div a 1000000 < 0"
        unfolding int_div_def using f64.nonneg_iff [of "of_int a / of_int 1000000"] by (simp add: not_le [symmetric])
      with le True show False by simp
    next
      case False
      define m where "m = n * 2 ^ 20 - 1"
      have m: "0 < m" "m < 2 ^ 53" using assms False by (simp_all add: m_def)
      have "(of_int n - 1 / 1000000 :: rat) \<le> of_int m * 2 powi (- 20)"
        by (simp add: m_def power_int_minus field_simps)
      with q have "of_int a / of_int 1000000 \<le> of_int m * (2::rat) powi (- 20)" by simp
      then have "int_div a 1000000 \<le> of_int m * 2 powi (- 20)"
        unfolding int_div_def using fl_representable [OF m, of "- 20"] fl_mono by metis
      also have "\<dots> < of_int n" by (simp add: m_def power_int_minus field_simps)
      finally show False using le by simp
    qed
  qed
qed

lemma micro_le_upper:
  assumes "0 \<le> n" and "n < 2 ^ 32"
  shows "int_div a 1000000 \<le> of_int n \<longleftrightarrow> a \<le> n * 1000000"
proof
  assume "a \<le> n * 1000000"
  then have "of_int a \<le> (of_int (n * 1000000) :: rat)" by (simp only: of_int_le_iff)
  then have "of_int a / (1000000::rat) \<le> of_int n" by simp
  then show "int_div a 1000000 \<le> of_int n"
    using assms unfolding int_div_def by (intro f64.le_whole) auto
next
  assume le: "int_div a 1000000 \<le> of_int n"
  show "a \<le> n * 1000000"
  proof (rule ccontr)
    assume "\<not> a \<le> n * 1000000"
    then have "of_int (n * 1000000 + 1) \<le> (of_int a :: rat)" by (simp only: of_int_le_iff)
    then have q: "(of_int n + 1 / 1000000 :: rat) \<le> of_int a / 1000000" by (simp add: field_simps)
    define m where "m = n * 2 ^ 20 + 1"
    have m: "0 < m" "m < 2 ^ 53" using assms by (simp_all add: m_def)
    have "of_int m * 2 powi (- 20) \<le> (of_int n + 1 / 1000000 :: rat)"
      by (simp add: m_def power_int_minus field_simps)
    with q have "of_int m * (2::rat) powi (- 20) \<le> of_int a / of_int 1000000" by simp
    then have "of_int m * 2 powi (- 20) \<le> int_div a 1000000"
      unfolding int_div_def using fl_representable [OF m, of "- 20"] fl_mono by metis
    moreover have "of_int n < of_int m * (2::rat) powi (- 20)"
      by (simp add: m_def power_int_minus field_simps)
    ultimately show False using le by simp
  qed
qed

lemma total_seconds_whole:
  assumes "0 \<le> n" and "n < 2 ^ 32"
  shows "int_div a 1000000 = of_int n \<longleftrightarrow> a = n * 1000000"
  using micro_le_lower [OF assms, of a] micro_le_upper [OF assms, of a] by auto

lemma py_round_nonneg: "0 \<le> x \<Longrightarrow> 0 \<le> py_round d x"
  using round_half_even_mono [of 0 "x * 10 ^ d"] round_half_even_of_int [of 0]
  by (simp add: py_round_def f64.nonneg)

lemma py_round_le_one:
  assumes "x \<le> 1" shows "py_round d x \<le> 1"
proof -
  have "round_half_even (x * 10 ^ d) \<le> round_half_even (of_int (10 ^ d))"
    using assms by (intro round_half_even_mono) simp
  then have "round_half_even (x * 10 ^ d) \<le> 10 ^ d" by (simp only: round_half_even_of_int)
  then have "of_int (round_half_even (x * 10 ^ d)) \<le> (of_int (10 ^ d) :: rat)" by (simp only: of_int_le_iff)
  then show ?thesis by (simp add: py_round_def f64.le_one)
qed

end
