(* ===== verification/Settlement.thy ===== *)
theory Settlement
  imports Float64
begin

text \<open>
  Settlement days and half-hour settlement periods (app/domain/settlement.py and
  app/history/calendar.py).  The time zone database is not part of the repository: its data for
  Europe/London is the parameter \<open>tz\<close>, the list of the UTC instants at which the zone changes
  between GMT and BST, GMT being in force before the first.  What the code relies on is the
  locale \<open>london_zone\<close>: the clocks change at 01:00 UTC.  It is interpreted on the transitions
  of the years 2025 to 2030.
\<close>

section \<open>Europe/London\<close>

definition bst :: "instant list \<Rightarrow> instant \<Rightarrow> bool" where
  "bst tz t \<longleftrightarrow> odd (length (filter (\<lambda>z. z \<le> t) tz))"

definition utc_offset :: "instant list \<Rightarrow> instant \<Rightarrow> duration" where
  "utc_offset tz t = (if bst tz t then hour else 0)"

text \<open>\<open>t.astimezone(LONDON)\<close>: the wall clock and the offset it was read with.\<close>

record local_time =
  wall :: int
  offset_at :: duration

definition to_local :: "instant list \<Rightarrow> instant \<Rightarrow> local_time" where
  "to_local tz t = \<lparr>wall = t + utc_offset tz t, offset_at = utc_offset tz t\<rparr>"

definition wall_date :: "local_time \<Rightarrow> date" where
  "wall_date l = wall l div day_len"

text \<open>
  The first reading of a wall clock as an instant (PEP 495, \<open>fold=0\<close>, what
  \<open>datetime.combine(..., tzinfo=LONDON).astimezone(UTC)\<close> yields): a transition counts once the
  wall clock has reached it in the larger of its two offsets.
\<close>

definition local_to_utc :: "instant list \<Rightarrow> int \<Rightarrow> instant" where
  "local_to_utc tz w = w - (if odd (length (filter (\<lambda>z. z + hour \<le> w) tz)) then hour else 0)"

section \<open>Settlement periods\<close>

record settlement_period =
  sp_settlement_date :: date
  sp_period :: int
  sp_start_utc :: instant
  sp_end_utc :: instant
  sp_start_local :: local_time
  sp_end_local :: local_time

definition local_midnight :: "date \<Rightarrow> int" where
  "local_midnight day = day * day_len"

definition settlement_day_bounds_utc :: "instant list \<Rightarrow> date \<Rightarrow> instant \<times> instant" where
  "settlement_day_bounds_utc tz day =
     (local_to_utc tz (local_midnight day), local_to_utc tz (local_midnight (day + 1)))"

definition settlement_period_count :: "instant list \<Rightarrow> date \<Rightarrow> int" where
  "settlement_period_count tz day =
     (let (start, finish) = settlement_day_bounds_utc tz day
      in trunc (int_div (finish - start) half_hour))"

definition settlement_period_at ::
  "instant list \<Rightarrow> date \<Rightarrow> py_value \<Rightarrow> settlement_period result" where
  "settlement_period_at tz day period =
     (let count = settlement_period_count tz day
      in case period of
           PyInt p \<Rightarrow>
             if \<not> (1 \<le> p \<and> p \<le> count)
             then Inl (ValueError ''settlement period must be between 1 and count'')
             else let day_start = fst (settlement_day_bounds_utc tz day);
                      start_utc = day_start + (p - 1) * half_hour;
                      end_utc = start_utc + half_hour
                  in Inr \<lparr>sp_settlement_date = day, sp_period = p,
                          sp_start_utc = start_utc, sp_end_utc = end_utc,
                          sp_start_local = to_local tz start_utc,
                          sp_end_local = to_local tz end_utc\<rparr>
         | _ \<Rightarrow> Inl (TypeError ''settlement period must be an integer''))"

definition iter_settlement_periods :: "instant list \<Rightarrow> date \<Rightarrow> settlement_period list result" where
  "iter_settlement_periods tz day =
     traverse (\<lambda>p. settlement_period_at tz day (PyInt p)) [1..settlement_period_count tz day]"

definition settlement_period_for_instant ::
  "instant list \<Rightarrow> datetime \<Rightarrow> settlement_period result" where
  "settlement_period_for_instant tz instant =
     rbind (aware_utc ''instant must be timezone-aware'' instant) (\<lambda>instant_utc.
       let day = wall_date (to_local tz instant_utc);
           (day_start, day_end) = settlement_day_bounds_utc tz day
       in if \<not> (day_start \<le> instant_utc \<and> instant_utc < day_end)
          then Inl (ValueError ''instant does not fall within its local settlement day'')
          else let period = trunc (int_div (instant_utc - day_start) half_hour) + 1
               in settlement_period_at tz day (PyInt period))"

section \<open>The history calendar\<close>

record settlement_interval =
  si_settlement_date :: date
  si_settlement_period :: int
  si_start :: instant
  si_end :: instant

datatype py_day = PyDate date | PyDatetime datetime | PyOther

function intervals_from :: "date \<Rightarrow> instant \<Rightarrow> instant \<Rightarrow> int \<Rightarrow> settlement_interval list" where
  "intervals_from day cursor finish period =
     (if cursor < finish
      then \<lparr>si_settlement_date = day, si_settlement_period = period,
            si_start = cursor, si_end = cursor + half_hour\<rparr>
           # intervals_from day (cursor + half_hour) finish (period + 1)
      else [])"
  by pat_completeness auto
termination
  by (relation "measure (\<lambda>(day, cursor, finish, period). nat (finish - cursor))")
     (auto simp: time_defs)

declare intervals_from.simps [simp del]

definition expected_settlement_intervals ::
  "instant list \<Rightarrow> py_day \<Rightarrow> settlement_interval list result" where
  "expected_settlement_intervals tz day =
     (case day of
        PyDate d \<Rightarrow>
          let next_day = d + 1;
              start = local_to_utc tz (d * day_len);
              finish = local_to_utc tz (next_day * day_len)
          in Inr (intervals_from d start finish 1)
      | _ \<Rightarrow> Inl (TypeError ''day must be a date, not a datetime''))"

text \<open>A settlement period as the history calendar presents it.\<close>

definition interval_of_period :: "settlement_period \<Rightarrow> settlement_interval" where
  "interval_of_period p =
     \<lparr>si_settlement_date = sp_settlement_date p, si_settlement_period = sp_period p,
      si_start = sp_start_utc p, si_end = sp_end_utc p\<rparr>"

lemma intervals_from_steps:
  "intervals_from day s (s + int n * half_hour) p =
     map (\<lambda>i. \<lparr>si_settlement_date = day, si_settlement_period = p + int i,
               si_start = s + int i * half_hour, si_end = s + int i * half_hour + half_hour\<rparr>) [0..<n]"
proof (induction n arbitrary: s p)
  case 0
  then show ?case by (simp add: intervals_from.simps)
next
  case (Suc n)
  have "intervals_from day s (s + int (Suc n) * half_hour) p =
      \<lparr>si_settlement_date = day, si_settlement_period = p, si_start = s, si_end = s + half_hour\<rparr>
      # intervals_from day (s + half_hour) ((s + half_hour) + int n * half_hour) (p + 1)"
    by (subst intervals_from.simps) (simp add: time_defs algebra_simps)
  also have "\<dots> = map (\<lambda>i. \<lparr>si_settlement_date = day, si_settlement_period = p + int i,
               si_start = s + int i * half_hour, si_end = s + int i * half_hour + half_hour\<rparr>)
               [0..<Suc n]"
    unfolding Suc.IH upt_conv_Cons [OF zero_less_Suc] map_Suc_upt [symmetric]
    by (simp add: algebra_simps)
  finally show ?case .
qed

section \<open>What the zone guarantees\<close>

locale london_zone =
  fixes tz :: "instant list"
  assumes changes_at_one: "z \<in> set tz \<Longrightarrow> z mod day_len = hour"
begin

lemma quiet:
  assumes "z \<in> set tz" and "d * day_len - hour \<le> t" and "t < d * day_len + hour"
  shows "z \<le> t \<longleftrightarrow> z + hour \<le> d * day_len"
proof -
  define q where "q = z div day_len"
  have z: "z = q * day_len + hour"
    using div_mult_mod_eq [of z day_len] changes_at_one [OF assms(1)] by (simp add: q_def)
  show ?thesis
  proof (cases "q < d")
    case True
    then have "(q + 1) * day_len \<le> d * day_len" by (intro mult_right_mono) (auto simp: time_defs)
    with z assms show ?thesis by (auto simp: time_defs)
  next
    case False
    then have "d * day_len \<le> q * day_len" by (intro mult_right_mono) (auto simp: time_defs)
    with z assms show ?thesis by (auto simp: time_defs)
  qed
qed

lemma midnight_offset:
  assumes "d * day_len - hour \<le> t" and "t < d * day_len + hour"
  shows "local_to_utc tz (local_midnight d) = d * day_len - utc_offset tz t"
proof -
  have "filter (\<lambda>z. z \<le> t) tz = filter (\<lambda>z. z + hour \<le> d * day_len) tz"
    using quiet [OF _ assms] by (intro filter_cong) auto
  then show ?thesis by (simp add: local_to_utc_def local_midnight_def utc_offset_def bst_def)
qed

lemma offset_range: "utc_offset tz t \<in> {0, hour}"
  by (simp add: utc_offset_def)

lemma midnight_range:
  "local_to_utc tz (local_midnight d) \<in> {d * day_len - hour, d * day_len}"
  using midnight_offset [of d "d * day_len"] offset_range [of "d * day_len"] by (auto simp: time_defs)

lemma day_length:
  "settlement_day_bounds_utc tz d = (s, e) \<Longrightarrow> e - s \<in> {23 * hour, 24 * hour, 25 * hour}"
  using midnight_range [of d] midnight_range [of "d + 1"]
  by (auto simp: settlement_day_bounds_utc_def time_defs)

text \<open>An instant lies in the settlement day that its wall clock names.\<close>

lemma instant_in_its_day:
  assumes "wall_date (to_local tz t) = d"
  shows "local_to_utc tz (local_midnight d) \<le> t" and "t < local_to_utc tz (local_midnight (d + 1))"
proof -
  let ?o = "utc_offset tz t"
  from assms have "(t + ?o) div day_len = d" by (simp add: wall_date_def to_local_def)
  then have w: "d * day_len \<le> t + ?o" "t + ?o < (d + 1) * day_len"
    using div_bounds [of day_len "t + ?o"] by (auto simp: distrib_right)
  have o: "0 \<le> ?o" "?o \<le> hour" using offset_range [of t] by (auto simp: time_defs)
  show "local_to_utc tz (local_midnight d) \<le> t"
  proof (cases "t < d * day_len")
    case True
    with w o have "local_to_utc tz (local_midnight d) = d * day_len - ?o"
      by (intro midnight_offset) (auto simp: time_defs)
    with w show ?thesis by simp
  next
    case False
    with midnight_range [of d] show ?thesis by (auto simp: time_defs)
  qed
  show "t < local_to_utc tz (local_midnight (d + 1))"
  proof (cases "(d + 1) * day_len - hour \<le> t")
    case True
    with w o have "local_to_utc tz (local_midnight (d + 1)) = (d + 1) * day_len - ?o"
      by (intro midnight_offset) (auto simp: time_defs)
    with w show ?thesis by simp
  next
    case False
    with midnight_range [of "d + 1"] show ?thesis by (auto simp: time_defs)
  qed
qed

lemma period_count: "settlement_period_count tz d \<in> {46, 48, 50}"
proof -
  obtain s e where b: "settlement_day_bounds_utc tz d = (s, e)" by force
  then have "trunc (int_div (e - s) half_hour) = (e - s) div half_hour"
    using day_length [OF b] by (intro trunc_int_div) (auto simp: time_defs)
  with b day_length [OF b] show ?thesis
    by (auto simp: settlement_period_count_def time_defs)
qed

lemma day_is_whole:
  "settlement_day_bounds_utc tz d = (s, e) \<Longrightarrow> e = s + settlement_period_count tz d * half_hour"
  using day_length [of d s e] trunc_int_div [of "e - s" half_hour]
  by (auto simp: settlement_period_count_def time_defs)

lemma period_at:
  assumes "1 \<le> p" and "p \<le> settlement_period_count tz d"
  shows "settlement_period_at tz d (PyInt p) =
    (let s = fst (settlement_day_bounds_utc tz d) + (p - 1) * half_hour
     in Inr \<lparr>sp_settlement_date = d, sp_period = p, sp_start_utc = s, sp_end_utc = s + half_hour,
             sp_start_local = to_local tz s, sp_end_local = to_local tz (s + half_hour)\<rparr>)"
  using assms by (simp add: settlement_period_at_def Let_def)

text \<open>The period an instant resolves to, and that the defensive guard never fires.\<close>

lemma for_instant:
  "\<exists>p. settlement_period_for_instant tz (Aware t) = Inr p
       \<and> sp_start_utc p \<le> t \<and> t < sp_end_utc p
       \<and> sp_settlement_date p = wall_date (to_local tz t)
       \<and> settlement_period_at tz (sp_settlement_date p) (PyInt (sp_period p)) = Inr p"
proof -
  define d where "d = wall_date (to_local tz t)"
  obtain s e where b: "settlement_day_bounds_utc tz d = (s, e)" by force
  from instant_in_its_day [of t d] b have in_day: "s \<le> t" "t < e"
    by (auto simp: d_def settlement_day_bounds_utc_def)
  define k where "k = (t - s) div half_hour"
  have h: "0 < half_hour" by (simp add: time_defs)
  have kb: "k * half_hour \<le> t - s" "t - s < (k + 1) * half_hour"
    using div_bounds [OF h, of "t - s"] by (auto simp: k_def distrib_right)
  have n: "e = s + settlement_period_count tz d * half_hour" by (rule day_is_whole [OF b])
  have "k * half_hour < settlement_period_count tz d * half_hour" using kb(1) in_day(2) n by linarith
  then have k: "k < settlement_period_count tz d" using h by (simp add: mult_less_cancel_right)
  have k0: "0 \<le> k" using in_day(1) h by (simp add: k_def pos_imp_zdiv_nonneg_iff)
  have tr: "trunc (int_div (t - s) half_hour) = k"
    unfolding k_def using in_day(1) k period_count [of d]
    by (intro trunc_int_div) (auto simp: k_def time_defs)
  have "settlement_period_for_instant tz (Aware t) = settlement_period_at tz d (PyInt (k + 1))"
    using in_day tr by (simp add: settlement_period_for_instant_def d_def [symmetric] b Let_def)
  moreover have "settlement_period_at tz d (PyInt (k + 1)) =
     (let q = s + k * half_hour
      in Inr \<lparr>sp_settlement_date = d, sp_period = k + 1, sp_start_utc = q, sp_end_utc = q + half_hour,
              sp_start_local = to_local tz q, sp_end_local = to_local tz (q + half_hour)\<rparr>)"
    using period_at [of "k + 1" d] k k0 b by simp
  ultimately show ?thesis
    using kb by (auto simp: Let_def d_def distrib_right)
qed

text \<open>The half-hours of a day in order, as both routines list them.\<close>

lemma iter_periods:
  "iter_settlement_periods tz d =
     Inr (map (\<lambda>p. let s = fst (settlement_day_bounds_utc tz d) + (p - 1) * half_hour
                   in \<lparr>sp_settlement_date = d, sp_period = p, sp_start_utc = s,
                       sp_end_utc = s + half_hour, sp_start_local = to_local tz s,
                       sp_end_local = to_local tz (s + half_hour)\<rparr>)
              [1..settlement_period_count tz d])"
  unfolding iter_settlement_periods_def
  by (rule traverse_total) (simp add: period_at Let_def)

lemma iter_tiles:
  "\<exists>ps. iter_settlement_periods tz d = Inr ps \<and> length ps \<in> {46, 48, 50}
     \<and> settlement_day_bounds_utc tz d = (sp_start_utc (hd ps), sp_end_utc (last ps))
     \<and> (\<forall>i < length ps. sp_period (ps ! i) = int i + 1 \<and> sp_settlement_date (ps ! i) = d
          \<and> sp_end_utc (ps ! i) = sp_start_utc (ps ! i) + half_hour)
     \<and> (\<forall>i. Suc i < length ps \<longrightarrow> sp_start_utc (ps ! Suc i) = sp_end_utc (ps ! i))"
proof -
  obtain s e where b: "settlement_day_bounds_utc tz d = (s, e)" by force
  let ?n = "settlement_period_count tz d"
  define ps where "ps = map (\<lambda>p. \<lparr>sp_settlement_date = d, sp_period = p,
      sp_start_utc = s + (p - 1) * half_hour, sp_end_utc = s + (p - 1) * half_hour + half_hour,
      sp_start_local = to_local tz (s + (p - 1) * half_hour),
      sp_end_local = to_local tz (s + (p - 1) * half_hour + half_hour)\<rparr>) [1..?n]"
  have i: "iter_settlement_periods tz d = Inr ps" by (simp add: iter_periods ps_def b Let_def)
  have e: "e = s + ?n * half_hour" by (rule day_is_whole [OF b])
  have n: "nat ?n \<in> {46, 48, 50}" "?n \<noteq> 0" "0 < ?n" using period_count [of d] by auto
  then have ne: "ps \<noteq> []" by (simp add: ps_def)
  then have "hd ps = ps ! 0" "last ps = ps ! (nat ?n - 1)"
    by (simp_all add: hd_conv_nth last_conv_nth ps_def)
  then have "sp_start_utc (hd ps) = s" "sp_end_utc (last ps) = e"
    using n e by (simp_all add: ps_def algebra_simps)
  moreover have "\<forall>i < length ps. sp_period (ps ! i) = int i + 1 \<and> sp_settlement_date (ps ! i) = d
          \<and> sp_end_utc (ps ! i) = sp_start_utc (ps ! i) + half_hour" by (simp add: ps_def)
  moreover have "\<forall>i. Suc i < length ps \<longrightarrow> sp_start_utc (ps ! Suc i) = sp_end_utc (ps ! i)"
    by (simp add: ps_def algebra_simps)
  ultimately show ?thesis using i n b by (intro exI [of _ ps]) (auto simp: ps_def)
qed

lemma expected_are_periods:
  "\<exists>ps. iter_settlement_periods tz d = Inr ps
     \<and> expected_settlement_intervals tz (PyDate d) = Inr (map interval_of_period ps)"
proof -
  obtain s e where b: "settlement_day_bounds_utc tz d = (s, e)" by force
  let ?n = "settlement_period_count tz d"
  have e: "e = s + int (nat ?n) * half_hour" using day_is_whole [OF b] period_count [of d] by auto
  have se: "local_to_utc tz (d * day_len) = s" "local_to_utc tz ((d + 1) * day_len) = e"
    using b by (simp_all add: settlement_day_bounds_utc_def local_midnight_def)
  have "expected_settlement_intervals tz (PyDate d) = Inr (intervals_from d s (s + int (nat ?n) * half_hour) 1)"
    by (simp add: expected_settlement_intervals_def Let_def se e)
  also have "\<dots> = Inr (map interval_of_period (map (\<lambda>p. let q = s + (p - 1) * half_hour
                   in \<lparr>sp_settlement_date = d, sp_period = p, sp_start_utc = q,
                       sp_end_utc = q + half_hour, sp_start_local = to_local tz q,
                       sp_end_local = to_local tz (q + half_hour)\<rparr>) [1..?n]))"
    unfolding intervals_from_steps
    by (auto intro!: nth_equalityI simp: interval_of_period_def Let_def)
  finally show ?thesis by (simp add: iter_periods b)
qed

end

text \<open>The changes of 2025 to 2030: the last Sundays of March and October, 01:00 UTC.\<close>

definition gb_transitions :: "instant list" where
  "gb_transitions = map (\<lambda>d. d * day_len + hour)
     [20177, 20387, 20541, 20751, 20905, 21122, 21269, 21486, 21633, 21850, 22004, 22214]"

interpretation gb: london_zone gb_transitions
  by unfold_locales (auto simp: gb_transitions_def time_defs)

section \<open>Properties\<close>

text \<open>C13: every aware instant resolves to a settlement period of the Europe/London date it falls
  on, the period contains the instant, and looking that period up again gives the same period; the
  defensive error of the code cannot occur.\<close>

theorem settlement_period_for_instant_contains:
  assumes "london_zone tz"
  shows "\<exists>p. settlement_period_for_instant tz (Aware t) = Inr p
             \<and> sp_start_utc p \<le> t \<and> t < sp_end_utc p
             \<and> sp_settlement_date p = wall_date (to_local tz t)
             \<and> settlement_period_at tz (sp_settlement_date p) (PyInt (sp_period p)) = Inr p"
  using assms by (rule london_zone.for_instant)

text \<open>On 25 October 2026 (day 20751) at 01:30 UTC, the second 01:30 of the day, it is period 6.\<close>

theorem settlement_period_for_instant_witness:
  "settlement_period_for_instant gb_transitions (Aware (20751 * day_len + 3 * half_hour)) =
     settlement_period_at gb_transitions 20751 (PyInt 6)
   \<and> (\<exists>p. settlement_period_for_instant gb_transitions (Aware (20751 * day_len + 3 * half_hour)) = Inr p
          \<and> sp_start_utc p \<le> 20751 * day_len + 3 * half_hour)"
proof
  show "settlement_period_for_instant gb_transitions (Aware (20751 * day_len + 3 * half_hour)) =
     settlement_period_at gb_transitions 20751 (PyInt 6)" by code_simp
  show "\<exists>p. settlement_period_for_instant gb_transitions (Aware (20751 * day_len + 3 * half_hour)) = Inr p
          \<and> sp_start_utc p \<le> 20751 * day_len + 3 * half_hour"
    using settlement_period_for_instant_contains [OF gb.london_zone_axioms,
        of "20751 * day_len + 3 * half_hour"] by blast
qed

text \<open>C14: the periods of a settlement day are 46, 48 or 50 consecutive half-hours, numbered from 1,
  from one local midnight to the next.\<close>

theorem settlement_periods_tile_the_day:
  assumes "london_zone tz"
  shows "\<exists>ps. iter_settlement_periods tz d = Inr ps \<and> length ps \<in> {46, 48, 50}
     \<and> settlement_day_bounds_utc tz d = (sp_start_utc (hd ps), sp_end_utc (last ps))
     \<and> (\<forall>i < length ps. sp_period (ps ! i) = int i + 1 \<and> sp_settlement_date (ps ! i) = d
          \<and> sp_end_utc (ps ! i) = sp_start_utc (ps ! i) + half_hour)
     \<and> (\<forall>i. Suc i < length ps \<longrightarrow> sp_start_utc (ps ! Suc i) = sp_end_utc (ps ! i))"
  using assms by (rule london_zone.iter_tiles)

text \<open>The three lengths occur: 29 March, 27 October and 25 October 2026.\<close>

theorem settlement_periods_tile_witness:
  "map (settlement_period_count gb_transitions) [20541, 20750, 20751] = [46, 48, 50]
   \<and> (\<exists>ps. iter_settlement_periods gb_transitions 20751 = Inr ps
          \<and> settlement_day_bounds_utc gb_transitions 20751 = (sp_start_utc (hd ps), sp_end_utc (last ps)))"
proof
  show "map (settlement_period_count gb_transitions) [20541, 20750, 20751] = [46, 48, 50]"
    by code_simp
  show "\<exists>ps. iter_settlement_periods gb_transitions 20751 = Inr ps
          \<and> settlement_day_bounds_utc gb_transitions 20751 = (sp_start_utc (hd ps), sp_end_utc (last ps))"
    using settlement_periods_tile_the_day [OF gb.london_zone_axioms, of 20751] by blast
qed

text \<open>C15: the half-hours the history calendar expects of a day, computed by a loop over UTC
  instants, are exactly the settlement periods the domain module enumerates.\<close>

theorem expected_intervals_are_settlement_periods:
  assumes "london_zone tz"
  shows "\<exists>ps. iter_settlement_periods tz d = Inr ps
     \<and> expected_settlement_intervals tz (PyDate d) = Inr (map interval_of_period ps)"
  using assms by (rule london_zone.expected_are_periods)

theorem expected_intervals_witness:
  "\<exists>ps. iter_settlement_periods gb_transitions 20541 = Inr ps
     \<and> expected_settlement_intervals gb_transitions (PyDate 20541) = Inr (map interval_of_period ps)"
  using expected_intervals_are_settlement_periods [OF gb.london_zone_axioms] .

end
