(* ===== verification/Fact_Models.thy ===== *)
theory Fact_Models
  imports Settlement
begin

text \<open>
  The validated facts of the public contract (app/domain/enums.py and app/domain/models.py).
  A pydantic model is a record together with the function that runs its field constraints and
  validators in order; a \<open>ValidationError\<close> is a \<open>ValueError\<close>, named after the first constraint
  that fails (pydantic reports all failing fields in one exception).  Times typed \<open>AwareDatetime\<close>
  are instants, since pydantic has already refused a naive one; URLs and UUIDs are opaque
  strings.
\<close>

section \<open>Enumerations\<close>

datatype data_classification = Observed | Estimated | Reported | Derived | Forecast
datatype fact_quality = Validated | Provisional | QualityEstimated
datatype freshness_state = Fresh | Delayed | Stale | Unavailable
datatype flow_direction = Import | Export | Neutral

section \<open>Provenance\<close>

record source_reference =
  sr_id :: str
  sr_display_name :: str
  sr_dataset :: str
  sr_url :: "str option"
  sr_licence_url :: "str option"

definition length_between :: "nat \<Rightarrow> nat \<Rightarrow> str \<Rightarrow> bool" where
  "length_between lo hi s \<longleftrightarrow> lo \<le> length s \<and> length s \<le> hi"

definition validate_source_reference :: "source_reference \<Rightarrow> source_reference result" where
  "validate_source_reference s =
     rbind (ensure (length_between 1 64 (sr_id s)) (ValueError ''id'')) (\<lambda>_.
     rbind (ensure (length_between 1 160 (sr_display_name s)) (ValueError ''display_name'')) (\<lambda>_.
     rbind (ensure (length_between 1 160 (sr_dataset s)) (ValueError ''dataset'')) (\<lambda>_.
     Inr s)))"

record provenance =
  pv_source :: source_reference
  pv_classification :: data_classification
  pv_effective_at :: instant
  pv_observed_at :: "instant option"
  pv_published_at :: "instant option"
  pv_retrieved_at :: instant
  pv_forecast_issued_at :: "instant option"
  pv_valid_until :: "instant option"
  pv_raw_payload_id :: "str option"
  pv_methodology_version :: "str option"

definition validate_provenance :: "provenance \<Rightarrow> provenance result" where
  "validate_provenance p =
     rbind (ensure (case pv_methodology_version p of None \<Rightarrow> True | Some v \<Rightarrow> length v \<le> 80)
              (ValueError ''methodology_version'')) (\<lambda>_.
     rbind (case pv_classification p of
              Forecast \<Rightarrow>
                (case pv_forecast_issued_at p of
                   None \<Rightarrow> Inl (ValueError ''forecast facts require forecast_issued_at'')
                 | Some issued \<Rightarrow>
                     if pv_effective_at p < issued
                     then Inl (ValueError ''forecast_issued_at cannot be after effective_at'')
                     else Inr ())
            | Derived \<Rightarrow> Inr ()
            | _ \<Rightarrow>
                (if pv_observed_at p = None
                 then Inl (ValueError ''observed, estimated, and reported facts require observed_at'')
                 else Inr ())) (\<lambda>_.
     rbind (case pv_valid_until p of
              None \<Rightarrow> Inr ()
            | Some u \<Rightarrow> if u \<le> pv_effective_at p
                        then Inl (ValueError ''valid_until must be after effective_at'')
                        else Inr ()) (\<lambda>_.
     Inr p)))"

section \<open>Freshness\<close>

record freshness =
  fr_state :: freshness_state
  fr_evaluated_at :: instant
  fr_age_seconds :: "rat option"
  fr_expected_cadence_seconds :: int
  fr_fresh_for_seconds :: int
  fr_stale_after_seconds :: int

definition validate_freshness :: "freshness \<Rightarrow> freshness result" where
  "validate_freshness f =
     rbind (ensure (case fr_age_seconds f of None \<Rightarrow> True | Some a \<Rightarrow> 0 \<le> a)
              (ValueError ''age_seconds'')) (\<lambda>_.
     rbind (ensure (0 < fr_expected_cadence_seconds f) (ValueError ''expected_cadence_seconds'')) (\<lambda>_.
     rbind (ensure (0 < fr_fresh_for_seconds f) (ValueError ''fresh_for_seconds'')) (\<lambda>_.
     rbind (ensure (0 < fr_stale_after_seconds f) (ValueError ''stale_after_seconds'')) (\<lambda>_.
     if fr_stale_after_seconds f \<le> fr_fresh_for_seconds f
     then Inl (ValueError ''fresh threshold must precede stale threshold'')
     else if fr_state f = Unavailable \<and> fr_age_seconds f \<noteq> None
     then Inl (ValueError ''unavailable freshness cannot have an age'')
     else if fr_state f \<noteq> Unavailable \<and> fr_age_seconds f = None
     then Inl (ValueError ''available freshness requires an age'')
     else Inr f))))"

text \<open>\<open>x or default\<close> on an optional int: absent and zero both take the default.\<close>

definition int_or :: "int option \<Rightarrow> int \<Rightarrow> int" where
  "int_or x d = (case x of None \<Rightarrow> d | Some n \<Rightarrow> if n = 0 then d else n)"

text \<open>\<open>td.total_seconds()\<close>: the microseconds divided by one million, as a float.\<close>

definition total_seconds :: "duration \<Rightarrow> rat" where
  "total_seconds d = int_div d 1000000"

text \<open>The clock reading \<open>now\<close> is taken when no evaluation time is given.\<close>

definition freshness_assess ::
  "instant \<Rightarrow> datetime \<Rightarrow> int \<Rightarrow> datetime option \<Rightarrow> int option \<Rightarrow> int option \<Rightarrow> freshness result" where
  "freshness_assess now source_time expected_cadence_seconds evaluated_at fresh_for_seconds
     stale_after_seconds =
     rbind (aware_utc ''source_time must be timezone-aware'' source_time) (\<lambda>source.
     rbind (aware_utc ''evaluated_at must be timezone-aware''
              (case evaluated_at of None \<Rightarrow> Aware now | Some e \<Rightarrow> e)) (\<lambda>evaluated.
     if expected_cadence_seconds \<le> 0 then Inl (ValueError ''expected cadence must be positive'')
     else
       let fresh_for = int_or fresh_for_seconds (max (expected_cadence_seconds * 2) 120);
           stale_after = int_or stale_after_seconds (max (expected_cadence_seconds * 5) 600)
       in if stale_after \<le> fresh_for
          then Inl (ValueError ''fresh threshold must precede stale threshold'')
          else
            let age = max 0 (total_seconds (evaluated - source));
                state = (if age \<le> of_int fresh_for then Fresh
                         else if age < of_int stale_after then Delayed
                         else Stale)
            in validate_freshness
                 \<lparr>fr_state = state, fr_evaluated_at = evaluated, fr_age_seconds = Some age,
                  fr_expected_cadence_seconds = expected_cadence_seconds,
                  fr_fresh_for_seconds = fresh_for, fr_stale_after_seconds = stale_after\<rparr>))"

definition freshness_unavailable ::
  "instant \<Rightarrow> int \<Rightarrow> instant option \<Rightarrow> freshness result" where
  "freshness_unavailable now expected_cadence_seconds evaluated_at =
     (let cadence = expected_cadence_seconds
      in validate_freshness
           \<lparr>fr_state = Unavailable,
            fr_evaluated_at = (case evaluated_at of None \<Rightarrow> now | Some e \<Rightarrow> e),
            fr_age_seconds = None,
            fr_expected_cadence_seconds = cadence,
            fr_fresh_for_seconds = max (cadence * 2) 120,
            fr_stale_after_seconds = max (cadence * 5) 600\<rparr>)"

section \<open>Facts\<close>

record numeric_fact =
  nf_value :: pyfloat
  nf_unit :: str
  nf_quality :: fact_quality
  nf_provenance :: provenance
  nf_freshness :: freshness

definition validate_numeric_fact :: "numeric_fact \<Rightarrow> numeric_fact result" where
  "validate_numeric_fact n =
     rbind (ensure (is_finite (nf_value n)) (ValueError ''fact values must be finite'')) (\<lambda>_.
     rbind (ensure (length_between 1 32 (nf_unit n)) (ValueError ''unit'')) (\<lambda>_.
     Inr n))"

record generation_fact =
  gf_series_key :: str
  gf_fuel :: str
  gf_display_name :: str
  gf_asset_id :: "str option"
  gf_generation :: numeric_fact

definition validate_generation_fact :: "generation_fact \<Rightarrow> generation_fact result" where
  "validate_generation_fact g =
     rbind (ensure (length_between 1 120 (gf_series_key g)) (ValueError ''series_key'')) (\<lambda>_.
     rbind (ensure (length_between 1 64 (gf_fuel g)) (ValueError ''fuel'')) (\<lambda>_.
     rbind (ensure (length_between 1 120 (gf_display_name g)) (ValueError ''display_name'')) (\<lambda>_.
     rbind (ensure (case gf_asset_id g of None \<Rightarrow> True | Some a \<Rightarrow> length a \<le> 120)
              (ValueError ''asset_id'')) (\<lambda>_.
     if nf_unit (gf_generation g) \<noteq> ''MW''
     then Inl (ValueError ''generation facts must use MW'') else Inr g))))"

record interconnector_fact =
  if_connector_id :: str
  if_display_name :: str
  if_counterparty :: str
  if_flow :: numeric_fact

definition validate_interconnector_fact :: "interconnector_fact \<Rightarrow> interconnector_fact result" where
  "validate_interconnector_fact i =
     rbind (ensure (length_between 1 120 (if_connector_id i)) (ValueError ''connector_id'')) (\<lambda>_.
     rbind (ensure (length_between 1 120 (if_display_name i)) (ValueError ''display_name'')) (\<lambda>_.
     rbind (ensure (length_between 1 120 (if_counterparty i)) (ValueError ''counterparty'')) (\<lambda>_.
     if nf_unit (if_flow i) \<noteq> ''MW''
     then Inl (ValueError ''interconnector flow facts must use MW'') else Inr i)))"

text \<open>Comparing with zero: not a number is neither above nor below it.\<close>

fun pyfloat_pos :: "pyfloat \<Rightarrow> bool" where
  "pyfloat_pos (Finite x) = (0 < x)"
| "pyfloat_pos PosInf = True"
| "pyfloat_pos _ = False"

fun pyfloat_neg :: "pyfloat \<Rightarrow> bool" where
  "pyfloat_neg (Finite x) = (x < 0)"
| "pyfloat_neg NegInf = True"
| "pyfloat_neg _ = False"

definition interconnector_direction :: "interconnector_fact \<Rightarrow> flow_direction" where
  "interconnector_direction i =
     (if pyfloat_pos (nf_value (if_flow i)) then Import
      else if pyfloat_neg (nf_value (if_flow i)) then Export
      else Neutral)"

record grid_snapshot =
  gs_schema_version :: str
  gs_snapshot_id :: str
  gs_effective_at :: instant
  gs_generated_at :: instant
  gs_freshness :: freshness_state
  gs_generation :: "generation_fact list"
  gs_demand :: "numeric_fact option"
  gs_frequency :: "numeric_fact option"
  gs_carbon_intensity :: "numeric_fact option"
  gs_net_import :: "numeric_fact option"
  gs_interconnectors :: "interconnector_fact list"
  gs_missing_datasets :: "str list"

text \<open>The pattern \<open>^1\.\<close> of the schema version.\<close>

definition schema_version_one :: "str \<Rightarrow> bool" where
  "schema_version_one s \<longleftrightarrow> take 2 s = ''1.''"

definition validate_grid_snapshot :: "grid_snapshot \<Rightarrow> grid_snapshot result" where
  "validate_grid_snapshot g =
     rbind (ensure (schema_version_one (gs_schema_version g)) (ValueError ''schema_version'')) (\<lambda>_.
     if \<not> distinct (map gf_series_key (gs_generation g))
     then Inl (ValueError ''generation series keys must be unique'')
     else if \<not> distinct (map if_connector_id (gs_interconnectors g))
     then Inl (ValueError ''interconnector ids must be unique'')
     else Inr g)"

record timeline_point =
  tp_effective_at :: instant
  tp_generation_total :: "numeric_fact option"
  tp_demand :: "numeric_fact option"
  tp_frequency :: "numeric_fact option"
  tp_carbon_intensity :: "numeric_fact option"
  tp_net_import :: "numeric_fact option"
  tp_generation :: "generation_fact list"

record grid_timeline =
  gt_schema_version :: str
  gt_window_start :: instant
  gt_window_end :: instant
  gt_resolution_seconds :: int
  gt_generated_at :: instant
  gt_observed_through :: "instant option"
  gt_forecast_from :: "instant option"
  gt_points :: "timeline_point list"

definition validate_grid_timeline :: "grid_timeline \<Rightarrow> grid_timeline result" where
  "validate_grid_timeline g =
     rbind (ensure (schema_version_one (gt_schema_version g)) (ValueError ''schema_version'')) (\<lambda>_.
     rbind (ensure (0 < gt_resolution_seconds g) (ValueError ''resolution_seconds'')) (\<lambda>_.
     let timestamps = map tp_effective_at (gt_points g)
     in if gt_window_end g \<le> gt_window_start g
        then Inl (ValueError ''timeline window_end must be after window_start'')
        else if timestamps \<noteq> sort timestamps
        then Inl (ValueError ''timeline points must be sorted by effective_at'')
        else if \<not> distinct timestamps
        then Inl (ValueError ''timeline point timestamps must be unique'')
        else if \<exists>t \<in> set timestamps. t < gt_window_start g \<or> gt_window_end g < t
        then Inl (ValueError ''timeline points must fall inside the response window'')
        else Inr g))"

section \<open>Lemmas\<close>

text \<open>How far a state is from fresh.\<close>

fun staleness :: "freshness_state \<Rightarrow> nat" where
  "staleness Fresh = 0"
| "staleness Delayed = 1"
| "staleness Stale = 2"
| "staleness Unavailable = 3"

lemma total_seconds_mono: "d \<le> e \<Longrightarrow> total_seconds d \<le> total_seconds e"
  by (auto simp: total_seconds_def int_div_def intro!: f64.mono divide_right_mono)

lemma validate_freshness_ok:
  "validate_freshness f = Inr g \<longleftrightarrow>
     g = f \<and> 0 < fr_expected_cadence_seconds f \<and> 0 < fr_fresh_for_seconds f
     \<and> fr_fresh_for_seconds f < fr_stale_after_seconds f
     \<and> (fr_state f = Unavailable \<longleftrightarrow> fr_age_seconds f = None)
     \<and> (\<forall>a. fr_age_seconds f = Some a \<longrightarrow> 0 \<le> a)"
  by (auto simp: validate_freshness_def res_simps split: option.splits)

lemma sort_eq_iff_sorted: "xs = sort xs \<longleftrightarrow> sorted xs" for xs :: "'a::linorder list"
  by (metis sorted_sort sorted_sort_id)

section \<open>Properties\<close>

text \<open>Assessing an aware source time with a positive cadence and the default thresholds always
  yields a freshness that satisfies every constraint of the model, is never unavailable, is fresh
  up to the fresh threshold, stale from the stale threshold on, and never fresher for an older
  source time.\<close>

theorem freshness_assess_graded:
  assumes "0 < cadence" and "s \<le> s'"
  shows "\<exists>f f'. freshness_assess now (Aware s) cadence None None None = Inr f
      \<and> freshness_assess now (Aware s') cadence None None None = Inr f'
      \<and> validate_freshness f = Inr f
      \<and> staleness (fr_state f') \<le> staleness (fr_state f) \<and> fr_state f \<noteq> Unavailable
      \<and> (\<forall>a. fr_age_seconds f = Some a \<longrightarrow>
            (fr_state f = Fresh \<longleftrightarrow> a \<le> of_int (max (cadence * 2) 120))
            \<and> (fr_state f = Stale \<longleftrightarrow> of_int (max (cadence * 5) 600) \<le> a))"
proof -
  define lo where "lo = max (cadence * 2) 120"
  define hi where "hi = max (cadence * 5) 600"
  have lh: "0 < lo" "lo < hi" using assms(1) by (auto simp: lo_def hi_def)
  then have "(of_int lo :: rat) < of_int hi" by simp
  define mk where "mk t = (let age = max 0 (total_seconds (now - t)) in
     \<lparr>fr_state = (if age \<le> of_int lo then Fresh else if age < of_int hi then Delayed else Stale),
      fr_evaluated_at = now, fr_age_seconds = Some age, fr_expected_cadence_seconds = cadence,
      fr_fresh_for_seconds = lo, fr_stale_after_seconds = hi\<rparr>)" for t
  have ok: "validate_freshness (mk t) = Inr (mk t)" for t
    using assms(1) lh by (simp add: validate_freshness_ok mk_def Let_def)
  have assess: "freshness_assess now (Aware t) cadence None None None = Inr (mk t)" for t
    using assms(1) lh ok [of t]
    by (simp add: freshness_assess_def int_or_def lo_def [symmetric] hi_def [symmetric] mk_def Let_def)
  have "total_seconds (now - s') \<le> total_seconds (now - s)"
    using assms(2) by (intro total_seconds_mono) simp
  then have "staleness (fr_state (mk s')) \<le> staleness (fr_state (mk s))"
    using \<open>(of_int lo :: rat) < of_int hi\<close> by (auto simp: mk_def Let_def)
  then show ?thesis
    unfolding assess using ok [of s] \<open>(of_int lo :: rat) < of_int hi\<close>
    by (auto simp: mk_def Let_def lo_def hi_def)
qed

theorem freshness_assess_witness:
  "(0::int) < 60 \<and> (0::int) \<le> 500 * second
   \<and> freshness_assess (700 * second) (Aware 0) 60 None None None =
      Inr \<lparr>fr_state = Stale, fr_evaluated_at = 700 * second, fr_age_seconds = Some 700,
           fr_expected_cadence_seconds = 60, fr_fresh_for_seconds = 120, fr_stale_after_seconds = 600\<rparr>
   \<and> (\<exists>f f'. freshness_assess (700 * second) (Aware 0) 60 None None None = Inr f
      \<and> freshness_assess (700 * second) (Aware (500 * second)) 60 None None None = Inr f'
      \<and> staleness (fr_state f') \<le> staleness (fr_state f))"
proof (intro conjI)
  show "freshness_assess (700 * second) (Aware 0) 60 None None None =
      Inr \<lparr>fr_state = Stale, fr_evaluated_at = 700 * second, fr_age_seconds = Some 700,
           fr_expected_cadence_seconds = 60, fr_fresh_for_seconds = 120, fr_stale_after_seconds = 600\<rparr>"
    by code_simp
  show "\<exists>f f'. freshness_assess (700 * second) (Aware 0) 60 None None None = Inr f
      \<and> freshness_assess (700 * second) (Aware (500 * second)) 60 None None None = Inr f'
      \<and> staleness (fr_state f') \<le> staleness (fr_state f)"
    using freshness_assess_graded [of 60 0 "500 * second" "700 * second"] by (auto simp: time_defs)
qed (simp_all add: time_defs)

text \<open>A timeline is accepted exactly when its version and resolution are valid, its window is
  not empty and its points are strictly increasing in time inside the window.\<close>

theorem grid_timeline_accepts:
  "validate_grid_timeline g = Inr h \<longleftrightarrow>
     h = g \<and> schema_version_one (gt_schema_version g) \<and> 0 < gt_resolution_seconds g
     \<and> gt_window_start g < gt_window_end g
     \<and> sorted_wrt (<) (map tp_effective_at (gt_points g))
     \<and> set (map tp_effective_at (gt_points g)) \<subseteq> {gt_window_start g..gt_window_end g}"
proof -
  have "sorted_wrt (<) ts \<longleftrightarrow> ts = sort ts \<and> distinct ts" for ts :: "int list"
    by (simp add: sort_eq_iff_sorted strict_sorted_iff)
  then show ?thesis
    by (auto simp: validate_grid_timeline_def res_simps Let_def not_le not_less subset_iff)
qed

end
