(* ===== verification/Py_Text.thy ===== *)
theory Py_Text
  imports Float64 "HOL-Library.Word"
begin

unbundle bit_operations_syntax

text \<open>
  The string, byte and hash operations of the standard library that the components call.  A
  \<open>str\<close> is a list of \<open>char\<close>; the models use it for ASCII text and for byte strings.  SHA-256 is
  defined as FIPS 180-4 has it, on bytes.
\<close>

section \<open>Strings\<close>

definition is_space :: "char \<Rightarrow> bool" where
  "is_space c \<longleftrightarrow> of_char c \<in> {9::nat, 10, 11, 12, 13, 28, 29, 30, 31, 32, 133, 160}"

definition strip :: "str \<Rightarrow> str" where
  "strip s = rev (dropWhile is_space (rev (dropWhile is_space s)))"

definition lower_char :: "char \<Rightarrow> char" where
  "lower_char c = (let n = of_char c :: nat in if 65 \<le> n \<and> n \<le> 90 then char_of (n + 32) else c)"

definition lower :: "str \<Rightarrow> str" where
  "lower s = map lower_char s"

definition upper_char :: "char \<Rightarrow> char" where
  "upper_char c = (let n = of_char c :: nat in if 97 \<le> n \<and> n \<le> 122 then char_of (n - 32) else c)"

definition upper :: "str \<Rightarrow> str" where
  "upper s = map upper_char s"

definition starts_with :: "str \<Rightarrow> str \<Rightarrow> bool" where
  "starts_with s prefix \<longleftrightarrow> take (length prefix) s = prefix"

definition ends_with :: "str \<Rightarrow> str \<Rightarrow> bool" where
  "ends_with s suffix \<longleftrightarrow> length suffix \<le> length s \<and> drop (length s - length suffix) s = suffix"

fun join :: "str \<Rightarrow> str list \<Rightarrow> str" where
  "join sep [] = []"
| "join sep [s] = s"
| "join sep (s # t # ss) = s @ sep @ join sep (t # ss)"

definition is_digit :: "char \<Rightarrow> bool" where
  "is_digit c \<longleftrightarrow> 48 \<le> (of_char c :: nat) \<and> (of_char c :: nat) \<le> 57"

definition digit :: "int \<Rightarrow> char" where
  "digit d = char_of (48 + d)"

function str_of_nat :: "int \<Rightarrow> str" where
  "str_of_nat n = (if n < 10 then [digit n] else str_of_nat (n div 10) @ [digit (n mod 10)])"
  by pat_completeness auto
termination
  by (relation "measure nat") auto

declare str_of_nat.simps [simp del]

definition str_of_int :: "int \<Rightarrow> str" where
  "str_of_int i = (if i < 0 then ''-'' @ str_of_nat (- i) else str_of_nat i)"

text \<open>\<open>f"{n:0wd}"\<close>: zero padding to a width.\<close>

definition zero_pad :: "nat \<Rightarrow> str \<Rightarrow> str" where
  "zero_pad w s = replicate (w - length s) CHR ''0'' @ s"

section \<open>Calendar dates and ISO 8601\<close>

text \<open>Year, month and day of a number of days since 1970-01-01, proleptic Gregorian.\<close>

definition civil :: "date \<Rightarrow> int \<times> int \<times> int" where
  "civil n =
     (let z = n + 719468;
          era = z div 146097;
          doe = z mod 146097;
          yoe = (doe - doe div 1460 + doe div 36524 - doe div 146096) div 365;
          doy = doe - (365 * yoe + yoe div 4 - yoe div 100);
          mp = (5 * doy + 2) div 153;
          d = doy - (153 * mp + 2) div 5 + 1;
          m = (if mp < 10 then mp + 3 else mp - 9)
      in (yoe + era * 400 + (if m \<le> 2 then 1 else 0), m, d))"

definition iso_date :: "date \<Rightarrow> str" where
  "iso_date n =
     (case civil n of (y, m, d) \<Rightarrow>
        zero_pad 4 (str_of_int y) @ ''-'' @ zero_pad 2 (str_of_int m) @ ''-'' @ zero_pad 2 (str_of_int d))"

text \<open>\<open>isoformat()\<close> of a UTC instant.\<close>

definition iso_instant :: "instant \<Rightarrow> str" where
  "iso_instant t =
     (let tod = t mod day_len; us = tod mod second in
        iso_date (t div day_len) @ ''T''
        @ zero_pad 2 (str_of_int (tod div hour)) @ '':''
        @ zero_pad 2 (str_of_int ((tod div minute) mod 60)) @ '':''
        @ zero_pad 2 (str_of_int ((tod div second) mod 60))
        @ (if us = 0 then [] else ''.'' @ zero_pad 6 (str_of_int us)) @ ''+00:00'')"

section \<open>SHA-256\<close>

type_synonym w32 = "32 word"

definition rotr :: "nat \<Rightarrow> w32 \<Rightarrow> w32" where
  "rotr n x = (drop_bit n x) OR (push_bit (32 - n) x)"

definition sha_ch :: "w32 \<Rightarrow> w32 \<Rightarrow> w32 \<Rightarrow> w32" where
  "sha_ch x y z = (x AND y) XOR (NOT x AND z)"

definition sha_maj :: "w32 \<Rightarrow> w32 \<Rightarrow> w32 \<Rightarrow> w32" where
  "sha_maj x y z = (x AND y) XOR (x AND z) XOR (y AND z)"

definition big_sigma0 :: "w32 \<Rightarrow> w32" where
  "big_sigma0 x = rotr 2 x XOR rotr 13 x XOR rotr 22 x"

definition big_sigma1 :: "w32 \<Rightarrow> w32" where
  "big_sigma1 x = rotr 6 x XOR rotr 11 x XOR rotr 25 x"

definition small_sigma0 :: "w32 \<Rightarrow> w32" where
  "small_sigma0 x = rotr 7 x XOR rotr 18 x XOR drop_bit 3 x"

definition small_sigma1 :: "w32 \<Rightarrow> w32" where
  "small_sigma1 x = rotr 17 x XOR rotr 19 x XOR drop_bit 10 x"

text \<open>The constants are the fractional parts of the square and cube roots of the first primes,
  to 32 bits.\<close>

fun root_bits :: "nat \<Rightarrow> nat \<Rightarrow> int \<Rightarrow> int \<Rightarrow> int" where
  "root_bits 0 e x r = r"
| "root_bits (Suc b) e x r =
     (let r' = r + 2 ^ b in root_bits b e x (if r' ^ e \<le> x then r' else r))"

definition root_fraction :: "nat \<Rightarrow> int \<Rightarrow> w32" where
  "root_fraction e p = of_int (root_bits 37 e (p * 2 ^ (32 * e)) 0)"

definition primes_below :: "int \<Rightarrow> int list" where
  "primes_below n = filter (\<lambda>p. \<forall>d \<in> set [2 .. p - 1]. p mod d \<noteq> 0) [2 .. n - 1]"

definition sha_k :: "w32 list" where
  "sha_k = map (root_fraction 3) (primes_below 312)"

definition sha_init :: "w32 list" where
  "sha_init = map (root_fraction 2) (primes_below 20)"

text \<open>The message schedule, kept as the last sixteen words, newest last.\<close>

fun sha_schedule :: "nat \<Rightarrow> w32 list \<Rightarrow> w32 list" where
  "sha_schedule 0 ws = ws"
| "sha_schedule (Suc n) ws =
     (let k = length ws
      in sha_schedule n (ws @ [small_sigma1 (ws ! (k - 2)) + ws ! (k - 7)
                               + small_sigma0 (ws ! (k - 15)) + ws ! (k - 16)]))"

fun sha_round :: "w32 list \<Rightarrow> w32 \<times> w32 \<Rightarrow> w32 list" where
  "sha_round [a, b, c, d, e, f, g, h] (k, w) =
     (let t1 = h + big_sigma1 e + sha_ch e f g + k + w;
          t2 = big_sigma0 a + sha_maj a b c
      in [t1 + t2, a, b, c, d + t1, e, f, g])"
| "sha_round s _ = s"

definition sha_block :: "w32 list \<Rightarrow> w32 list \<Rightarrow> w32 list" where
  "sha_block hs ws = map2 (+) hs (foldl sha_round hs (zip sha_k (sha_schedule 48 ws)))"

fun be_words :: "int list \<Rightarrow> w32 list" where
  "be_words (a # b # c # d # r) = of_int (((a * 256 + b) * 256 + c) * 256 + d) # be_words r"
| "be_words _ = []"

definition be_bytes :: "nat \<Rightarrow> int \<Rightarrow> int list" where
  "be_bytes w n = map (\<lambda>i. n div 256 ^ (w - 1 - i) mod 256) [0..<w]"

definition sha_pad :: "int list \<Rightarrow> int list" where
  "sha_pad m = m @ [128] @ replicate ((119 - length m mod 64) mod 64) 0 @ be_bytes 8 (8 * int (length m))"

fun sha_blocks :: "nat \<Rightarrow> w32 list \<Rightarrow> w32 list \<Rightarrow> w32 list" where
  "sha_blocks 0 hs ws = hs"
| "sha_blocks (Suc n) hs ws = sha_blocks n (sha_block hs (take 16 ws)) (drop 16 ws)"

definition sha256 :: "int list \<Rightarrow> w32 list" where
  "sha256 m = (let ws = be_words (sha_pad m) in sha_blocks (length ws div 16) sha_init ws)"

definition hex_digit :: "int \<Rightarrow> char" where
  "hex_digit n = (if n < 10 then char_of (48 + n) else char_of (87 + n))"

definition hex_word :: "w32 \<Rightarrow> str" where
  "hex_word w = map (\<lambda>i. hex_digit (uint w div 16 ^ (7 - i) mod 16)) [0..<8]"

definition sha256_hex :: "str \<Rightarrow> str" where
  "sha256_hex s = concat (map hex_word (sha256 (map of_char s)))"

section \<open>Lemmas\<close>

lemma str_of_nat_ne: "str_of_nat n \<noteq> []"
  by (subst str_of_nat.simps) simp

lemma starts_with_append [simp]: "starts_with (p @ s) p"
  by (simp add: starts_with_def)

lemma length_sha_round: "length (sha_round s kw) = length s"
  by (induction s kw rule: sha_round.induct) (simp_all only: sha_round.simps Let_def list.size)

lemma length_foldl_round: "length (foldl sha_round s kws) = length s"
  by (induction kws arbitrary: s) (simp_all add: length_sha_round)

lemma length_sha_block: "length (sha_block hs ws) = length hs"
  by (simp add: sha_block_def length_foldl_round)

lemma length_sha_blocks: "length (sha_blocks n hs ws) = length hs"
  by (induction n hs ws rule: sha_blocks.induct) (simp_all add: length_sha_block)

lemma length_sha_init: "length sha_init = 8"
proof -
  have "length (primes_below 20) = 8" by code_simp
  then show ?thesis by (simp add: sha_init_def)
qed

lemma length_sha256: "length (sha256 m) = 8"
  by (simp add: sha256_def Let_def length_sha_blocks length_sha_init)

definition is_hex_char :: "char \<Rightarrow> bool" where
  "is_hex_char c \<longleftrightarrow> c \<in> set ''0123456789abcdef''"

lemma is_hex_digit: "0 \<le> n \<Longrightarrow> n < 16 \<Longrightarrow> is_hex_char (hex_digit n)"
proof -
  assume "0 \<le> n" and "n < 16"
  then have "n \<in> set [0..15]" by simp
  moreover have "\<forall>n \<in> set [0..15]. is_hex_char (hex_digit n)" by code_simp
  ultimately show ?thesis by blast
qed

lemma hex_word_shape: "length (hex_word w) = 8" "c \<in> set (hex_word w) \<Longrightarrow> is_hex_char c"
  by (auto simp: hex_word_def intro!: is_hex_digit)

lemma length_concat_const: "(\<And>x. x \<in> set xs \<Longrightarrow> length (f x) = k) \<Longrightarrow> length (concat (map f xs)) = k * length xs"
  by (induction xs) auto

lemma sha256_hex_length: "length (sha256_hex s) = 64"
  by (simp add: sha256_hex_def length_concat_const [where k = 8] hex_word_shape length_sha256)

lemma sha256_hex_chars: "c \<in> set (sha256_hex s) \<Longrightarrow> is_hex_char c"
  by (auto simp: sha256_hex_def dest: hex_word_shape(2))

text \<open>An instant and a leap day.\<close>

lemma iso_instant_example:
  "iso_instant (20751 * day_len + 3 * half_hour) = ''2026-10-25T01:30:00+00:00''"
  by code_simp

lemma iso_date_leap: "iso_date 19782 = ''2024-02-29''"
  by code_simp

end
