(* ===== verification/Metric_Registry.thy ===== *)
theory Metric_Registry
  imports Py_Text
begin

text \<open>
  The metric registry (app/metrics/registry.py): the definitions of every metric of the current
  grid view, the freshness policy of each data family, and the checks the module runs when it is
  imported.  Text outside ASCII is its UTF-8 bytes.
\<close>

datatype metric_classification =
  MetricObserved | MetricEstimated | MetricDerived | MetricForecast | MetricReported

datatype metric_family = Generation | Demand | Frequency | Interconnectors | Carbon

section \<open>Metric definitions\<close>

record metric_definition =
  md_metric_id :: str
  md_methodology_version :: str
  md_family :: metric_family
  md_display_name :: str
  md_description :: str
  md_unit :: str
  md_classification :: metric_classification
  md_boundary :: str
  md_resolution_seconds :: int
  md_expected_publication_lag_seconds :: int
  md_source_datasets :: "str list"
  md_methodology :: str
  md_exclusions :: "str list"
  md_sign_convention :: "str option"

definition validate_metric_definition :: "metric_definition \<Rightarrow> unit result" where
  "validate_metric_definition m =
     (if md_metric_id m = [] \<or> md_methodology_version m = []
      then Inl (ValueError ''metric definitions require stable IDs and versions'')
      else if md_resolution_seconds m \<le> 0 \<or> md_expected_publication_lag_seconds m < 0
      then Inl (ValueError ''metric timing values must be non-negative'')
      else if md_source_datasets m = [] \<or> md_exclusions m = []
      then Inl (ValueError ''metric definitions require sources and explicit exclusions'')
      else Inr ())"

definition metric_generation_transmission_visible_by_fuel :: metric_definition where
  "metric_generation_transmission_visible_by_fuel =
     \<lparr>md_metric_id = ''generation.transmission_visible_by_fuel'',
      md_methodology_version = ''fuelinst-generation-v1'',
      md_family = Generation,
      md_display_name = ''Transmission-visible generation by fuel'',
      md_description = ''Five-minute average operational-metered output for Elexon FUELINST units, grouped by the unit's primary fuel.'',
      md_unit = ''MW'',
      md_classification = MetricObserved,
      md_boundary = ''Great Britain transmission-connected units represented by operational meters in Elexon FUELINST; this is not total GB generation.'',
      md_resolution_seconds = 300,
      md_expected_publication_lag_seconds = 300,
      md_source_datasets = [''Elexon FUELINST''],
      md_methodology = ''Interconnector pseudo-fuels are separated into signed flow metrics; positive primary-fuel outputs are grouped into 50Hz display categories.'',
      md_exclusions =
      [''Embedded and other unmetered generation are omitted.'',
       ''FUELINST has no dedicated solar category, so it does not measure total solar output.'',
       ''Interconnector flows are excluded and reported separately.'',
       ''Negative pumped-storage values are excluded from the legacy generation mix and are not treated as a complete charging measure.''],
      md_sign_convention = None\<rparr>"

definition metric_demand_national_outturn :: metric_definition where
  "metric_demand_national_outturn =
     \<lparr>md_metric_id = ''demand.national_outturn'',
      md_methodology_version = ''indo-national-demand-v1'',
      md_family = Demand,
      md_display_name = ''Initial National Demand outturn'',
      md_description = ''Initial half-hour average National Demand outturn published through Elexon INDO, normally within 15 minutes after the period ends.'',
      md_unit = ''MW'',
      md_classification = MetricObserved,
      md_boundary = ''Great Britain National Demand under the Elexon/NESO INDO definition.'',
      md_resolution_seconds = 1800,
      md_expected_publication_lag_seconds = 900,
      md_source_datasets = [''Elexon INDO''],
      md_methodology = ''The latest initial outturn is retained for each settlement period; comparisons should use the National Demand Forecast (NDF) boundary.'',
      md_exclusions =
      [''Interconnector flows are excluded.'',
       ''Station transformer demand is excluded.'',
       ''Pumped-storage demand is excluded.'',
       ''Not household, smart-meter, regional, or distribution-network demand.'',
       ''Not directly comparable with demand series other than NDF without boundary reconciliation.'',
       ''Later settled revisions are not represented by the initial outturn feed.''],
      md_sign_convention = None\<rparr>"

definition metric_frequency_system :: metric_definition where
  "metric_frequency_system =
     \<lparr>md_metric_id = ''frequency.system'',
      md_methodology_version = ''freq-system-v1'',
      md_family = Frequency,
      md_display_name = ''GB transmission system frequency'',
      md_description = ''Near-real-time spot samples of Great Britain transmission system frequency.'',
      md_unit = ''Hz'',
      md_classification = MetricObserved,
      md_boundary = ''The synchronous Great Britain transmission system measurement published by Elexon.'',
      md_resolution_seconds = 15,
      md_expected_publication_lag_seconds = 120,
      md_source_datasets = [''Elexon FREQ''],
      md_methodology = ''The latest valid 40'' @ [CHR 0xE2, CHR 0x80, CHR 0x93] @ ''60 Hz spot sample is displayed without interpolation. Samples are delivered in files approximately every two minutes; the source does not supply a reliable publication timestamp.'',
      md_exclusions =
      [''Not a regional or premises-level frequency measurement.'',
       ''Not an interval average.'',
       ''No frequency forecast is produced by 50Hz.''],
      md_sign_convention = None\<rparr>"

definition metric_interconnector_flow :: metric_definition where
  "metric_interconnector_flow =
     \<lparr>md_metric_id = ''interconnector.flow'',
      md_methodology_version = ''fuelinst-interconnector-flow-v1'',
      md_family = Interconnectors,
      md_display_name = ''Interconnector flow'',
      md_description = ''Signed near-live flow for each interconnector represented in FUELINST.'',
      md_unit = ''MW'',
      md_classification = MetricObserved,
      md_boundary = ''Electricity flow between Great Britain and connected neighbouring systems.'',
      md_resolution_seconds = 300,
      md_expected_publication_lag_seconds = 300,
      md_source_datasets = [''Elexon FUELINST''],
      md_methodology = ''Interconnector pseudo-fuels are retained as individual signed flows.'',
      md_exclusions =
      [''Not available capacity, a commercial schedule, or a physical network-flow model.'',
       ''Only interconnectors represented in the source response are included.''],
      md_sign_convention = Some ''Positive MW imports into Great Britain; negative MW exports from Great Britain.''\<rparr>"

definition metric_carbon_intensity_national :: metric_definition where
  "metric_carbon_intensity_national =
     \<lparr>md_metric_id = ''carbon.intensity.national'',
      md_methodology_version = ''neso-national-carbon-v1'',
      md_family = Carbon,
      md_display_name = ''National carbon intensity'',
      md_description = ''Half-hour national electricity carbon-intensity estimate from NESO.'',
      md_unit = ''gCO2/kWh'',
      md_classification = MetricEstimated,
      md_boundary = ''Great Britain national electricity carbon intensity under the NESO methodology.'',
      md_resolution_seconds = 1800,
      md_expected_publication_lag_seconds = 1800,
      md_source_datasets = [''NESO Carbon Intensity national''],
      md_methodology = ''50Hz uses the source field named actual when supplied, but classifies it as estimated because carbon intensity remains a modelled system value.'',
      md_exclusions =
      [''Not marginal carbon intensity or a household-specific meter reading.'',
       ''Not a price, tariff, or guarantee of emissions avoided by one action.'',
       ''Regional current values are separate forecast metrics and are not this national estimate.''],
      md_sign_convention = None\<rparr>"

definition metric_supply_domestic_generation :: metric_definition where
  "metric_supply_domestic_generation =
     \<lparr>md_metric_id = ''supply.domestic_generation'',
      md_methodology_version = ''supply-accounting-v1'',
      md_family = Generation,
      md_display_name = ''Transmission-visible domestic generation'',
      md_description = ''Sum of positive non-interconnector FUELINST generation values.'',
      md_unit = ''MW'',
      md_classification = MetricDerived,
      md_boundary = ''The same transmission-visible GB boundary as the FUELINST generation metric.'',
      md_resolution_seconds = 300,
      md_expected_publication_lag_seconds = 300,
      md_source_datasets = [''Elexon FUELINST''],
      md_methodology = ''Positive generation categories are summed before any interconnector position is added.'',
      md_exclusions =
      [''Excludes imports, exports, and negative pumped-storage values.'',
       ''Inherits the coverage limits of FUELINST generation.''],
      md_sign_convention = None\<rparr>"

definition metric_supply_gross_imports :: metric_definition where
  "metric_supply_gross_imports =
     \<lparr>md_metric_id = ''supply.gross_imports'',
      md_methodology_version = ''supply-accounting-v1'',
      md_family = Interconnectors,
      md_display_name = ''Gross imports'',
      md_description = ''Sum of positive individual interconnector flows into Great Britain.'',
      md_unit = ''MW'',
      md_classification = MetricDerived,
      md_boundary = ''Interconnectors represented in the current Elexon FUELINST response.'',
      md_resolution_seconds = 300,
      md_expected_publication_lag_seconds = 300,
      md_source_datasets = [''Elexon FUELINST''],
      md_methodology = ''All positive signed interconnector values are summed without netting exports.'',
      md_exclusions =
      [''Does not represent contracted capacity or include absent source series.''],
      md_sign_convention = Some ''Reported as a non-negative magnitude into Great Britain.''\<rparr>"

definition metric_supply_gross_exports :: metric_definition where
  "metric_supply_gross_exports =
     \<lparr>md_metric_id = ''supply.gross_exports'',
      md_methodology_version = ''supply-accounting-v1'',
      md_family = Interconnectors,
      md_display_name = ''Gross exports'',
      md_description = ''Absolute sum of negative individual interconnector flows from Great Britain.'',
      md_unit = ''MW'',
      md_classification = MetricDerived,
      md_boundary = ''Interconnectors represented in the current Elexon FUELINST response.'',
      md_resolution_seconds = 300,
      md_expected_publication_lag_seconds = 300,
      md_source_datasets = [''Elexon FUELINST''],
      md_methodology = ''Negative signed interconnector values are converted to non-negative export magnitudes and summed.'',
      md_exclusions =
      [''Does not represent contracted capacity or include absent source series.''],
      md_sign_convention = Some ''Reported as a non-negative magnitude leaving Great Britain.''\<rparr>"

definition metric_supply_net_imports :: metric_definition where
  "metric_supply_net_imports =
     \<lparr>md_metric_id = ''supply.net_imports'',
      md_methodology_version = ''supply-accounting-v1'',
      md_family = Interconnectors,
      md_display_name = ''Net interconnector position'',
      md_description = ''Algebraic sum of all represented signed interconnector flows.'',
      md_unit = ''MW'',
      md_classification = MetricDerived,
      md_boundary = ''Interconnectors represented in the current Elexon FUELINST response.'',
      md_resolution_seconds = 300,
      md_expected_publication_lag_seconds = 300,
      md_source_datasets = [''Elexon FUELINST''],
      md_methodology = ''Gross imports minus gross exports.'',
      md_exclusions =
      [''Does not show simultaneous gross import and export volumes on its own.'',
       ''Does not represent contracted capacity or include absent source series.''],
      md_sign_convention = Some ''Positive MW is net import; negative MW is net export.''\<rparr>"

definition metric_storage_generation :: metric_definition where
  "metric_storage_generation =
     \<lparr>md_metric_id = ''storage.generation'',
      md_methodology_version = ''supply-accounting-v1'',
      md_family = Generation,
      md_display_name = ''Storage generation'',
      md_description = ''Sum of positive FUELINST pumped-storage output represented as generation.'',
      md_unit = ''MW'',
      md_classification = MetricDerived,
      md_boundary = ''Transmission-visible storage represented in FUELINST fuel categories.'',
      md_resolution_seconds = 300,
      md_expected_publication_lag_seconds = 300,
      md_source_datasets = [''Elexon FUELINST''],
      md_methodology = ''Positive FUELINST pumped-storage generating values are summed.'',
      md_exclusions =
      [''Not a complete measure of all battery or distribution-connected storage.'',
       ''Does not measure charging demand; negative values are not interpreted as a complete charging balance.'',
       ''Does not describe stored energy or state of charge.''],
      md_sign_convention = None\<rparr>"

definition metric_supply_legacy_display_mix :: metric_definition where
  "metric_supply_legacy_display_mix =
     \<lparr>md_metric_id = ''supply.legacy_display_mix'',
      md_methodology_version = ''supply-accounting-v1'',
      md_family = Generation,
      md_display_name = ''Legacy displayed generation mix'',
      md_description = ''The additive mix retained for compatibility with existing 50Hz clients.'',
      md_unit = ''MW'',
      md_classification = MetricDerived,
      md_boundary = ''Transmission-visible positive generation plus a positive net interconnector position.'',
      md_resolution_seconds = 300,
      md_expected_publication_lag_seconds = 300,
      md_source_datasets = [''Elexon FUELINST''],
      md_methodology = ''Positive domestic categories are displayed; when the algebraic interconnector position is importing, one imports category is added.'',
      md_exclusions =
      [''It is a display composition, not a physical energy-balance equation.'',
       ''Embedded and unmetered generation are omitted by the source.'',
       ''Simultaneous gross imports and exports are netted into one optional imports category.'',
       ''When Britain is net exporting, exports are not subtracted from the legacy generation list.''],
      md_sign_convention = None\<rparr>"

definition METRIC_DEFINITIONS :: "metric_definition list" where
  "METRIC_DEFINITIONS =
     [metric_generation_transmission_visible_by_fuel,
      metric_demand_national_outturn,
      metric_frequency_system,
      metric_interconnector_flow,
      metric_carbon_intensity_national,
      metric_supply_domestic_generation,
      metric_supply_gross_imports,
      metric_supply_gross_exports,
      metric_supply_net_imports,
      metric_storage_generation,
      metric_supply_legacy_display_mix]"

section \<open>Freshness policies of the current families\<close>

record metric_freshness_policy =
  mp_family :: metric_family
  mp_metric_ids :: "str list"
  mp_required_for_snapshot :: bool
  mp_expected_cadence_seconds :: int
  mp_valid_interval_seconds :: "int option"
  mp_delivery_healthy_seconds :: int
  mp_delivery_stale_seconds :: int
  mp_fact_live_seconds :: int
  mp_fact_stale_seconds :: int

definition validate_policy :: "metric_freshness_policy \<Rightarrow> unit result" where
  "validate_policy p =
     (if mp_expected_cadence_seconds p \<le> 0
      then Inl (ValueError ''expected cadence must be positive'')
      else if \<not> (0 < mp_delivery_healthy_seconds p
                \<and> mp_delivery_healthy_seconds p < mp_delivery_stale_seconds p)
      then Inl (ValueError ''delivery thresholds must be ordered'')
      else if \<not> (0 < mp_fact_live_seconds p \<and> mp_fact_live_seconds p < mp_fact_stale_seconds p)
      then Inl (ValueError ''fact thresholds must be ordered'')
      else if (case mp_valid_interval_seconds p of None \<Rightarrow> False | Some v \<Rightarrow> v \<le> 0)
      then Inl (ValueError ''valid interval must be positive'')
      else Inr ())"

definition CURRENT_FAMILY_POLICIES :: "metric_freshness_policy list" where
  "CURRENT_FAMILY_POLICIES =
     [\<lparr>mp_family = Generation,
       mp_metric_ids = [''generation.transmission_visible_by_fuel'', ''supply.domestic_generation'',
                        ''storage.generation'', ''supply.legacy_display_mix''],
       mp_required_for_snapshot = True,
       mp_expected_cadence_seconds = 300, mp_valid_interval_seconds = Some 300,
       mp_delivery_healthy_seconds = 300, mp_delivery_stale_seconds = 600,
       mp_fact_live_seconds = 600, mp_fact_stale_seconds = 900\<rparr>,
      \<lparr>mp_family = Demand,
       mp_metric_ids = [''demand.national_outturn''],
       mp_required_for_snapshot = True,
       mp_expected_cadence_seconds = 1800, mp_valid_interval_seconds = Some 1800,
       mp_delivery_healthy_seconds = 600, mp_delivery_stale_seconds = 1200,
       mp_fact_live_seconds = 2700, mp_fact_stale_seconds = 3900\<rparr>,
      \<lparr>mp_family = Frequency,
       mp_metric_ids = [''frequency.system''],
       mp_required_for_snapshot = False,
       mp_expected_cadence_seconds = 60, mp_valid_interval_seconds = None,
       mp_delivery_healthy_seconds = 180, mp_delivery_stale_seconds = 600,
       mp_fact_live_seconds = 180, mp_fact_stale_seconds = 600\<rparr>,
      \<lparr>mp_family = Interconnectors,
       mp_metric_ids = [''interconnector.flow'', ''supply.gross_imports'',
                        ''supply.gross_exports'', ''supply.net_imports''],
       mp_required_for_snapshot = False,
       mp_expected_cadence_seconds = 300, mp_valid_interval_seconds = Some 300,
       mp_delivery_healthy_seconds = 300, mp_delivery_stale_seconds = 600,
       mp_fact_live_seconds = 600, mp_fact_stale_seconds = 900\<rparr>,
      \<lparr>mp_family = Carbon,
       mp_metric_ids = [''carbon.intensity.national''],
       mp_required_for_snapshot = True,
       mp_expected_cadence_seconds = 1800, mp_valid_interval_seconds = Some 1800,
       mp_delivery_healthy_seconds = 600, mp_delivery_stale_seconds = 1200,
       mp_fact_live_seconds = 1800, mp_fact_stale_seconds = 3900\<rparr>]"

section \<open>The checks at import\<close>

definition metric_ids_of :: "metric_definition list \<Rightarrow> str list" where
  "metric_ids_of definitions = map md_metric_id definitions"

definition policy_metric_ids :: "metric_freshness_policy list \<Rightarrow> str list" where
  "policy_metric_ids policies = concat (map mp_metric_ids policies)"

definition registry_checks :: "metric_definition list \<Rightarrow> metric_freshness_policy list \<Rightarrow> unit result" where
  "registry_checks definitions policies =
     rbind (traverse validate_metric_definition definitions) (\<lambda>_.
     rbind (traverse validate_policy policies) (\<lambda>_.
     rbind (ensure (distinct (metric_ids_of definitions))
              (ValueError ''metric registry IDs must be unique'')) (\<lambda>_.
     rbind (ensure (distinct (policy_metric_ids policies))
              (ValueError ''each metric must belong to only one current-family policy'')) (\<lambda>_.
     ensure (set (policy_metric_ids policies) = set (metric_ids_of definitions))
       (ValueError ''every metric must have exactly one current-family policy'')))))"

lemma distinct_concat_count:
  "distinct (concat xss) \<Longrightarrow> x \<in> set (concat xss) \<Longrightarrow>
     \<exists>!i. i < length xss \<and> x \<in> set (xss ! i)"
proof (induction xss)
  case (Cons xs xss)
  show ?case
  proof (cases "x \<in> set xs")
    case True
    with Cons.prems(1) have "x \<notin> set (concat xss)" by auto
    then have "x \<notin> set (xss ! i)" if "i < length xss" for i using nth_mem [OF that] by auto
    then have "i = 0" if "i < length (xs # xss)" "x \<in> set ((xs # xss) ! i)" for i
      using that by (cases i) auto
    with True show ?thesis by (intro ex1I [of _ 0]) auto
  next
    case False
    with Cons obtain i where i: "i < length xss" "x \<in> set (xss ! i)"
      "\<And>j. j < length xss \<Longrightarrow> x \<in> set (xss ! j) \<Longrightarrow> j = i" by auto
    have "j = Suc i" if "j < length (xs # xss)" "x \<in> set ((xs # xss) ! j)" for j
      using that False i(3) [of "j - 1"] by (cases j) simp_all
    with i(1,2) show ?thesis by (intro ex1I [of _ "Suc i"]) simp_all
  qed
qed simp

text \<open>A registry that passes its checks gives every metric one policy.\<close>

lemma registry_checks_unique_policy:
  assumes "registry_checks definitions policies = Inr ()" and "m \<in> set definitions"
  shows "\<exists>!i. i < length policies \<and> md_metric_id m \<in> set (mp_metric_ids (policies ! i))"
proof -
  from assms(1) have "distinct (concat (map mp_metric_ids policies))"
    "set (concat (map mp_metric_ids policies)) = set (map md_metric_id definitions)"
    by (auto simp: registry_checks_def policy_metric_ids_def metric_ids_of_def res_simps)
  from distinct_concat_count [OF this(1), of "md_metric_id m"] this(2) assms(2)
  have "\<exists>!i. i < length (map mp_metric_ids policies)
      \<and> md_metric_id m \<in> set (map mp_metric_ids policies ! i)" by (simp del: set_concat)
  then show ?thesis by (metis (no_types, lifting) length_map nth_map)
qed

lemma policies_valid: "list_all (\<lambda>p. validate_policy p = Inr ()) CURRENT_FAMILY_POLICIES"
  unfolding CURRENT_FAMILY_POLICIES_def validate_policy_def list.pred_inject
    metric_freshness_policy.select_convs
  by simp

section \<open>The shipped registry\<close>

lemmas metric_definitions = METRIC_DEFINITIONS_def
  metric_generation_transmission_visible_by_fuel_def
  metric_demand_national_outturn_def
  metric_frequency_system_def
  metric_interconnector_flow_def
  metric_carbon_intensity_national_def
  metric_supply_domestic_generation_def
  metric_supply_gross_imports_def
  metric_supply_gross_exports_def
  metric_supply_net_imports_def
  metric_storage_generation_def
  metric_supply_legacy_display_mix_def

lemma shipped_metric_ids:
  "metric_ids_of METRIC_DEFINITIONS =
     [''generation.transmission_visible_by_fuel'',
      ''demand.national_outturn'',
      ''frequency.system'',
      ''interconnector.flow'',
      ''carbon.intensity.national'',
      ''supply.domestic_generation'',
      ''supply.gross_imports'',
      ''supply.gross_exports'',
      ''supply.net_imports'',
      ''storage.generation'',
      ''supply.legacy_display_mix'']"
  by (simp only: metric_ids_of_def metric_definitions list.map metric_definition.select_convs)

lemma shipped_metrics_valid: "list_all (\<lambda>m. validate_metric_definition m = Inr ()) METRIC_DEFINITIONS"
  unfolding metric_definitions validate_metric_definition_def list.pred_inject metric_definition.select_convs
  by simp

text \<open>The shipped registry passes its import checks, hence every metric it defines has exactly
  one current-family policy.\<close>

lemma shipped_policy_ids:
  "policy_metric_ids CURRENT_FAMILY_POLICIES =
     [''generation.transmission_visible_by_fuel'', ''supply.domestic_generation'',
      ''storage.generation'', ''supply.legacy_display_mix'', ''demand.national_outturn'',
      ''frequency.system'', ''interconnector.flow'', ''supply.gross_imports'',
      ''supply.gross_exports'', ''supply.net_imports'', ''carbon.intensity.national'']"
  by (simp only: policy_metric_ids_def CURRENT_FAMILY_POLICIES_def list.map
      metric_freshness_policy.select_convs concat.simps append.simps)

lemma registry_import: "registry_checks METRIC_DEFINITIONS CURRENT_FAMILY_POLICIES = Inr ()"
proof -
  have "set (policy_metric_ids CURRENT_FAMILY_POLICIES) = set (metric_ids_of METRIC_DEFINITIONS)"
    unfolding shipped_metric_ids shipped_policy_ids by code_simp
  moreover have "distinct (policy_metric_ids CURRENT_FAMILY_POLICIES)"
    unfolding shipped_policy_ids by code_simp
  moreover have "distinct (metric_ids_of METRIC_DEFINITIONS)"
    unfolding shipped_metric_ids by code_simp
  moreover have "\<exists>ys. traverse validate_metric_definition METRIC_DEFINITIONS = Inr ys"
    using shipped_metrics_valid traverse_total [of METRIC_DEFINITIONS _ "\<lambda>_. ()"]
    by (auto simp: list_all_iff)
  moreover have "\<exists>ys. traverse validate_policy CURRENT_FAMILY_POLICIES = Inr ys"
    using policies_valid traverse_total [of CURRENT_FAMILY_POLICIES _ "\<lambda>_. ()"]
    by (auto simp: list_all_iff)
  ultimately show ?thesis by (auto simp: registry_checks_def)
qed

lemmas registry_assigns_one_policy = registry_checks_unique_policy [OF registry_import]

end
