(* ===== verification/Data_Status.thy ===== *)
theory Data_Status
  imports Fact_Models Metric_Registry
begin

text \<open>
  Data-family health and supply accounting (app/api/status.py with its response models in
  app/api/models.py) and the health of the publisher feeds (app/source_health).  The readings are
  those of a current-grid read (app/persistence/reads.py); their values come from the database as
  finite floats.  A response model is a record with the function that runs its validators, so the
  totality theorems show that the presenters never trip over their own models.
\<close>

section \<open>Readings\<close>

record read_provenance =
  rp_source_id :: str
  rp_source_record_id :: "str option"
  rp_observed_at :: instant
  rp_published_at :: "instant option"
  rp_retrieved_at :: instant
  rp_revision :: int

record generation_read =
  gr_series_key :: str
  gr_fuel_type :: str
  gr_megawatts :: rat
  gr_provenance :: read_provenance

record demand_read =
  dr_series_key :: str
  dr_demand_type :: str
  dr_megawatts :: rat
  dr_provenance :: read_provenance

record frequency_read =
  qr_series_key :: str
  qr_hertz :: rat
  qr_provenance :: read_provenance

record interconnector_read =
  ir_connector_id :: str
  ir_display_name :: str
  ir_counterparty :: str
  ir_megawatts :: rat
  ir_provenance :: read_provenance

record carbon_read =
  cr_region_code :: str
  cr_intensity_gco2_kwh :: rat
  cr_index_label :: "str option"
  cr_provenance :: read_provenance

record current_grid_read =
  cg_requested_at :: instant
  cg_generation :: "generation_read list"
  cg_demand :: "demand_read option"
  cg_frequency :: "frequency_read option"
  cg_interconnectors :: "interconnector_read list"
  cg_carbon :: "carbon_read option"

section \<open>Family status\<close>

datatype delivery_state = Healthy | Delivery_Delayed | Delivery_Stale | Delivery_Unavailable
datatype fact_state = Live | Fact_Delayed | Fact_Stale | Fact_Unavailable

record data_family_status =
  df_family :: metric_family
  df_metric_ids :: "str list"
  df_source_ids :: "str list"
  df_source_record_ids :: "str list"
  df_required_for_snapshot :: bool
  df_evaluated_at :: instant
  df_delivery_state :: delivery_state
  df_fact_state :: fact_state
  df_observed_at :: "instant option"
  df_published_at :: "instant option"
  df_retrieved_at :: "instant option"
  df_valid_to :: "instant option"
  df_observation_age_seconds :: "int option"
  df_retrieval_age_seconds :: "int option"
  df_expected_cadence_seconds :: int
  df_delivery_healthy_seconds :: int
  df_delivery_stale_seconds :: int
  df_fact_live_seconds :: int
  df_fact_stale_seconds :: int
  df_series_count :: int

fun opt_ge :: "int \<Rightarrow> int option \<Rightarrow> bool" where
  "opt_ge b None = True"
| "opt_ge b (Some x) = (b \<le> x)"

definition validate_family_status :: "data_family_status \<Rightarrow> data_family_status result" where
  "validate_family_status d =
     rbind (ensure (df_metric_ids d \<noteq> []) (ValueError ''metric_ids'')) (\<lambda>_.
     rbind (ensure (opt_ge 0 (df_observation_age_seconds d)) (ValueError ''observation_age_seconds'')) (\<lambda>_.
     rbind (ensure (opt_ge 0 (df_retrieval_age_seconds d)) (ValueError ''retrieval_age_seconds'')) (\<lambda>_.
     rbind (ensure (0 < df_expected_cadence_seconds d) (ValueError ''expected_cadence_seconds'')) (\<lambda>_.
     rbind (ensure (0 < df_delivery_healthy_seconds d) (ValueError ''delivery_healthy_seconds'')) (\<lambda>_.
     rbind (ensure (0 < df_delivery_stale_seconds d) (ValueError ''delivery_stale_seconds'')) (\<lambda>_.
     rbind (ensure (0 < df_fact_live_seconds d) (ValueError ''fact_live_seconds'')) (\<lambda>_.
     rbind (ensure (0 < df_fact_stale_seconds d) (ValueError ''fact_stale_seconds'')) (\<lambda>_.
     rbind (ensure (0 \<le> df_series_count d) (ValueError ''series_count'')) (\<lambda>_.
     let available = df_series_count d > 0;
         required_missing = df_observed_at d = None \<or> df_retrieved_at d = None
           \<or> df_observation_age_seconds d = None \<or> df_retrieval_age_seconds d = None;
         some_timing = df_observed_at d \<noteq> None \<or> df_published_at d \<noteq> None
           \<or> df_retrieved_at d \<noteq> None \<or> df_valid_to d \<noteq> None
           \<or> df_observation_age_seconds d \<noteq> None \<or> df_retrieval_age_seconds d \<noteq> None
     in if available \<and> required_missing
        then Inl (ValueError ''Available families require source timing and ages'')
        else if \<not> available \<and> some_timing
        then Inl (ValueError ''Unavailable families cannot expose source timing'')
        else if \<not> available \<and> (df_delivery_state d \<noteq> Delivery_Unavailable \<or> df_fact_state d \<noteq> Fact_Unavailable)
        then Inl (ValueError ''Missing families must be unavailable'')
        else if df_delivery_healthy_seconds d \<ge> df_delivery_stale_seconds d
        then Inl (ValueError ''Delivery thresholds must be ordered'')
        else if df_fact_live_seconds d \<ge> df_fact_stale_seconds d
        then Inl (ValueError ''Fact thresholds must be ordered'')
        else Inr d)))))))))"

definition age_seconds :: "instant \<Rightarrow> instant \<Rightarrow> int" where
  "age_seconds evaluated_at source_time = max 0 (trunc (total_seconds (evaluated_at - source_time)))"

definition policy_delivery_state :: "metric_freshness_policy \<Rightarrow> int \<Rightarrow> delivery_state" where
  "policy_delivery_state policy age =
     (if age \<le> mp_delivery_healthy_seconds policy then Healthy
      else if age < mp_delivery_stale_seconds policy then Delivery_Delayed
      else Delivery_Stale)"

definition policy_fact_state :: "metric_freshness_policy \<Rightarrow> int \<Rightarrow> fact_state" where
  "policy_fact_state policy age =
     (if age \<le> mp_fact_live_seconds policy then Live
      else if age < mp_fact_stale_seconds policy then Fact_Delayed
      else Fact_Stale)"

text \<open>\<open>min\<close> and \<open>max\<close> of a generator of times.\<close>

definition min_time :: "int list \<Rightarrow> int option" where "min_time = py_min (\<lambda>t. t)"

definition max_time :: "int list \<Rightarrow> int option" where "max_time = py_max (\<lambda>t. t)"

definition family_status ::
  "metric_freshness_policy \<Rightarrow> read_provenance list \<Rightarrow> instant \<Rightarrow> data_family_status result" where
  "family_status policy provenances evaluated_at =
     (let blank = \<lparr>df_family = mp_family policy, df_metric_ids = mp_metric_ids policy,
            df_source_ids = [], df_source_record_ids = [],
            df_required_for_snapshot = mp_required_for_snapshot policy,
            df_evaluated_at = evaluated_at,
            df_delivery_state = Delivery_Unavailable, df_fact_state = Fact_Unavailable,
            df_observed_at = None, df_published_at = None, df_retrieved_at = None, df_valid_to = None,
            df_observation_age_seconds = None, df_retrieval_age_seconds = None,
            df_expected_cadence_seconds = mp_expected_cadence_seconds policy,
            df_delivery_healthy_seconds = mp_delivery_healthy_seconds policy,
            df_delivery_stale_seconds = mp_delivery_stale_seconds policy,
            df_fact_live_seconds = mp_fact_live_seconds policy,
            df_fact_stale_seconds = mp_fact_stale_seconds policy,
            df_series_count = 0\<rparr>
      in case (min_time (map rp_observed_at provenances), min_time (map rp_retrieved_at provenances)) of
           (Some observed_at, Some retrieved_at) \<Rightarrow>
             let observation_age = age_seconds evaluated_at observed_at;
                 retrieval_age = age_seconds evaluated_at retrieved_at
             in validate_family_status (blank\<lparr>
                  df_source_ids := sorted_set (map rp_source_id provenances),
                  df_source_record_ids := sorted_set (somes (map rp_source_record_id provenances)),
                  df_delivery_state := policy_delivery_state policy retrieval_age,
                  df_fact_state := policy_fact_state policy observation_age,
                  df_observed_at := Some observed_at,
                  df_published_at := min_time (somes (map rp_published_at provenances)),
                  df_retrieved_at := Some retrieved_at,
                  df_valid_to := (case mp_valid_interval_seconds policy of
                                    None \<Rightarrow> None | Some s \<Rightarrow> Some (observed_at + s * second)),
                  df_observation_age_seconds := Some observation_age,
                  df_retrieval_age_seconds := Some retrieval_age,
                  df_series_count := int (length provenances)\<rparr>)
         | _ \<Rightarrow> validate_family_status blank)"

definition family_readings :: "current_grid_read \<Rightarrow> metric_family \<Rightarrow> read_provenance list" where
  "family_readings read family =
     (case family of
        Generation \<Rightarrow> map gr_provenance (cg_generation read)
      | Demand \<Rightarrow> (case cg_demand read of None \<Rightarrow> [] | Some d \<Rightarrow> [dr_provenance d])
      | Frequency \<Rightarrow> (case cg_frequency read of None \<Rightarrow> [] | Some f \<Rightarrow> [qr_provenance f])
      | Interconnectors \<Rightarrow> map ir_provenance (cg_interconnectors read)
      | Carbon \<Rightarrow> (case cg_carbon read of None \<Rightarrow> [] | Some c \<Rightarrow> [cr_provenance c]))"

definition present_data_status :: "current_grid_read \<Rightarrow> data_family_status list result" where
  "present_data_status read =
     traverse (\<lambda>policy. family_status policy (family_readings read (mp_family policy)) (cg_requested_at read))
       CURRENT_FAMILY_POLICIES"

section \<open>Freshness summary\<close>

datatype summary_state =
  Sum_Current | Sum_Mixed | Sum_Delayed | Sum_Stale | Sum_Unavailable | Sum_Critical

record freshness_summary =
  fs_state :: summary_state
  fs_label :: str
  fs_detail :: str
  fs_evaluated_at :: instant
  fs_required_family_count :: int
  fs_current_family_count :: int
  fs_delayed_family_count :: int
  fs_stale_family_count :: int
  fs_unavailable_family_count :: int
  fs_oldest_required_observed_at :: "instant option"
  fs_newest_required_observed_at :: "instant option"
  fs_observation_spread_seconds :: "int option"

definition validate_freshness_summary :: "freshness_summary \<Rightarrow> freshness_summary result" where
  "validate_freshness_summary f =
     rbind (ensure (1 \<le> fs_required_family_count f) (ValueError ''required_family_count'')) (\<lambda>_.
     rbind (ensure (0 \<le> fs_current_family_count f) (ValueError ''current_family_count'')) (\<lambda>_.
     rbind (ensure (0 \<le> fs_delayed_family_count f) (ValueError ''delayed_family_count'')) (\<lambda>_.
     rbind (ensure (0 \<le> fs_stale_family_count f) (ValueError ''stale_family_count'')) (\<lambda>_.
     rbind (ensure (0 \<le> fs_unavailable_family_count f) (ValueError ''unavailable_family_count'')) (\<lambda>_.
     rbind (ensure (opt_ge 0 (fs_observation_spread_seconds f)) (ValueError ''observation_spread_seconds'')) (\<lambda>_.
     if fs_current_family_count f + fs_delayed_family_count f + fs_stale_family_count f
          + fs_unavailable_family_count f \<noteq> fs_required_family_count f
     then Inl (ValueError ''Freshness family counts must cover every required family'')
     else case (fs_oldest_required_observed_at f, fs_newest_required_observed_at f) of
            (None, None) \<Rightarrow>
              if fs_observation_spread_seconds f \<noteq> None
              then Inl (ValueError ''Freshness spread requires observation bounds'') else Inr f
          | (Some oldest, Some newest) \<Rightarrow>
              if newest < oldest
              then Inl (ValueError ''Freshness observation bounds must be ordered'')
              else if fs_observation_spread_seconds f \<noteq> Some (trunc (total_seconds (newest - oldest)))
              then Inl (ValueError ''Freshness spread must match observation bounds'')
              else Inr f
          | _ \<Rightarrow> Inl (ValueError ''Freshness observation bounds must be supplied together'')))))))"

datatype combined_state = Family_Current | Family_Delayed | Family_Stale | Family_Unavailable

definition combined_family_state :: "data_family_status \<Rightarrow> combined_state" where
  "combined_family_state status =
     (if df_delivery_state status = Delivery_Unavailable \<or> df_fact_state status = Fact_Unavailable
      then Family_Unavailable
      else if df_delivery_state status = Delivery_Stale \<or> df_fact_state status = Fact_Stale
      then Family_Stale
      else if df_delivery_state status = Delivery_Delayed \<or> df_fact_state status = Fact_Delayed
      then Family_Delayed
      else Family_Current)"

definition count_state :: "combined_state \<Rightarrow> data_family_status list \<Rightarrow> int" where
  "count_state c statuses = int (length (filter (\<lambda>s. combined_family_state s = c) statuses))"

text \<open>The state with its label and detail.\<close>

definition summary_words ::
  "data_family_status list \<Rightarrow> bool \<Rightarrow> bool \<Rightarrow> int option \<Rightarrow> summary_state \<times> str \<times> str" where
  "summary_words required critical mixed_cadences spread =
     (if critical
      then (Sum_Critical, ''Critical reported event'',
            ''A publisher has reported a critical event. Reading times remain independent and are shown by data family.'')
      else if count_state Family_Unavailable required \<noteq> 0
      then (Sum_Unavailable, ''Core reading unavailable'',
            ''At least one required data family has no usable current reading.'')
      else if count_state Family_Stale required \<noteq> 0
      then (Sum_Stale, ''Some core readings are stale'',
            ''At least one required reading is beyond its source-specific stale threshold.'')
      else if count_state Family_Delayed required \<noteq> 0
      then (Sum_Delayed, ''Some core readings are delayed'',
            ''The source facts or their delivery are behind the expected timing for at least one required data family.'')
      else if mixed_cadences \<or> int_or spread 0 > 0
      then (Sum_Mixed, ''Current readings, mixed update times'',
            ''Generation, demand and carbon update on independent source cadences; this response is not a single synchronized measurement.'')
      else (Sum_Current, ''Core readings current'',
            ''All required families are within their source-specific current thresholds, but remain independently measured facts.''))"

definition present_freshness_summary ::
  "data_family_status list \<Rightarrow> bool \<Rightarrow> freshness_summary result" where
  "present_freshness_summary statuses critical =
     (case filter df_required_for_snapshot statuses of
        [] \<Rightarrow> Inl (ValueError ''Freshness summary requires at least one required family'')
      | first # others \<Rightarrow>
          let required = first # others;
              observed_times = somes (map df_observed_at required);
              oldest = min_time observed_times;
              newest = max_time observed_times;
              spread = (case (oldest, newest) of
                          (Some a, Some b) \<Rightarrow> Some (trunc (total_seconds (b - a))) | _ \<Rightarrow> None);
              mixed_cadences = length (remdups (map df_expected_cadence_seconds required)) > 1;
              (state, label, detail) = summary_words required critical mixed_cadences spread
          in validate_freshness_summary
               \<lparr>fs_state = state, fs_label = label, fs_detail = detail,
                fs_evaluated_at = df_evaluated_at first,
                fs_required_family_count = int (length required),
                fs_current_family_count = count_state Family_Current required,
                fs_delayed_family_count = count_state Family_Delayed required,
                fs_stale_family_count = count_state Family_Stale required,
                fs_unavailable_family_count = count_state Family_Unavailable required,
                fs_oldest_required_observed_at = oldest,
                fs_newest_required_observed_at = newest,
                fs_observation_spread_seconds = spread\<rparr>)"

section \<open>Supply accounting\<close>

record supply_accounting =
  sa_is_complete :: bool
  sa_generation_data_available :: bool
  sa_interconnector_data_available :: bool
  sa_domestic_generation_mw :: rat
  sa_gross_imports_mw :: rat
  sa_gross_exports_mw :: rat
  sa_net_imports_mw :: rat
  sa_storage_generation_mw :: rat
  sa_storage_charging_mw :: "rat option"
  sa_legacy_displayed_generation_mw :: rat

definition validate_supply_accounting :: "supply_accounting \<Rightarrow> supply_accounting result" where
  "validate_supply_accounting a =
     rbind (ensure (0 \<le> sa_domestic_generation_mw a) (ValueError ''domestic_generation_mw'')) (\<lambda>_.
     rbind (ensure (0 \<le> sa_gross_imports_mw a) (ValueError ''gross_imports_mw'')) (\<lambda>_.
     rbind (ensure (0 \<le> sa_gross_exports_mw a) (ValueError ''gross_exports_mw'')) (\<lambda>_.
     rbind (ensure (0 \<le> sa_storage_generation_mw a) (ValueError ''storage_generation_mw'')) (\<lambda>_.
     rbind (ensure (case sa_storage_charging_mw a of None \<Rightarrow> True | Some x \<Rightarrow> 0 \<le> x)
              (ValueError ''storage_charging_mw'')) (\<lambda>_.
     rbind (ensure (0 \<le> sa_legacy_displayed_generation_mw a)
              (ValueError ''legacy_displayed_generation_mw'')) (\<lambda>_.
     Inr a))))))"

definition present_supply_accounting :: "current_grid_read \<Rightarrow> supply_accounting result" where
  "present_supply_accounting read =
     (let domestic_generation = py_sum (map (\<lambda>i. max 0 (gr_megawatts i)) (cg_generation read));
          storage_generation = py_sum (map (\<lambda>i. max 0 (gr_megawatts i))
            (filter (\<lambda>i. gr_fuel_type i = ''pumped_storage'') (cg_generation read)));
          gross_imports = py_sum (map (\<lambda>i. max 0 (ir_megawatts i)) (cg_interconnectors read));
          gross_exports = py_sum (map (\<lambda>i. max 0 (- ir_megawatts i)) (cg_interconnectors read));
          net_imports = fsub gross_imports gross_exports;
          legacy_displayed = fadd domestic_generation (max 0 net_imports)
      in validate_supply_accounting
           \<lparr>sa_is_complete = False,
            sa_generation_data_available = (cg_generation read \<noteq> []),
            sa_interconnector_data_available = (cg_interconnectors read \<noteq> []),
            sa_domestic_generation_mw = py_round 1 domestic_generation,
            sa_gross_imports_mw = py_round 1 gross_imports,
            sa_gross_exports_mw = py_round 1 gross_exports,
            sa_net_imports_mw = py_round 1 net_imports,
            sa_storage_generation_mw = py_round 1 storage_generation,
            sa_storage_charging_mw = None,
            sa_legacy_displayed_generation_mw = py_round 1 legacy_displayed\<rparr>)"

section \<open>Source health\<close>

record source_metadata =
  sm_id :: str
  sm_provider :: str
  sm_dataset :: str
  sm_display_name :: str
  sm_documentation_url :: "str option"
  sm_licence_url :: "str option"
  sm_attribution :: "str option"
  sm_expected_cadence_seconds :: int
  sm_active :: bool

record source_run_summary =
  srs_source_id :: str
  srs_last_attempted_at :: "datetime option"
  srs_last_attempt_state :: "str option"
  srs_last_succeeded_at :: "datetime option"

datatype source_fact_state =
  Source_Live | Source_Delayed | Source_Stale | Source_Unavailable | Source_Not_Applicable

record source_health_status =
  sh_source_id :: str
  sh_publisher :: str
  sh_dataset :: str
  sh_display_name :: str
  sh_documentation_url :: "str option"
  sh_licence_url :: "str option"
  sh_attribution :: str
  sh_expected_fact_cadence_seconds :: int
  sh_delivery_state :: delivery_state
  sh_delivery_lag_seconds :: "int option"
  sh_last_attempted_at :: "datetime option"
  sh_last_attempt_state :: "str option"
  sh_last_succeeded_at :: "datetime option"
  sh_fact_state :: source_fact_state
  sh_fact_families :: "metric_family list"
  sh_observed_at :: "instant option"
  sh_valid_to :: "instant option"
  sh_fact_age_seconds :: "int option"
  sh_note :: str

text \<open>\<open>AwareDatetime | None\<close>\<close>

definition aware_or_none :: "datetime option \<Rightarrow> bool" where
  "aware_or_none t = (case t of Some (Naive _) \<Rightarrow> False | _ \<Rightarrow> True)"

definition validate_source_health :: "source_health_status \<Rightarrow> source_health_status result" where
  "validate_source_health s =
     rbind (ensure (0 < sh_expected_fact_cadence_seconds s) (ValueError ''expected_fact_cadence_seconds'')) (\<lambda>_.
     rbind (ensure (opt_ge 0 (sh_delivery_lag_seconds s)) (ValueError ''delivery_lag_seconds'')) (\<lambda>_.
     rbind (ensure (aware_or_none (sh_last_attempted_at s)) (ValueError ''last_attempted_at'')) (\<lambda>_.
     rbind (ensure (aware_or_none (sh_last_succeeded_at s)) (ValueError ''last_succeeded_at'')) (\<lambda>_.
     rbind (ensure (opt_ge 0 (sh_fact_age_seconds s)) (ValueError ''fact_age_seconds'')) (\<lambda>_.
     Inr s)))))"

definition CURRENT_SOURCE_FAMILIES :: "(str, metric_family list) dict" where
  "CURRENT_SOURCE_FAMILIES =
     [(''elexon.fuelinst'', [Generation, Interconnectors]),
      (''elexon.indo'', [Demand]),
      (''elexon.freq'', [Frequency]),
      (''neso.carbon-intensity-national'', [Carbon])]"

definition source_delivery_state :: "int \<Rightarrow> int option \<Rightarrow> delivery_state" where
  "source_delivery_state cadence_seconds lag_seconds =
     (case lag_seconds of
        None \<Rightarrow> Delivery_Unavailable
      | Some lag \<Rightarrow>
          let healthy_threshold = max (cadence_seconds * 2) 60;
              stale_threshold = max (cadence_seconds * 4) 300
          in if lag \<le> healthy_threshold then Healthy
             else if lag < stale_threshold then Delivery_Delayed
             else Delivery_Stale)"

fun fact_rank :: "fact_state \<Rightarrow> int" where
  "fact_rank Live = 0"
| "fact_rank Fact_Delayed = 1"
| "fact_rank Fact_Stale = 2"
| "fact_rank Fact_Unavailable = 3"

fun source_fact_of :: "fact_state \<Rightarrow> source_fact_state" where
  "source_fact_of Live = Source_Live"
| "source_fact_of Fact_Delayed = Source_Delayed"
| "source_fact_of Fact_Stale = Source_Stale"
| "source_fact_of Fact_Unavailable = Source_Unavailable"

definition fact_summary ::
  "data_family_status list \<Rightarrow> bool \<Rightarrow> source_fact_state \<times> instant option \<times> instant option \<times> int option" where
  "fact_summary statuses applicable =
     (if \<not> applicable then (Source_Not_Applicable, None, None, None)
      else case py_max (\<lambda>s. fact_rank (df_fact_state s)) statuses of
             None \<Rightarrow> (Source_Unavailable, None, None, None)
           | Some worst \<Rightarrow>
               (source_fact_of (df_fact_state worst),
                min_time (somes (map df_observed_at statuses)),
                min_time (somes (map df_valid_to statuses)),
                max_time (somes (map df_observation_age_seconds statuses))))"

definition source_age :: "instant \<Rightarrow> datetime \<Rightarrow> int result" where
  "source_age evaluated_at value =
     rbind (aware_utc ''source-health times must be timezone-aware'' value) (\<lambda>t.
     Inr (max 0 (trunc (total_seconds (evaluated_at - t)))))"

definition present_source ::
  "source_metadata \<Rightarrow> source_run_summary option \<Rightarrow> instant \<Rightarrow> data_family_status list
     \<Rightarrow> source_health_status result" where
  "present_source source run evaluated_at current_fact_statuses =
     (let last_succeeded = (case run of None \<Rightarrow> None | Some r \<Rightarrow> srs_last_succeeded_at r)
      in rbind (case last_succeeded of
                  None \<Rightarrow> Inr None
                | Some t \<Rightarrow> rbind (source_age evaluated_at t) (\<lambda>a. Inr (Some a))) (\<lambda>lag.
         let families = get_or CURRENT_SOURCE_FAMILIES (sm_id source) [];
             relevant = filter (\<lambda>s. df_family s \<in> set families) current_fact_statuses;
             (fact_state, observed_at, valid_to, fact_age) = fact_summary relevant (families \<noteq> [])
         in validate_source_health
              \<lparr>sh_source_id = sm_id source, sh_publisher = sm_provider source,
               sh_dataset = sm_dataset source, sh_display_name = sm_display_name source,
               sh_documentation_url = sm_documentation_url source,
               sh_licence_url = sm_licence_url source,
               sh_attribution =
                 (case sm_attribution source of
                    Some (c # cs) \<Rightarrow> c # cs
                  | _ \<Rightarrow> ''Data supplied by '' @ sm_display_name source @ ''.''),
               sh_expected_fact_cadence_seconds = sm_expected_cadence_seconds source,
               sh_delivery_state = source_delivery_state (sm_expected_cadence_seconds source) lag,
               sh_delivery_lag_seconds = lag,
               sh_last_attempted_at = (case run of None \<Rightarrow> None | Some r \<Rightarrow> srs_last_attempted_at r),
               sh_last_attempt_state = (case run of None \<Rightarrow> None | Some r \<Rightarrow> srs_last_attempt_state r),
               sh_last_succeeded_at = last_succeeded,
               sh_fact_state = fact_state, sh_fact_families = families,
               sh_observed_at = observed_at, sh_valid_to = valid_to, sh_fact_age_seconds = fact_age,
               sh_note = (if families \<noteq> []
                          then ''Delivery health and present-fact validity are evaluated separately.''
                          else ''This source does not directly supply a fact in the current grid view.'')\<rparr>))"

record source_health_response =
  shr_evaluated_at :: instant
  shr_source_count :: int
  shr_sources :: "source_health_status list"

definition build_source_health ::
  "source_metadata list \<Rightarrow> (str, source_run_summary) dict \<Rightarrow> datetime \<Rightarrow> data_family_status list option
     \<Rightarrow> source_health_response result" where
  "build_source_health sources runs evaluated_at current_fact_statuses =
     rbind (aware_utc ''source-health times must be timezone-aware'' evaluated_at) (\<lambda>instant.
     let statuses = (case current_fact_statuses of None \<Rightarrow> [] | Some s \<Rightarrow> s)
     in rbind (traverse (\<lambda>source. present_source source (lookup runs (sm_id source)) instant statuses)
                 (filter sm_active sources)) (\<lambda>presented.
        Inr \<lparr>shr_evaluated_at = instant, shr_source_count = int (length presented),
             shr_sources = presented\<rparr>))"

text \<open>The request time of the endpoint, floored to its cache bucket (app/source_health/api.py).\<close>

definition SOURCE_STATUS_CACHE_BUCKET_SECONDS :: int where
  "SOURCE_STATUS_CACHE_BUCKET_SECONDS = 30"

definition source_status_cache_time :: "datetime \<Rightarrow> instant result" where
  "source_status_cache_time value =
     rbind (aware_utc ''source status time must be timezone-aware'' value) (\<lambda>instant.
     let epoch = trunc (total_seconds instant);
         bucket = epoch - epoch mod SOURCE_STATUS_CACHE_BUCKET_SECONDS
     in Inr (bucket * second))"

text \<open>
  Combining the two run queries (app/source_health/repository.py): the last row of a source wins,
  and every public source gets a summary.
\<close>

record ingestion_run =
  ig_source_id :: str
  ig_started_at :: instant
  ig_completed_at :: "instant option"
  ig_status :: str

definition run_summaries ::
  "str list \<Rightarrow> ingestion_run list \<Rightarrow> ingestion_run list \<Rightarrow> (str, source_run_summary) dict" where
  "run_summaries source_ids latest successful =
     (let latest_by_source = foldl (\<lambda>d run. store d (ig_source_id run) run) [] latest;
          success_by_source = foldl (\<lambda>d run. store d (ig_source_id run) run) [] successful
      in foldl (\<lambda>d source_id. store d source_id
           \<lparr>srs_source_id = source_id,
            srs_last_attempted_at = map_option (\<lambda>r. Aware (ig_started_at r)) (lookup latest_by_source source_id),
            srs_last_attempt_state = map_option ig_status (lookup latest_by_source source_id),
            srs_last_succeeded_at =
              (case lookup success_by_source source_id of
                 None \<Rightarrow> None | Some r \<Rightarrow> map_option Aware (ig_completed_at r))\<rparr>) [] source_ids)"

section \<open>Lemmas on extremal times\<close>

lemma min_max_time_None [simp]: "min_time ts = None \<longleftrightarrow> ts = []" "max_time ts = None \<longleftrightarrow> ts = []"
  by (simp_all add: min_time_def max_time_def)

lemma min_max_time_Nil [simp]: "min_time [] = None" "max_time [] = None"
  by simp_all

lemma min_time_le: "min_time ts = Some m \<Longrightarrow> t \<in> set ts \<Longrightarrow> m \<le> t"
  unfolding min_time_def by (rule py_min_le)

lemma max_time_ge: "max_time ts = Some m \<Longrightarrow> t \<in> set ts \<Longrightarrow> t \<le> m"
  unfolding max_time_def by (rule py_max_ge)

lemma min_time_in: "min_time ts = Some m \<Longrightarrow> m \<in> set ts"
  unfolding min_time_def by (rule py_min_in)

lemma max_time_in: "max_time ts = Some m \<Longrightarrow> m \<in> set ts"
  unfolding max_time_def by (rule py_max_in)

lemma min_max_time:
  assumes "ts \<noteq> []" shows "\<exists>a b. min_time ts = Some a \<and> max_time ts = Some b \<and> a \<le> b"
proof -
  from assms obtain a b where ab: "min_time ts = Some a" "max_time ts = Some b"
    by (metis min_max_time_None not_None_eq)
  with min_time_le [OF ab(1) max_time_in [OF ab(2)]] show ?thesis by blast
qed

lemma age_seconds_nonneg [simp]: "0 \<le> age_seconds t u"
  by (simp add: age_seconds_def)

lemma age_seconds_mono: "t \<le> t' \<Longrightarrow> age_seconds t u \<le> age_seconds t' u"
  unfolding age_seconds_def by (intro max.mono trunc_mono total_seconds_mono) simp_all


lemma total_seconds_nonneg: "0 \<le> d \<Longrightarrow> 0 \<le> total_seconds d"
  using total_seconds_mono [of 0 d] by (simp add: total_seconds_def)

section \<open>Family status\<close>

lemma family_status_valid:
  assumes "validate_policy p = Inr ()" and "mp_metric_ids p \<noteq> []"
  shows "\<exists>s. family_status p ps t = Inr s \<and> df_family s = mp_family p
     \<and> df_required_for_snapshot s = mp_required_for_snapshot p \<and> df_evaluated_at s = t
     \<and> (ps = [] \<longrightarrow> df_fact_state s = Fact_Unavailable)
     \<and> (\<forall>o'. min_time (map rp_observed_at ps) = Some o' \<longrightarrow>
          df_fact_state s = policy_fact_state p (age_seconds t o'))"
proof (cases "ps = []")
  case True
  with assms show ?thesis
    by (auto simp: family_status_def validate_family_status_def validate_policy_def min_time_def py_min_def
        split: if_splits)
next
  case False
  then obtain a b where "min_time (map rp_observed_at ps) = Some a" "min_time (map rp_retrieved_at ps) = Some b"
    by (metis list.map_disc_iff min_max_time_None(1) not_None_eq)
  with assms False show ?thesis
    by (auto simp: family_status_def validate_family_status_def validate_policy_def Let_def split: if_splits)
qed

lemma policies_have_metrics: "list_all (\<lambda>p. mp_metric_ids p \<noteq> []) CURRENT_FAMILY_POLICIES"
  unfolding CURRENT_FAMILY_POLICIES_def list.pred_inject metric_freshness_policy.select_convs by simp

lemma policy_families:
  "map mp_family CURRENT_FAMILY_POLICIES = [Generation, Demand, Frequency, Interconnectors, Carbon]"
  "map mp_required_for_snapshot CURRENT_FAMILY_POLICIES = [True, True, False, False, True]"
  unfolding CURRENT_FAMILY_POLICIES_def list.map metric_freshness_policy.select_convs by simp_all

lemma traverse_ex:
  "(\<And>x. x \<in> set xs \<Longrightarrow> \<exists>y. f x = Inr y \<and> P x y) \<Longrightarrow> \<exists>ys. traverse f xs = Inr ys \<and> list_all2 P xs ys"
proof (induction xs)
  case (Cons x xs)
  then obtain ys where "traverse f xs = Inr ys" "list_all2 P xs ys" by auto
  moreover from Cons.prems obtain y where "f x = Inr y" "P x y" by auto
  ultimately show ?case by auto
qed simp

lemma traverse_Inr_in: "traverse f xs = Inr ys \<Longrightarrow> y \<in> set ys \<Longrightarrow> \<exists>x \<in> set xs. f x = Inr y"
  by (induction xs arbitrary: ys) (auto simp: res_simps)

lemma list_all2_maps:
  assumes "list_all2 (\<lambda>p s. f s = g p \<and> f' s = g' p \<and> Q s) ps ss"
  shows "map f ss = map g ps" "map f' ss = map g' ps" "\<forall>s \<in> set ss. Q s"
  using assms by (induction ps ss rule: list_all2_induct) auto

lemma data_status_valid:
  "\<exists>sts. present_data_status read = Inr sts
     \<and> list_all2 (\<lambda>p s. df_family s = mp_family p
         \<and> df_required_for_snapshot s = mp_required_for_snapshot p
         \<and> df_evaluated_at s = cg_requested_at read) CURRENT_FAMILY_POLICIES sts"
  unfolding present_data_status_def
proof (rule traverse_ex)
  fix p assume "p \<in> set CURRENT_FAMILY_POLICIES"
  with policies_valid policies_have_metrics have "validate_policy p = Inr ()" "mp_metric_ids p \<noteq> []"
    by (auto simp: list_all_iff)
  from family_status_valid [OF this] show
    "\<exists>s. family_status p (family_readings read (mp_family p)) (cg_requested_at read) = Inr s
       \<and> (df_family s = mp_family p \<and> df_required_for_snapshot s = mp_required_for_snapshot p
          \<and> df_evaluated_at s = cg_requested_at read)" by blast
qed

section \<open>Freshness summary\<close>

fun combined_severity :: "combined_state \<Rightarrow> int" where
  "combined_severity Family_Current = 0"
| "combined_severity Family_Delayed = 1"
| "combined_severity Family_Stale = 2"
| "combined_severity Family_Unavailable = 3"

fun summary_severity :: "summary_state \<Rightarrow> int" where
  "summary_severity Sum_Current = 0"
| "summary_severity Sum_Mixed = 0"
| "summary_severity Sum_Delayed = 1"
| "summary_severity Sum_Stale = 2"
| "summary_severity Sum_Unavailable = 3"
| "summary_severity Sum_Critical = 4"

lemma counts_partition:
  "count_state Family_Current ss + count_state Family_Delayed ss + count_state Family_Stale ss
     + count_state Family_Unavailable ss = int (length ss)"
proof (induction ss)
  case (Cons s ss)
  then show ?case by (cases "combined_family_state s") (simp_all add: count_state_def)
qed (simp add: count_state_def)

lemma count_state_zero: "count_state c ss = 0 \<longleftrightarrow> (\<forall>s \<in> set ss. combined_family_state s \<noteq> c)"
  by (auto simp: count_state_def filter_empty_conv)

lemma count_state_nonneg [simp]: "0 \<le> count_state c ss"
  by (simp add: count_state_def)

lemma count_state_Cons: "count_state c (s # ss) = (if combined_family_state s = c then 1 else 0) + count_state c ss"
  by (simp add: count_state_def)

lemma summary_words_severity:
  assumes "fst (summary_words req False mixed spread) = st" and "req \<noteq> []"
  shows "(\<forall>s \<in> set req. combined_severity (combined_family_state s) \<le> summary_severity st)
    \<and> (\<exists>s \<in> set req. combined_severity (combined_family_state s) = summary_severity st)"
proof -
  have sev: "combined_severity c \<le> summary_severity st"
    if "st = Sum_Unavailable \<or> st = Sum_Stale \<and> c \<noteq> Family_Unavailable
        \<or> st = Sum_Delayed \<and> c \<notin> {Family_Unavailable, Family_Stale}
        \<or> c = Family_Current \<and> st \<noteq> Sum_Critical" for c
    using that by (cases c; cases st) auto
  consider "count_state Family_Unavailable req \<noteq> 0" "st = Sum_Unavailable"
    | "count_state Family_Unavailable req = 0" "count_state Family_Stale req \<noteq> 0" "st = Sum_Stale"
    | "count_state Family_Unavailable req = 0" "count_state Family_Stale req = 0"
      "count_state Family_Delayed req \<noteq> 0" "st = Sum_Delayed"
    | "\<forall>s \<in> set req. combined_family_state s = Family_Current" "st = Sum_Mixed \<or> st = Sum_Current"
    using assms(1) combined_state.exhaust unfolding summary_words_def count_state_zero
    by (smt (verit, ccfv_threshold) fst_conv)
  then show ?thesis
  proof cases
    case 4
    with assms(2) show ?thesis by (cases req) auto
  qed (use sev in \<open>auto simp: count_state_zero intro!: bexI\<close>)
qed

lemma freshness_summary_total:
  assumes "filter df_required_for_snapshot sts = r # rs"
  shows "\<exists>f. present_freshness_summary sts critical = Inr f
    \<and> (\<exists>mixed spread. fs_state f = fst (summary_words (r # rs) critical mixed spread))
    \<and> fs_evaluated_at f = df_evaluated_at r
    \<and> fs_required_family_count f = int (length (r # rs))"
proof -
  define ts where "ts = somes (map df_observed_at (r # rs))"
  define spread where "spread = (case (min_time ts, max_time ts) of
     (Some a, Some b) \<Rightarrow> Some (trunc (total_seconds (b - a))) | _ \<Rightarrow> None)"
  define mixed where "mixed \<longleftrightarrow> length (remdups (map df_expected_cadence_seconds (r # rs))) > 1"
  obtain st label detail where w: "summary_words (r # rs) critical mixed spread = (st, label, detail)"
    by (metis prod_cases3)
  have sp: "(case min_time ts of None \<Rightarrow> None | Some a \<Rightarrow>
      (case max_time ts of None \<Rightarrow> None | Some b \<Rightarrow> Some (trunc (total_seconds (b - a))))) = spread"
    by (simp add: spread_def)
  have eq: "present_freshness_summary sts critical = validate_freshness_summary
       \<lparr>fs_state = st, fs_label = label, fs_detail = detail,
        fs_evaluated_at = df_evaluated_at r,
        fs_required_family_count = int (length (r # rs)),
        fs_current_family_count = count_state Family_Current (r # rs),
        fs_delayed_family_count = count_state Family_Delayed (r # rs),
        fs_stale_family_count = count_state Family_Stale (r # rs),
        fs_unavailable_family_count = count_state Family_Unavailable (r # rs),
        fs_oldest_required_observed_at = min_time ts,
        fs_newest_required_observed_at = max_time ts,
        fs_observation_spread_seconds = spread\<rparr>" (is "_ = validate_freshness_summary ?f")
    unfolding present_freshness_summary_def assms list.case Let_def ts_def [symmetric]
      mixed_def [symmetric] prod.case sp w ..
  have "validate_freshness_summary ?f = Inr ?f"
  proof (cases "ts = []")
    case True
    then show ?thesis
      using counts_partition [of "r # rs"] by (simp add: validate_freshness_summary_def spread_def)
  next
    case False
    from min_max_time [OF this] obtain a b where "min_time ts = Some a" "max_time ts = Some b" "a \<le> b"
      by blast
    then show ?thesis
      using counts_partition [of "r # rs"] trunc_nonneg [OF total_seconds_nonneg [of "b - a"]]
      by (simp add: validate_freshness_summary_def spread_def)
  qed
  with eq w show ?thesis
    by (auto intro!: exI [of _ mixed] exI [of _ spread])
qed

section \<open>Ageing\<close>

fun delivery_rank :: "delivery_state \<Rightarrow> int" where
  "delivery_rank Healthy = 0"
| "delivery_rank Delivery_Delayed = 1"
| "delivery_rank Delivery_Stale = 2"
| "delivery_rank Delivery_Unavailable = 3"

lemma policy_fact_state_mono:
  "a \<le> b \<Longrightarrow> fact_rank (policy_fact_state p a) \<le> fact_rank (policy_fact_state p b)"
  by (simp add: policy_fact_state_def)

lemma policy_delivery_state_mono:
  "a \<le> b \<Longrightarrow> delivery_rank (policy_delivery_state p a) \<le> delivery_rank (policy_delivery_state p b)"
  by (simp add: policy_delivery_state_def)

lemma validate_family_status_Inr:
  "validate_family_status d = Inr s \<Longrightarrow> s = d \<and> opt_ge 0 (df_observation_age_seconds d)"
  by (auto simp: validate_family_status_def res_simps Let_def split: if_splits)

lemma family_status_states:
  assumes "family_status p ps t = Inr s"
  shows "if ps = [] then df_fact_state s = Fact_Unavailable \<and> df_delivery_state s = Delivery_Unavailable
    else df_fact_state s = policy_fact_state p (age_seconds t (the (min_time (map rp_observed_at ps))))
      \<and> df_delivery_state s = policy_delivery_state p (age_seconds t (the (min_time (map rp_retrieved_at ps))))"
proof (cases "ps = []")
  case False
  then obtain a b where "min_time (map rp_observed_at ps) = Some a" "min_time (map rp_retrieved_at ps) = Some b"
    by (metis list.map_disc_iff min_max_time_None(1) not_None_eq)
  with assms False show ?thesis
    by (auto simp: family_status_def Let_def dest!: validate_family_status_Inr)
qed (use assms in \<open>auto simp: family_status_def dest!: validate_family_status_Inr\<close>)

section \<open>Exact sums\<close>

lemma neumaier_whole:
  assumes "0 \<le> s" and "\<forall>n \<in> set ns. 0 \<le> n" and "s + sum_list ns < 2 ^ 53"
  shows "neumaier (of_int s) 0 (map of_int ns) = of_int (s + sum_list ns)"
  using assms
proof (induction ns arbitrary: s)
  case Nil
  then show ?case by (simp add: fadd_def fl_of_int)
next
  case (Cons n ns)
  then have ns: "0 \<le> sum_list ns" by (intro sum_list_nonneg) auto
  with Cons.prems have b: "0 \<le> n" "s + n < 2 ^ 53" "n < 2 ^ 53" "s < 2 ^ 53" by auto
  have "fadd (of_int s) (of_int n) = of_int (s + n)"
    unfolding fadd_def of_int_add [symmetric] using b Cons.prems(1) by (intro fl_of_int) simp
  moreover have "fsub (of_int s) (of_int (s + n)) = of_int (- n)"
    unfolding fsub_def of_int_diff [symmetric] using b fl_of_int [of "- n"] by simp
  moreover have "fsub (of_int n) (of_int (s + n)) = of_int (- s)"
    unfolding fsub_def of_int_diff [symmetric] using b Cons.prems(1) fl_of_int [of "- s"] by simp
  ultimately show ?case
    using Cons.IH [of "s + n"] Cons.prems b by (simp add: Let_def fadd_def add.assoc)
qed

lemma py_sum_whole:
  "\<forall>n \<in> set ns. 0 \<le> n \<Longrightarrow> sum_list ns < 2 ^ 53 \<Longrightarrow> py_sum (map of_int ns) = of_int (sum_list ns)"
  using neumaier_whole [of 0 ns] by (simp add: py_sum_def)

lemma py_round_whole: "\<bar>n\<bar> < 2 ^ 53 \<Longrightarrow> py_round 1 (of_int n) = of_int n"
proof -
  have "of_int n * 10 ^ 1 = (of_int (n * 10) :: rat)" by simp
  then have "round_half_even (of_int n * 10 ^ 1 :: rat) = n * 10" by (simp only: round_half_even_of_int)
  then show "\<bar>n\<bar> < 2 ^ 53 \<Longrightarrow> py_round 1 (of_int n) = of_int n" by (simp add: py_round_def fl_of_int)
qed

lemma sum_max_le: "sum_list (map (max 0) ns) \<le> sum_list (map abs ns)" for ns :: "int list"
  by (induction ns) auto

lemma sum_max_minus:
  "sum_list (map (max 0) ns) - sum_list (map (\<lambda>n. max 0 (- n)) ns) = sum_list ns" for ns :: "int list"
  by (induction ns) (auto simp: max_def)

lemma sum_max_minus_le: "sum_list (map (\<lambda>n. max 0 (- n)) ns) \<le> sum_list (map abs ns)" for ns :: "int list"
  by (induction ns) auto

lemma abs_sum_le: "\<bar>sum_list ns\<bar> \<le> sum_list (map abs ns)" for ns :: "int list"
  by (induction ns) auto

lemma map_int_filter:
  "map f xs = map of_int gs \<Longrightarrow> \<exists>ns. map f (filter P xs) = map of_int ns
     \<and> sum_list (map (max 0) ns) \<le> sum_list (map (max 0) gs)" for f :: "'a \<Rightarrow> rat"
proof (induction xs arbitrary: gs)
  case (Cons x xs)
  then obtain g gs' where gs: "gs = g # gs'" "f x = of_int g" "map f xs = map of_int gs'"
    by (cases gs) auto
  with Cons.IH obtain ns where ns: "map f (filter P xs) = map of_int ns"
    "sum_list (map (max 0) ns) \<le> sum_list (map (max 0) gs')" by blast
  show ?case
  proof (cases "P x")
    case True
    with ns gs show ?thesis by (intro exI [of _ "g # ns"]) simp
  next
    case False
    with ns gs show ?thesis by (intro exI [of _ ns]) simp
  qed
qed simp

lemma sum_pos_whole:
  assumes "map f xs = map of_int ns" and "sum_list (map (max 0) ns) < 2 ^ 53"
  shows "py_sum (map (\<lambda>i. max 0 (f i)) xs) = of_int (sum_list (map (max 0) ns))"
proof -
  have "map (\<lambda>i. max 0 (f i)) xs = map of_int (map (max 0) ns)"
    using arg_cong [OF assms(1), of "map (max 0)"] by (simp add: comp_def of_int_max)
  with assms(2) py_sum_whole [of "map (max 0) ns"] show ?thesis by simp
qed

section \<open>Source health\<close>

lemma source_families_nonempty:
  "get_or CURRENT_SOURCE_FAMILIES k [] = [] \<longleftrightarrow> lookup CURRENT_SOURCE_FAMILIES k = None"
  by (simp add: CURRENT_SOURCE_FAMILIES_def)

lemma source_fact_of_not_applicable [simp]: "source_fact_of f \<noteq> Source_Not_Applicable"
  by (cases f) auto

lemma fact_summary_shape:
  assumes "\<forall>s \<in> set sts. opt_ge 0 (df_observation_age_seconds s)"
    and "fact_summary sts applicable = (st, ob, vt, age)"
  shows "(st = Source_Not_Applicable \<longleftrightarrow> \<not> applicable) \<and> opt_ge 0 age"
proof -
  have "0 \<le> a" if "max_time (somes (map df_observation_age_seconds sts)) = Some a" for a
    using max_time_in [OF that] assms(1) by (auto simp: somes_def) (metis opt_ge.simps(2))
  then have "opt_ge 0 (max_time (somes (map df_observation_age_seconds sts)))"
    by (cases "max_time (somes (map df_observation_age_seconds sts))") auto
  with assms(2) show ?thesis by (auto simp: fact_summary_def split: if_splits option.splits)
qed

lemma delivery_unavailable_iff: "source_delivery_state c lag = Delivery_Unavailable \<longleftrightarrow> lag = None"
  by (auto simp: source_delivery_state_def Let_def split: option.split)

lemma present_source_ok:
  assumes "0 < sm_expected_cadence_seconds s"
    and "\<forall>r. run = Some r \<longrightarrow> aware_or_none (srs_last_attempted_at r) \<and> aware_or_none (srs_last_succeeded_at r)"
    and "\<forall>s \<in> set sts. opt_ge 0 (df_observation_age_seconds s)"
  shows "\<exists>h. present_source s run t sts = Inr h \<and> (sh_source_id h = sm_id s
    \<and> (sh_delivery_state h = Delivery_Unavailable \<longleftrightarrow>
         (case run of None \<Rightarrow> True | Some r \<Rightarrow> srs_last_succeeded_at r = None))
    \<and> (sh_fact_state h = Source_Not_Applicable \<longleftrightarrow> lookup CURRENT_SOURCE_FAMILIES (sm_id s) = None))"
proof -
  define fam where "fam = get_or CURRENT_SOURCE_FAMILIES (sm_id s) []"
  define rel where "rel = filter (\<lambda>s. df_family s \<in> set fam) sts"
  obtain st ob vt age where f: "fact_summary rel (fam \<noteq> []) = (st, ob, vt, age)" by (metis prod_cases4)
  have shape: "(st = Source_Not_Applicable \<longleftrightarrow> fam = []) \<and> opt_ge 0 age"
    using fact_summary_shape [OF _ f] assms(3) by (auto simp: rel_def)
  define last where "last = (case run of None \<Rightarrow> None | Some r \<Rightarrow> srs_last_succeeded_at r)"
  have "aware_or_none last" using assms(2) by (auto simp: last_def aware_or_none_def split: option.split)
  then obtain lag where lag: "(case last of None \<Rightarrow> Inr None
      | Some t' \<Rightarrow> rbind (source_age t t') (\<lambda>a. Inr (Some a))) = Inr lag"
    "opt_ge 0 lag" "lag = None \<longleftrightarrow> last = None"
    by (auto simp: aware_or_none_def source_age_def split: option.splits datetime.splits)
  have a: "aware_or_none (case run of None \<Rightarrow> None | Some r \<Rightarrow> srs_last_attempted_at r)"
    using assms(2) by (auto simp: aware_or_none_def split: option.split)
  show ?thesis
    unfolding present_source_def Let_def last_def [symmetric] fam_def [symmetric] rel_def [symmetric]
      f lag(1) rbind_Inr prod.case
    using shape lag(2,3) a \<open>aware_or_none last\<close> assms(1)
    by (auto simp: validate_source_health_def delivery_unavailable_iff last_def fam_def
        source_families_nonempty split: option.split)
qed

lemma data_status_ages:
  assumes "present_data_status read = Inr sts"
  shows "\<forall>s \<in> set sts. opt_ge 0 (df_observation_age_seconds s)"
proof
  fix s assume "s \<in> set sts"
  from traverse_Inr_in [OF assms [unfolded present_data_status_def] this] obtain p
    where "family_status p (family_readings read (mp_family p)) (cg_requested_at read) = Inr s" by auto
  then show "opt_ge 0 (df_observation_age_seconds s)"
    by (auto simp: family_status_def Let_def dest!: validate_family_status_Inr split: option.splits)
qed

section \<open>Properties\<close>

text \<open>C19: whatever was read, the current-grid presenter reports the five families in registry order
  and its freshness summary without an error, although both response models are validated; a
  critical event overrides the state, and otherwise the state is as bad as the worst fact or
  delivery state of the required families.\<close>

theorem freshness_summary_worst:
  "\<exists>sts f. present_data_status read = Inr sts
     \<and> map df_family sts = [Generation, Demand, Frequency, Interconnectors, Carbon]
     \<and> present_freshness_summary sts critical = Inr f
     \<and> fs_evaluated_at f = cg_requested_at read
     \<and> (if critical then fs_state f = Sum_Critical
        else summary_severity (fs_state f) =
          Max (set (map (\<lambda>s. max (fact_rank (df_fact_state s)) (delivery_rank (df_delivery_state s)))
                 (filter df_required_for_snapshot sts))))"
proof -
  have worst: "combined_severity (combined_family_state s)
      = max (fact_rank (df_fact_state s)) (delivery_rank (df_delivery_state s))" for s
    by (cases "df_fact_state s"; cases "df_delivery_state s") (simp_all add: combined_family_state_def)
  obtain sts where sts: "present_data_status read = Inr sts"
    and a2: "list_all2 (\<lambda>p s. df_family s = mp_family p
         \<and> df_required_for_snapshot s = mp_required_for_snapshot p
         \<and> df_evaluated_at s = cg_requested_at read) CURRENT_FAMILY_POLICIES sts"
    using data_status_valid by blast
  have fam: "map df_family sts = [Generation, Demand, Frequency, Interconnectors, Carbon]"
    and req: "map df_required_for_snapshot sts = [True, True, False, False, True]"
    and at: "\<forall>s \<in> set sts. df_evaluated_at s = cg_requested_at read"
    using list_all2_maps [OF a2] policy_families by auto
  from req obtain r rs where rs: "filter df_required_for_snapshot sts = r # rs" "r \<in> set sts"
    by (cases sts) auto
  obtain f mixed spread where f: "present_freshness_summary sts critical = Inr f"
    "fs_state f = fst (summary_words (r # rs) critical mixed spread)" "fs_evaluated_at f = df_evaluated_at r"
    using freshness_summary_total [OF rs(1), of critical] by blast
  have "summary_severity (fs_state f) =
      Max (set (map (combined_severity \<circ> combined_family_state) (r # rs)))" if "\<not> critical"
  proof (rule Max_eqI [symmetric])
    from summary_words_severity [of "r # rs" mixed spread "fs_state f"] that f(2)
    have "(\<forall>s \<in> set (r # rs). combined_severity (combined_family_state s) \<le> summary_severity (fs_state f))
      \<and> (\<exists>s \<in> set (r # rs). combined_severity (combined_family_state s) = summary_severity (fs_state f))"
      by simp
    then show "summary_severity (fs_state f) \<in> set (map (combined_severity \<circ> combined_family_state) (r # rs))"
      "\<And>y. y \<in> set (map (combined_severity \<circ> combined_family_state) (r # rs)) \<Longrightarrow> y \<le> summary_severity (fs_state f)"
      by force+
  qed simp
  moreover have "fs_state f = Sum_Critical" if critical using that f(2) by (simp add: summary_words_def)
  ultimately show ?thesis using sts fam f(1,3) at rs by (intro exI [of _ sts] exI [of _ f]) (simp add: comp_def worst)
qed

text \<open>While the readings stay the same, time only worsens a family's state: neither its fact
  state nor its delivery state is better at a later evaluation.\<close>

theorem family_status_worsens:
  assumes "family_status p ps t = Inr s" and "family_status p ps t' = Inr s'" and "t \<le> t'"
  shows "fact_rank (df_fact_state s) \<le> fact_rank (df_fact_state s')
    \<and> delivery_rank (df_delivery_state s) \<le> delivery_rank (df_delivery_state s')"
  using family_status_states [OF assms(1)] family_status_states [OF assms(2)]
    policy_fact_state_mono [OF age_seconds_mono [OF assms(3)]]
    policy_delivery_state_mono [OF age_seconds_mono [OF assms(3)]]
  by (cases "ps = []") auto

definition example_provenance :: read_provenance where
  "example_provenance = \<lparr>rp_source_id = ''elexon.indo'', rp_source_record_id = None, rp_observed_at = 0,
     rp_published_at = None, rp_retrieved_at = 0, rp_revision = 0\<rparr>"

theorem family_status_worsens_witness:
  "\<exists>s s'. family_status (CURRENT_FAMILY_POLICIES ! 1) [example_provenance] 0 = Inr s
     \<and> family_status (CURRENT_FAMILY_POLICIES ! 1) [example_provenance] (hour * 3) = Inr s'
     \<and> fact_rank (df_fact_state s) \<le> fact_rank (df_fact_state s')"
proof -
  have "length CURRENT_FAMILY_POLICIES = 5" using arg_cong [OF policy_families(1), of length] by simp
  then have "CURRENT_FAMILY_POLICIES ! 1 \<in> set CURRENT_FAMILY_POLICIES" by (intro nth_mem) simp
  then have p: "validate_policy (CURRENT_FAMILY_POLICIES ! 1) = Inr ()"
    "mp_metric_ids (CURRENT_FAMILY_POLICIES ! 1) \<noteq> []"
    using policies_valid policies_have_metrics by (auto simp: list_all_iff)
  obtain s where s: "family_status (CURRENT_FAMILY_POLICIES ! 1) [example_provenance] 0 = Inr s"
    using family_status_valid [OF p, of "[example_provenance]" 0] by (elim exE conjE)
  obtain s' where s': "family_status (CURRENT_FAMILY_POLICIES ! 1) [example_provenance] (hour * 3) = Inr s'"
    using family_status_valid [OF p, of "[example_provenance]" "hour * 3"] by (elim exE conjE)
  have "0 \<le> hour * 3" by (simp add: time_defs)
  from family_status_worsens [OF s s' this, THEN conjunct1] s s' show ?thesis by (intro exI conjI)
qed



text \<open>The source-health endpoint answers for every active source, in order, without an
  error; delivery is unavailable exactly for a source that never succeeded, and the fact state is
  not applicable exactly for a source that supplies no current family.\<close>

theorem source_health_reports_active:
  assumes "\<forall>s \<in> set sources. 0 < sm_expected_cadence_seconds s"
    and "\<forall>(k, r) \<in> set runs. aware_or_none (srs_last_attempted_at r) \<and> aware_or_none (srs_last_succeeded_at r)"
    and "present_data_status read = Inr sts"
  shows "\<exists>resp. build_source_health sources runs (Aware t) (Some sts) = Inr resp
    \<and> shr_source_count resp = int (length (filter sm_active sources))
    \<and> list_all2 (\<lambda>s h. sh_source_id h = sm_id s
        \<and> (sh_delivery_state h = Delivery_Unavailable \<longleftrightarrow>
             (case lookup runs (sm_id s) of None \<Rightarrow> True | Some r \<Rightarrow> srs_last_succeeded_at r = None))
        \<and> (sh_fact_state h = Source_Not_Applicable \<longleftrightarrow>
             lookup CURRENT_SOURCE_FAMILIES (sm_id s) = None))
      (filter sm_active sources) (shr_sources resp)"
proof -
  have ages: "\<forall>s \<in> set sts. opt_ge 0 (df_observation_age_seconds s)"
    using assms(3) by (rule data_status_ages)
  have "\<exists>hs. traverse (\<lambda>source. present_source source (lookup runs (sm_id source)) t sts)
       (filter sm_active sources) = Inr hs
     \<and> list_all2 (\<lambda>s h. sh_source_id h = sm_id s
        \<and> (sh_delivery_state h = Delivery_Unavailable \<longleftrightarrow>
             (case lookup runs (sm_id s) of None \<Rightarrow> True | Some r \<Rightarrow> srs_last_succeeded_at r = None))
        \<and> (sh_fact_state h = Source_Not_Applicable \<longleftrightarrow>
             lookup CURRENT_SOURCE_FAMILIES (sm_id s) = None)) (filter sm_active sources) hs"
  proof (rule traverse_ex)
    fix s assume "s \<in> set (filter sm_active sources)"
    with assms(1) have "0 < sm_expected_cadence_seconds s" by simp
    moreover have "\<forall>r. lookup runs (sm_id s) = Some r \<longrightarrow>
        aware_or_none (srs_last_attempted_at r) \<and> aware_or_none (srs_last_succeeded_at r)"
      using assms(2) by (auto dest: map_of_SomeD)
    ultimately show "\<exists>h. present_source s (lookup runs (sm_id s)) t sts = Inr h \<and> (sh_source_id h = sm_id s
        \<and> (sh_delivery_state h = Delivery_Unavailable \<longleftrightarrow>
             (case lookup runs (sm_id s) of None \<Rightarrow> True | Some r \<Rightarrow> srs_last_succeeded_at r = None))
        \<and> (sh_fact_state h = Source_Not_Applicable \<longleftrightarrow>
             lookup CURRENT_SOURCE_FAMILIES (sm_id s) = None))"
      using ages by (rule present_source_ok)
  qed
  then show ?thesis by (auto simp: build_source_health_def traverse_length)
qed

definition example_source :: source_metadata where
  "example_source = \<lparr>sm_id = ''elexon.indo'', sm_provider = ''elexon'', sm_dataset = ''INDO'',
     sm_display_name = ''Demand'', sm_documentation_url = None, sm_licence_url = None,
     sm_attribution = None, sm_expected_cadence_seconds = 1800, sm_active = True\<rparr>"

definition example_run :: source_run_summary where
  "example_run = \<lparr>srs_source_id = ''elexon.indo'', srs_last_attempted_at = Some (Aware 0),
     srs_last_attempt_state = None, srs_last_succeeded_at = Some (Aware 0)\<rparr>"

theorem source_health_witness:
  "\<exists>sts resp. build_source_health [example_source] [(''elexon.indo'', example_run)] (Aware hour) (Some sts)
       = Inr resp \<and> shr_source_count resp = 1"
proof -
  obtain sts where sts: "present_data_status \<lparr>cg_requested_at = 0, cg_generation = [], cg_demand = None,
      cg_frequency = None, cg_interconnectors = [], cg_carbon = None\<rparr> = Inr sts"
    using data_status_valid by blast
  have "\<forall>s \<in> set [example_source]. 0 < sm_expected_cadence_seconds s"
    "\<forall>(k, r) \<in> set [(''elexon.indo'', example_run)].
       aware_or_none (srs_last_attempted_at r) \<and> aware_or_none (srs_last_succeeded_at r)"
    by (simp_all add: example_source_def example_run_def aware_or_none_def)
  from source_health_reports_active [OF this sts, of hour] show ?thesis
    by (auto simp: example_source_def)
qed

text \<open>Until the year 2106 the cache bucket of the source-status endpoint is the last multiple
  of thirty seconds not after the request, in spite of the floating-point timestamp.\<close>

theorem source_status_bucket:
  assumes "0 \<le> t" and "t < 2 ^ 32 * second"
  shows "source_status_cache_time (Aware t) = Inr ((t div (30 * second)) * (30 * second))"
proof -
  have "t div second < 2 ^ 32" using assms by (simp add: time_defs div_less_iff_less_mult)
  with trunc_int_div_bits [of t second 20] assms(1)
  have "trunc (total_seconds t) = t div second" by (simp add: total_seconds_def time_defs)
  moreover have "n - n mod 30 = (n div 30) * 30" for n :: int by (simp add: minus_mod_eq_div_mult)
  moreover have "t div second div 30 = t div (30 * second)"
    by (simp add: time_defs div_mult2_eq [symmetric] zdiv_zmult2_eq [symmetric])
  ultimately show ?thesis
    by (simp add: source_status_cache_time_def SOURCE_STATUS_CACHE_BUCKET_SECONDS_def)
qed

theorem source_status_bucket_witness:
  "source_status_cache_time (Aware (1752000044 * second + 7)) = Inr (1752000030 * second)"
  by (subst source_status_bucket) (simp_all add: time_defs)

end
