(* ===== verification/Rate_Limit.thy ===== *)
theory Rate_Limit
  imports Py_Text
begin

text \<open>
  Burst protection of the public endpoints (app/rate_limit.py).  The state of the middleware is
  the two tables of call times, per policy and per policy and client; a table is a dict from its
  key to the deque of the times still inside the window, oldest first.  One request is one call of
  \<open>rate_limit_call\<close> with the clock reading it took; the asyncio lock serialises them, so a run is
  a list of requests.  The theorems show that the deques implement a sliding-window count over the
  log of admitted calls.
\<close>

section \<open>Policies\<close>

record rate_limit_policy =
  rl_method :: str
  rl_path_prefix :: str
  rl_per_client :: int
  rl_global_limit :: int
  rl_window_seconds :: int

text \<open>The dataclass with its check.\<close>

definition mk_policy :: "str \<Rightarrow> str \<Rightarrow> int \<Rightarrow> int \<Rightarrow> int \<Rightarrow> rate_limit_policy result" where
  "mk_policy method path_prefix per_client global_limit window_seconds =
     (if per_client \<le> 0 \<or> global_limit \<le> 0 \<or> window_seconds \<le> 0
      then Inl (ValueError ''rate-limit values must be positive'')
      else Inr \<lparr>rl_method = method, rl_path_prefix = path_prefix, rl_per_client = per_client,
                rl_global_limit = global_limit, rl_window_seconds = window_seconds\<rparr>)"

definition policy_ok :: "rate_limit_policy \<Rightarrow> bool" where
  "policy_ok p \<longleftrightarrow> 0 < rl_per_client p \<and> 0 < rl_global_limit p \<and> 0 < rl_window_seconds p"

definition DEFAULT_POLICIES :: "rate_limit_policy list" where
  "DEFAULT_POLICIES =
     [\<lparr>rl_method = ''POST'', rl_path_prefix = ''/v1/ask'', rl_per_client = 6,
       rl_global_limit = 30, rl_window_seconds = 60\<rparr>,
      \<lparr>rl_method = ''GET'', rl_path_prefix = ''/v1/events/'', rl_per_client = 12,
       rl_global_limit = 60, rl_window_seconds = 60\<rparr>,
      \<lparr>rl_method = ''GET'', rl_path_prefix = ''/v1/regions/'', rl_per_client = 30,
       rl_global_limit = 120, rl_window_seconds = 60\<rparr>,
      \<lparr>rl_method = ''GET'', rl_path_prefix = ''/v1/grid/timeline'', rl_per_client = 60,
       rl_global_limit = 300, rl_window_seconds = 60\<rparr>,
      \<lparr>rl_method = ''GET'', rl_path_prefix = ''/v1/export'', rl_per_client = 6,
       rl_global_limit = 30, rl_window_seconds = 60\<rparr>,
      \<lparr>rl_method = ''GET'', rl_path_prefix = ''/v1/briefing/today'', rl_per_client = 30,
       rl_global_limit = 120, rl_window_seconds = 60\<rparr>,
      \<lparr>rl_method = ''GET'', rl_path_prefix = ''/v1/sources/status'', rl_per_client = 30,
       rl_global_limit = 120, rl_window_seconds = 60\<rparr>,
      \<lparr>rl_method = ''GET'', rl_path_prefix = ''/v1/forecasts/verification'', rl_per_client = 12,
       rl_global_limit = 60, rl_window_seconds = 60\<rparr>,
      \<lparr>rl_method = ''GET'', rl_path_prefix = ''/v1/game/'', rl_per_client = 12,
       rl_global_limit = 60, rl_window_seconds = 60\<rparr>]"

section \<open>Requests\<close>

text \<open>The ASGI scope: the headers in order; the client as the string forms of its items.\<close>

record scope =
  sc_type :: str
  sc_method :: str
  sc_path :: str
  sc_headers :: "(str \<times> str) list"
  sc_client :: "str list option"

fun find_policy :: "rate_limit_policy list \<Rightarrow> str \<Rightarrow> str \<Rightarrow> rate_limit_policy option" where
  "find_policy [] method path = None"
| "find_policy (p # ps) method path =
     (if method = rl_method p \<and> starts_with path (rl_path_prefix p)
      then (if rl_path_prefix p = ''/v1/events/'' \<and> \<not> ends_with path ''/explanation''
            then find_policy ps method path
            else if rl_path_prefix p = ''/v1/game/'' \<and> \<not> ends_with path ''/resolution''
            then find_policy ps method path
            else Some p)
      else find_policy ps method path)"

definition scope_policy :: "rate_limit_policy list \<Rightarrow> scope \<Rightarrow> rate_limit_policy option" where
  "scope_policy policies sc =
     (if sc_type sc \<noteq> ''http'' then None
      else find_policy policies (sc_method sc) (sc_path sc))"

fun header_or_empty :: "(str \<times> str) list \<Rightarrow> str \<Rightarrow> str" where
  "header_or_empty [] name = ''''"
| "header_or_empty ((key, value) # hs) name =
     (if lower key = name then value else header_or_empty hs name)"

definition client_key :: "scope \<Rightarrow> str" where
  "client_key sc =
     (let real_ip = header_or_empty (sc_headers sc) ''x-real-ip''; candidate = strip real_ip
      in if candidate \<noteq> [] then take 128 candidate
         else
           let forwarded_for = header_or_empty (sc_headers sc) ''x-forwarded-for'';
               first = strip (takeWhile (\<lambda>c. c \<noteq> CHR '','') forwarded_for)
           in if forwarded_for \<noteq> [] \<and> first \<noteq> [] then take 128 first
              else case sc_client sc of
                     Some (c # _) \<Rightarrow> take 128 c
                   | _ \<Rightarrow> ''unknown'')"

section \<open>Claiming a call\<close>

record limiter =
  lim_global :: "(rate_limit_policy, rat list) dict"
  lim_clients :: "(rate_limit_policy \<times> str, rat list) dict"

definition empty_limiter :: limiter where
  "empty_limiter = \<lparr>lim_global = [], lim_clients = []\<rparr>"

definition discard_before :: "rat \<Rightarrow> rat list \<Rightarrow> rat list" where
  "discard_before cutoff values = dropWhile (\<lambda>v. v \<le> cutoff) values"

text \<open>The sweep over all clients once the table has more than 1024 entries.\<close>

definition sweep ::
  "rat \<Rightarrow> (rate_limit_policy \<times> str, rat list) dict \<Rightarrow> (rate_limit_policy \<times> str, rat list) dict" where
  "sweep cutoff clients =
     (if length clients > 1024
      then filter (\<lambda>(k, calls). calls \<noteq> [])
             (map (\<lambda>(k, calls). (k, discard_before cutoff calls)) clients)
      else clients)"

definition claim ::
  "limiter \<Rightarrow> rate_limit_policy \<Rightarrow> str \<Rightarrow> rat \<Rightarrow> limiter \<times> int option" where
  "claim s policy client now =
     (let window = of_int (rl_window_seconds policy);
          cutoff = fsub now window;
          clients = sweep cutoff (lim_clients s);
          global_calls = discard_before cutoff (get_or (lim_global s) policy []);
          client_calls = discard_before cutoff (get_or clients (policy, client) []);
          blocking_expirations =
            (if rl_global_limit policy \<le> int (length global_calls)
             then [fadd (hd global_calls) window] else [])
            @ (if rl_per_client policy \<le> int (length client_calls)
               then [fadd (hd client_calls) window] else [])
      in case py_max (\<lambda>x. x) blocking_expirations of
           Some retry_at \<Rightarrow>
             (\<lparr>lim_global = store (lim_global s) policy global_calls,
               lim_clients = store clients (policy, client) client_calls\<rparr>,
              Some (max 1 \<lceil>fsub retry_at now\<rceil>))
         | None \<Rightarrow>
             (\<lparr>lim_global = store (lim_global s) policy (global_calls @ [now]),
               lim_clients = store clients (policy, client) (client_calls @ [now])\<rparr>,
              None))"

text \<open>What the middleware does with a request: hand it on, or answer it with 429.\<close>

datatype verdict = Forwarded | Rejected (reject_status: int) (reject_headers: "(str \<times> str) list") (reject_body: str)

definition too_many_body :: str where
  "too_many_body = ''{\"detail\": \"Too many requests\"}''"

definition rate_limit_call ::
  "rate_limit_policy list \<Rightarrow> limiter \<Rightarrow> scope \<Rightarrow> rat \<Rightarrow> limiter \<times> verdict" where
  "rate_limit_call policies s sc now =
     (case scope_policy policies sc of
        None \<Rightarrow> (s, Forwarded)
      | Some policy \<Rightarrow>
          (case claim s policy (client_key sc) now of
             (s', Some retry_after) \<Rightarrow>
               (s', Rejected 429
                  [(''content-type'', ''application/json''),
                   (''content-length'', str_of_int (int (length too_many_body))),
                   (''retry-after'', str_of_int retry_after)]
                  too_many_body)
           | (s', None) \<Rightarrow> (s', Forwarded)))"

section \<open>The specification: a count over the log of admitted calls\<close>

type_synonym call_log = "(rate_limit_policy \<times> str \<times> rat) list"

definition policy_times :: "call_log \<Rightarrow> rate_limit_policy \<Rightarrow> rat list" where
  "policy_times hist p = [t. (q, c, t) \<leftarrow> hist, q = p]"

definition client_times :: "call_log \<Rightarrow> rate_limit_policy \<times> str \<Rightarrow> rat list" where
  "client_times hist k = [t. (q, c, t) \<leftarrow> hist, (q, c) = k]"

definition recent :: "rate_limit_policy \<Rightarrow> rat \<Rightarrow> rat list \<Rightarrow> rat list" where
  "recent p now ts = filter (\<lambda>t. fsub now (of_int (rl_window_seconds p)) < t) ts"

definition admissible :: "call_log \<Rightarrow> rate_limit_policy \<Rightarrow> str \<Rightarrow> rat \<Rightarrow> bool" where
  "admissible hist p c now \<longleftrightarrow>
     int (length (recent p now (policy_times hist p))) < rl_global_limit p
     \<and> int (length (recent p now (client_times hist (p, c)))) < rl_per_client p"

text \<open>A run: each request with its policy, client and clock reading; the log grows by the
  admitted ones.\<close>

fun run_claims :: "limiter \<times> call_log \<Rightarrow> (rate_limit_policy \<times> str \<times> rat) list \<Rightarrow> limiter \<times> call_log" where
  "run_claims sl [] = sl"
| "run_claims (s, hist) ((p, c, now) # rs) =
     (case claim s p c now of
        (s', None) \<Rightarrow> run_claims (s', hist @ [(p, c, now)]) rs
      | (s', Some _) \<Rightarrow> run_claims (s', hist) rs)"

fun spec_log :: "call_log \<Rightarrow> (rate_limit_policy \<times> str \<times> rat) list \<Rightarrow> call_log" where
  "spec_log hist [] = hist"
| "spec_log hist ((p, c, now) # rs) =
     spec_log (if admissible hist p c now then hist @ [(p, c, now)] else hist) rs"

section \<open>The simulation\<close>

text \<open>Every deque holds the admitted times after some cutoff not later than the last one.\<close>

definition deque_of :: "rat \<Rightarrow> rat list \<Rightarrow> rat list \<Rightarrow> bool" where
  "deque_of cu ts deque \<longleftrightarrow> (\<exists>d \<le> cu. deque = filter (\<lambda>t. d < t) ts)"

definition log_inv :: "rat \<Rightarrow> limiter \<Rightarrow> call_log \<Rightarrow> bool" where
  "log_inv cu s hist \<longleftrightarrow>
     sorted (map (\<lambda>(p, c, t). t) hist) \<and> distinct (map fst (lim_clients s))
     \<and> (\<forall>p. deque_of cu (policy_times hist p) (get_or (lim_global s) p []))
     \<and> (\<forall>k. deque_of cu (client_times hist k) (get_or (lim_clients s) k []))"

lemma dropWhile_sorted:
  "sorted ts \<Longrightarrow> dropWhile (\<lambda>t. t \<le> c) ts = filter (\<lambda>t. c < t) ts" for c :: rat
proof (induction ts)
  case (Cons a ts)
  show ?case
  proof (cases "a \<le> c")
    case True
    with Cons show ?thesis by simp
  next
    case False
    with Cons.prems have "filter (\<lambda>t. c < t) ts = ts" by (auto simp: filter_id_conv)
    with False show ?thesis by simp
  qed
qed simp

lemma sorted_policy_times: "sorted (map (\<lambda>(p, c, t). t) hist) \<Longrightarrow> sorted (policy_times hist p)"
  by (induction hist) (auto simp: policy_times_def)

lemma sorted_client_times: "sorted (map (\<lambda>(p, c, t). t) hist) \<Longrightarrow> sorted (client_times hist k)"
  by (induction hist) (auto simp: client_times_def)

lemma discard_deque:
  assumes "deque_of cu ts deque" and "sorted ts" and "cu \<le> cu'"
  shows "discard_before cu' deque = filter (\<lambda>t. cu' < t) ts"
proof -
  from assms(1) obtain d where d: "d \<le> cu" "deque = filter (\<lambda>t. d < t) ts"
    by (auto simp: deque_of_def)
  then have "sorted deque" using assms(2) by (simp add: sorted_filter [where f = "\<lambda>x. x", simplified])
  then have "discard_before cu' deque = filter (\<lambda>t. cu' < t) deque"
    by (simp add: discard_before_def dropWhile_sorted)
  also have "\<dots> = filter (\<lambda>t. cu' < t) ts"
    using d assms(3) by (auto simp: intro!: filter_cong)
  finally show ?thesis .
qed

lemma map_of_filter_values:
  "distinct (map fst d) \<Longrightarrow>
     map_of (filter (\<lambda>(k, v). v \<noteq> []) (map (\<lambda>(k, v). (k, g v)) d)) k =
       (case lookup d k of None \<Rightarrow> None | Some v \<Rightarrow> if g v = [] then None else Some (g v))"
proof (induction d)
  case (Cons kv d)
  obtain a v where kv: "kv = (a, v)" by force
  have "lookup d a = None" using Cons.prems by (auto simp: kv map_of_eq_None_iff)
  with Cons kv show ?case by (auto split: option.split)
qed simp

lemma get_or_sweep:
  "distinct (map fst d) \<Longrightarrow>
     get_or (sweep c d) k [] \<in> {get_or d k [], discard_before c (get_or d k [])}"
proof (cases "1024 < length d")
  case True
  assume "distinct (map fst d)"
  with True have "get_or (sweep c d) k [] = discard_before c (get_or d k [])"
    by (cases "lookup d k"; cases "discard_before c (get_or d k [])")
      (simp_all add: sweep_def map_of_filter_values discard_before_def del: dropWhile_eq_Nil_conv)
  then show ?thesis by simp
qed (simp add: sweep_def)

lemma distinct_keys_sweep: "distinct (map fst d) \<Longrightarrow> distinct (map fst (sweep c d))"
proof -
  assume "distinct (map fst d)"
  then have "distinct (map fst (map (\<lambda>(k, calls). (k, discard_before c calls)) d))"
    by (simp add: case_prod_beta comp_def)
  then show ?thesis by (simp add: sweep_def distinct_map_filter \<open>distinct (map fst d)\<close>)
qed

lemma discard_idem: "discard_before c (discard_before c xs) = discard_before c xs"
  by (simp add: discard_before_def)

lemma deque_of_mono: "deque_of c ts d \<Longrightarrow> c \<le> c' \<Longrightarrow> deque_of c' ts d"
  by (auto simp: deque_of_def intro: order_trans)

lemma deque_of_filter: "deque_of c ts (filter (\<lambda>t. c < t) ts)"
  by (auto simp: deque_of_def)

lemma policy_times_snoc:
  "policy_times (hist @ [(q, c, t)]) p = policy_times hist p @ (if q = p then [t] else [])"
  by (simp add: policy_times_def)

lemma client_times_snoc:
  "client_times (hist @ [(q, c, t)]) k = client_times hist k @ (if (q, c) = k then [t] else [])"
  by (simp add: client_times_def)

text \<open>The cutoff lies strictly before the reading it is computed from.\<close>

lemma cutoff_before:
  assumes "0 \<le> now" and "now < 2 ^ 53" and "0 < w"
  shows "fsub now (of_int w) < now"
proof -
  have "0 \<le> \<lfloor>now\<rfloor>" "\<lfloor>now\<rfloor> < 2 ^ 53" using assms(1,2) by (simp_all add: floor_less_iff)
  then have f: "\<bar>\<lfloor>now\<rfloor>\<bar> < 2 ^ 53" "\<bar>\<lfloor>now\<rfloor> - 1\<bar> < 2 ^ 53"
    using one_less_power [of "2::int" 53] by linarith+
  have w: "(1::rat) \<le> of_int w" using assms(3) by simp
  show ?thesis
  proof (cases "now = of_int \<lfloor>now\<rfloor>")
    case True
    then have "now - of_int w \<le> of_int (\<lfloor>now\<rfloor> - 1)" using w by simp
    from f64.le_whole [OF this f(2)] show ?thesis using True by (simp add: fsub_def)
  next
    case False
    then have "of_int \<lfloor>now\<rfloor> < now" by linarith
    moreover from w have "now - of_int w \<le> of_int \<lfloor>now\<rfloor>" by linarith
    from f64.le_whole [OF this f(1)] have "fsub now (of_int w) \<le> of_int \<lfloor>now\<rfloor>"
      by (simp add: fsub_def)
    ultimately show ?thesis by linarith
  qed
qed

lemma py_max_None_append [simp]:
  "py_max f ((if a then [x] else []) @ (if b then [y] else [])) = None \<longleftrightarrow> \<not> a \<and> \<not> b"
  by auto

lemma py_max_empty [simp]: "py_max f [] = None" by simp

lemma claim_simulates:
  assumes inv: "log_inv cu s hist"
    and cu: "cu \<le> fsub now (of_int (rl_window_seconds p))"
    and late: "\<forall>(q, d, t) \<in> set hist. t \<le> now"
    and clock: "0 \<le> now" "now < 2 ^ 53" "0 < rl_window_seconds p"
    and step: "claim s p c now = (s', r)"
  shows "r = None \<longleftrightarrow> admissible hist p c now"
    and "log_inv (fsub now (of_int (rl_window_seconds p))) s'
           (if r = None then hist @ [(p, c, now)] else hist)"
proof -
  let ?c = "fsub now (of_int (rl_window_seconds p))"
  note before = cutoff_before [OF clock]
  from inv have sorted: "sorted (map (\<lambda>(p, c, t). t) hist)" and dist: "distinct (map fst (lim_clients s))"
    and dg: "\<And>q. deque_of cu (policy_times hist q) (get_or (lim_global s) q [])"
    and dc: "\<And>k. deque_of cu (client_times hist k) (get_or (lim_clients s) k [])"
    by (auto simp: log_inv_def)
  note sp = sorted_policy_times [OF sorted] and sc = sorted_client_times [OF sorted]
  define clients where "clients = sweep ?c (lim_clients s)"
  have g: "discard_before ?c (get_or (lim_global s) p []) = recent p now (policy_times hist p)"
    using discard_deque [OF dg sp cu] by (simp add: recent_def)
  have dswept: "deque_of ?c (client_times hist k) (get_or clients k [])" for k
    using get_or_sweep [OF dist, of ?c k] discard_deque [OF dc sc cu, of k]
      deque_of_mono [OF dc cu, of k] deque_of_filter [of ?c "client_times hist k"]
    by (auto simp: clients_def)
  have cl: "discard_before ?c (get_or clients (p, c) []) = recent p now (client_times hist (p, c))"
    using discard_deque [OF dswept sc order_refl] by (simp add: recent_def)
  have key: "r = None \<longleftrightarrow> admissible hist p c now"
    and s': "s' = \<lparr>lim_global = store (lim_global s) p
                (recent p now (policy_times hist p) @ (if r = None then [now] else [])),
              lim_clients = store clients (p, c)
                (recent p now (client_times hist (p, c)) @ (if r = None then [now] else []))\<rparr>"
    using step unfolding claim_def Let_def clients_def [symmetric] g cl admissible_def
    by (auto split: option.splits if_splits simp: not_le dest!: py_max_None [THEN iffD1])
  show "r = None \<longleftrightarrow> admissible hist p c now" by (rule key)
  let ?h = "if r = None then hist @ [(p, c, now)] else hist"
  have "deque_of ?c (policy_times ?h q) (get_or (lim_global s') q [])" for q
    using before deque_of_mono [OF dg cu, of q] deque_of_filter [of ?c "policy_times ?h p"]
    by (auto simp: s' policy_times_snoc recent_def)
  moreover have "deque_of ?c (client_times ?h k) (get_or (lim_clients s') k [])" for k
    using before dswept [of k] deque_of_filter [of ?c "client_times ?h (p, c)"]
    by (auto simp: s' client_times_snoc recent_def)
  moreover have "sorted (map (\<lambda>(p, c, t). t) ?h)" using sorted late by (auto simp: sorted_append)
  moreover have "distinct (map fst (lim_clients s'))"
    using distinct_keys_sweep [OF dist] by (simp add: s' clients_def distinct_update)
  ultimately show "log_inv ?c s' ?h" by (simp add: log_inv_def)
qed

text \<open>Requests in clock order, with readings a double represents to the unit, and one window.\<close>

definition clocked :: "int \<Rightarrow> (rate_limit_policy \<times> str \<times> rat) list \<Rightarrow> bool" where
  "clocked w rs \<longleftrightarrow> sorted (map (\<lambda>(p, c, t). t) rs)
     \<and> (\<forall>(p, c, t) \<in> set rs. policy_ok p \<and> rl_window_seconds p = w \<and> 0 \<le> t \<and> t < 2 ^ 53)"

lemma run_simulates:
  assumes "log_inv cu s hist" and "clocked w rs"
    and "\<forall>(p, c, t) \<in> set rs. cu \<le> fsub t (of_int w)"
    and "\<forall>(q, d, u) \<in> set hist. \<forall>(p, c, t) \<in> set rs. u \<le> t"
  shows "snd (run_claims (s, hist) rs) = spec_log hist rs"
  using assms
proof (induction rs arbitrary: cu s hist)
  case Nil
  then show ?case by simp
next
  case (Cons x rs)
  obtain p c now where x: "x = (p, c, now)" by (cases x)
  obtain s' r where step: "claim s p c now = (s', r)" by force
  let ?h = "if r = None then hist @ [(p, c, now)] else hist"
  let ?c = "fsub now (of_int w)"
  from Cons.prems(2) x have ok: "0 \<le> now" "now < 2 ^ 53" "0 < rl_window_seconds p" "rl_window_seconds p = w"
    and order: "\<forall>(q, d, t) \<in> set rs. now \<le> t"
    by (auto simp: clocked_def policy_ok_def)
  have "cu \<le> fsub now (of_int (rl_window_seconds p))" "\<forall>(q, d, t) \<in> set hist. t \<le> now"
    using Cons.prems(3,4) x ok(4) by auto
  note sim = claim_simulates [OF Cons.prems(1) this ok(1-3) step]
  have "log_inv ?c s' ?h" using sim(2) ok(4) by simp
  moreover have "clocked w rs" using Cons.prems(2) by (auto simp: clocked_def)
  moreover have "\<forall>(q, d, t) \<in> set rs. ?c \<le> fsub t (of_int w)"
    using order by (auto simp: fsub_def intro!: f64.mono)
  moreover have "\<forall>(q, d, u) \<in> set ?h. \<forall>(p, c, t) \<in> set rs. u \<le> t"
    using Cons.prems(4) order x by auto
  ultimately have "snd (run_claims (s', ?h) rs) = spec_log ?h rs" by (rule Cons.IH)
  then show ?case using sim(1) by (auto simp: x step split: option.splits)
qed

lemma log_inv_empty: "log_inv cu empty_limiter []"
  by (auto simp: log_inv_def empty_limiter_def deque_of_def policy_times_def client_times_def)

text \<open>The calls of a bucket in the window that ends at \<open>now\<close>.\<close>

definition window_count :: "int \<Rightarrow> rat \<Rightarrow> rat list \<Rightarrow> int" where
  "window_count w now ts = int (length (filter (\<lambda>t. fsub now (of_int w) < t \<and> t \<le> now) ts))"

lemma window_count_snoc:
  assumes "int (length (filter (\<lambda>u. fsub t (of_int w) < u) ts)) < n"
    and "\<And>now. window_count w now ts \<le> n" and "\<forall>u \<in> set ts. u \<le> t"
  shows "window_count w now (ts @ [t]) \<le> n"
proof (cases "t \<le> now")
  case True
  then have "fsub t (of_int w) \<le> fsub now (of_int w)"
    by (auto simp: fsub_def intro!: f64.mono)
  then have "length (filter (\<lambda>u. fsub now (of_int w) < u \<and> u \<le> now) ts)
      \<le> length (filter (\<lambda>u. fsub t (of_int w) < u) ts)"
    by (induction ts) auto
  with assms(1) show ?thesis by (simp add: window_count_def)
next
  case False
  with assms(2) [of now] show ?thesis by (simp add: window_count_def)
qed

lemma spec_log_bounded:
  assumes "clocked w rs" and "\<forall>(q, d, u) \<in> set hist. \<forall>(p, c, t) \<in> set rs. u \<le> t"
    and "\<And>p now. policy_ok p \<Longrightarrow> window_count w now (policy_times hist p) \<le> rl_global_limit p"
    and "\<And>p c now. policy_ok p \<Longrightarrow> window_count w now (client_times hist (p, c)) \<le> rl_per_client p"
    and "policy_ok p"
  shows "window_count w now (policy_times (spec_log hist rs) p) \<le> rl_global_limit p
    \<and> window_count w now (client_times (spec_log hist rs) (p, c)) \<le> rl_per_client p"
  using assms
proof (induction rs arbitrary: hist)
  case Nil
  then show ?case by simp
next
  case (Cons x rs)
  obtain q d t where x: "x = (q, d, t)" by (cases x)
  let ?h = "if admissible hist q d t then hist @ [(q, d, t)] else hist"
  from Cons.prems(1) x have w: "rl_window_seconds q = w" and order: "\<forall>(p, c, u) \<in> set rs. t \<le> u"
    and cl: "clocked w rs" by (auto simp: clocked_def)
  from Cons.prems(2) x have late: "\<forall>(p, c, u) \<in> set hist. u \<le> t" by auto
  then have late_p: "\<forall>u \<in> set (policy_times hist p'). u \<le> t"
    and late_c: "\<forall>u \<in> set (client_times hist k). u \<le> t" for p' k
    by (auto simp: policy_times_def client_times_def)
  have order': "\<forall>(p, c, u) \<in> set ?h. \<forall>(p, c, t) \<in> set rs. u \<le> t"
    using Cons.prems(2) order x by auto
  have adm: "admissible hist q d t \<Longrightarrow>
      int (length (filter (\<lambda>u. fsub t (of_int w) < u) (policy_times hist q))) < rl_global_limit q
      \<and> int (length (filter (\<lambda>u. fsub t (of_int w) < u) (client_times hist (q, d)))) < rl_per_client q"
    by (simp add: admissible_def recent_def w)
  have g: "window_count w now (policy_times ?h p) \<le> rl_global_limit p" if "policy_ok p" for p now
    using Cons.prems(3) [OF that] window_count_snoc [OF _ Cons.prems(3) [OF that] late_p] adm
    by (auto simp: policy_times_snoc)
  have c: "window_count w now (client_times ?h (p, c)) \<le> rl_per_client p" if "policy_ok p" for p c now
    using Cons.prems(4) [OF that] window_count_snoc [OF _ Cons.prems(4) [OF that] late_c] adm
    by (auto simp: client_times_snoc)
  have "window_count w now (policy_times (spec_log ?h rs) p) \<le> rl_global_limit p
    \<and> window_count w now (client_times (spec_log ?h rs) (p, c)) \<le> rl_per_client p"
    using cl order' g c Cons.prems(5) by (rule Cons.IH)
  then show ?case by (simp add: x)
qed

lemma run_from_empty:
  assumes "clocked w rs"
  shows "snd (run_claims (empty_limiter, []) rs) = spec_log [] rs"
proof -
  define cu where "cu = Min ((\<lambda>(p, c, t). fsub t (of_int w)) ` set rs)"
  have "\<forall>(p, c, t) \<in> set rs. cu \<le> fsub t (of_int w)"
    unfolding cu_def by (auto intro!: Min_le image_eqI)
  with log_inv_empty assms show ?thesis by (intro run_simulates [where cu = cu]) auto
qed

section \<open>Properties\<close>

text \<open>C16: the two tables of deques, with their trimming and the sweep of a full client table,
  decide every request of a run exactly as counting over the log of all admitted calls does: the
  run admits the calls that \<open>spec_log\<close> admits, no more and no fewer.\<close>

theorem limiter_refines_log:
  assumes "clocked w rs"
  shows "snd (run_claims (empty_limiter, []) rs) = spec_log [] rs"
  using assms by (rule run_from_empty)

theorem limiter_refines_log_witness:
  "clocked 60 (map (\<lambda>t. (DEFAULT_POLICIES ! 4, ''a'', of_nat t)) [0, 1, 2, 3, 4, 5, 30, 61])
   \<and> snd (run_claims (empty_limiter, [])
        (map (\<lambda>t. (DEFAULT_POLICIES ! 4, ''a'', of_nat t)) [0, 1, 2, 3, 4, 5, 30, 61]))
     = map (\<lambda>t. (DEFAULT_POLICIES ! 4, ''a'', of_nat t)) [0, 1, 2, 3, 4, 5, 61]"
proof
  show c: "clocked 60 (map (\<lambda>t. (DEFAULT_POLICIES ! 4, ''a'', of_nat t)) [0, 1, 2, 3, 4, 5, 30, 61])"
    by code_simp
  show "snd (run_claims (empty_limiter, [])
        (map (\<lambda>t. (DEFAULT_POLICIES ! 4, ''a'', of_nat t)) [0, 1, 2, 3, 4, 5, 30, 61]))
     = map (\<lambda>t. (DEFAULT_POLICIES ! 4, ''a'', of_nat t)) [0, 1, 2, 3, 4, 5, 61]"
    unfolding limiter_refines_log [OF c] by code_simp
qed

text \<open>C17: in every window of the run the limiter has admitted at most \<open>global_limit\<close> calls of a
  policy and at most \<open>per_client\<close> calls of one client.\<close>

theorem limiter_window_bound:
  assumes "clocked w rs" and "policy_ok p"
  shows "window_count w now (policy_times (snd (run_claims (empty_limiter, []) rs)) p) \<le> rl_global_limit p
    \<and> window_count w now (client_times (snd (run_claims (empty_limiter, []) rs)) (p, c)) \<le> rl_per_client p"
  unfolding run_from_empty [OF assms(1)]
  using spec_log_bounded [OF assms(1) _ _ _ assms(2), of "[]" now c]
  by (simp add: policy_times_def client_times_def window_count_def policy_ok_def)

theorem limiter_window_bound_witness:
  "window_count 60 59 (client_times (snd (run_claims (empty_limiter, [])
      (map (\<lambda>t. (DEFAULT_POLICIES ! 4, ''a'', of_nat t)) [0..<20]))) (DEFAULT_POLICIES ! 4, ''a'')) \<le> 6"
proof -
  have "clocked 60 (map (\<lambda>t. (DEFAULT_POLICIES ! 4, ''a'', of_nat t)) [0..<20])"
    "policy_ok (DEFAULT_POLICIES ! 4)" "rl_per_client (DEFAULT_POLICIES ! 4) = 6" by code_simp+
  then show ?thesis using limiter_window_bound [of 60 _ "DEFAULT_POLICIES ! 4" 59 "''a''"] by metis
qed

end
