(* ===== verification/Http_Cache.thy ===== *)
theory Http_Cache
  imports Py_Text
begin

text \<open>
  The conditional JSON middleware (app/http_cache.py).  An ASGI message is a record of the fields
  the code reads (None where the dict has no such key); the wrapped application is the parameter
  \<open>app\<close>, the list of messages it sends for a request scope.  The theorems show what a client may
  rely on: a stored validator revalidates exactly while the representation is the same, and the
  body of a full reply is the application's.
\<close>

section \<open>Messages and scopes\<close>

type_synonym headers = "(str \<times> str) list"

record message =
  msg_type :: str
  msg_status :: "int option"
  msg_headers :: "headers option"
  msg_body :: "str option"
  msg_rest :: "(str \<times> str) list"

record http_scope =
  hs_type :: str
  hs_method :: str
  hs_path :: str
  hs_headers :: headers

definition cache_seconds :: "str \<Rightarrow> int option" where
  "cache_seconds path =
     (if path = ''/v1/grid/current'' then Some 30
      else if path = ''/v1/sources/status'' then Some 30
      else if path = ''/v1/grid/timeline'' then Some 60
      else if path = ''/v1/history/context'' then Some 60
      else if path = ''/v1/forecasts/verification'' then Some 300
      else if path \<in> set [''/v1/briefing/today'', ''/v1/events'', ''/v1/game/today''] then Some 60
      else if starts_with path ''/v1/game/'' \<and> ends_with path ''/resolution'' then Some 60
      else if starts_with path ''/v1/events/'' \<and> \<not> ends_with path ''/explanation'' then Some 60
      else if starts_with path ''/v1/regions/'' \<and> ends_with path ''/windows'' then Some 60
      else if starts_with path ''/v1/regions/'' then Some 300
      else if path \<in> set [''/v1/sources'', ''/v1/meta'', ''/v1/metadata/metrics'',
                          ''/v1/metadata/export-schema''] then Some 3600
      else None)"

fun header :: "headers \<Rightarrow> str \<Rightarrow> str option" where
  "header [] name = None"
| "header ((key, value) # hs) name = (if lower key = name then Some value else header hs name)"

definition replace_header :: "headers \<Rightarrow> str \<Rightarrow> str \<Rightarrow> headers" where
  "replace_header hs name value = filter (\<lambda>(key, item). lower key \<noteq> name) hs @ [(name, value)]"

text \<open>The dict comprehension over the request headers: the last value of a name wins.\<close>

definition request_headers :: "headers \<Rightarrow> (str, str) dict" where
  "request_headers hs = foldl (\<lambda>d (key, value). store d (lower key) value) [] hs"

definition etag_of :: "str \<Rightarrow> str" where
  "etag_of body = CHR 0x22 # sha256_hex body @ [CHR 0x22]"

definition cache_control_of :: "int \<Rightarrow> str" where
  "cache_control_of max_age =
     ''public, max-age='' @ str_of_int max_age @ '', stale-while-revalidate='' @ str_of_int (max_age * 4)"

definition response_body :: "message list \<Rightarrow> str" where
  "response_body messages =
     concat [case msg_body m of None \<Rightarrow> '''' | Some b \<Rightarrow> b.
             m \<leftarrow> messages, msg_type m = ''http.response.body'']"

definition response_start :: "message list \<Rightarrow> message option" where
  "response_start messages = find (\<lambda>m. msg_type m = ''http.response.start'') messages"

definition new_start :: "int \<Rightarrow> headers \<Rightarrow> message" where
  "new_start status hs = \<lparr>msg_type = ''http.response.start'', msg_status = Some status,
     msg_headers = Some hs, msg_body = None, msg_rest = []\<rparr>"

definition new_body :: "str \<Rightarrow> message" where
  "new_body body = \<lparr>msg_type = ''http.response.body'', msg_status = None,
     msg_headers = None, msg_body = Some body, msg_rest = []\<rparr>"

definition start_headers :: "message \<Rightarrow> headers" where
  "start_headers start = (case msg_headers start of None \<Rightarrow> [] | Some hs \<Rightarrow> hs)"

definition content_type :: "message \<Rightarrow> str" where
  "content_type start =
     (case header (start_headers start) ''content-type'' of None \<Rightarrow> '''' | Some v \<Rightarrow> v)"

definition conditional_json ::
  "(http_scope \<Rightarrow> message list) \<Rightarrow> http_scope \<Rightarrow> message list" where
  "conditional_json app sc =
     (if hs_type sc \<noteq> ''http'' \<or> hs_method sc \<noteq> ''GET'' then app sc
      else case cache_seconds (hs_path sc) of
        None \<Rightarrow> app sc
      | Some max_age \<Rightarrow>
          let messages = app sc
          in case response_start messages of
               None \<Rightarrow> messages
             | Some start \<Rightarrow>
                 if msg_status start \<noteq> Some 200 then messages
                 else
                   let hs = start_headers start
                   in if \<not> starts_with (lower (content_type start)) ''application/json'' then messages
                      else
                        let body = response_body messages;
                            etag = etag_of body;
                            cache_control = cache_control_of max_age;
                            hs1 = replace_header hs ''etag'' etag;
                            hs2 = replace_header hs1 ''cache-control'' cache_control
                        in if lookup (request_headers (hs_headers sc)) ''if-none-match'' = Some etag
                           then [new_start 304
                                   (filter (\<lambda>(key, value).
                                      lower key \<notin> set [''content-length'', ''content-type'']) hs2),
                                 new_body '''']
                           else [start\<lparr>msg_headers := Some hs2\<rparr>, new_body body])"

section \<open>Lemmas\<close>

lemma header_append: "header (xs @ ys) n = (case header xs n of None \<Rightarrow> header ys n | Some v \<Rightarrow> Some v)"
  by (induction xs) auto

lemma header_filter_other:
  "(\<And>k. lower k = n \<Longrightarrow> P k) \<Longrightarrow> header (filter (\<lambda>(k, v). P k) hs) n = header hs n"
  by (induction hs) auto

lemma header_filter_out: "header (filter (\<lambda>(k, v). lower k \<noteq> n) hs) n = None"
  by (induction hs) auto

lemma lower_names [simp]:
  "lower ''etag'' = ''etag''" "lower ''cache-control'' = ''cache-control''"
  "lower ''if-none-match'' = ''if-none-match''" "lower ''If-None-Match'' = ''if-none-match''"
  by code_simp+

lemma header_replace:
  "lower n = n \<Longrightarrow> header (replace_header hs n v) m = (if m = n then Some v else header hs m)"
  by (auto simp: replace_header_def header_append header_filter_out header_filter_other
      split: option.split)

lemma request_headers_snoc:
  "lookup (request_headers (hs @ [(k, v)])) n = (if n = lower k then Some v
     else lookup (request_headers hs) n)"
  by (simp add: request_headers_def)

text \<open>The reply is one the middleware takes over, and the headers it then carries.\<close>

definition takes_over :: "http_scope \<Rightarrow> message list \<Rightarrow> bool" where
  "takes_over sc messages \<longleftrightarrow>
     hs_type sc = ''http'' \<and> hs_method sc = ''GET'' \<and> cache_seconds (hs_path sc) \<noteq> None
     \<and> (case response_start messages of
          None \<Rightarrow> False
        | Some start \<Rightarrow> msg_status start = Some 200
            \<and> starts_with (lower (content_type start)) ''application/json'')"

definition cached_headers :: "http_scope \<Rightarrow> message list \<Rightarrow> headers" where
  "cached_headers sc messages =
     replace_header
       (replace_header (start_headers (the (response_start messages))) ''etag''
          (etag_of (response_body messages)))
       ''cache-control'' (cache_control_of (the (cache_seconds (hs_path sc))))"

lemma conditional_passthrough: "\<not> takes_over sc (app sc) \<Longrightarrow> conditional_json app sc = app sc"
  by (auto simp: conditional_json_def takes_over_def Let_def split: option.splits)

lemma conditional_taken:
  "takes_over sc (app sc) \<Longrightarrow>
   conditional_json app sc =
     (if lookup (request_headers (hs_headers sc)) ''if-none-match'' = Some (etag_of (response_body (app sc)))
      then [new_start 304 (filter (\<lambda>(key, value).
              lower key \<notin> set [''content-length'', ''content-type'']) (cached_headers sc (app sc))),
            new_body '''']
      else [(the (response_start (app sc)))\<lparr>msg_headers := Some (cached_headers sc (app sc))\<rparr>,
            new_body (response_body (app sc))])"
  by (auto simp: conditional_json_def takes_over_def cached_headers_def Let_def split: option.splits)

lemma response_start_type: "response_start ms = Some m \<Longrightarrow> msg_type m = ''http.response.start''"
  by (auto simp: response_start_def find_Some_iff)

lemma etag_cached: "header (cached_headers sc ms) ''etag'' = Some (etag_of (response_body ms))"
  by (simp add: cached_headers_def header_replace)

lemma response_of_pair:
  "msg_type m = ''http.response.start'' \<Longrightarrow> response_start [m, new_body b] = Some m"
  "msg_type m = ''http.response.start'' \<Longrightarrow> response_body [m, new_body b] = b"
  by (simp_all add: response_start_def response_body_def new_body_def)

definition served_etag :: "message list \<Rightarrow> str option" where
  "served_etag messages =
     (case response_start messages of None \<Rightarrow> None | Some start \<Rightarrow> header (start_headers start) ''etag'')"

definition served_status :: "message list \<Rightarrow> int option" where
  "served_status messages =
     (case response_start messages of None \<Rightarrow> None | Some start \<Rightarrow> msg_status start)"

definition with_validator :: "http_scope \<Rightarrow> str \<Rightarrow> http_scope" where
  "with_validator sc etag = sc\<lparr>hs_headers := hs_headers sc @ [(''If-None-Match'', etag)]\<rparr>"

lemma taken_over_reply:
  assumes "takes_over sc (app sc)"
    and "lookup (request_headers (hs_headers sc)) ''if-none-match'' \<noteq> Some (etag_of (response_body (app sc)))"
  shows "served_status (conditional_json app sc) = Some 200"
    and "served_etag (conditional_json app sc) = Some (etag_of (response_body (app sc)))"
    and "response_body (conditional_json app sc) = response_body (app sc)"
proof -
  from assms(1) obtain m where m: "response_start (app sc) = Some m" "msg_status m = Some 200"
    by (auto simp: takes_over_def split: option.splits)
  note t = response_start_type [OF m(1)]
  show "served_status (conditional_json app sc) = Some 200"
    "served_etag (conditional_json app sc) = Some (etag_of (response_body (app sc)))"
    "response_body (conditional_json app sc) = response_body (app sc)"
    using m t assms(2) by (simp_all add: conditional_taken [of sc app, OF assms(1)] served_status_def
        served_etag_def response_of_pair start_headers_def etag_cached)
qed

lemma not_modified_reply:
  assumes "takes_over sc (app sc)"
    and "lookup (request_headers (hs_headers sc)) ''if-none-match'' = Some (etag_of (response_body (app sc)))"
  shows "served_status (conditional_json app sc) = Some 304"
    and "served_etag (conditional_json app sc) = Some (etag_of (response_body (app sc)))"
    and "response_body (conditional_json app sc) = ''''"
proof -
  have "header (filter (\<lambda>(key, value). lower key \<notin> set [''content-length'', ''content-type''])
      (cached_headers sc (app sc))) ''etag'' = Some (etag_of (response_body (app sc)))"
    by (subst header_filter_other) (auto simp: etag_cached)
  then show "served_status (conditional_json app sc) = Some 304"
    "served_etag (conditional_json app sc) = Some (etag_of (response_body (app sc)))"
    "response_body (conditional_json app sc) = ''''"
    using assms(2) by (simp_all add: conditional_taken [of sc app, OF assms(1)] served_status_def served_etag_def
        response_of_pair new_start_def start_headers_def)
qed

lemma with_validator_lookup:
  "lookup (request_headers (hs_headers (with_validator sc e))) ''if-none-match'' = Some e"
  by (simp add: with_validator_def request_headers_snoc)

lemma takes_over_validator: "takes_over (with_validator sc e) ms = takes_over sc ms"
  by (simp add: takes_over_def with_validator_def)

section \<open>Properties\<close>

text \<open>C18: a client that repeats a request with the validator it was served gets 304 with an empty
  body when the application's representation is unchanged, and the full new body with its own
  validator when the digest differs; replies the middleware does not take over pass unchanged.\<close>

theorem conditional_revalidation:
  assumes "takes_over sc (app sc)" and "takes_over sc (app (with_validator sc e))"
    and "served_etag (conditional_json app sc) = Some e"
  shows "let reply = conditional_json app (with_validator sc e);
             old = response_body (app sc); new = response_body (app (with_validator sc e))
         in if sha256_hex new = sha256_hex old
            then served_status reply = Some 304 \<and> response_body reply = '''' \<and> served_etag reply = Some e
            else served_status reply = Some 200 \<and> response_body reply = new
              \<and> served_etag reply = Some (etag_of new)"
proof -
  have e: "e = etag_of (response_body (app sc))"
    using assms(3) taken_over_reply(2) [of sc app] not_modified_reply(2) [of sc app] assms(1) by fastforce
  have t: "takes_over (with_validator sc e) (app (with_validator sc e))"
    using assms(2) by (simp add: takes_over_validator)
  have "etag_of a = etag_of b \<longleftrightarrow> sha256_hex a = sha256_hex b" for a b by (simp add: etag_of_def)
  then show ?thesis
    using not_modified_reply [of _ app, OF t] taken_over_reply [of _ app, OF t] with_validator_lookup [of sc e] e
    by (auto simp: Let_def)
qed

definition example_scope :: http_scope where
  "example_scope = \<lparr>hs_type = ''http'', hs_method = ''GET'', hs_path = ''/v1/meta'', hs_headers = []\<rparr>"

definition example_app :: "http_scope \<Rightarrow> message list" where
  "example_app sc = [new_start 200 [(''Content-Type'', ''application/json'')], new_body ''{}'']"

theorem conditional_revalidation_witness:
  "served_status (conditional_json example_app
     (with_validator example_scope (etag_of ''{}''))) = Some 304"
proof -
  have "takes_over example_scope (example_app sc)" for sc by code_simp
  moreover have "lookup (request_headers (hs_headers example_scope)) ''if-none-match'' = None"
    by code_simp
  moreover have b: "response_body (example_app sc) = ''{}''" for sc by code_simp
  ultimately show ?thesis
    using conditional_revalidation [of example_scope example_app "etag_of ''{}''"]
      taken_over_reply(2) [of example_scope example_app] by (simp add: Let_def)
qed

end
