(* ===== verification/Call_Budget.thy ===== *)
theory Call_Budget
  imports Py_Text
begin

text \<open>
  The daily budget of model calls (app/intelligence/budget.py): a counter per date, a
  \<open>defaultdict(int)\<close>, so that reading a day's counter also creates it.  The lock makes each
  call atomic; a history is the list of the wall-clock readings the calls were made with.
\<close>

record daily_call_budget =
  budget_limit :: int
  budget_calls :: "(date, int) dict"

definition mk_budget :: "int \<Rightarrow> daily_call_budget result" where
  "mk_budget limit =
     (if limit < 0 then Inl (ValueError ''limit must be non-negative'')
      else Inr \<lparr>budget_limit = limit, budget_calls = []\<rparr>)"

text \<open>\<open>self._calls[day]\<close>\<close>

definition calls_on :: "(date, int) dict \<Rightarrow> date \<Rightarrow> (date, int) dict \<times> int" where
  "calls_on calls day =
     (case lookup calls day of Some n \<Rightarrow> (calls, n) | None \<Rightarrow> (store calls day 0, 0))"

definition claim_call :: "daily_call_budget \<Rightarrow> instant \<Rightarrow> daily_call_budget \<times> unit result" where
  "claim_call b now =
     (let day = now div day_len; (calls, n) = calls_on (budget_calls b) day
      in if n \<ge> budget_limit b
         then (b\<lparr>budget_calls := calls\<rparr>, Inl (BudgetExceeded ''Daily OpenRouter call limit reached''))
         else (b\<lparr>budget_calls := store calls day (n + 1)\<rparr>, Inr ()))"

definition used :: "daily_call_budget \<Rightarrow> instant \<Rightarrow> daily_call_budget \<times> int" where
  "used b now =
     (let (calls, n) = calls_on (budget_calls b) (now div day_len) in (b\<lparr>budget_calls := calls\<rparr>, n))"

fun claim_all :: "daily_call_budget \<Rightarrow> instant list \<Rightarrow> daily_call_budget \<times> (instant \<times> bool) list" where
  "claim_all b [] = (b, [])"
| "claim_all b (t # ts) =
     (let (b1, r) = claim_call b t; (b2, rs) = claim_all b1 ts in (b2, (t, r = Inr ()) # rs))"

section \<open>Lemmas\<close>

definition spent :: "daily_call_budget \<Rightarrow> date \<Rightarrow> int" where
  "spent b day = get_or (budget_calls b) day 0"

definition made_on :: "date \<Rightarrow> instant list \<Rightarrow> int" where
  "made_on day ts = int (length (filter (\<lambda>t. t div day_len = day) ts))"

definition granted_on :: "date \<Rightarrow> (instant \<times> bool) list \<Rightarrow> int" where
  "granted_on day rs = int (length (filter (\<lambda>(t, ok). ok \<and> t div day_len = day) rs))"

lemma claim_call_spent:
  "budget_limit (fst (claim_call b t)) = budget_limit b"
  "spent (fst (claim_call b t)) day =
     (if t div day_len = day \<and> spent b day < budget_limit b then spent b day + 1 else spent b day)"
  "snd (claim_call b t) = Inr () \<longleftrightarrow> spent b (t div day_len) < budget_limit b"
  by (auto simp: claim_call_def calls_on_def spent_def Let_def split: option.splits)

lemma used_spent: "snd (used b t) = spent b (t div day_len)" "spent (fst (used b t)) day = spent b day"
  by (auto simp: used_def calls_on_def spent_def Let_def split: option.splits)

lemma claim_all_counts:
  assumes "claim_all b ts = (b', rs)" and "spent b day \<le> budget_limit b"
  shows "budget_limit b' = budget_limit b
    \<and> spent b' day = min (budget_limit b) (spent b day + made_on day ts)
    \<and> granted_on day rs = spent b' day - spent b day"
  using assms
proof (induction ts arbitrary: b b' rs)
  case Nil
  then show ?case by (simp add: made_on_def granted_on_def)
next
  case (Cons t ts)
  obtain b1 r where b1: "claim_call b t = (b1, r)" by force
  obtain b2 rs2 where b2: "claim_all b1 ts = (b2, rs2)" by force
  note step = claim_call_spent [of b t, unfolded b1, simplified]
  show ?case using Cons.IH [OF b2] Cons.prems step
    by (auto simp: b1 b2 made_on_def granted_on_def split: if_splits)
qed

section \<open>Properties\<close>

text \<open>Over any history of claims a new budget grants, on each day, exactly the smaller of the
  limit and the number of claims of that day, and \<open>used\<close> reports that number.\<close>

theorem budget_grants_up_to_limit:
  assumes "mk_budget limit = Inr b" and "claim_all b ts = (b', rs)"
  shows "granted_on (now div day_len) rs = min limit (made_on (now div day_len) ts)
    \<and> snd (used b' now) = granted_on (now div day_len) rs"
proof -
  from assms(1) have b: "budget_limit b = limit" "spent b (now div day_len) = 0" "0 \<le> limit"
    by (auto simp: mk_budget_def spent_def split: if_splits)
  with claim_all_counts [OF assms(2), of "now div day_len"] show ?thesis by (simp add: used_spent)
qed

theorem budget_grants_witness:
  "\<exists>b b' rs. mk_budget 2 = Inr b \<and> claim_all b [0, 1, 2, day_len] = (b', rs) \<and> snd (used b' 5) = 2"
proof -
  obtain b where b: "mk_budget 2 = Inr b" by (simp add: mk_budget_def)
  obtain b' rs where c: "claim_all b [0, 1, 2, day_len] = (b', rs)" by force
  have "made_on (5 div day_len) [0, 1, 2, day_len] = 3" by code_simp
  with budget_grants_up_to_limit [OF b c, of 5] b c show ?thesis by auto
qed

end
