(* ===== verification/Event_Models.thy ===== *)
theory Event_Models
  imports Py_Text
begin

text \<open>
  Events of the grid: the models (app/events/models.py), the identities (app/events/identity.py),
  the detection rules (app/events/rules.py), their processor (app/events/processor.py) and the
  in-memory reference lifecycle (app/events/lifecycle.py).  Observation times are UTC instants,
  measured values finite floats.  A rule builds pydantic models, so it fails with a \<open>ValueError\<close>
  where their constraints do.
\<close>

section \<open>Models\<close>

datatype evidence_class = Class_Reported | Class_Observed | Class_Derived | Class_Forecast
datatype severity = Info | Notable | Important
datatype confidence = High | Medium | Low
datatype event_status = Open | Updated | Resolved | Superseded | Withdrawn

record evidence_fact =
  ef_fact_id :: str
  ef_metric :: str
  ef_label :: str
  ef_value :: py_value
  ef_unit :: "str option"
  ef_observed_at :: instant
  ef_source_record_ids :: "str list"

definition mk_fact ::
  "str \<Rightarrow> str \<Rightarrow> str \<Rightarrow> py_value \<Rightarrow> str option \<Rightarrow> instant \<Rightarrow> str list \<Rightarrow> evidence_fact result" where
  "mk_fact fact_id metric label value unit occurred_at source_record_ids =
     (if source_record_ids = [] then Inl (ValueError ''source_record_ids'')
      else Inr \<lparr>ef_fact_id = fact_id, ef_metric = metric, ef_label = label, ef_value = value,
                ef_unit = unit, ef_observed_at = occurred_at,
                ef_source_record_ids = source_record_ids\<rparr>)"

record event_candidate =
  ec_rule_id :: str
  ec_rule_version :: int
  ec_event_type :: str
  ec_subject_type :: str
  ec_subject_id :: "str option"
  ec_occurred_at :: instant
  ec_severity :: severity
  ec_evidence_class :: evidence_class
  ec_confidence :: confidence
  ec_confidence_reasons :: "str list"
  ec_dedupe_key :: str
  ec_facts :: "evidence_fact list"
  ec_cause_reported :: bool

definition validate_candidate :: "event_candidate \<Rightarrow> event_candidate result" where
  "validate_candidate c =
     rbind (ensure (1 \<le> ec_rule_version c) (ValueError ''rule_version'')) (\<lambda>_.
     rbind (ensure (ec_confidence_reasons c \<noteq> []) (ValueError ''confidence_reasons'')) (\<lambda>_.
     rbind (ensure (ec_facts c \<noteq> []) (ValueError ''facts'')) (\<lambda>_.
     if ec_cause_reported c \<and> ec_evidence_class c \<noteq> Class_Reported
     then Inl (ValueError ''A reported cause requires reported evidence'')
     else Inr c)))"

text \<open>Public identities: \<open>evt_\<close> and twenty hex digits of a digest.\<close>

definition event_id_of :: "str \<Rightarrow> str" where
  "event_id_of identity = ''evt_'' @ take 20 (sha256_hex identity)"

definition stable_id :: "event_candidate \<Rightarrow> str" where
  "stable_id c = event_id_of (ec_dedupe_key c)"

definition reported_notice_event_id :: "str \<Rightarrow> str \<Rightarrow> str \<Rightarrow> str" where
  "reported_notice_event_id source_id notice_kind external_id =
     event_id_of (''reported-notice:v1:'' @ source_id @ '':'' @ notice_kind @ '':'' @ external_id)"

definition is_stable_event_id :: "str \<Rightarrow> bool" where
  "is_stable_event_id value \<longleftrightarrow>
     length value = 24 \<and> take 4 value = ''evt_'' \<and> list_all is_hex_char (drop 4 value)"

record detected_event =
  de_event_id :: str
  de_revision :: int
  de_status :: event_status
  de_candidate :: event_candidate
  de_opened_at :: instant
  de_updated_at :: instant
  de_resolved_at :: "instant option"

section \<open>Rules\<close>

text \<open>A \<open>dict\<close> from fuel to megawatts, and the decimal literals of the rules as floats.\<close>

type_synonym mix = "(str, rat) dict"

definition decimal :: "int \<Rightarrow> nat \<Rightarrow> rat" where
  "decimal n places = fl (of_int n / 10 ^ places)"

definition hour_bucket :: "instant \<Rightarrow> str" where
  "hour_bucket t = iso_instant (t - t mod hour)"

definition five_minute_bucket :: "instant \<Rightarrow> str" where
  "five_minute_bucket t = iso_instant (t - t mod (5 * minute))"

definition positive_total :: "mix \<Rightarrow> rat" where
  "positive_total values = py_sum (map (\<lambda>(k, v). max 0 v) values)"

definition leader :: "mix \<Rightarrow> str option" where
  "leader values = map_option fst (py_max snd values)"

definition generation_leader_change ::
  "mix \<Rightarrow> mix \<Rightarrow> instant \<Rightarrow> str list \<Rightarrow> rat \<Rightarrow> event_candidate option result" where
  "generation_leader_change previous current occurred_at source_record_ids minimum_share =
     (case (leader previous, leader current) of
        (Some previous_leader, Some current_leader) \<Rightarrow>
          let total = positive_total current; output = get_or current current_leader 0
          in if previous_leader = current_leader \<or> total \<le> 0 then Inr None
             else
               let share = fdiv output total
               in if share < minimum_share then Inr None
                  else
                    rbind (mk_fact ''leader'' ''generation_leader'' ''largest generation source''
                             (PyStr current_leader) None occurred_at source_record_ids) (\<lambda>f1.
                    rbind (mk_fact ''output'' (''generation.'' @ current_leader) ''current output''
                             (PyFloat (py_round 1 output)) (Some ''MW'') occurred_at source_record_ids) (\<lambda>f2.
                    rbind (mk_fact ''share'' (''generation_share.'' @ current_leader) ''share of generation''
                             (PyFloat (py_round 1 (fmul share 100))) (Some ''%'') occurred_at source_record_ids) (\<lambda>f3.
                    rbind (validate_candidate
                      \<lparr>ec_rule_id = ''generation.leader_change'', ec_rule_version = 1,
                       ec_event_type = ''generation_leader_change'',
                       ec_subject_type = ''fuel'', ec_subject_id = Some current_leader,
                       ec_occurred_at = occurred_at, ec_severity = Notable,
                       ec_evidence_class = Class_Derived, ec_confidence = High,
                       ec_confidence_reasons = [''Calculated from coherent generation-mix observations''],
                       ec_dedupe_key = ''generation.leader_change:'' @ current_leader @ '':'' @ hour_bucket occurred_at,
                       ec_facts = [f1, f2, f3], ec_cause_reported = False\<rparr>) (\<lambda>c. Inr (Some c)))))
      | _ \<Rightarrow> Inr None)"

definition interconnector_reversal ::
  "rat \<Rightarrow> rat \<Rightarrow> instant \<Rightarrow> str list \<Rightarrow> int \<Rightarrow> rat \<Rightarrow> event_candidate option result" where
  "interconnector_reversal previous_net_mw current_net_mw occurred_at source_record_ids
     sustained_samples minimum_magnitude_mw =
     (let crossed = (previous_net_mw < 0 \<and> 0 < current_net_mw) \<or> (previous_net_mw > 0 \<and> 0 > current_net_mw)
      in if \<not> crossed \<or> \<bar>current_net_mw\<bar> < minimum_magnitude_mw \<or> sustained_samples < 2 then Inr None
         else
           let position = (if current_net_mw > 0 then ''importing'' else ''exporting'')
           in rbind (mk_fact ''position'' ''energy_position'' ''new energy position''
                       (PyStr position) None occurred_at source_record_ids) (\<lambda>f1.
              rbind (mk_fact ''net_flow'' ''interconnector.net_flow'' ''net interconnector flow''
                       (PyFloat (py_round 1 current_net_mw)) (Some ''MW'') occurred_at source_record_ids) (\<lambda>f2.
              rbind (validate_candidate
                \<lparr>ec_rule_id = ''interconnector.net_reversal'', ec_rule_version = 1,
                 ec_event_type = ''energy_position_reversal'',
                 ec_subject_type = ''system'', ec_subject_id = Some ''gb'',
                 ec_occurred_at = occurred_at, ec_severity = Notable,
                 ec_evidence_class = Class_Derived, ec_confidence = High,
                 ec_confidence_reasons = [''Direction persisted across at least two observations''],
                 ec_dedupe_key = ''interconnector.net_reversal:'' @ position @ '':'' @ hour_bucket occurred_at,
                 ec_facts = [f1, f2], ec_cause_reported = False\<rparr>) (\<lambda>c. Inr (Some c)))))"

text \<open>\<open>f"{x:.2f}"\<close>\<close>

definition format_fixed :: "nat \<Rightarrow> rat \<Rightarrow> str" where
  "format_fixed digits x =
     (let n = round_half_even (\<bar>x\<bar> * 10 ^ digits)
      in (if x < 0 then ''-'' else '''') @ str_of_int (n div 10 ^ digits)
         @ (if digits = 0 then '''' else ''.'' @ zero_pad digits (str_of_int (n mod 10 ^ digits))))"

definition renewable_share_milestone ::
  "mix \<Rightarrow> instant \<Rightarrow> str list \<Rightarrow> rat \<Rightarrow> event_candidate option result" where
  "renewable_share_milestone generation_mw occurred_at source_record_ids threshold =
     (let total = positive_total generation_mw;
          renewables = py_sum (map (\<lambda>fuel. max 0 (get_or generation_mw fuel 0)) [''wind'', ''solar'', ''hydro''])
      in if total \<le> 0 \<or> fdiv renewables total < threshold then Inr None
         else
           let share = fdiv renewables total
           in rbind (mk_fact ''share'' ''renewable_share'' ''renewable share of generation''
                       (PyFloat (py_round 1 (fmul share 100))) (Some ''%'') occurred_at source_record_ids) (\<lambda>f1.
              rbind (mk_fact ''output'' ''renewable_output'' ''renewable output''
                       (PyFloat (py_round 1 renewables)) (Some ''MW'') occurred_at source_record_ids) (\<lambda>f2.
              rbind (validate_candidate
                \<lparr>ec_rule_id = ''generation.renewable_share'', ec_rule_version = 1,
                 ec_event_type = ''renewable_share_milestone'',
                 ec_subject_type = ''system'', ec_subject_id = Some ''gb'',
                 ec_occurred_at = occurred_at, ec_severity = Notable,
                 ec_evidence_class = Class_Derived, ec_confidence = High,
                 ec_confidence_reasons = [''Calculated from a coherent generation-mix observation''],
                 ec_dedupe_key = ''generation.renewable_share:'' @ format_fixed 2 threshold @ '':''
                   @ iso_date (occurred_at div day_len),
                 ec_facts = [f1, f2], ec_cause_reported = False\<rparr>) (\<lambda>c. Inr (Some c)))))"

definition frequency_excursion ::
  "rat \<Rightarrow> instant \<Rightarrow> str list \<Rightarrow> rat \<Rightarrow> rat \<Rightarrow> event_candidate option result" where
  "frequency_excursion frequency_hz occurred_at source_record_ids lower_hz upper_hz =
     (if lower_hz \<le> frequency_hz \<and> frequency_hz \<le> upper_hz then Inr None
      else
        let direction = (if frequency_hz < lower_hz then ''low'' else ''high'')
        in rbind (mk_fact ''frequency'' ''frequency'' ''observed grid frequency''
                    (PyFloat (py_round 3 frequency_hz)) (Some ''Hz'') occurred_at source_record_ids) (\<lambda>f1.
           rbind (mk_fact ''direction'' ''frequency_direction'' ''excursion direction''
                    (PyStr direction) None occurred_at source_record_ids) (\<lambda>f2.
           rbind (validate_candidate
             \<lparr>ec_rule_id = ''frequency.excursion'', ec_rule_version = 1,
              ec_event_type = ''frequency_excursion'',
              ec_subject_type = ''system'', ec_subject_id = Some ''gb'',
              ec_occurred_at = occurred_at, ec_severity = Important,
              ec_evidence_class = Class_Observed, ec_confidence = High,
              ec_confidence_reasons = [''Direct frequency observation outside the configured normal band''],
              ec_dedupe_key = ''frequency.excursion:'' @ direction @ '':'' @ five_minute_bucket occurred_at,
              ec_facts = [f1, f2], ec_cause_reported = False\<rparr>) (\<lambda>c. Inr (Some c)))))"

definition reported_unavailability ::
  "str \<Rightarrow> str \<Rightarrow> rat \<Rightarrow> bool \<Rightarrow> instant \<Rightarrow> str list \<Rightarrow> str option \<Rightarrow> event_candidate result" where
  "reported_unavailability asset_id asset_name unavailable_mw planned occurred_at source_record_ids
     reported_cause =
     rbind (mk_fact ''asset'' ''unavailable_asset'' ''reported unavailable asset''
              (PyStr asset_name) None occurred_at source_record_ids) (\<lambda>f1.
     rbind (mk_fact ''capacity'' ''unavailable_capacity'' ''reported unavailable capacity''
              (PyFloat (py_round 1 unavailable_mw)) (Some ''MW'') occurred_at source_record_ids) (\<lambda>f2.
     rbind (mk_fact ''planned'' ''unavailability_planned'' ''planned unavailability''
              (PyBool planned) None occurred_at source_record_ids) (\<lambda>f3.
     rbind (case reported_cause of
              Some (c # cs) \<Rightarrow>
                rbind (mk_fact ''cause'' ''reported_cause'' ''reported cause'' (PyStr (c # cs)) None
                         occurred_at source_record_ids) (\<lambda>f. Inr [f1, f2, f3, f])
            | _ \<Rightarrow> Inr [f1, f2, f3]) (\<lambda>facts.
     validate_candidate
       \<lparr>ec_rule_id = ''remit.reported_unavailability'', ec_rule_version = 1,
        ec_event_type = ''reported_unit_unavailability'',
        ec_subject_type = ''asset'', ec_subject_id = Some asset_id,
        ec_occurred_at = occurred_at,
        ec_severity = (if unavailable_mw \<ge> 500 then Important else Notable),
        ec_evidence_class = Class_Reported, ec_confidence = High,
        ec_confidence_reasons = [''Published in an authoritative REMIT notice''],
        ec_dedupe_key = ''remit.reported_unavailability:'' @ asset_id @ '':'' @ hour_bucket occurred_at,
        ec_facts = facts, ec_cause_reported = (reported_cause \<noteq> None)\<rparr>))))"

section \<open>Processor\<close>

record grid_observation_window =
  ow_observed_at :: instant
  ow_previous_generation_mw :: mix
  ow_current_generation_mw :: mix
  ow_previous_net_import_mw :: "rat option"
  ow_current_net_import_mw :: "rat option"
  ow_net_flow_sustained_samples :: int
  ow_frequency_hz :: "rat option"
  ow_generation_source_record_ids :: "str list"
  ow_interconnector_source_record_ids :: "str list"
  ow_frequency_source_record_ids :: "str list"

definition process_window :: "grid_observation_window \<Rightarrow> event_candidate list result" where
  "process_window w =
     rbind (generation_leader_change (ow_previous_generation_mw w) (ow_current_generation_mw w)
              (ow_observed_at w) (ow_generation_source_record_ids w) (decimal 20 2)) (\<lambda>leader_change.
     rbind (renewable_share_milestone (ow_current_generation_mw w) (ow_observed_at w)
              (ow_generation_source_record_ids w) (decimal 50 2)) (\<lambda>milestone.
     rbind (case (ow_previous_net_import_mw w, ow_current_net_import_mw w) of
              (Some previous, Some current) \<Rightarrow>
                interconnector_reversal previous current (ow_observed_at w)
                  (ow_interconnector_source_record_ids w) (ow_net_flow_sustained_samples w) 100
            | _ \<Rightarrow> Inr None) (\<lambda>reversal.
     rbind (case ow_frequency_hz w of
              Some f \<Rightarrow> frequency_excursion f (ow_observed_at w) (ow_frequency_source_record_ids w)
                          (decimal 498 1) (decimal 502 1)
            | None \<Rightarrow> Inr None) (\<lambda>excursion.
     Inr [c. Some c \<leftarrow> [leader_change, milestone, reversal, excursion]]))))"

section \<open>Lifecycle\<close>

type_synonym lifecycle = "(str, detected_event) dict"

text \<open>Equality of two candidates, with Python's equality of numbers across their types.\<close>

fun py_number :: "py_value \<Rightarrow> rat option" where
  "py_number (PyBool b) = Some (if b then 1 else 0)"
| "py_number (PyInt n) = Some (of_int n)"
| "py_number (PyFloat x) = Some x"
| "py_number _ = None"

definition value_eq :: "py_value \<Rightarrow> py_value \<Rightarrow> bool" where
  "value_eq a b =
     (case (py_number a, py_number b) of (Some x, Some y) \<Rightarrow> x = y | _ \<Rightarrow> a = b)"

definition fact_eq :: "evidence_fact \<Rightarrow> evidence_fact \<Rightarrow> bool" where
  "fact_eq f g \<longleftrightarrow> value_eq (ef_value f) (ef_value g) \<and> f\<lparr>ef_value := PyNone\<rparr> = g\<lparr>ef_value := PyNone\<rparr>"

definition candidate_eq :: "event_candidate \<Rightarrow> event_candidate \<Rightarrow> bool" where
  "candidate_eq c d \<longleftrightarrow>
     list_all2 fact_eq (ec_facts c) (ec_facts d) \<and> c\<lparr>ec_facts := []\<rparr> = d\<lparr>ec_facts := []\<rparr>"

definition apply_candidate :: "lifecycle \<Rightarrow> event_candidate \<Rightarrow> instant \<Rightarrow> lifecycle \<times> detected_event" where
  "apply_candidate events candidate now =
     (let event_id = stable_id candidate
      in case lookup events event_id of
           None \<Rightarrow>
             let event = \<lparr>de_event_id = event_id, de_revision = 1, de_status = Open,
                          de_candidate = candidate, de_opened_at = now, de_updated_at = now,
                          de_resolved_at = None\<rparr>
             in (store events event_id event, event)
         | Some existing \<Rightarrow>
             if candidate_eq (de_candidate existing) candidate then (events, existing)
             else
               let event = existing\<lparr>de_revision := de_revision existing + 1, de_status := Updated,
                                    de_candidate := candidate, de_updated_at := now\<rparr>
               in (store events event_id event, event))"

definition resolve_event :: "lifecycle \<Rightarrow> str \<Rightarrow> instant \<Rightarrow> lifecycle \<times> detected_event result" where
  "resolve_event events event_id now =
     (case lookup events event_id of
        None \<Rightarrow> (events, Inl (KeyError event_id))
      | Some existing \<Rightarrow>
          let resolved = existing\<lparr>de_revision := de_revision existing + 1, de_status := Resolved,
                                  de_updated_at := now, de_resolved_at := Some now\<rparr>
          in (store events event_id resolved, Inr resolved))"

definition list_events :: "lifecycle \<Rightarrow> detected_event list" where
  "list_events events = sort_key (\<lambda>e. - ec_occurred_at (de_candidate e)) (map snd events)"

section \<open>Identities\<close>

lemma event_id_of_stable: "is_stable_event_id (event_id_of s)"
  by (auto simp: is_stable_event_id_def event_id_of_def sha256_hex_length list_all_iff
      intro: sha256_hex_chars dest: in_set_takeD)

section \<open>What a rule returns\<close>

text \<open>A derived or observed candidate of a rule: evidence of its own window and no reported cause.\<close>

definition measured :: "instant \<Rightarrow> str \<Rightarrow> event_candidate \<Rightarrow> bool" where
  "measured t event_type c \<longleftrightarrow>
     ec_event_type c = event_type \<and> ec_occurred_at c = t \<and> \<not> ec_cause_reported c
     \<and> ec_evidence_class c \<in> {Class_Derived, Class_Observed}
     \<and> ec_facts c \<noteq> [] \<and> (\<forall>f \<in> set (ec_facts c). ef_observed_at f = t \<and> ef_source_record_ids f \<noteq> [])"

lemmas rule_defs = mk_fact_def validate_candidate_def Let_def

lemma leader_change_measured:
  "generation_leader_change p q t ids m = Inr (Some c) \<Longrightarrow> measured t ''generation_leader_change'' c"
  by (auto simp: generation_leader_change_def rule_defs res_simps measured_def split: option.splits if_splits)

lemma milestone_measured:
  "renewable_share_milestone q t ids m = Inr (Some c) \<Longrightarrow> measured t ''renewable_share_milestone'' c"
  by (auto simp: renewable_share_milestone_def rule_defs res_simps measured_def split: if_splits)

lemma reversal_measured:
  "interconnector_reversal a b t ids n m = Inr (Some c) \<Longrightarrow> measured t ''energy_position_reversal'' c"
  by (auto simp: interconnector_reversal_def rule_defs res_simps measured_def split: if_splits)

lemma excursion_measured:
  "frequency_excursion f t ids lo hi = Inr (Some c) \<Longrightarrow> measured t ''frequency_excursion'' c"
  by (auto simp: frequency_excursion_def rule_defs res_simps measured_def split: if_splits)

lemma excursion_total:
  "ids \<noteq> [] \<Longrightarrow> \<exists>r. frequency_excursion f t ids lo hi = Inr r \<and> (r = None \<longleftrightarrow> lo \<le> f \<and> f \<le> hi)"
  by (auto simp: frequency_excursion_def rule_defs)

lemma leader_change_total: "ids \<noteq> [] \<Longrightarrow> \<exists>r. generation_leader_change p q t ids m = Inr r"
  by (auto simp: generation_leader_change_def rule_defs split: option.split)

lemma milestone_total: "ids \<noteq> [] \<Longrightarrow> \<exists>r. renewable_share_milestone q t ids m = Inr r"
  by (auto simp: renewable_share_milestone_def rule_defs)

lemma reversal_total:
  "ids \<noteq> [] \<Longrightarrow> \<exists>r. interconnector_reversal a b t ids n m = Inr r \<and>
     (r \<noteq> None \<longleftrightarrow> (a < 0 \<and> 0 < b \<or> b < 0 \<and> 0 < a) \<and> m \<le> \<bar>b\<bar> \<and> 2 \<le> n)"
  by (auto simp: interconnector_reversal_def rule_defs)

lemma excursion_key:
  "frequency_excursion f t ids lo hi = Inr (Some c) \<Longrightarrow>
     ec_dedupe_key c = ''frequency.excursion:'' @ (if f < lo then ''low'' else ''high'') @ '':'' @ five_minute_bucket t"
  by (auto simp: frequency_excursion_def rule_defs res_simps split: if_splits)

lemma measured_type: "measured t k c \<Longrightarrow> ec_event_type c = k"
  by (simp add: measured_def)

lemma collect_keys:
  "list_all2 (\<lambda>k r. \<forall>c. r = Some c \<longrightarrow> measured t k c) ks rs \<Longrightarrow>
     set (map ec_event_type [c. Some c \<leftarrow> rs]) = {k. \<exists>c. (k, Some c) \<in> set (zip ks rs)}"
proof (induction ks rs rule: list_all2_induct)
  case (Cons k ks r rs)
  then show ?case by (cases r) (auto simp: measured_type)
qed simp

lemma collect_distinct:
  "list_all2 (\<lambda>k r. \<forall>c. r = Some c \<longrightarrow> measured t k c) ks rs \<Longrightarrow> distinct ks \<Longrightarrow>
     distinct (map ec_event_type [c. Some c \<leftarrow> rs])"
proof (induction ks rs rule: list_all2_induct)
  case (Cons k ks r rs)
  have "k \<notin> set (map ec_event_type [c. Some c \<leftarrow> rs])"
    unfolding collect_keys [OF Cons(2)] using Cons.prems by (auto dest: set_zip_leftD)
  with Cons show ?case by (cases r) (auto simp: measured_type)
qed simp

lemma collect_measured:
  "list_all2 (\<lambda>k r. \<forall>c. r = Some c \<longrightarrow> measured t k c) ks rs \<Longrightarrow>
     list_all (\<lambda>c. measured t (ec_event_type c) c) [c. Some c \<leftarrow> rs]"
proof (induction ks rs rule: list_all2_induct)
  case (Cons k ks r rs)
  then show ?case by (cases r) (auto simp: measured_type)
qed simp

lemma window_reversal:
  assumes "ids \<noteq> []"
  shows "\<exists>r. (case (previous, current) of
        (Some a, Some b) \<Rightarrow> interconnector_reversal a b t ids n m | _ \<Rightarrow> Inr None) = Inr r
    \<and> (r \<noteq> None \<longleftrightarrow> (case (previous, current) of
         (Some a, Some b) \<Rightarrow> (a < 0 \<and> 0 < b \<or> b < 0 \<and> 0 < a) \<and> m \<le> \<bar>b\<bar> \<and> 2 \<le> n | _ \<Rightarrow> False))
    \<and> (\<forall>c. r = Some c \<longrightarrow> measured t ''energy_position_reversal'' c)"
proof (cases previous)
  case (Some a)
  show ?thesis
  proof (cases current)
    case (Some b)
    with reversal_total [OF assms, of a b t n m] reversal_measured [of a b t ids n m] \<open>previous = Some a\<close>
    show ?thesis by auto
  qed (simp add: \<open>previous = Some a\<close>)
qed simp

lemma window_excursion:
  assumes "ids \<noteq> []"
  shows "\<exists>r. (case frequency of Some f \<Rightarrow> frequency_excursion f t ids lo hi | None \<Rightarrow> Inr None) = Inr r
    \<and> (r \<noteq> None \<longleftrightarrow> (case frequency of None \<Rightarrow> False | Some f \<Rightarrow> f < lo \<or> hi < f))
    \<and> (\<forall>c. r = Some c \<longrightarrow> measured t ''frequency_excursion'' c)"
proof (cases frequency)
  case (Some f)
  with excursion_total [OF assms, of f t lo hi] excursion_measured [of f t ids lo hi] show ?thesis
    by (auto simp: not_le)
qed simp

section \<open>Lifecycle\<close>

lemma candidate_eq_refl [simp]: "candidate_eq c c"
  by (auto simp: candidate_eq_def fact_eq_def value_eq_def list.rel_refl split: option.split)

inductive lifecycle_step :: "lifecycle \<Rightarrow> lifecycle \<Rightarrow> bool" where
  apply_step: "lifecycle_step events (fst (apply_candidate events candidate now))"
| resolve_step: "resolve_event events event_id now = (events', Inr e) \<Longrightarrow> lifecycle_step events events'"

definition event_ok :: "str \<Rightarrow> detected_event \<Rightarrow> bool" where
  "event_ok k e \<longleftrightarrow> de_event_id e = k \<and> stable_id (de_candidate e) = k \<and> 1 \<le> de_revision e
     \<and> (de_status e = Open \<longleftrightarrow> de_revision e = 1) \<and> de_status e \<in> {Open, Updated, Resolved}
     \<and> (de_status e = Resolved \<longrightarrow> de_resolved_at e \<noteq> None)"

lemma apply_candidate_lookup:
  assumes "apply_candidate events c t = (events', e)"
  shows "lookup events' k = (if k = stable_id c then Some e else lookup events k)"
    and "lookup events (stable_id c) = Some e0 \<Longrightarrow>
          e = e0 \<and> candidate_eq (de_candidate e0) c \<or>
          e = e0\<lparr>de_revision := de_revision e0 + 1, de_status := Updated, de_candidate := c, de_updated_at := t\<rparr>"
  using assms by (auto simp: apply_candidate_def Let_def split: option.splits if_splits)

lemma candidate_eq_stable_id: "candidate_eq c d \<Longrightarrow> stable_id c = stable_id d"
  by (auto simp: candidate_eq_def stable_id_def dest: arg_cong [where f = ec_dedupe_key])

lemma step_ok:
  assumes "lifecycle_step events events'" and "\<And>k e. lookup events k = Some e \<Longrightarrow> event_ok k e"
    and "lookup events' k = Some e'"
  shows "event_ok k e'"
  using assms(1)
proof (cases rule: lifecycle_step.cases)
  case (apply_step c t)
  obtain e where a: "apply_candidate events c t = (events', e)" using apply_step by (metis prod.collapse)
  show ?thesis
  proof (cases "k = stable_id c \<and> lookup events k = None")
    case True
    with assms(3) a show ?thesis by (auto simp: apply_candidate_def event_ok_def Let_def)
  next
    case False
    then consider "k \<noteq> stable_id c" | e0 where "k = stable_id c" "lookup events (stable_id c) = Some e0" by auto
    then show ?thesis
    proof cases
      case 1
      with assms(2) [of k e'] assms(3) apply_candidate_lookup(1) [OF a] show ?thesis by simp
    next
      case 2
      with assms(3) apply_candidate_lookup(1) [OF a, of k] have "e' = e" by simp
      with apply_candidate_lookup(2) [OF a 2(2)] assms(2) [of k e0] 2 show ?thesis
        by (auto simp: event_ok_def)
    qed
  qed
next
  case (resolve_step i t e)
  then obtain ex where ex: "lookup events i = Some ex"
    by (cases "lookup events i") (simp_all add: resolve_event_def)
  with resolve_step have ex': "events' = store events i e"
    "e = ex\<lparr>de_revision := de_revision ex + 1, de_status := Resolved, de_updated_at := t, de_resolved_at := Some t\<rparr>"
    by (auto simp: resolve_event_def Let_def)
  show ?thesis
  proof (cases "k = i")
    case True
    with ex'(1) assms(3) have "e' = e" by simp
    with ex'(2) assms(2) [OF ex] True show ?thesis by (simp add: event_ok_def)
  next
    case False
    with ex'(1) assms(3) have "lookup events k = Some e'" by simp
    then show ?thesis by (rule assms(2))
  qed
qed

lemma step_revision:
  assumes "lifecycle_step events events'" and "lookup events k = Some e"
  shows "\<exists>e'. lookup events' k = Some e' \<and> de_opened_at e' = de_opened_at e
    \<and> (e' = e \<or> de_revision e' = de_revision e + 1)"
  using assms(1)
proof (cases rule: lifecycle_step.cases)
  case (apply_step c t)
  obtain e1 where a: "apply_candidate events c t = (events', e1)" using apply_step by (metis prod.collapse)
  show ?thesis
    using apply_candidate_lookup [OF a] assms(2) by (cases "k = stable_id c") auto
next
  case (resolve_step i t e1)
  with assms(2) show ?thesis
    by (auto simp: resolve_event_def Let_def split: option.splits if_splits)
qed

lemma reachable_ok:
  assumes "rtranclp lifecycle_step [] events" and "lookup events k = Some e"
  shows "event_ok k e"
  using assms
proof (induction arbitrary: k e rule: rtranclp_induct)
  case (step events events')
  then show ?case by (blast intro: step_ok)
qed simp

section \<open>Properties\<close>

text \<open>C8: in every reachable state of the lifecycle an event is stored under its own identity, which
  is the identity of its candidate; it is open exactly at revision one, and a resolved event has its
  resolution time.\<close>

theorem lifecycle_reachable:
  assumes "rtranclp lifecycle_step [] events" and "lookup events k = Some e"
  shows "event_ok k e"
  using assms by (rule reachable_ok)

definition example_candidate :: event_candidate where
  "example_candidate = \<lparr>ec_rule_id = ''r'', ec_rule_version = 1, ec_event_type = ''t'',
     ec_subject_type = ''s'', ec_subject_id = None, ec_occurred_at = 0, ec_severity = Info,
     ec_evidence_class = Class_Derived, ec_confidence = High, ec_confidence_reasons = [''x''],
     ec_dedupe_key = ''k'', ec_facts = [], ec_cause_reported = False\<rparr>"

theorem lifecycle_reachable_witness:
  "\<exists>events e. lookup events (stable_id example_candidate) = Some e
     \<and> event_ok (stable_id example_candidate) e"
proof -
  obtain events e where a: "apply_candidate [] example_candidate 0 = (events, e)" by force
  have "lifecycle_step [] events" using lifecycle_step.apply_step [of "[]" example_candidate 0] a by simp
  then have r: "rtranclp lifecycle_step [] events" by (rule r_into_rtranclp)
  have l: "lookup events (stable_id example_candidate) = Some e" using apply_candidate_lookup(1) [OF a] by simp
  from lifecycle_reachable [OF r l] l show ?thesis by blast
qed

text \<open>Replaying a candidate changes nothing: a second application returns the same event and
  leaves the lifecycle as it is, whatever the clock says.\<close>

theorem apply_idempotent:
  "let (events1, e1) = apply_candidate events c t in apply_candidate events1 c t' = (events1, e1)"
proof -
  obtain events1 e1 where a: "apply_candidate events c t = (events1, e1)" by force
  have l: "lookup events1 (stable_id c) = Some e1" using apply_candidate_lookup(1) [OF a] by simp
  have "candidate_eq (de_candidate e1) c"
  proof (cases "lookup events (stable_id c)")
    case None
    with a show ?thesis by (auto simp: apply_candidate_def Let_def)
  next
    case (Some e0)
    from apply_candidate_lookup(2) [OF a this] show ?thesis by auto
  qed
  with l have "apply_candidate events1 c t' = (events1, e1)" by (simp add: apply_candidate_def Let_def)
  with a show ?thesis by simp
qed

text \<open>C27: every public event identity the code issues has the shape the API accepts, for measured
  candidates and for reported notices alike.\<close>

theorem issued_ids_accepted:
  "is_stable_event_id (stable_id c)
   \<and> is_stable_event_id (reported_notice_event_id source_id notice_kind external_id)"
  by (simp add: stable_id_def reported_notice_event_id_def event_id_of_stable)



text \<open>Two excursions in the same direction within the same five minutes are one event.\<close>

theorem excursions_deduplicate:
  assumes "frequency_excursion f t ids lo hi = Inr (Some c)"
    and "frequency_excursion f' t' ids' lo hi = Inr (Some c')"
    and "f < lo \<longleftrightarrow> f' < lo" and "t div (5 * minute) = t' div (5 * minute)"
  shows "stable_id c = stable_id c'"
proof -
  have "u - u mod (5 * minute) = (u div (5 * minute)) * (5 * minute)" for u
    by (simp add: minus_mod_eq_div_mult)
  with assms(4) have "five_minute_bucket t = five_minute_bucket t'" by (simp add: five_minute_bucket_def)
  with excursion_key [OF assms(1)] excursion_key [OF assms(2)] assms(3)
  show ?thesis by (simp add: stable_id_def)
qed

theorem excursions_deduplicate_witness:
  "\<exists>c c'. frequency_excursion 49 0 [''a''] 50 51 = Inr (Some c)
     \<and> frequency_excursion 48 minute [''b''] 50 51 = Inr (Some c') \<and> stable_id c = stable_id c'"
proof -
  obtain c where c: "frequency_excursion 49 0 [''a''] 50 51 = Inr (Some c)"
    using excursion_total [of "[''a'']" 49 0 50 51] by auto
  obtain c' where c': "frequency_excursion 48 minute [''b''] 50 51 = Inr (Some c')"
    using excursion_total [of "[''b'']" 48 minute 50 51] by auto
  have "stable_id c = stable_id c'"
    by (rule excursions_deduplicate [OF c c']) (simp_all add: time_defs)
  with c c' show ?thesis by blast
qed

text \<open>A blank reported cause is flagged but not listed among the facts, and an event that changes
  after its resolution keeps its resolution time.\<close>

lemma blank_cause_is_flagged:
  "ids \<noteq> [] \<Longrightarrow> \<exists>c. reported_unavailability i n m p t ids (Some '''') = Inr c
     \<and> ec_cause_reported c \<and> ''cause'' \<notin> set (map ef_fact_id (ec_facts c))"
  by (simp add: reported_unavailability_def rule_defs)

lemma reopened_keeps_resolved_at:
  assumes "lookup events (stable_id c) = Some e" and "\<not> candidate_eq (de_candidate e) c"
  shows "\<exists>events' e'. apply_candidate events c t = (events', e') \<and> de_status e' = Updated
    \<and> de_resolved_at e' = de_resolved_at e"
  using assms by (simp add: apply_candidate_def Let_def)

end
