(* ===== verification/Event_Revisions.thy ===== *)
theory Event_Revisions
  imports Event_Models
begin

text \<open>
  The revision history of a reported event (app/events/revisions.py): the immutable revisions, the
  field delta between two of them, and the append-only history.  The lemmas give the shape of every
  accepted history; the locale states what an append-only chain promises its clients, and is
  interpreted on this module's history.
\<close>

section \<open>Models\<close>

datatype event_authority = System_Warning | Authoritative_Notice | Other_Reported

datatype revision_field =
  F_Unavailable_Mw | F_Normal_Capacity_Mw | F_Effective_Start | F_Effective_End | F_Status
| F_Reported_Cause | F_Evidence_Checksum | F_Material_Reason

record reported_revision =
  rv_event_id :: str
  rv_revision :: int
  rv_status :: event_status
  rv_published_at :: instant
  rv_effective_start :: "instant option"
  rv_effective_end :: "instant option"
  rv_authority :: event_authority
  rv_asset_id :: "str option"
  rv_asset_name :: "str option"
  rv_asset_identity_reliable :: bool
  rv_unavailable_mw :: "pyfloat option"
  rv_normal_capacity_mw :: "pyfloat option"
  rv_planned :: "bool option"
  rv_reported_cause :: "str option"
  rv_evidence_checksum :: str
  rv_material_reason :: "str option"
  rv_superseded_by_event_id :: "str option"
  rv_source_record_ids :: "str list"

text \<open>\<open>Field(min_length=1)\<close> on an optional string, and the float constraints.\<close>

definition nonblank :: "str option \<Rightarrow> bool" where
  "nonblank s \<longleftrightarrow> s \<noteq> Some ''''"

fun float_where :: "(rat \<Rightarrow> bool) \<Rightarrow> pyfloat option \<Rightarrow> bool" where
  "float_where P None = True"
| "float_where P (Some (Finite x)) = P x"
| "float_where P (Some _) = False"

definition validate_revision :: "reported_revision \<Rightarrow> reported_revision result" where
  "validate_revision r =
     rbind (ensure (rv_event_id r \<noteq> []) (ValueError ''event_id'')) (\<lambda>_.
     rbind (ensure (1 \<le> rv_revision r) (ValueError ''revision'')) (\<lambda>_.
     rbind (ensure (float_where (\<lambda>x. 0 \<le> x) (rv_unavailable_mw r)) (ValueError ''unavailable_mw'')) (\<lambda>_.
     rbind (ensure (float_where (\<lambda>x. 0 < x) (rv_normal_capacity_mw r)) (ValueError ''normal_capacity_mw'')) (\<lambda>_.
     rbind (ensure (nonblank (rv_reported_cause r)) (ValueError ''reported_cause'')) (\<lambda>_.
     rbind (ensure (rv_evidence_checksum r \<noteq> []) (ValueError ''evidence_checksum'')) (\<lambda>_.
     rbind (ensure (nonblank (rv_material_reason r)) (ValueError ''material_reason'')) (\<lambda>_.
     rbind (ensure (nonblank (rv_superseded_by_event_id r)) (ValueError ''superseded_by_event_id'')) (\<lambda>_.
     rbind (ensure (rv_source_record_ids r \<noteq> []) (ValueError ''source_record_ids'')) (\<lambda>_.
     if (case (rv_effective_start r, rv_effective_end r) of (Some s, Some e) \<Rightarrow> e < s | _ \<Rightarrow> False)
     then Inl (ValueError ''effective_end cannot precede effective_start'')
     else if rv_asset_identity_reliable r \<and> (case rv_asset_id r of None \<Rightarrow> True | Some i \<Rightarrow> i = [])
     then Inl (ValueError ''reliable asset identity requires asset_id'')
     else if rv_revision r = 1 \<and> rv_status r \<noteq> Open
     then Inl (ValueError ''the first revision must be open'')
     else if rv_revision r > 1 \<and> rv_status r = Open
     then Inl (ValueError ''later revisions cannot return to open'')
     else if rv_revision r > 1 \<and> rv_material_reason r = None
     then Inl (ValueError ''later revisions require a material reason'')
     else if rv_status r = Superseded
     then (if rv_superseded_by_event_id r = None
           then Inl (ValueError ''superseded status requires superseded_by_event_id'') else Inr r)
     else if rv_superseded_by_event_id r \<noteq> None
     then Inl (ValueError ''superseded_by_event_id is only valid when superseded'')
     else Inr r)))))))))"

text \<open>\<open>DeltaValue\<close>: a float, a time, a status, a string or nothing.\<close>

datatype delta_value =
  Delta_Float pyfloat | Delta_Time instant | Delta_Status event_status | Delta_Str str | Delta_None

record field_delta =
  fd_field :: revision_field
  fd_before :: delta_value
  fd_after :: delta_value

record revision_delta =
  rd_event_id :: str
  rd_from_revision :: int
  rd_to_revision :: int
  rd_changes :: "field_delta list"

definition validate_delta :: "revision_delta \<Rightarrow> revision_delta result" where
  "validate_delta d =
     rbind (ensure (1 \<le> rd_from_revision d) (ValueError ''from_revision'')) (\<lambda>_.
     rbind (ensure (2 \<le> rd_to_revision d) (ValueError ''to_revision'')) (\<lambda>_.
     rbind (ensure (rd_changes d \<noteq> []) (ValueError ''changes'')) (\<lambda>_. Inr d)))"

definition changed_fields :: "revision_delta \<Rightarrow> revision_field list" where
  "changed_fields d = map fd_field (rd_changes d)"

section \<open>Delta of two revisions\<close>

definition optional :: "('a \<Rightarrow> delta_value) \<Rightarrow> 'a option \<Rightarrow> delta_value" where
  "optional f x = (case x of None \<Rightarrow> Delta_None | Some y \<Rightarrow> f y)"

fun field_value :: "revision_field \<Rightarrow> reported_revision \<Rightarrow> delta_value" where
  "field_value F_Unavailable_Mw r = optional Delta_Float (rv_unavailable_mw r)"
| "field_value F_Normal_Capacity_Mw r = optional Delta_Float (rv_normal_capacity_mw r)"
| "field_value F_Effective_Start r = optional Delta_Time (rv_effective_start r)"
| "field_value F_Effective_End r = optional Delta_Time (rv_effective_end r)"
| "field_value F_Status r = Delta_Status (rv_status r)"
| "field_value F_Reported_Cause r = optional Delta_Str (rv_reported_cause r)"
| "field_value F_Evidence_Checksum r = Delta_Str (rv_evidence_checksum r)"
| "field_value F_Material_Reason r = optional Delta_Str (rv_material_reason r)"

definition delta_fields :: "revision_field list" where
  "delta_fields = [F_Unavailable_Mw, F_Normal_Capacity_Mw, F_Effective_Start, F_Effective_End,
     F_Status, F_Reported_Cause, F_Evidence_Checksum, F_Material_Reason]"

definition terminal :: "event_status \<Rightarrow> bool" where
  "terminal s \<longleftrightarrow> s = Resolved \<or> s = Superseded \<or> s = Withdrawn"

fun status_name :: "event_status \<Rightarrow> str" where
  "status_name Open = ''open''"
| "status_name Updated = ''updated''"
| "status_name Resolved = ''resolved''"
| "status_name Superseded = ''superseded''"
| "status_name Withdrawn = ''withdrawn''"

definition validate_status_transition :: "event_status \<Rightarrow> event_status \<Rightarrow> unit result" where
  "validate_status_transition previous current =
     (if terminal previous then Inl (ValueError ''terminal event states cannot be revised'')
      else if current \<notin> {Updated, Resolved, Superseded, Withdrawn}
      then Inl (ValueError (''invalid event status transition: '' @ status_name previous @ '' -> ''
                            @ status_name current))
      else Inr ())"

definition diff_revisions :: "reported_revision \<Rightarrow> reported_revision \<Rightarrow> revision_delta result" where
  "diff_revisions previous current =
     (if rv_event_id previous \<noteq> rv_event_id current
      then Inl (ValueError ''revisions must belong to the same event'')
      else if rv_revision current \<noteq> rv_revision previous + 1
      then Inl (ValueError ''revisions must be sequential'')
      else if rv_published_at current < rv_published_at previous
      then Inl (ValueError ''revision publication time cannot move backwards'')
      else
        rbind (validate_status_transition (rv_status previous) (rv_status current)) (\<lambda>_.
        validate_delta
          \<lparr>rd_event_id = rv_event_id current,
           rd_from_revision = rv_revision previous,
           rd_to_revision = rv_revision current,
           rd_changes =
             map (\<lambda>f. \<lparr>fd_field = f, fd_before = field_value f previous, fd_after = field_value f current\<rparr>)
               (filter (\<lambda>f. field_value f previous \<noteq> field_value f current) delta_fields)\<rparr>))"

section \<open>Histories\<close>

record lifecycle_history =
  lh_event_id :: str
  lh_revisions :: "reported_revision list"

fun diff_chain :: "reported_revision list \<Rightarrow> revision_delta list result" where
  "diff_chain (previous # current # rest) =
     rbind (diff_revisions previous current) (\<lambda>d.
     rbind (diff_chain (current # rest)) (\<lambda>ds. Inr (d # ds)))"
| "diff_chain _ = Inr []"

definition validate_history :: "lifecycle_history \<Rightarrow> lifecycle_history result" where
  "validate_history h =
     rbind (ensure (lh_event_id h \<noteq> []) (ValueError ''event_id'')) (\<lambda>_.
     case lh_revisions h of
       [] \<Rightarrow> Inl (ValueError ''revisions'')
     | first # rest \<Rightarrow>
         if \<exists>r \<in> set (lh_revisions h). rv_event_id r \<noteq> lh_event_id h
         then Inl (ValueError ''all revisions must belong to the lifecycle event'')
         else if rv_revision first \<noteq> 1
         then Inl (ValueError ''a lifecycle must begin at revision one'')
         else rbind (diff_chain (lh_revisions h)) (\<lambda>_. Inr h))"

definition current_revision :: "lifecycle_history \<Rightarrow> reported_revision" where
  "current_revision h = last (lh_revisions h)"

record append_result =
  ar_lifecycle :: lifecycle_history
  ar_delta :: revision_delta

definition append_revision :: "lifecycle_history \<Rightarrow> reported_revision \<Rightarrow> append_result result" where
  "append_revision h revision =
     rbind (diff_revisions (current_revision h) revision) (\<lambda>delta.
     rbind (validate_history \<lparr>lh_event_id = lh_event_id h, lh_revisions = lh_revisions h @ [revision]\<rparr>) (\<lambda>updated.
     Inr \<lparr>ar_lifecycle = updated, ar_delta = delta\<rparr>))"

section \<open>Chains\<close>

lemma status_transition_iff:
  "validate_status_transition p c = Inr () \<longleftrightarrow> p \<in> {Open, Updated} \<and> c \<noteq> Open"
  by (cases p; cases c) (auto simp: validate_status_transition_def terminal_def)

lemma diff_revisions_Inr:
  assumes "diff_revisions p c = Inr d"
  shows "rv_event_id c = rv_event_id p" "rv_revision c = rv_revision p + 1"
    "rv_published_at p \<le> rv_published_at c" "rv_status p \<in> {Open, Updated}" "rv_status c \<noteq> Open"
    "changed_fields d = filter (\<lambda>f. field_value f p \<noteq> field_value f c) delta_fields" "changed_fields d \<noteq> []"
  using assms status_transition_iff [of "rv_status p" "rv_status c"]
  by (auto simp: diff_revisions_def validate_delta_def res_simps changed_fields_def comp_def split: if_splits)

lemma diff_revisions_changes:
  "diff_revisions p c = Inr d \<Longrightarrow> fd \<in> set (rd_changes d) \<Longrightarrow>
     fd_before fd = field_value (fd_field fd) p \<and> fd_after fd = field_value (fd_field fd) c
     \<and> fd_before fd \<noteq> fd_after fd"
  by (auto simp: diff_revisions_def validate_delta_def res_simps split: if_splits)

lemma delta_fields_all: "f \<in> set delta_fields"
  by (cases f) (simp_all add: delta_fields_def)

lemma diff_chain_append:
  "rs \<noteq> [] \<Longrightarrow> (\<exists>ds. diff_chain (rs @ [r]) = Inr ds) \<longleftrightarrow>
     (\<exists>ds. diff_chain rs = Inr ds) \<and> (\<exists>d. diff_revisions (last rs) r = Inr d)"
  by (induction rs rule: diff_chain.induct) (auto simp: res_simps)

lemma diff_chain_shape:
  assumes "diff_chain (r # rs) = Inr ds"
  shows "map rv_revision (r # rs) = [rv_revision r .. rv_revision r + int (length rs)]
    \<and> sorted (map rv_published_at (r # rs))
    \<and> (\<forall>x \<in> set (butlast (r # rs)). rv_status x \<in> {Open, Updated})
    \<and> (\<forall>x \<in> set rs. rv_status x \<noteq> Open)"
  using assms
proof (induction rs arbitrary: r ds)
  case (Cons c rs)
  from Cons.prems obtain d ds' where d: "diff_revisions r c = Inr d" and ds': "diff_chain (c # rs) = Inr ds'"
    by (auto simp: res_simps)
  note head = diff_revisions_Inr [OF d] and tail = Cons.IH [OF ds']
  have "[rv_revision r .. rv_revision r + int (length (c # rs))]
      = rv_revision r # [rv_revision c .. rv_revision c + int (length rs)]"
    by (subst upto_rec1) (simp_all add: head(2) add.assoc)
  with head tail show ?case by (auto intro: order_trans)
qed simp

lemma updates_then_terminal:
  assumes "\<forall>x \<in> set ss. x \<noteq> Open" and "\<forall>x \<in> set (butlast ss). x \<in> {Open, Updated}"
  shows "\<exists>n s. ss = replicate n Updated @ s \<and> (s = [] \<or> (\<exists>t. s = [t] \<and> terminal t))"
  using assms
proof (induction ss)
  case (Cons x xs)
  show ?case
  proof (cases xs)
    case Nil
    show ?thesis
    proof (cases "x = Updated")
      case True
      with Nil show ?thesis by (intro exI [of _ 1] exI [of _ "[]"]) simp
    next
      case False
      with Cons.prems have "terminal x" by (cases x) (auto simp: terminal_def)
      with Nil show ?thesis by (intro exI [of _ 0] exI [of _ "[x]"]) simp
    qed
  next
    case (Cons y ys)
    with Cons.prems have "x = Updated" by auto
    moreover obtain n s where "xs = replicate n Updated @ s" "s = [] \<or> (\<exists>t. s = [t] \<and> terminal t)"
      using Cons.IH Cons.prems \<open>xs = y # ys\<close> by auto
    ultimately show ?thesis by (intro exI [of _ "Suc n"] exI [of _ s]) simp
  qed
qed simp

section \<open>Append-only chains\<close>

text \<open>What a client of an append-only history may rely on.\<close>

locale append_only =
  fixes valid :: "'h \<Rightarrow> bool" and items :: "'h \<Rightarrow> 'i list" and append :: "'h \<Rightarrow> 'i \<Rightarrow> 'h result"
  assumes append_items: "append h i = Inr h' \<Longrightarrow> items h' = items h @ [i]"
    and append_valid: "valid h \<Longrightarrow> append h i = Inr h' \<Longrightarrow> valid h'"
begin

primrec append_all :: "'h \<Rightarrow> 'i list \<Rightarrow> 'h result" where
  "append_all h [] = Inr h"
| "append_all h (i # is) = rbind (append h i) (\<lambda>h'. append_all h' is)"

lemma append_all_items: "append_all h is = Inr h' \<Longrightarrow> items h' = items h @ is"
  by (induction "is" arbitrary: h) (auto simp: res_simps dest: append_items)

lemma append_all_valid: "valid h \<Longrightarrow> append_all h is = Inr h' \<Longrightarrow> valid h'"
  by (induction "is" arbitrary: h) (auto simp: res_simps dest: append_valid)

text \<open>What was recorded stays recorded.\<close>

lemma append_all_keeps:
  "append_all h is = Inr h' \<Longrightarrow> n < length (items h) \<Longrightarrow> items h' ! n = items h ! n"
  by (auto dest!: append_all_items simp: nth_append)

end

definition history_valid :: "lifecycle_history \<Rightarrow> bool" where
  "history_valid h \<longleftrightarrow> validate_history h = Inr h"

lemma validate_history_Inr: "validate_history h = Inr h' \<longleftrightarrow> h' = h \<and> history_valid h"
  by (auto simp: history_valid_def validate_history_def res_simps split: list.splits if_splits)

definition appended :: "lifecycle_history \<Rightarrow> reported_revision \<Rightarrow> lifecycle_history result" where
  "appended h r = rbind (append_revision h r) (\<lambda>a. Inr (ar_lifecycle a))"

lemma append_revision_Inr:
  assumes "append_revision h r = Inr a"
  shows "ar_lifecycle a = \<lparr>lh_event_id = lh_event_id h, lh_revisions = lh_revisions h @ [r]\<rparr>"
    and "history_valid (ar_lifecycle a)" and "diff_revisions (current_revision h) r = Inr (ar_delta a)"
  using assms by (auto simp: append_revision_def res_simps validate_history_Inr)

interpretation history: append_only history_valid lh_revisions appended
  by unfold_locales (auto simp: appended_def res_simps dest: append_revision_Inr)

lemma append_iff:
  assumes "history_valid h"
  shows "(\<exists>a. append_revision h r = Inr a) \<longleftrightarrow>
    history_valid \<lparr>lh_event_id = lh_event_id h, lh_revisions = lh_revisions h @ [r]\<rparr>"
proof -
  obtain f rest where revs: "lh_revisions h = f # rest"
    using assms by (auto simp: history_valid_def validate_history_def res_simps split: list.splits)
  let ?h = "\<lparr>lh_event_id = lh_event_id h, lh_revisions = lh_revisions h @ [r]\<rparr>"
  have "\<exists>d. diff_revisions (current_revision h) r = Inr d" if "history_valid ?h"
  proof -
    from that have "\<exists>ds. diff_chain (lh_revisions h @ [r]) = Inr ds"
      by (auto simp: history_valid_def validate_history_def res_simps revs split: if_splits)
    with diff_chain_append [of "lh_revisions h" r] revs show ?thesis by (simp add: current_revision_def)
  qed
  then show ?thesis
    by (auto simp: append_revision_def res_simps validate_history_Inr)
qed

lemma accepted_history_shape:
  assumes "validate_history h = Inr h'" and "list_all (\<lambda>r. validate_revision r = Inr r) (lh_revisions h)"
  shows "map rv_revision (lh_revisions h) = [1 .. int (length (lh_revisions h))]
    \<and> sorted (map rv_published_at (lh_revisions h))
    \<and> (\<exists>n s. map rv_status (lh_revisions h) = Open # replicate n Updated @ s
         \<and> (s = [] \<or> (\<exists>t. s = [t] \<and> terminal t)))"
proof -
  from assms(1) obtain r rs ds where h: "lh_revisions h = r # rs" "rv_revision r = 1"
    "diff_chain (r # rs) = Inr ds"
    by (auto simp: validate_history_def res_simps split: list.splits if_splits)
  note shape = diff_chain_shape [OF h(3)]
  have "validate_revision r = Inr r" using assms(2) h(1) by simp
  then have first: "rv_status r = Open"
    using h(2) by (auto simp: validate_revision_def res_simps split: if_splits)
  have "\<exists>n s. map rv_status rs = replicate n Updated @ s \<and> (s = [] \<or> (\<exists>t. s = [t] \<and> terminal t))"
  proof (rule updates_then_terminal)
    show "\<forall>x \<in> set (map rv_status rs). x \<noteq> Open" using shape by simp
    show "\<forall>x \<in> set (butlast (map rv_status rs)). x \<in> {Open, Updated}"
      using shape by (auto simp: map_butlast [symmetric] split: if_splits)
  qed
  with shape first h show ?thesis by auto
qed

section \<open>Properties\<close>

text \<open>C24: an accepted history of validated revisions is numbered from one without gaps, its
  publication times never go back, and its statuses are open, then updates, then at most one
  terminal status, at the end.\<close>

theorem history_shape:
  assumes "validate_history h = Inr h'" and "list_all (\<lambda>r. validate_revision r = Inr r) (lh_revisions h)"
  shows "map rv_revision (lh_revisions h) = [1 .. int (length (lh_revisions h))]
    \<and> sorted (map rv_published_at (lh_revisions h))
    \<and> (\<exists>n s. map rv_status (lh_revisions h) = Open # replicate n Updated @ s
         \<and> (s = [] \<or> (\<exists>t. s = [t] \<and> terminal t)))"
  using accepted_history_shape [OF assms] .

definition example_revision :: "int \<Rightarrow> event_status \<Rightarrow> reported_revision" where
  "example_revision n s = \<lparr>rv_event_id = ''e'', rv_revision = n, rv_status = s, rv_published_at = n,
     rv_effective_start = None, rv_effective_end = None, rv_authority = Authoritative_Notice,
     rv_asset_id = None, rv_asset_name = None, rv_asset_identity_reliable = False,
     rv_unavailable_mw = None, rv_normal_capacity_mw = None, rv_planned = None,
     rv_reported_cause = None, rv_evidence_checksum = ''c'',
     rv_material_reason = (if n = 1 then None else Some ''m''),
     rv_superseded_by_event_id = None, rv_source_record_ids = [''s'']\<rparr>"

definition example_history :: lifecycle_history where
  "example_history = \<lparr>lh_event_id = ''e'',
     lh_revisions = [example_revision 1 Open, example_revision 2 Updated, example_revision 3 Resolved]\<rparr>"

theorem history_shape_witness:
  "map rv_revision (lh_revisions example_history) = [1 .. 3]
   \<and> (\<exists>n s. map rv_status (lh_revisions example_history) = Open # replicate n Updated @ s)"
proof -
  have "validate_history example_history = Inr example_history"
    "list_all (\<lambda>r. validate_revision r = Inr r) (lh_revisions example_history)"
    "length (lh_revisions example_history) = 3" by code_simp+
  with history_shape [OF this(1,2)] show ?thesis by (metis of_nat_numeral)
qed

text \<open>C23: appending to an accepted history succeeds exactly when the longer history would be
  accepted as a whole; then the history is the old one followed by the revision.\<close>

theorem append_revision_accepts:
  assumes "history_valid h"
  shows "case append_revision h r of
      Inl e \<Rightarrow> \<not> history_valid \<lparr>lh_event_id = lh_event_id h, lh_revisions = lh_revisions h @ [r]\<rparr>
    | Inr a \<Rightarrow> history_valid (ar_lifecycle a) \<and> current_revision (ar_lifecycle a) = r
        \<and> lh_revisions (ar_lifecycle a) = lh_revisions h @ [r] \<and> lh_event_id (ar_lifecycle a) = lh_event_id h"
proof (cases "append_revision h r")
  case (Inl e)
  with append_iff [OF assms, of r] show ?thesis by simp
next
  case (Inr a)
  from append_revision_Inr(1,2) [OF Inr] Inr show ?thesis by (simp add: current_revision_def)
qed

theorem append_revision_witness:
  "\<exists>a. append_revision \<lparr>lh_event_id = ''e'', lh_revisions = [example_revision 1 Open]\<rparr>
     (example_revision 2 Withdrawn) = Inr a \<and> current_revision (ar_lifecycle a) = example_revision 2 Withdrawn"
proof -
  let ?h = "\<lparr>lh_event_id = ''e'', lh_revisions = [example_revision 1 Open]\<rparr>"
  have v: "history_valid ?h" and n: "\<not> isl (append_revision ?h (example_revision 2 Withdrawn))" by code_simp+
  from n obtain a where a: "append_revision ?h (example_revision 2 Withdrawn) = Inr a"
    by (cases "append_revision ?h (example_revision 2 Withdrawn)") simp_all
  with append_revision_accepts [OF v, of "example_revision 2 Withdrawn"] show ?thesis by simp
qed

text \<open>C25: a withdrawn, superseded or resolved event is final, and the delta of an accepted revision
  names exactly the fields that changed.\<close>

theorem terminal_states_are_final:
  "if terminal (rv_status (current_revision h)) then \<exists>e. append_revision h r = Inl e
   else case append_revision h r of Inl e \<Rightarrow> True
     | Inr a \<Rightarrow> set (changed_fields (ar_delta a))
         = {f. field_value f (current_revision h) \<noteq> field_value f r} \<and> changed_fields (ar_delta a) \<noteq> []"
proof (cases "append_revision h r")
  case (Inr a)
  note d = diff_revisions_Inr [OF append_revision_Inr(3) [OF Inr]]
  from d(4) have "\<not> terminal (rv_status (current_revision h))" by (auto simp: terminal_def)
  with d(6,7) Inr show ?thesis by (auto simp: delta_fields_all)
qed simp

text \<open>No run of appends ever alters a revision that was recorded.\<close>

theorem recorded_revisions_stay:
  assumes "history.append_all h rs = Inr h'" and "n < length (lh_revisions h)"
  shows "lh_revisions h' ! n = lh_revisions h ! n \<and> lh_revisions h' = lh_revisions h @ rs"
  using history.append_all_keeps [OF assms] history.append_all_items [OF assms(1)] by simp

theorem recorded_revisions_witness:
  "\<exists>h'. history.append_all \<lparr>lh_event_id = ''e'', lh_revisions = [example_revision 1 Open]\<rparr>
     [example_revision 2 Updated, example_revision 3 Resolved] = Inr h'
   \<and> lh_revisions h' ! 0 = example_revision 1 Open"
proof -
  let ?h = "\<lparr>lh_event_id = ''e'', lh_revisions = [example_revision 1 Open]\<rparr>"
  let ?h2 = "\<lparr>lh_event_id = ''e'', lh_revisions = [example_revision 1 Open, example_revision 2 Updated]\<rparr>"
  have "\<not> isl (append_revision ?h (example_revision 2 Updated))"
    "\<not> isl (append_revision ?h2 (example_revision 3 Resolved))" by code_simp+
  then obtain a b where a: "append_revision ?h (example_revision 2 Updated) = Inr a"
    and b: "append_revision ?h2 (example_revision 3 Resolved) = Inr b"
    by (metis isl_def not_None_eq obj_sumE)
  have "ar_lifecycle a = ?h2" using append_revision_Inr(1) [OF a] by simp
  with a b obtain h' where h': "history.append_all ?h
      [example_revision 2 Updated, example_revision 3 Resolved] = Inr h'"
    by (simp add: appended_def)
  from recorded_revisions_stay [OF h', of 0] h' show ?thesis by auto
qed

end
