(* ===== verification/Event_Relevance.thy ===== *)
theory Event_Relevance
  imports Event_Revisions "HOL-Library.Multiset"
begin

text \<open>
  Relevance of reported events (app/events/relevance.py): the score of one event, the choice of
  the latest revisions, the grouping of overlapping outages of one asset, and the ranking.  The
  events are validated revisions, so their megawatts are finite; asset identifiers are ASCII, where
  \<open>casefold\<close> is lower case.  The theorems bound the score, identify the groups with the overlap_components
  components of the overlap relation, and show that the ranking does not depend on the order in
  which the events arrive.
\<close>

section \<open>Scores\<close>

record score_components =
  sc_authority :: int
  sc_system_warning :: int
  sc_unavailable_mw :: int
  sc_unavailable_capacity_percent :: int
  sc_timing :: int
  sc_duration :: int
  sc_reported_planning_state :: int
  sc_novelty :: int
  sc_material_revision :: int

definition validate_components :: "score_components \<Rightarrow> score_components result" where
  "validate_components c =
     (if 0 \<le> sc_authority c \<and> sc_authority c \<le> 20
         \<and> 0 \<le> sc_system_warning c \<and> sc_system_warning c \<le> 10
         \<and> 0 \<le> sc_unavailable_mw c \<and> sc_unavailable_mw c \<le> 15
         \<and> 0 \<le> sc_unavailable_capacity_percent c \<and> sc_unavailable_capacity_percent c \<le> 15
         \<and> 0 \<le> sc_timing c \<and> sc_timing c \<le> 15
         \<and> 0 \<le> sc_duration c \<and> sc_duration c \<le> 5
         \<and> 0 \<le> sc_reported_planning_state c \<and> sc_reported_planning_state c \<le> 5
         \<and> 0 \<le> sc_novelty c \<and> sc_novelty c \<le> 5
         \<and> 0 \<le> sc_material_revision c \<and> sc_material_revision c \<le> 10
      then Inr c else Inl (ValueError ''ScoreComponents''))"

definition components_total :: "score_components \<Rightarrow> int" where
  "components_total c =
     sc_authority c + sc_system_warning c + sc_unavailable_mw c + sc_unavailable_capacity_percent c
     + sc_timing c + sc_duration c + sc_reported_planning_state c + sc_novelty c
     + sc_material_revision c"

record relevance_score =
  rs_as_of :: instant
  rs_event :: reported_revision
  rs_eligible :: bool
  rs_exclusion_reason :: "str option"
  rs_unavailable_capacity_percent :: "rat option"
  rs_components :: score_components
  rs_total_score :: int

definition validate_score :: "relevance_score \<Rightarrow> relevance_score result" where
  "validate_score s =
     rbind (ensure (case rs_unavailable_capacity_percent s of None \<Rightarrow> True | Some p \<Rightarrow> 0 \<le> p)
              (ValueError ''unavailable_capacity_percent'')) (\<lambda>_.
     rbind (ensure (0 \<le> rs_total_score s \<and> rs_total_score s \<le> 100) (ValueError ''total_score'')) (\<lambda>_.
     if rs_total_score s \<noteq> components_total (rs_components s)
     then Inl (ValueError ''total_score must equal the component sum'')
     else if \<not> rs_eligible s \<and> rs_total_score s \<noteq> 0
     then Inl (ValueError ''ineligible events must have a zero relevance score'')
     else Inr s))"

text \<open>A validated float field as a number.\<close>

definition number :: "pyfloat option \<Rightarrow> rat option" where
  "number x = (case x of None \<Rightarrow> None | Some f \<Rightarrow> finite_value f)"

fun authority_priority :: "event_authority \<Rightarrow> int" where
  "authority_priority System_Warning = 3"
| "authority_priority Authoritative_Notice = 2"
| "authority_priority Other_Reported = 1"

fun authority_score :: "event_authority \<Rightarrow> int" where
  "authority_score System_Warning = 20"
| "authority_score Authoritative_Notice = 20"
| "authority_score Other_Reported = 8"

definition unavailable_mw_score :: "rat option \<Rightarrow> int" where
  "unavailable_mw_score v =
     (case v of
        None \<Rightarrow> 0
      | Some x \<Rightarrow> if x = 0 then 0 else if x < 100 then 2 else if x < 500 then 6
                 else if x < 1000 then 10 else 15)"

definition capacity_percent :: "reported_revision \<Rightarrow> rat option" where
  "capacity_percent e =
     (case (number (rv_unavailable_mw e), number (rv_normal_capacity_mw e)) of
        (Some u, Some n) \<Rightarrow> Some (fmul (fdiv u n) 100)
      | _ \<Rightarrow> None)"

definition capacity_percent_score :: "rat option \<Rightarrow> int" where
  "capacity_percent_score v =
     (case v of
        None \<Rightarrow> 0
      | Some x \<Rightarrow> if x \<le> 0 then 0 else if x < 10 then 2 else if x < 25 then 5 else if x < 50 then 9
                 else if x < 75 then 12 else 15)"

definition timing_score :: "reported_revision \<Rightarrow> instant \<Rightarrow> int" where
  "timing_score e as_of =
     (case rv_effective_start e of
        None \<Rightarrow> 0
      | Some start \<Rightarrow>
          if start \<le> as_of \<and> (case rv_effective_end e of None \<Rightarrow> True | Some t \<Rightarrow> t > as_of) then 15
          else if start \<le> as_of then 0
          else if start - as_of \<le> 6 * hour then 12
          else if start - as_of \<le> 24 * hour then 8
          else 3)"

definition duration_score :: "reported_revision \<Rightarrow> int" where
  "duration_score e =
     (case (rv_effective_start e, rv_effective_end e) of
        (Some s, Some t) \<Rightarrow>
          if t - s \<ge> 24 * hour then 5 else if t - s \<ge> 6 * hour then 3 else if t - s > 0 then 1 else 0
      | _ \<Rightarrow> 0)"

definition planning_score :: "bool option \<Rightarrow> int" where
  "planning_score planned = (case planned of Some False \<Rightarrow> 5 | Some True \<Rightarrow> 2 | None \<Rightarrow> 0)"

definition novelty_score :: "reported_revision \<Rightarrow> instant \<Rightarrow> int" where
  "novelty_score e as_of =
     (if rv_revision e \<noteq> 1 then 0
      else
        let age = as_of - rv_published_at e
        in if age < 0 then 0 else if age \<le> 6 * hour then 5 else if age \<le> 24 * hour then 3 else 0)"

definition material_revision_score :: "reported_revision \<Rightarrow> int" where
  "material_revision_score e =
     (if rv_revision e > 1 \<and> rv_status e = Updated
      then (if rv_material_reason e \<noteq> None then 10 else 0) else 0)"

definition zero_components :: score_components where
  "zero_components = \<lparr>sc_authority = 0, sc_system_warning = 0, sc_unavailable_mw = 0,
     sc_unavailable_capacity_percent = 0, sc_timing = 0, sc_duration = 0,
     sc_reported_planning_state = 0, sc_novelty = 0, sc_material_revision = 0\<rparr>"

definition excluded :: "instant \<Rightarrow> reported_revision \<Rightarrow> str \<Rightarrow> relevance_score result" where
  "excluded as_of e reason =
     validate_score \<lparr>rs_as_of = as_of, rs_event = e, rs_eligible = False,
       rs_exclusion_reason = Some reason, rs_unavailable_capacity_percent = capacity_percent e,
       rs_components = zero_components, rs_total_score = 0\<rparr>"

definition score_event :: "instant \<Rightarrow> reported_revision \<Rightarrow> relevance_score result" where
  "score_event as_of e =
     (if terminal (rv_status e) then excluded as_of e (''terminal_status:'' @ status_name (rv_status e))
      else if (case rv_effective_end e of None \<Rightarrow> False | Some t \<Rightarrow> t \<le> as_of)
      then excluded as_of e ''reported_window_ended''
      else
        rbind (validate_components
          \<lparr>sc_authority = authority_score (rv_authority e),
           sc_system_warning = (if rv_authority e = System_Warning then 10 else 0),
           sc_unavailable_mw = unavailable_mw_score (number (rv_unavailable_mw e)),
           sc_unavailable_capacity_percent = capacity_percent_score (capacity_percent e),
           sc_timing = timing_score e as_of,
           sc_duration = duration_score e,
           sc_reported_planning_state = planning_score (rv_planned e),
           sc_novelty = novelty_score e as_of,
           sc_material_revision = material_revision_score e\<rparr>) (\<lambda>components.
        validate_score \<lparr>rs_as_of = as_of, rs_event = e, rs_eligible = True,
          rs_exclusion_reason = None, rs_unavailable_capacity_percent = capacity_percent e,
          rs_components = components, rs_total_score = components_total components\<rparr>))"

section \<open>Latest revisions\<close>

fun latest_loop ::
  "(str \<times> int, reported_revision) dict \<Rightarrow> (str, reported_revision) dict \<Rightarrow> reported_revision list
     \<Rightarrow> (str, reported_revision) dict result" where
  "latest_loop seen by_event [] = Inr by_event"
| "latest_loop seen by_event (e # es) =
     (let key = (rv_event_id e, rv_revision e)
      in if (case lookup seen key of None \<Rightarrow> False | Some d \<Rightarrow> d \<noteq> e)
         then Inl (ValueError ''conflicting duplicate event revision'')
         else latest_loop (store seen key e) (keep_latest_step rv_event_id rv_revision by_event e) es)"

definition latest_revisions :: "reported_revision list \<Rightarrow> reported_revision list result" where
  "latest_revisions events = rbind (latest_loop [] [] events) (\<lambda>by_event. Inr (map snd by_event))"

section \<open>Groups\<close>

definition datetime_max :: instant where
  "datetime_max = 253402300799999999"

definition reported_windows_overlap :: "reported_revision \<Rightarrow> reported_revision \<Rightarrow> bool" where
  "reported_windows_overlap left right =
     (case (rv_effective_start left, rv_effective_start right) of
        (Some left_start, Some right_start) \<Rightarrow>
          let left_end = (case rv_effective_end left of None \<Rightarrow> datetime_max | Some t \<Rightarrow> t);
              right_end = (case rv_effective_end right of None \<Rightarrow> datetime_max | Some t \<Rightarrow> t)
          in max left_start right_start < min left_end right_end
      | _ \<Rightarrow> False)"

text \<open>One pass over the remaining candidates, then passes until nothing changes.\<close>

fun absorb :: "('a \<Rightarrow> 'a \<Rightarrow> bool) \<Rightarrow> 'a list \<Rightarrow> 'a list \<Rightarrow> 'a list \<times> 'a list" where
  "absorb overlaps component [] = (component, [])"
| "absorb overlaps component (c # cs) =
     (if \<exists>m \<in> set component. overlaps c m then absorb overlaps (component @ [c]) cs
      else let (component', rest) = absorb overlaps component cs in (component', c # rest))"

lemma absorb_length: "absorb R ms cs = (ms', rest) \<Longrightarrow> length rest \<le> length cs"
  by (induction R ms cs arbitrary: ms' rest rule: absorb.induct) (auto split: if_splits prod.splits intro: le_SucI)

function close_component :: "('a \<Rightarrow> 'a \<Rightarrow> bool) \<Rightarrow> 'a list \<Rightarrow> 'a list \<Rightarrow> 'a list \<times> 'a list" where
  "close_component overlaps component remaining =
     (let (component', rest) = absorb overlaps component remaining
      in if length rest = length remaining then (component', rest)
         else close_component overlaps component' rest)"
  by auto
termination
proof (relation "measure (\<lambda>(R, ms, cs). length cs)", goal_cases)
  case (2 R ms cs p ms' rest)
  then have "length rest \<le> length cs" by (intro absorb_length [of R ms cs ms']) simp
  with 2(3) show ?case by simp
qed simp

declare close_component.simps [simp del]

lemma close_component_length: "length (snd (close_component R ms cs)) \<le> length cs"
proof (induction R ms cs rule: close_component.induct)
  case (1 R ms cs)
  obtain ms' rest where a: "absorb R ms cs = (ms', rest)" by force
  with 1 [OF a [symmetric] refl] absorb_length [OF a] show ?case
    by (subst close_component.simps) (auto simp: a)
qed

function overlap_components :: "('a \<Rightarrow> 'a \<Rightarrow> bool) \<Rightarrow> 'a list \<Rightarrow> 'a list list" where
  "overlap_components overlaps [] = []"
| "overlap_components overlaps (x # xs) =
     (let (component, rest) = close_component overlaps [x] xs in component # overlap_components overlaps rest)"
  by pat_completeness auto
termination
proof (relation "measure (\<lambda>(R, xs). length xs)", goal_cases)
  case (2 R x xs p ms rest)
  then have "length rest \<le> length xs" using close_component_length [of R "[x]" xs] by (metis snd_conv)
  then show ?case by simp
qed simp

record event_group =
  eg_key :: str
  eg_asset :: "str option"
  eg_members :: "relevance_score list"

definition reliable_asset :: "relevance_score \<Rightarrow> str option" where
  "reliable_asset s =
     (if rv_asset_identity_reliable (rs_event s)
      then (case rv_asset_id (rs_event s) of
              Some (c # cs) \<Rightarrow> Some (lower (strip (c # cs)))
            | _ \<Rightarrow> None)
      else None)"

definition score_event_id :: "relevance_score \<Rightarrow> str" where
  "score_event_id s = rv_event_id (rs_event s)"

definition windows_overlap :: "relevance_score \<Rightarrow> relevance_score \<Rightarrow> bool" where
  "windows_overlap a b = reported_windows_overlap (rs_event a) (rs_event b)"

definition least_id :: "relevance_score list \<Rightarrow> str" where
  "least_id members = (case py_min (\<lambda>i. i) (map score_event_id members) of None \<Rightarrow> [] | Some i \<Rightarrow> i)"

definition asset_groups :: "str \<Rightarrow> relevance_score list \<Rightarrow> event_group list" where
  "asset_groups asset_id members =
     (let components = overlap_components windows_overlap (sort_key score_event_id members)
      in map (\<lambda>component.
           \<lparr>eg_key = ''asset:'' @ asset_id
              @ (if length components = 1 then '''' else '':'' @ least_id component),
            eg_asset = Some asset_id, eg_members = component\<rparr>) components)"

definition group_eligible_scores :: "relevance_score list \<Rightarrow> event_group list" where
  "group_eligible_scores scores =
     (let standalone = map (\<lambda>s. \<lparr>eg_key = ''event:'' @ score_event_id s, eg_asset = None, eg_members = [s]\<rparr>)
            (filter (\<lambda>s. reliable_asset s = None) scores);
          by_asset = group_by (\<lambda>s. the (reliable_asset s)) (filter (\<lambda>s. reliable_asset s \<noteq> None) scores)
      in standalone
         @ concat (map (\<lambda>asset_id. asset_groups asset_id (get_or by_asset asset_id []))
                     (sort (map fst by_asset))))"

section \<open>Ranking\<close>

definition MAX_SELECTED_EVENTS :: int where "MAX_SELECTED_EVENTS = 3"

text \<open>The sort key; tuples compare lexicographically, and \<open>timestamp()\<close> is a float.\<close>

definition score_sort_key ::
  "relevance_score \<Rightarrow> int \<times> int \<times> bool \<times> rat \<times> rat \<times> str" where
  "score_sort_key s =
     (let e = rs_event s; unavailable = number (rv_unavailable_mw e)
      in (- rs_total_score s, - authority_priority (rv_authority e), unavailable = None,
          - (case unavailable of None \<Rightarrow> 0 | Some u \<Rightarrow> u),
          - int_div (rv_published_at e) 1000000, rv_event_id e))"

record ranked_group =
  rg_group_key :: str
  rg_reliable_asset_id :: "str option"
  rg_member_event_ids :: "str list"
  rg_representative :: relevance_score

definition ranked_group_of :: "event_group \<Rightarrow> ranked_group result" where
  "ranked_group_of g =
     (case py_min score_sort_key (eg_members g) of
        None \<Rightarrow> Inl (ValueError ''min() arg is an empty sequence'')
      | Some representative \<Rightarrow>
          Inr \<lparr>rg_group_key = eg_key g, rg_reliable_asset_id = eg_asset g,
               rg_member_event_ids = sorted_set (map score_event_id (eg_members g)),
               rg_representative = representative\<rparr>)"

record ranked_selection =
  se_as_of :: instant
  se_requested_limit :: int
  se_eligible_group_count :: int
  se_selected :: "ranked_group list"

definition validate_selection :: "ranked_selection \<Rightarrow> ranked_selection result" where
  "validate_selection s =
     rbind (ensure (1 \<le> se_requested_limit s \<and> se_requested_limit s \<le> MAX_SELECTED_EVENTS)
              (ValueError ''requested_limit'')) (\<lambda>_.
     rbind (ensure (0 \<le> se_eligible_group_count s) (ValueError ''eligible_group_count'')) (\<lambda>_.
     if int (length (se_selected s)) > se_requested_limit s
     then Inl (ValueError ''selected events exceed the requested limit'')
     else if int (length (se_selected s)) > MAX_SELECTED_EVENTS
     then Inl (ValueError ''selected events exceed the product maximum'')
     else Inr s))"

definition rank_relevant_events ::
  "reported_revision list \<Rightarrow> datetime \<Rightarrow> py_value \<Rightarrow> ranked_selection result" where
  "rank_relevant_events events as_of limit =
     (case limit of
        PyInt n \<Rightarrow>
          if \<not> (1 \<le> n \<and> n \<le> MAX_SELECTED_EVENTS)
          then Inl (ValueError ''limit must be between one and three'')
          else
            rbind (aware_utc ''as_of must be timezone-aware'' as_of) (\<lambda>instant.
            rbind (latest_revisions events) (\<lambda>latest.
            rbind (traverse (score_event instant) latest) (\<lambda>scores.
            rbind (traverse ranked_group_of (group_eligible_scores (filter rs_eligible scores))) (\<lambda>groups.
            let ranked = sort_key (\<lambda>g. score_sort_key (rg_representative g)) groups
            in validate_selection
                 \<lparr>se_as_of = instant, se_requested_limit = n,
                  se_eligible_group_count = int (length ranked),
                  se_selected = take (nat n) ranked\<rparr>))))
      | _ \<Rightarrow> Inl (TypeError ''limit must be an integer''))"

section \<open>The score of one event\<close>

lemma component_bounds:
  "0 \<le> unavailable_mw_score v \<and> unavailable_mw_score v \<le> 15"
  "0 \<le> capacity_percent_score v \<and> capacity_percent_score v \<le> 15"
  "0 \<le> timing_score e t \<and> timing_score e t \<le> 15"
  "0 \<le> duration_score e \<and> duration_score e \<le> 5"
  "0 \<le> planning_score p \<and> planning_score p \<le> 5"
  "0 \<le> novelty_score e t \<and> novelty_score e t \<le> 5"
  "0 \<le> material_revision_score e \<and> material_revision_score e \<le> 10"
  by (auto simp: unavailable_mw_score_def capacity_percent_score_def timing_score_def duration_score_def
      planning_score_def novelty_score_def material_revision_score_def Let_def split: option.split bool.split)

lemma capacity_percent_nonneg:
  assumes "validate_revision e = Inr e" and "capacity_percent e = Some p"
  shows "0 \<le> p"
proof -
  obtain u n where un: "number (rv_unavailable_mw e) = Some u" "number (rv_normal_capacity_mw e) = Some n"
    "p = fmul (fdiv u n) 100"
    using assms(2) by (auto simp: capacity_percent_def split: option.splits)
  have "0 \<le> u" "0 < n"
    using assms(1) un(1,2)
    by (auto simp: validate_revision_def res_simps number_def split: if_splits option.splits pyfloat.splits
        elim!: float_where.elims finite_value.elims)
  then show ?thesis using un(3) by (simp add: fmul_def fdiv_def f64.nonneg)
qed

definition relevant :: "instant \<Rightarrow> reported_revision \<Rightarrow> bool" where
  "relevant as_of e \<longleftrightarrow> \<not> terminal (rv_status e) \<and> (case rv_effective_end e of None \<Rightarrow> True | Some t \<Rightarrow> as_of < t)"

lemma score_event_ok:
  assumes "validate_revision e = Inr e"
  shows "\<exists>s. score_event t e = Inr s \<and> rs_event s = e \<and> 0 \<le> rs_total_score s \<and> rs_total_score s \<le> 100
    \<and> (rs_eligible s \<longleftrightarrow> relevant t e) \<and> (\<not> rs_eligible s \<longrightarrow> rs_total_score s = 0)"
proof -
  have p: "case capacity_percent e of None \<Rightarrow> True | Some p \<Rightarrow> 0 \<le> p"
    using capacity_percent_nonneg [OF assms] by (auto split: option.split)
  have x: "\<exists>s. excluded t e r = Inr s \<and> rs_event s = e \<and> rs_total_score s = 0 \<and> \<not> rs_eligible s" for r
    using p by (simp add: excluded_def validate_score_def zero_components_def components_total_def)
  show ?thesis
  proof (cases "relevant t e")
    case False
    then have "terminal (rv_status e) \<or> (case rv_effective_end e of None \<Rightarrow> False | Some u \<Rightarrow> u \<le> t)"
      by (auto simp: relevant_def not_less split: option.splits)
    then obtain r where "score_event t e = excluded t e r"
      by (cases "terminal (rv_status e)") (simp_all add: score_event_def)
    moreover obtain s where "excluded t e r = Inr s" "rs_event s = e" "rs_total_score s = 0" "\<not> rs_eligible s"
      using x [of r] by blast
    ultimately show ?thesis using False by simp
  next
    case True
    define c where "c = \<lparr>sc_authority = authority_score (rv_authority e),
       sc_system_warning = (if rv_authority e = System_Warning then 10 else 0),
       sc_unavailable_mw = unavailable_mw_score (number (rv_unavailable_mw e)),
       sc_unavailable_capacity_percent = capacity_percent_score (capacity_percent e),
       sc_timing = timing_score e t, sc_duration = duration_score e,
       sc_reported_planning_state = planning_score (rv_planned e), sc_novelty = novelty_score e t,
       sc_material_revision = material_revision_score e\<rparr>"
    have c: "validate_components c = Inr c" "0 \<le> components_total c" "components_total c \<le> 100"
      using component_bounds(1) [of "number (rv_unavailable_mw e)"] component_bounds(2) [of "capacity_percent e"]
        component_bounds(3) [of e t] component_bounds(4) [of e] component_bounds(5) [of "rv_planned e"]
        component_bounds(6) [of e t] component_bounds(7) [of e]
      by (cases "rv_authority e"; simp add: c_def validate_components_def components_total_def)+
    then show ?thesis using True p unfolding score_event_def c_def [symmetric]
      by (auto simp: relevant_def validate_score_def split: option.splits)
  qed
qed

section \<open>Groups are connected components\<close>

text \<open>The relation \<open>linked\<close>: overlapping elements of a list.\<close>

definition linked :: "('a \<Rightarrow> 'a \<Rightarrow> bool) \<Rightarrow> 'a set \<Rightarrow> 'a \<Rightarrow> 'a \<Rightarrow> bool" where
  "linked overlaps A x y \<longleftrightarrow> x \<in> A \<and> y \<in> A \<and> overlaps x y"

lemma absorb_mset: "absorb R ms cs = (ms', rest) \<Longrightarrow> mset ms' + mset rest = mset ms + mset cs"
  by (induction R ms cs arbitrary: ms' rest rule: absorb.induct) (auto split: if_splits prod.splits)

lemma absorb_prefix: "absorb R ms cs = (ms', rest) \<Longrightarrow> \<exists>ys. ms' = ms @ ys"
  by (induction R ms cs arbitrary: ms' rest rule: absorb.induct) (fastforce split: if_splits prod.splits)+

lemma absorb_apart:
  "absorb R ms cs = (ms', rest) \<Longrightarrow> length rest = length cs \<Longrightarrow>
     ms' = ms \<and> rest = cs \<and> (\<forall>c \<in> set cs. \<forall>m \<in> set ms. \<not> R c m)"
proof (induction R ms cs arbitrary: ms' rest rule: absorb.induct)
  case (2 R ms c cs)
  show ?case
  proof (cases "\<exists>m \<in> set ms. R c m")
    case True
    with "2.prems" have "absorb R (ms @ [c]) cs = (ms', rest)" by simp
    from absorb_length [OF this] "2.prems"(2) show ?thesis by simp
  next
    case False
    with "2.prems" obtain rest' where "absorb R ms cs = (ms', rest')" "rest = c # rest'"
      by (auto split: prod.splits)
    with "2.IH"(2) [OF False] "2.prems"(2) False show ?thesis by auto
  qed
qed simp

lemma absorb_reach:
  assumes "absorb R ms cs = (ms', rest)" and "\<forall>m \<in> set ms. rtranclp (linked R A) m x"
    and "set ms \<subseteq> A" and "set cs \<subseteq> A"
  shows "\<forall>m \<in> set ms'. rtranclp (linked R A) m x"
  using assms
proof (induction R ms cs arbitrary: ms' rest rule: absorb.induct)
  case (2 R ms c cs)
  show ?case
  proof (cases "\<exists>m \<in> set ms. R c m")
    case True
    then obtain m where "m \<in> set ms" "R c m" by blast
    then have "linked R A c m" using "2.prems" by (auto simp: linked_def)
    moreover have "rtranclp (linked R A) m x" using \<open>m \<in> set ms\<close> "2.prems"(2) by blast
    ultimately have "rtranclp (linked R A) c x" by (rule converse_rtranclp_into_rtranclp)
    with "2.IH"(1) [OF True] "2.prems" True show ?thesis by auto
  next
    case False
    with "2.prems" obtain rest' where "absorb R ms cs = (ms', rest')"
      by (auto split: prod.splits)
    with "2.IH"(2) [OF False this] "2.prems" show ?thesis by auto
  qed
qed auto

lemma close_component_spec:
  assumes "close_component R ms cs = (ms', rest)"
  shows "mset ms' + mset rest = mset ms + mset cs \<and> (\<exists>ys. ms' = ms @ ys)
    \<and> (\<forall>c \<in> set rest. \<forall>m \<in> set ms'. \<not> R c m)
    \<and> (\<forall>A x. (\<forall>m \<in> set ms. rtranclp (linked R A) m x) \<longrightarrow> set ms \<subseteq> A \<longrightarrow> set cs \<subseteq> A \<longrightarrow>
          (\<forall>m \<in> set ms'. rtranclp (linked R A) m x))"
  using assms
proof (induction R ms cs arbitrary: ms' rest rule: close_component.induct)
  case (1 R ms cs)
  obtain ms1 rest1 where a: "absorb R ms cs = (ms1, rest1)" by force
  show ?case
  proof (cases "length rest1 = length cs")
    case True
    with "1.prems" a have "ms' = ms1" "rest = rest1" by (simp_all add: close_component.simps [of R ms cs])
    with absorb_apart [OF a True] show ?thesis by simp
  next
    case False
    with "1.prems" a have c: "close_component R ms1 rest1 = (ms', rest)"
      by (simp add: close_component.simps [of R ms cs])
    note IH = "1.IH" [OF a [symmetric] refl False c]
    have "set ms1 \<union> set rest1 = set ms \<union> set cs"
      using arg_cong [OF absorb_mset [OF a], of set_mset] by simp
    then have "set ms \<subseteq> A \<Longrightarrow> set cs \<subseteq> A \<Longrightarrow> set ms1 \<subseteq> A \<and> set rest1 \<subseteq> A" for A by auto
    with IH absorb_mset [OF a] absorb_prefix [OF a] absorb_reach [OF a] show ?thesis
      by (metis (no_types, lifting) append_assoc)
  qed
qed

lemma overlap_components_mset: "mset (concat (overlap_components R xs)) = mset xs"
proof (induction R xs rule: overlap_components.induct)
  case (2 R x xs)
  obtain ms rest where c: "close_component R [x] xs = (ms, rest)" by force
  with 2 [OF c [symmetric] refl] close_component_spec [OF c] show ?case by simp
qed simp

lemma connected_nonempty: "c \<in> set (overlap_components R xs) \<Longrightarrow> c \<noteq> []"
proof (induction R xs rule: overlap_components.induct)
  case (2 R x xs)
  obtain ms rest where c: "close_component R [x] xs = (ms, rest)" by force
  with 2 close_component_spec [OF c] show ?case by auto
qed simp

locale overlap_graph =
  fixes overlaps :: "'a \<Rightarrow> 'a \<Rightarrow> bool"
  assumes overlaps_sym: "overlaps x y \<Longrightarrow> overlaps y x"
begin

lemma linked_sym: "rtranclp (linked overlaps A) x y \<Longrightarrow> rtranclp (linked overlaps A) y x"
proof (induction rule: rtranclp_induct)
  case (step y z)
  then have "linked overlaps A z y" by (auto simp: linked_def intro: overlaps_sym)
  with step.IH show ?case by (rule converse_rtranclp_into_rtranclp [rotated])
qed simp

lemma connected_root:
  "c \<in> set (overlap_components overlaps xs) \<Longrightarrow> set xs \<subseteq> A \<Longrightarrow> \<exists>r. \<forall>m \<in> set c. rtranclp (linked overlaps A) m r"
proof (induction overlaps xs rule: overlap_components.induct)
  case (2 R x xs)
  obtain ms rest where c: "close_component R [x] xs = (ms, rest)" by force
  note spec = close_component_spec [OF c]
  from spec have "mset (ms @ rest) = mset (x # xs)" by simp
  from mset_eq_setD [OF this] have sub: "set ms \<union> set rest = insert x (set xs)" by simp
  show ?case
  proof (cases "c = ms")
    case True
    with spec "2.prems"(2) have "\<forall>m \<in> set c. rtranclp (linked R A) m x" by simp
    then show ?thesis by blast
  next
    case False
    have "set rest \<subseteq> A" using sub "2.prems"(2) by auto
    with "2.IH" [OF c [symmetric] refl] "2.prems"(1) False c show ?thesis by simp
  qed
qed simp

lemma connected_apart:
  "c \<in> set (overlap_components overlaps xs) \<Longrightarrow> distinct xs \<Longrightarrow> x \<in> set c \<Longrightarrow> y \<in> set xs \<Longrightarrow> overlaps x y \<Longrightarrow> y \<in> set c"
proof (induction xs rule: length_induct)
  case (1 zs)
  then obtain z xs where zs: "zs = z # xs" by (cases zs) auto
  obtain ms rest where c: "close_component overlaps [z] xs = (ms, rest)" by force
  have spec: "mset ms + mset rest = mset zs" "\<And>c m. c \<in> set rest \<Longrightarrow> m \<in> set ms \<Longrightarrow> \<not> overlaps c m"
    using close_component_spec [OF c] by (simp_all add: zs)
  from spec(1) have m: "mset (ms @ rest) = mset zs" by simp
  have "distinct (ms @ rest)" using mset_eq_imp_distinct_iff [OF m] "1.prems"(2) by simp
  then have sets: "set ms \<union> set rest = set zs" "distinct rest" "length rest < length zs"
    using mset_eq_setD [OF m] close_component_length [of overlaps "[z]" xs] by (simp_all add: c zs)
  show ?case
  proof (cases "c = ms")
    case True
    with "1.prems"(3-5) spec(2) sets(1) overlaps_sym show ?thesis by blast
  next
    case False
    with "1.prems"(1) c have cc: "c \<in> set (overlap_components overlaps rest)" by (simp add: zs)
    then have "set c \<subseteq> set rest"
      using arg_cong [OF overlap_components_mset [of overlaps rest], of set_mset] by auto
    with "1.prems"(3-5) spec(2) sets(1) have "y \<in> set rest" by blast
    with "1.IH" sets(2,3) cc "1.prems"(3,5) show ?thesis by blast
  qed
qed

text \<open>Two elements are in one component exactly when a chain of overlaps links them.\<close>

lemma same_component_iff:
  assumes "distinct xs" and "x \<in> set xs"
  shows "(\<exists>c \<in> set (overlap_components overlaps xs). x \<in> set c \<and> y \<in> set c)
    \<longleftrightarrow> rtranclp (linked overlaps (set xs)) x y"
proof
  assume "\<exists>c \<in> set (overlap_components overlaps xs). x \<in> set c \<and> y \<in> set c"
  then obtain c where c: "c \<in> set (overlap_components overlaps xs)" "x \<in> set c" "y \<in> set c" by blast
  from connected_root [OF c(1) order_refl] c obtain r where
    "rtranclp (linked overlaps (set xs)) x r" "rtranclp (linked overlaps (set xs)) y r" by blast
  then show "rtranclp (linked overlaps (set xs)) x y" by (meson linked_sym rtranclp_trans)
next
  assume "rtranclp (linked overlaps (set xs)) x y"
  obtain c where c: "c \<in> set (overlap_components overlaps xs)" "x \<in> set c"
    using assms(2) arg_cong [OF overlap_components_mset [of overlaps xs], of set_mset] by auto
  from \<open>rtranclp (linked overlaps (set xs)) x y\<close> have "y \<in> set c"
  proof (induction rule: rtranclp_induct)
    case (step y z)
    then show ?case using connected_apart [OF c(1) assms(1)] by (auto simp: linked_def)
  qed (rule c(2))
  with c show "\<exists>c \<in> set (overlap_components overlaps xs). x \<in> set c \<and> y \<in> set c" by blast
qed

end

lemma reported_windows_overlap_sym: "reported_windows_overlap a b \<Longrightarrow> reported_windows_overlap b a"
  by (auto simp: reported_windows_overlap_def Let_def split: option.splits)

interpretation windows: overlap_graph windows_overlap
  by unfold_locales (auto simp: windows_overlap_def intro: reported_windows_overlap_sym)

lemma asset_groups_members:
  "map eg_members (asset_groups a ms) = overlap_components windows_overlap (sort_key score_event_id ms)"
  by (simp add: asset_groups_def Let_def comp_def)

section \<open>Latest revisions, in any order\<close>

definition revision_key :: "reported_revision \<Rightarrow> str \<times> int" where
  "revision_key e = (rv_event_id e, rv_revision e)"

definition consistent :: "reported_revision list \<Rightarrow> bool" where
  "consistent es \<longleftrightarrow> (\<forall>x \<in> set es. \<forall>y \<in> set es. revision_key x = revision_key y \<longrightarrow> x = y)"

interpretation revisions: latest_selection rv_event_id rv_revision consistent
  by unfold_locales (auto simp: consistent_def revision_key_def)

lemma latest_loop_keep_latest:
  assumes "\<And>k d. lookup seen k = Some d \<longleftrightarrow> d \<in> set ps \<and> revision_key d = k" and "consistent ps"
  shows "latest_loop seen (keep_latest rv_event_id rv_revision ps) es =
    (if consistent (ps @ es) then Inr (keep_latest rv_event_id rv_revision (ps @ es))
     else Inl (ValueError ''conflicting duplicate event revision''))"
  using assms
proof (induction es arbitrary: seen ps)
  case (Cons e es)
  show ?case
  proof (cases "\<exists>d \<in> set ps. revision_key d = revision_key e \<and> d \<noteq> e")
    case True
    then obtain d where d: "d \<in> set ps" "revision_key d = revision_key e" "d \<noteq> e" by blast
    then have "lookup seen (revision_key e) = Some d" using Cons.prems(1) by blast
    moreover have "\<not> consistent (ps @ e # es)" using d by (auto simp: consistent_def)
    ultimately show ?thesis using d(3) by (simp add: Let_def revision_key_def)
  next
    case False
    then have c: "consistent (ps @ [e])" using Cons.prems(2) by (auto simp: consistent_def)
    have none: "\<not> (case lookup seen (revision_key e) of None \<Rightarrow> False | Some d \<Rightarrow> d \<noteq> e)"
      using False Cons.prems(1) by (auto split: option.split)
    have seen: "lookup (store seen (revision_key e) e) k = Some d \<longleftrightarrow> d \<in> set (ps @ [e]) \<and> revision_key d = k" for k d
      using Cons.prems(1) [of k d] False by auto
    show ?thesis
      using Cons.IH [OF seen c] none by (simp add: Let_def revision_key_def keep_latest_snoc)
  qed
qed simp

lemma latest_revisions_eq:
  "latest_revisions es =
     (if consistent es then Inr (map snd (keep_latest rv_event_id rv_revision es))
      else Inl (ValueError ''conflicting duplicate event revision''))"
  using latest_loop_keep_latest [of "[]" "[]" es]
  by (simp add: latest_revisions_def consistent_def keep_latest_def)

lemma keep_latest_idents:
  "map rv_event_id (map snd (keep_latest rv_event_id rv_revision es)) = map fst (keep_latest rv_event_id rv_revision es)"
  using keep_latest_sound [of rv_event_id rv_revision es] keep_latest_distinct [of rv_event_id rv_revision es]
  by (auto simp: map_of_eq_Some_iff)

lemma latest_revisions_shape:
  assumes "latest_revisions es = Inr xs"
  shows "distinct (map rv_event_id xs)" "set xs \<subseteq> set es"
proof -
  from assms have xs: "xs = map snd (keep_latest rv_event_id rv_revision es)"
    by (simp add: latest_revisions_eq split: if_splits)
  show "distinct (map rv_event_id xs)" unfolding xs keep_latest_idents by (rule keep_latest_distinct)
  show "set xs \<subseteq> set es"
    using keep_latest_sound [of rv_event_id rv_revision es] keep_latest_distinct [of rv_event_id rv_revision es]
    by (auto simp: xs map_of_eq_Some_iff)
qed

lemma latest_revisions_set:
  assumes "set es = set es'"
  shows "(\<exists>e. latest_revisions es = Inl e \<and> latest_revisions es' = Inl e) \<or>
    (\<exists>xs xs'. latest_revisions es = Inr xs \<and> latest_revisions es' = Inr xs' \<and> mset xs = mset xs')"
proof (cases "consistent es")
  case True
  with assms have c': "consistent es'" by (simp add: consistent_def)
  from revisions.order_irrelevant [OF True c' assms]
  have "mset (keep_latest rv_event_id rv_revision es) = mset (keep_latest rv_event_id rv_revision es')"
    by (intro mset_items_eq keep_latest_distinct)
  then have "mset (map snd (keep_latest rv_event_id rv_revision es))
      = mset (map snd (keep_latest rv_event_id rv_revision es'))" by (simp add: mset_map)
  with True c' show ?thesis by (simp add: latest_revisions_eq)
next
  case False
  moreover from this assms have "\<not> consistent es'" by (simp add: consistent_def)
  ultimately show ?thesis by (simp add: latest_revisions_eq)
qed

section \<open>Groups of a permuted list\<close>

lemma partition_by_key:
  "distinct ks \<Longrightarrow> mset (concat (map (\<lambda>k. filter (\<lambda>x. key x = k) xs) ks)) = mset (filter (\<lambda>x. key x \<in> set ks) xs)"
proof (induction ks)
  case (Cons k ks)
  have "mset (filter (\<lambda>x. key x \<in> set (k # ks)) xs)
      = mset (filter (\<lambda>x. key x = k) xs) + mset (filter (\<lambda>x. key x \<in> set ks) xs)"
    using Cons.prems by (induction xs) auto
  with Cons show ?case by simp
qed simp

lemma asset_keys:
  "(\<lambda>s. the (reliable_asset s)) ` set (filter (\<lambda>s. reliable_asset s \<noteq> None) ss)
     = {a. Some a \<in> reliable_asset ` set ss}" (is "?l = ?r")
proof (rule set_eqI)
  fix a
  have "the (reliable_asset s) = a \<and> reliable_asset s \<noteq> None \<longleftrightarrow> Some a = reliable_asset s" for s
    by (cases "reliable_asset s") auto
  then have "(\<exists>s \<in> set ss. the (reliable_asset s) = a \<and> reliable_asset s \<noteq> None)
      \<longleftrightarrow> (\<exists>s \<in> set ss. Some a = reliable_asset s)" by (simp only:)
  then show "a \<in> ?l \<longleftrightarrow> a \<in> ?r" by (auto simp: image_iff)
qed

lemma group_eligible_scores_eq:
  "group_eligible_scores scores =
     map (\<lambda>s. \<lparr>eg_key = ''event:'' @ score_event_id s, eg_asset = None, eg_members = [s]\<rparr>)
       (filter (\<lambda>s. reliable_asset s = None) scores)
     @ concat (map (\<lambda>a. asset_groups a (filter (\<lambda>s. reliable_asset s = Some a) scores))
         (sorted_list_of_set {a. Some a \<in> reliable_asset ` set scores}))"
proof -
  let ?as = "filter (\<lambda>s. reliable_asset s \<noteq> None) scores"
  have m: "filter (\<lambda>s. the (reliable_asset s) = a) ?as = filter (\<lambda>s. reliable_asset s = Some a) scores" for a
    by (auto intro!: filter_cong)
  have k: "(\<lambda>s. the (reliable_asset s)) ` set ?as = {a. Some a \<in> reliable_asset ` set scores}"
    by (rule asset_keys)
  have "sort (map fst (group_by (\<lambda>s. the (reliable_asset s)) ?as))
      = sorted_list_of_set (set (map fst (group_by (\<lambda>s. the (reliable_asset s)) ?as)))"
    using group_by_distinct by (metis sorted_list_of_set_sort_remdups distinct_remdups_id)
  also have "set (map fst (group_by (\<lambda>s. the (reliable_asset s)) ?as)) = {a. Some a \<in> reliable_asset ` set scores}"
    using group_by_keys [of "\<lambda>s. the (reliable_asset s)" ?as] k by (simp only: set_map)
  finally have s: "sort (map fst (group_by (\<lambda>s. the (reliable_asset s)) ?as))
      = sorted_list_of_set {a. Some a \<in> reliable_asset ` set scores}" .
  show ?thesis unfolding group_eligible_scores_def Let_def group_by_get m s ..
qed

lemma asset_groups_perm:
  assumes "mset ms = mset ms'" and "distinct (map score_event_id ms)"
  shows "asset_groups a ms = asset_groups a ms'"
proof -
  have "sort_key score_event_id ms' = sort_key score_event_id ms"
  proof (rule sort_key_inj_key_eq)
    show "mset ms' = mset (sort_key score_event_id ms)" using assms(1) by simp
    show "inj_on score_event_id (set ms')"
      using assms mset_eq_setD [OF assms(1)] by (simp add: distinct_map)
    show "sorted (map score_event_id (sort_key score_event_id ms))" by simp
  qed
  then show ?thesis by (simp add: asset_groups_def)
qed

lemma group_eligible_scores_perm:
  assumes "mset ss = mset ss'" and "distinct (map score_event_id ss)"
  shows "mset (group_eligible_scores ss) = mset (group_eligible_scores ss')"
proof -
  have "asset_groups a (filter (\<lambda>s. reliable_asset s = Some a) ss)
      = asset_groups a (filter (\<lambda>s. reliable_asset s = Some a) ss')" for a
    using assms by (intro asset_groups_perm) (simp_all add: distinct_map_filter)
  moreover have "set ss = set ss'" using assms(1) by (rule mset_eq_setD)
  ultimately show ?thesis using assms(1) by (simp add: group_eligible_scores_eq)
qed

lemma group_members_mset:
  "mset (concat (map eg_members (group_eligible_scores ss))) = mset ss"
proof -
  let ?A = "{a. Some a \<in> reliable_asset ` set ss}"
  have fin: "finite ?A" unfolding asset_keys [symmetric] by simp
  have "mset (concat (map eg_members (concat (map (\<lambda>a. asset_groups a (filter (\<lambda>s. reliable_asset s = Some a) ss)) as))))
      = mset (concat (map (\<lambda>a. filter (\<lambda>s. reliable_asset s = Some a) ss) as))" for as
    by (induction as) (simp_all add: asset_groups_members overlap_components_mset)
  also have "mset (concat (map (\<lambda>a. filter (\<lambda>s. reliable_asset s = Some a) ss) (sorted_list_of_set ?A)))
      = mset (filter (\<lambda>s. reliable_asset s \<noteq> None) ss)"
  proof -
    have "map (\<lambda>a. filter (\<lambda>s. reliable_asset s = Some a) ss) (sorted_list_of_set ?A)
        = map (\<lambda>k. filter (\<lambda>s. reliable_asset s = k) ss) (map Some (sorted_list_of_set ?A))" by simp
    moreover have "distinct (map Some (sorted_list_of_set ?A))" by (simp add: distinct_map)
    moreover have "filter (\<lambda>s. reliable_asset s \<in> set (map Some (sorted_list_of_set ?A))) ss
        = filter (\<lambda>s. reliable_asset s \<noteq> None) ss"
      using fin by (auto intro!: filter_cong) force
    ultimately show ?thesis using partition_by_key by metis
  qed
  finally have assets: "mset (concat (map eg_members (concat (map (\<lambda>a. asset_groups a
        (filter (\<lambda>s. reliable_asset s = Some a) ss)) (sorted_list_of_set ?A)))))
      = mset (filter (\<lambda>s. reliable_asset s \<noteq> None) ss)" .
  have "concat (map (eg_members \<circ> (\<lambda>s. \<lparr>eg_key = ''event:'' @ score_event_id s, eg_asset = None, eg_members = [s]\<rparr>)) xs) = xs" for xs
    by (induction xs) simp_all
  with assets show ?thesis
    by (simp add: group_eligible_scores_eq)
qed


section \<open>The ranking of a permuted input\<close>

lemma group_nonempty:
  assumes "g \<in> set (group_eligible_scores ss)" shows "eg_members g \<noteq> []"
proof -
  have "eg_members g \<noteq> []" if "g \<in> set (asset_groups a ms)" for a ms
    using that connected_nonempty asset_groups_members [of a ms] by (metis image_eqI set_map)
  with assms show ?thesis by (auto simp: group_eligible_scores_eq)
qed

definition representative :: "event_group \<Rightarrow> relevance_score" where
  "representative g = the (py_min score_sort_key (eg_members g))"

definition ranked :: "event_group \<Rightarrow> ranked_group" where
  "ranked g = \<lparr>rg_group_key = eg_key g, rg_reliable_asset_id = eg_asset g,
     rg_member_event_ids = sorted_set (map score_event_id (eg_members g)),
     rg_representative = representative g\<rparr>"

lemma ranked_group_of_eq: "eg_members g \<noteq> [] \<Longrightarrow> ranked_group_of g = Inr (ranked g)"
  using py_min_None [of score_sort_key "eg_members g"]
  by (auto simp: ranked_group_of_def ranked_def representative_def split: option.split)

lemma representative_in: "eg_members g \<noteq> [] \<Longrightarrow> representative g \<in> set (eg_members g)"
  using py_min_None [of score_sort_key "eg_members g"] py_min_in [of score_sort_key "eg_members g"]
  by (cases "py_min score_sort_key (eg_members g)") (auto simp: representative_def)

lemma distinct_choice:
  "distinct (map f (concat (map h gs))) \<Longrightarrow> (\<And>g. g \<in> set gs \<Longrightarrow> r g \<in> set (h g)) \<Longrightarrow>
     distinct (map (\<lambda>g. f (r g)) gs)"
proof (induction gs)
  case (Cons g gs)
  have "f (r g') \<noteq> f (r g)" if "g' \<in> set gs" for g'
  proof
    assume eq: "f (r g') = f (r g)"
    have "f (r g) \<in> f ` set (h g)" "f (r g') \<in> f ` set (concat (map h gs))"
      using Cons.prems(2) that by auto
    moreover have "f ` set (h g) \<inter> f ` set (concat (map h gs)) = {}" using Cons.prems(1) by simp
    ultimately show False using eq by auto
  qed
  then have "f (r g) \<notin> (\<lambda>g. f (r g)) ` set gs" by (auto dest: sym)
  with Cons show ?case by simp
qed simp

lemma representative_ids_distinct:
  assumes "distinct (map score_event_id ss)"
  shows "distinct (map (\<lambda>g. score_event_id (representative g)) (group_eligible_scores ss))"
proof (rule distinct_choice [where h = eg_members])
  have "mset (map score_event_id (concat (map eg_members (group_eligible_scores ss)))) = mset (map score_event_id ss)"
    by (simp only: mset_map group_members_mset)
  then show "distinct (map score_event_id (concat (map eg_members (group_eligible_scores ss))))"
    using assms by (metis mset_eq_imp_distinct_iff)
qed (rule representative_in, rule group_nonempty)

lemma sort_key_id: "score_sort_key s = score_sort_key s' \<Longrightarrow> score_event_id s = score_event_id s'"
  by (simp add: score_sort_key_def Let_def score_event_id_def)

definition ranking :: "relevance_score list \<Rightarrow> ranked_group list" where
  "ranking ss = sort_key (\<lambda>g. score_sort_key (rg_representative g)) (map ranked (group_eligible_scores ss))"

lemma ranking_perm:
  assumes "mset ss = mset ss'" and "distinct (map score_event_id ss)"
  shows "ranking ss = ranking ss'"
  unfolding ranking_def
proof (rule sort_key_inj_key_eq)
  have g: "mset (group_eligible_scores ss) = mset (group_eligible_scores ss')"
    using assms by (rule group_eligible_scores_perm)
  then show "mset (map ranked (group_eligible_scores ss)) = mset (sort_key (\<lambda>g. score_sort_key (rg_representative g))
      (map ranked (group_eligible_scores ss')))" by simp
  have "distinct (map (\<lambda>g. score_event_id (representative g)) (group_eligible_scores ss))"
    using assms(2) by (rule representative_ids_distinct)
  then have "inj_on (\<lambda>g. score_event_id (representative g)) (set (group_eligible_scores ss))"
    by (simp add: distinct_map)
  then show "inj_on (\<lambda>g. score_sort_key (rg_representative g)) (set (map ranked (group_eligible_scores ss)))"
    by (auto simp: inj_on_def ranked_def dest!: sort_key_id)
qed simp

definition scored :: "instant \<Rightarrow> reported_revision \<Rightarrow> relevance_score" where
  "scored t e = projr (score_event t e)"

lemma scored_eq: "validate_revision e = Inr e \<Longrightarrow> score_event t e = Inr (scored t e) \<and> rs_event (scored t e) = e"
  using score_event_ok [of e t] by (auto simp: scored_def)

lemma rank_valid:
  assumes "\<forall>e \<in> set xs. validate_revision e = Inr e"
  shows "rbind (traverse (score_event t) xs) (\<lambda>scores.
      rbind (traverse ranked_group_of (group_eligible_scores (filter rs_eligible scores))) F) =
    F (map ranked (group_eligible_scores (filter rs_eligible (map (scored t) xs))))"
proof -
  have "traverse (score_event t) xs = Inr (map (scored t) xs)"
    using assms scored_eq by (intro traverse_total) blast
  moreover have "traverse ranked_group_of (group_eligible_scores ss) = Inr (map ranked (group_eligible_scores ss))" for ss
    using group_nonempty ranked_group_of_eq by (intro traverse_total) blast
  ultimately show ?thesis by simp
qed

lemma ranking_valid_perm:
  assumes "mset xs = mset xs'" and "distinct (map rv_event_id xs)" and "\<forall>e \<in> set xs. validate_revision e = Inr e"
  shows "ranking (filter rs_eligible (map (scored t) xs)) = ranking (filter rs_eligible (map (scored t) xs'))"
proof (rule ranking_perm)
  show "mset (filter rs_eligible (map (scored t) xs)) = mset (filter rs_eligible (map (scored t) xs'))"
    using assms(1) by (simp add: mset_map)
  have e: "map (\<lambda>e. score_event_id (scored t e)) xs = map rv_event_id xs"
    using assms(3) scored_eq by (intro map_cong refl) (simp add: score_event_id_def)
  have "distinct (map score_event_id (map (scored t) xs))" by (simp only: map_map comp_def e assms(2))
  then show "distinct (map score_event_id (filter rs_eligible (map (scored t) xs)))"
    by (rule distinct_map_filter)
qed

lemma rank_perm:
  assumes "set es = set es'" and "\<forall>e \<in> set es. validate_revision e = Inr e"
  shows "rank_relevant_events es as_of limit = rank_relevant_events es' as_of limit"
proof -
  consider e where "latest_revisions es = Inl e" "latest_revisions es' = Inl e"
    | xs xs' where "latest_revisions es = Inr xs" "latest_revisions es' = Inr xs'" "mset xs = mset xs'"
    using latest_revisions_set [OF assms(1)] by blast
  then show ?thesis
  proof cases
    case 1
    show ?thesis unfolding rank_relevant_events_def 1 rbind_Inl ..
  next
    case 2
    have v: "\<forall>e \<in> set xs. validate_revision e = Inr e" "\<forall>e \<in> set xs'. validate_revision e = Inr e"
      using latest_revisions_shape(2) [OF 2(1)] latest_revisions_shape(2) [OF 2(2)] assms by auto
    note p = ranking_valid_perm [OF 2(3) latest_revisions_shape(1) [OF 2(1)] v(1)]
    show ?thesis
      unfolding rank_relevant_events_def 2(1,2) rbind_Inr Let_def
        rank_valid [OF v(1)] rank_valid [OF v(2)] ranking_def [symmetric] p ..
  qed
qed

section \<open>Properties\<close>

text \<open>C22: every validated event can be scored; the score lies between 0 and 100, the event is
  eligible exactly while it is not terminal and its reported window has not ended, and an ineligible
  event scores zero.\<close>

theorem score_event_bounds:
  assumes "validate_revision e = Inr e"
  shows "\<exists>s. score_event t e = Inr s \<and> rs_event s = e \<and> 0 \<le> rs_total_score s \<and> rs_total_score s \<le> 100
    \<and> (rs_eligible s \<longleftrightarrow> \<not> terminal (rv_status e)
          \<and> (case rv_effective_end e of None \<Rightarrow> True | Some end \<Rightarrow> t < end))
    \<and> (\<not> rs_eligible s \<longrightarrow> rs_total_score s = 0)"
  using score_event_ok [OF assms, of t] by (simp add: relevant_def)

theorem score_event_witness:
  "\<exists>s. score_event 10 (example_revision 1 Open) = Inr s \<and> rs_eligible s \<and> rs_total_score s \<le> 100"
proof -
  have "validate_revision (example_revision 1 Open) = Inr (example_revision 1 Open)" by code_simp
  from score_event_bounds [OF this, of 10] show ?thesis by (auto simp: example_revision_def terminal_def)
qed

text \<open>C21: the grouping loop computes connected components: two outages of one asset are in the same
  group exactly when a chain of overlapping reported windows links them.\<close>

theorem asset_groups_are_components:
  assumes "distinct (map score_event_id ms)" and "x \<in> set ms"
  shows "(\<exists>g \<in> set (asset_groups a ms). x \<in> set (eg_members g) \<and> y \<in> set (eg_members g))
    \<longleftrightarrow> rtranclp (linked windows_overlap (set ms)) x y"
proof -
  have "distinct (sort_key score_event_id ms)" using assms(1) by (simp add: distinct_map)
  moreover have "set (overlap_components windows_overlap (sort_key score_event_id ms))
      = eg_members ` set (asset_groups a ms)" by (metis asset_groups_members set_map)
  ultimately show ?thesis using windows.same_component_iff [of "sort_key score_event_id ms" x y] assms(2)
    by simp
qed

theorem asset_groups_witness:
  "\<exists>s. rtranclp (linked windows_overlap (set [s])) s s
     \<and> (\<exists>g \<in> set (asset_groups ''a'' [s]). s \<in> set (eg_members g))"
proof -
  define s where "s = scored 0 (example_revision 1 Open)"
  have "distinct (map score_event_id [s])" "s \<in> set [s]" by simp_all
  from asset_groups_are_components [OF this, of "''a''" s] show ?thesis by auto
qed

text \<open>C9: the ranking depends on the set of reported revisions only: the order in which they arrive,
  and repetitions of a revision, do not matter, neither for a selection nor for an error.\<close>

theorem ranking_is_order_independent:
  assumes "set es = set es'" and "list_all (\<lambda>e. validate_revision e = Inr e) es"
  shows "rank_relevant_events es as_of limit = rank_relevant_events es' as_of limit"
  using assms by (intro rank_perm) (simp_all add: list_all_iff)

theorem ranking_order_witness:
  "rank_relevant_events [example_revision 1 Open, example_revision 2 Updated] (Aware 5) (PyInt 3)
   = rank_relevant_events [example_revision 2 Updated, example_revision 1 Open, example_revision 2 Updated]
       (Aware 5) (PyInt 3)"
proof (rule ranking_is_order_independent)
  show "list_all (\<lambda>e. validate_revision e = Inr e) [example_revision 1 Open, example_revision 2 Updated]"
    by code_simp
qed auto

end
