(* ===== verification/Json.thy ===== *)
theory Json
  imports Py_Text
begin

text \<open>
  JSON text, as the checksums of the code use it: \<open>json.dumps\<close> with sorted keys, the compact
  separators and ASCII escapes, of the values the code builds, and the SHA-256 digest of that
  text.  A float is printed as Python's \<open>repr\<close> prints it: the shortest decimal that reads back
  as the float, the nearest of that length.  Text is ASCII or Latin-1; a negative zero is not
  told from zero.
\<close>

section \<open>The shortest decimal of a float\<close>

definition dec_exponent :: "rat \<Rightarrow> int" where
  "dec_exponent x =
     (if 1 \<le> x then int (length (str_of_nat \<lfloor>x\<rfloor>)) - 1
      else - int (length (str_of_nat (\<lceil>1 / x\<rceil> - 1))))"

text \<open>The decimal with \<open>d\<close> digits that reads back as \<open>x\<close>, the nearer of the two neighbours, ties
  to the even one: a coefficient and a power of ten.\<close>

definition decimal_at :: "rat \<Rightarrow> nat \<Rightarrow> (int \<times> int) option" where
  "decimal_at x d =
     (let p = dec_exponent x - int d + 1;
          q = x / 10 powi p;
          reads = (\<lambda>c. fl (of_int c * 10 powi p) = x);
          near = round_half_even q;
          far = (if near = \<lfloor>q\<rfloor> then near + 1 else \<lfloor>q\<rfloor>)
      in if reads near then Some (near, p) else if reads far then Some (far, p) else None)"

fun first_decimal :: "rat \<Rightarrow> nat list \<Rightarrow> int \<times> int" where
  "first_decimal x [] = (round_half_even (x / 10 powi (dec_exponent x - 16)), dec_exponent x - 16)"
| "first_decimal x (d # ds) = (case decimal_at x d of Some r \<Rightarrow> r | None \<Rightarrow> first_decimal x ds)"

text \<open>Fixed notation between \<open>1e-4\<close> and \<open>1e16\<close>, an exponent outside; \<open>point\<close> is the number of
  digits before the decimal point.\<close>

definition decimal_text :: "str \<Rightarrow> int \<Rightarrow> str" where
  "decimal_text ds point =
     (let n = int (length ds) in
      if point \<le> -4 \<or> 16 < point then
        take 1 ds @ (if n = 1 then [] else ''.'' @ drop 1 ds)
        @ ''e'' @ (if point \<le> 0 then ''-'' else ''+'') @ zero_pad 2 (str_of_nat \<bar>point - 1\<bar>)
      else if point \<le> 0 then ''0.'' @ replicate (nat (- point)) CHR ''0'' @ ds
      else if n \<le> point then ds @ replicate (nat (point - n)) CHR ''0'' @ ''.0''
      else take (nat point) ds @ ''.'' @ drop (nat point) ds)"

definition float_repr :: "rat \<Rightarrow> str" where
  "float_repr x =
     (if x = 0 then ''0.0''
      else (case first_decimal \<bar>x\<bar> [1..<17] of (c, p) \<Rightarrow>
        let ds = str_of_nat c;
            significant = rev (dropWhile (\<lambda>k. k = CHR ''0'') (rev ds))
        in (if x < 0 then ''-'' else []) @ decimal_text significant (int (length ds) + p)))"

section \<open>JSON values and their canonical text\<close>

datatype json =
    JNull
  | JBool bool
  | JInt int
  | JFloat rat
  | JStr str
  | JList "json list"
  | JObj "(str \<times> json) list"

definition json_escape :: "char \<Rightarrow> str" where
  "json_escape c =
     (let n = of_char c :: int in
      if c = CHR 0x22 then [CHR 0x5C, CHR 0x22]
      else if c = CHR 0x5C then [CHR 0x5C, CHR 0x5C]
      else if n = 10 then [CHR 0x5C, CHR ''n'']
      else if n = 13 then [CHR 0x5C, CHR ''r'']
      else if n = 9 then [CHR 0x5C, CHR ''t'']
      else if n = 12 then [CHR 0x5C, CHR ''f'']
      else if n = 8 then [CHR 0x5C, CHR ''b'']
      else if n < 32 \<or> 126 < n then [CHR 0x5C, CHR ''u'', CHR ''0'', CHR ''0'',
                                     hex_digit (n div 16), hex_digit (n mod 16)]
      else [c])"

definition json_string :: "str \<Rightarrow> str" where
  "json_string s = [CHR 0x22] @ concat (map json_escape s) @ [CHR 0x22]"

fun canonical_json :: "json \<Rightarrow> str" where
  "canonical_json JNull = ''null''"
| "canonical_json (JBool b) = (if b then ''true'' else ''false'')"
| "canonical_json (JInt i) = str_of_int i"
| "canonical_json (JFloat x) = float_repr x"
| "canonical_json (JStr s) = json_string s"
| "canonical_json (JList js) = ''['' @ join '','' (map canonical_json js) @ '']''"
| "canonical_json (JObj kvs) =
     ''{'' @ join '','' (map (\<lambda>(k, t). json_string k @ '':'' @ t)
                        (sort_key fst (map (\<lambda>(k, v). (k, canonical_json v)) kvs))) @ ''}''"

definition json_checksum :: "json \<Rightarrow> str" where
  "json_checksum payload = sha256_hex (canonical_json payload)"

abbreviation JOpt :: "str option \<Rightarrow> json" where
  "JOpt v \<equiv> (case v of None \<Rightarrow> JNull | Some s \<Rightarrow> JStr s)"

section \<open>Examples and shape\<close>

lemma json_checksum_shape:
  "length (json_checksum j) = 64" "c \<in> set (json_checksum j) \<Longrightarrow> is_hex_char c"
  by (simp_all add: json_checksum_def sha256_hex_length sha256_hex_chars)

lemma float_repr_example: "float_repr (- 25000) = ''-25000.0''"
  by code_simp
lemma canonical_json_example:
  "canonical_json (JObj [(''b'', JList [JInt (- 1), JNull, JFloat (5 / 2)]), (''a'', JStr [CHR ''x'', CHR 0x22, CHR 0x0A])])
     = [CHR ''{'', CHR 0x22, CHR ''a'', CHR 0x22, CHR '':'', CHR 0x22, CHR ''x'', CHR 0x5C, CHR 0x22,
        CHR 0x5C, CHR ''n'', CHR 0x22] @ '','' @ [CHR 0x22, CHR ''b'', CHR 0x22] @ '':[-1,null,2.5]}''"
  by code_simp

end
