(* ===== verification/Forecast_Verification.thy ===== *)
theory Forecast_Verification
  imports Json Event_Models Data_Status
begin

text \<open>
  Verification of stored forecast vintages (app/forecast_verification/core.py over the bases of
  app/forecast_contract.py): the horizon buckets, the reviewed targets, the evidence records,
  the selection of one correction per vintage and one revision per outturn, the exact pairing,
  the error statistics with their thresholds, and the evidence checksums.  Times are UTC
  instants once \<open>_aware\<close> has passed them; an observation id is its 36-character text.
\<close>

section \<open>Metrics and horizon buckets\<close>

datatype verification_metric = National_Demand | Wind_Generation | National_Carbon_Intensity

fun metric_value :: "verification_metric \<Rightarrow> str" where
  "metric_value National_Demand = ''national_demand''"
| "metric_value Wind_Generation = ''wind_generation''"
| "metric_value National_Carbon_Intensity = ''national_carbon_intensity''"

datatype horizon_bucket =
    Zero_To_Three_Hours
  | Three_To_Twelve_Hours
  | Twelve_To_Twenty_Four_Hours
  | Twenty_Four_To_Forty_Eight_Hours

fun bucket_value :: "horizon_bucket \<Rightarrow> str" where
  "bucket_value Zero_To_Three_Hours = ''0_3h''"
| "bucket_value Three_To_Twelve_Hours = ''3_12h''"
| "bucket_value Twelve_To_Twenty_Four_Hours = ''12_24h''"
| "bucket_value Twenty_Four_To_Forty_Eight_Hours = ''24_48h''"

fun minimum_hours :: "horizon_bucket \<Rightarrow> int" where
  "minimum_hours Zero_To_Three_Hours = 0"
| "minimum_hours Three_To_Twelve_Hours = 3"
| "minimum_hours Twelve_To_Twenty_Four_Hours = 12"
| "minimum_hours Twenty_Four_To_Forty_Eight_Hours = 24"

fun maximum_hours :: "horizon_bucket \<Rightarrow> int" where
  "maximum_hours Zero_To_Three_Hours = 3"
| "maximum_hours Three_To_Twelve_Hours = 12"
| "maximum_hours Twelve_To_Twenty_Four_Hours = 24"
| "maximum_hours Twenty_Four_To_Forty_Eight_Hours = 48"

text \<open>\<open>horizon.total_seconds()\<close> is a float: the microseconds divided by a million.\<close>

definition bucket_contains :: "horizon_bucket \<Rightarrow> duration \<Rightarrow> bool" where
  "bucket_contains b horizon =
     (let seconds = int_div horizon 1000000;
          lower = of_int (minimum_hours b * 3600);
          upper = of_int (maximum_hours b * 3600)
      in (lower \<le> seconds \<and> seconds < upper)
         \<or> (b = Twenty_Four_To_Forty_Eight_Hours \<and> seconds = upper))"

definition HORIZON_BUCKETS :: "horizon_bucket list" where
  "HORIZON_BUCKETS = [Zero_To_Three_Hours, Three_To_Twelve_Hours, Twelve_To_Twenty_Four_Hours,
                      Twenty_Four_To_Forty_Eight_Hours]"

fun bucket_index :: "horizon_bucket \<Rightarrow> int" where
  "bucket_index Zero_To_Three_Hours = 0"
| "bucket_index Three_To_Twelve_Hours = 1"
| "bucket_index Twelve_To_Twenty_Four_Hours = 2"
| "bucket_index Twenty_Four_To_Forty_Eight_Hours = 3"

section \<open>Targets\<close>

definition SOURCE_ISSUE_TIME_UNAVAILABLE :: str where
  "SOURCE_ISSUE_TIME_UNAVAILABLE = ''source_does_not_publish_issue_time''"

definition CAPTURE_TIME_ISSUE_BASIS :: str where
  "CAPTURE_TIME_ISSUE_BASIS = ''retrieved_at''"

definition SOURCE_PUBLISHED_TIME_BASIS :: str where
  "SOURCE_PUBLISHED_TIME_BASIS = ''source_published_at''"

definition NATIONAL_FORECAST_METHODOLOGY_VERSION :: str where
  "NATIONAL_FORECAST_METHODOLOGY_VERSION = ''50hz.neso-carbon-intensity.national-forecast.v1''"

definition VERIFICATION_REGISTRY_VERSION :: str where
  "VERIFICATION_REGISTRY_VERSION = ''2026-07-12.forecast-verification.1''"

definition VERIFICATION_METHODOLOGY_VERSION :: str where
  "VERIFICATION_METHODOLOGY_VERSION = ''50hz.forecast-verification.exact-vintage.v1''"

record verification_target =
  vt_metric :: verification_metric
  vt_display_name :: str
  vt_unit :: str
  vt_forecast_source_id :: str
  vt_forecast_dataset :: str
  vt_outturn_source_id :: str
  vt_outturn_dataset :: str
  vt_forecast_methodology_version :: str
  vt_outturn_methodology_version :: str
  vt_issue_time_basis :: str
  vt_effective_vintage_time_basis :: str
  vt_expected_interval_minutes :: int
  vt_forecast_ingestion_lock :: str
  vt_outturn_ingestion_lock :: str

definition validate_target :: "verification_target \<Rightarrow> verification_target result" where
  "validate_target t =
     (if vt_issue_time_basis t \<notin> {SOURCE_PUBLISHED_TIME_BASIS, SOURCE_ISSUE_TIME_UNAVAILABLE}
      then Inl (ValueError ''issue basis must be reviewed'')
      else if vt_effective_vintage_time_basis t \<notin> {SOURCE_PUBLISHED_TIME_BASIS, CAPTURE_TIME_ISSUE_BASIS}
      then Inl (ValueError ''effective vintage basis must be reviewed'')
      else if (vt_issue_time_basis t = SOURCE_ISSUE_TIME_UNAVAILABLE)
              \<noteq> (vt_effective_vintage_time_basis t = CAPTURE_TIME_ISSUE_BASIS)
      then Inl (ValueError ''an unavailable source issue time must use retrieval as its vintage'')
      else if vt_expected_interval_minutes t \<notin> {30, 60}
      then Inl (ValueError ''verification cadence must be explicitly reviewed'')
      else Inr t)"

definition demand_target :: verification_target where
  "demand_target = \<lparr>vt_metric = National_Demand, vt_display_name = ''National demand forecast'',
     vt_unit = ''MW'', vt_forecast_source_id = ''elexon.ndf'', vt_forecast_dataset = ''NDF'',
     vt_outturn_source_id = ''elexon.indo'', vt_outturn_dataset = ''INDO'',
     vt_forecast_methodology_version = ''elexon-ndf-national-v1'',
     vt_outturn_methodology_version = ''indo-national-demand-v1'',
     vt_issue_time_basis = SOURCE_PUBLISHED_TIME_BASIS,
     vt_effective_vintage_time_basis = SOURCE_PUBLISHED_TIME_BASIS,
     vt_expected_interval_minutes = 30, vt_forecast_ingestion_lock = ''elexon.ndf'',
     vt_outturn_ingestion_lock = ''elexon.indo''\<rparr>"

definition wind_target :: verification_target where
  "wind_target = \<lparr>vt_metric = Wind_Generation, vt_display_name = ''Wind generation forecast'',
     vt_unit = ''MW'', vt_forecast_source_id = ''elexon.windfor'', vt_forecast_dataset = ''WINDFOR'',
     vt_outturn_source_id = ''elexon.fuelinst'', vt_outturn_dataset = ''FUELINST wind'',
     vt_forecast_methodology_version = ''elexon-windfor-fuelinst-boundary-v1'',
     vt_outturn_methodology_version = ''fuelinst-generation-v1'',
     vt_issue_time_basis = SOURCE_PUBLISHED_TIME_BASIS,
     vt_effective_vintage_time_basis = SOURCE_PUBLISHED_TIME_BASIS,
     vt_expected_interval_minutes = 60, vt_forecast_ingestion_lock = ''elexon.windfor'',
     vt_outturn_ingestion_lock = ''elexon.fuelinst''\<rparr>"

definition carbon_target :: verification_target where
  "carbon_target = \<lparr>vt_metric = National_Carbon_Intensity,
     vt_display_name = ''National carbon-intensity forecast'', vt_unit = ''gCO2/kWh'',
     vt_forecast_source_id = ''neso.carbon-intensity-national'',
     vt_forecast_dataset = ''NESO national carbon forecast'',
     vt_outturn_source_id = ''neso.carbon-intensity-national'',
     vt_outturn_dataset = ''NESO national carbon estimate'',
     vt_forecast_methodology_version = NATIONAL_FORECAST_METHODOLOGY_VERSION,
     vt_outturn_methodology_version = ''neso-national-carbon-v1'',
     vt_issue_time_basis = SOURCE_ISSUE_TIME_UNAVAILABLE,
     vt_effective_vintage_time_basis = CAPTURE_TIME_ISSUE_BASIS,
     vt_expected_interval_minutes = 30,
     vt_forecast_ingestion_lock = ''neso.carbon.national.forecast'',
     vt_outturn_ingestion_lock = ''neso.carbon.national.current''\<rparr>"

definition VERIFICATION_TARGETS :: "verification_target list" where
  "VERIFICATION_TARGETS = [demand_target, wind_target, carbon_target]"

section \<open>Evidence\<close>

definition aware :: "datetime \<Rightarrow> str \<Rightarrow> instant result" where
  "aware value name = aware_utc (name @ '' must include a timezone'') value"

record forecast_evidence =
  fe_observation_id :: str
  fe_valid_from :: instant
  fe_issued_at :: instant
  fe_captured_at :: instant
  fe_value :: rat
  fe_revision :: int

definition mk_forecast_evidence ::
  "str \<Rightarrow> datetime \<Rightarrow> datetime \<Rightarrow> datetime \<Rightarrow> pyfloat \<Rightarrow> int \<Rightarrow> forecast_evidence result" where
  "mk_forecast_evidence observation_id valid_from issued_at captured_at value revision =
     rbind (aware valid_from ''valid_from'') (\<lambda>v.
     rbind (aware issued_at ''issued_at'') (\<lambda>i.
     rbind (aware captured_at ''captured_at'') (\<lambda>c.
     case finite_value value of
       None \<Rightarrow> Inl (ValueError ''forecast values must be finite'')
     | Some x \<Rightarrow>
         if revision < 0 then Inl (ValueError ''forecast revision must be non-negative'')
         else Inr \<lparr>fe_observation_id = observation_id, fe_valid_from = v, fe_issued_at = i,
                   fe_captured_at = c, fe_value = x, fe_revision = revision\<rparr>)))"

record outturn_evidence =
  oe_observation_id :: str
  oe_observed_at :: instant
  oe_retrieved_at :: instant
  oe_value :: rat
  oe_revision :: int

definition mk_outturn_evidence ::
  "str \<Rightarrow> datetime \<Rightarrow> datetime \<Rightarrow> pyfloat \<Rightarrow> int \<Rightarrow> outturn_evidence result" where
  "mk_outturn_evidence observation_id observed_at retrieved_at value revision =
     rbind (aware observed_at ''observed_at'') (\<lambda>t.
     rbind (aware retrieved_at ''retrieved_at'') (\<lambda>r.
     case finite_value value of
       None \<Rightarrow> Inl (ValueError ''outturn values must be finite'')
     | Some x \<Rightarrow>
         if revision < 0 then Inl (ValueError ''outturn revision must be non-negative'')
         else Inr \<lparr>oe_observation_id = observation_id, oe_observed_at = t, oe_retrieved_at = r,
                   oe_value = x, oe_revision = revision\<rparr>))"

record verification_pair =
  vp_target :: verification_target
  vp_horizon :: horizon_bucket
  vp_forecast :: forecast_evidence
  vp_outturn :: outturn_evidence
  vp_signed_error :: rat
  vp_absolute_error :: rat
  vp_content_sha256 :: str

datatype verification_status = Available | Insufficient_Data
datatype verification_reason =
    Eligible
  | No_Forecasts
  | No_Compatible_Outturns
  | Sample_And_Coverage_Thresholds_Not_Met
  | Fewer_Than_100_Verified_Samples
  | Coverage_Below_90_Percent

record verification_result =
  vr_target :: verification_target
  vr_horizon :: horizon_bucket
  vr_window_start :: instant
  vr_window_end :: instant
  vr_status :: verification_status
  vr_reason :: verification_reason
  vr_mae :: "rat option"
  vr_bias :: "rat option"
  vr_wape_percent :: "rat option"
  vr_verified_sample_count :: int
  vr_expected_sample_count :: int
  vr_coverage_fraction :: rat
  vr_evidence_checksum :: str
  vr_source_watermark_at :: "instant option"

definition display_eligible :: "verification_result \<Rightarrow> bool" where
  "display_eligible r \<longleftrightarrow> vr_status r = Available"

record verification_bundle =
  vb_target :: verification_target
  vb_pairs :: "verification_pair list"
  vb_results :: "verification_result list"

definition result_checksum :: "verification_bundle \<Rightarrow> str" where
  "result_checksum b = json_checksum (JObj
     [(''registryVersion'', JStr VERIFICATION_REGISTRY_VERSION),
      (''methodologyVersion'', JStr VERIFICATION_METHODOLOGY_VERSION),
      (''metric'', JStr (metric_value (vt_metric (vb_target b)))),
      (''results'', JList (map (\<lambda>r. JStr (vr_evidence_checksum r)) (vb_results b)))])"

section \<open>Selection\<close>

definition effective_vintage_at :: "str \<Rightarrow> forecast_evidence \<Rightarrow> instant result" where
  "effective_vintage_at basis f =
     (if basis = CAPTURE_TIME_ISSUE_BASIS then Inr (fe_captured_at f)
      else if basis = SOURCE_PUBLISHED_TIME_BASIS then Inr (fe_issued_at f)
      else Inl (ValueError ''unsupported effective vintage time basis''))"

definition forecast_vintage_at :: "verification_pair \<Rightarrow> instant result" where
  "forecast_vintage_at p =
     effective_vintage_at (vt_effective_vintage_time_basis (vp_target p)) (vp_forecast p)"

definition source_issued_at :: "verification_target \<Rightarrow> forecast_evidence \<Rightarrow> instant option" where
  "source_issued_at target f =
     (if vt_issue_time_basis target = SOURCE_ISSUE_TIME_UNAVAILABLE then None
      else Some (fe_issued_at f))"

definition forecast_rank :: "forecast_evidence \<Rightarrow> int \<times> instant \<times> str" where
  "forecast_rank f = (fe_revision f, fe_captured_at f, fe_observation_id f)"

definition vintage_step ::
  "instant \<Rightarrow> instant \<Rightarrow> str \<Rightarrow> (instant \<times> instant, forecast_evidence) dict \<Rightarrow> forecast_evidence
     \<Rightarrow> (instant \<times> instant, forecast_evidence) dict result" where
  "vintage_step window_start window_end basis latest f =
     (if \<not> (window_start \<le> fe_valid_from f \<and> fe_valid_from f < window_end) then Inr latest
      else rbind (effective_vintage_at basis f) (\<lambda>vintage.
        if fe_valid_from f < vintage then Inr latest
        else case lookup latest (fe_valid_from f, vintage) of
               None \<Rightarrow> Inr (store latest (fe_valid_from f, vintage) f)
             | Some existing \<Rightarrow>
                 if forecast_rank existing < forecast_rank f
                 then Inr (store latest (fe_valid_from f, vintage) f) else Inr latest))"

fun vintage_loop ::
  "instant \<Rightarrow> instant \<Rightarrow> str \<Rightarrow> (instant \<times> instant, forecast_evidence) dict \<Rightarrow> forecast_evidence list
     \<Rightarrow> (instant \<times> instant, forecast_evidence) dict result" where
  "vintage_loop window_start window_end basis latest [] = Inr latest"
| "vintage_loop window_start window_end basis latest (f # fs) =
     rbind (vintage_step window_start window_end basis latest f)
       (\<lambda>latest'. vintage_loop window_start window_end basis latest' fs)"

definition bucket_of :: "duration \<Rightarrow> horizon_bucket option" where
  "bucket_of horizon = find (\<lambda>b. bucket_contains b horizon) HORIZON_BUCKETS"

text \<open>A vintage with its bucket and its effective time, the basis of the sort key.\<close>

definition placed :: "str \<Rightarrow> forecast_evidence \<Rightarrow> (horizon_bucket \<times> instant \<times> forecast_evidence) option result" where
  "placed basis f =
     rbind (effective_vintage_at basis f) (\<lambda>vintage.
       case bucket_of (fe_valid_from f - vintage) of
         None \<Rightarrow> Inr None
       | Some b \<Rightarrow> Inr (Some (b, vintage, f)))"

fun placed_key :: "horizon_bucket \<times> instant \<times> forecast_evidence \<Rightarrow> int \<times> instant \<times> instant \<times> int \<times> str" where
  "placed_key (b, vintage, f) =
     (bucket_index b, fe_valid_from f, vintage, fe_revision f, fe_observation_id f)"

definition select_vintages ::
  "instant \<Rightarrow> instant \<Rightarrow> str \<Rightarrow> forecast_evidence list \<Rightarrow> (horizon_bucket \<times> forecast_evidence) list result" where
  "select_vintages window_start window_end basis forecasts =
     rbind (vintage_loop window_start window_end basis [] forecasts) (\<lambda>latest.
     rbind (traverse (placed basis) (map snd latest)) (\<lambda>items.
     Inr (map (\<lambda>(b, vintage, f). (b, f)) (sort_key placed_key (somes items)))))"

definition outturn_rank :: "outturn_evidence \<Rightarrow> int \<times> instant \<times> str" where
  "outturn_rank r = (oe_revision r, oe_retrieved_at r, oe_observation_id r)"

definition select_outturn_revisions ::
  "instant \<Rightarrow> instant \<Rightarrow> outturn_evidence list \<Rightarrow> (instant, outturn_evidence) dict" where
  "select_outturn_revisions window_start window_end outturns =
     keep_latest oe_observed_at outturn_rank
       (filter (\<lambda>r. window_start \<le> oe_observed_at r \<and> oe_observed_at r < window_end) outturns)"

section \<open>Statistics\<close>

definition MINIMUM_VERIFIED_SAMPLES :: int where "MINIMUM_VERIFIED_SAMPLES = 100"
definition MINIMUM_COVERAGE_FRACTION :: rat where "MINIMUM_COVERAGE_FRACTION = fl (9 / 10)"
definition SAFE_WAPE_DENOMINATOR :: rat where "SAFE_WAPE_DENOMINATOR = fl (1 / 10 ^ 9)"

definition status_and_reason :: "int \<Rightarrow> int \<Rightarrow> rat \<Rightarrow> verification_status \<times> verification_reason" where
  "status_and_reason expected verified coverage =
     (if MINIMUM_VERIFIED_SAMPLES \<le> verified \<and> MINIMUM_COVERAGE_FRACTION \<le> coverage
      then (Available, Eligible)
      else if expected = 0 then (Insufficient_Data, No_Forecasts)
      else if verified = 0 then (Insufficient_Data, No_Compatible_Outturns)
      else if verified < MINIMUM_VERIFIED_SAMPLES \<and> coverage < MINIMUM_COVERAGE_FRACTION
      then (Insufficient_Data, Sample_And_Coverage_Thresholds_Not_Met)
      else if verified < MINIMUM_VERIFIED_SAMPLES
      then (Insufficient_Data, Fewer_Than_100_Verified_Samples)
      else (Insufficient_Data, Coverage_Below_90_Percent))"

definition json_time :: "instant option \<Rightarrow> json" where
  "json_time t = (case t of None \<Rightarrow> JNull | Some i \<Rightarrow> JStr (iso_instant i))"

definition pair_payload ::
  "verification_target \<Rightarrow> horizon_bucket \<Rightarrow> instant \<Rightarrow> forecast_evidence \<Rightarrow> outturn_evidence \<Rightarrow> json" where
  "pair_payload target horizon vintage f r = JObj
     [(''registryVersion'', JStr VERIFICATION_REGISTRY_VERSION),
      (''methodologyVersion'', JStr VERIFICATION_METHODOLOGY_VERSION),
      (''metric'', JStr (metric_value (vt_metric target))),
      (''horizon'', JStr (bucket_value horizon)),
      (''validFrom'', JStr (iso_instant (fe_valid_from f))),
      (''forecastObservationID'', JStr (fe_observation_id f)),
      (''forecastRevision'', JInt (fe_revision f)),
      (''forecastVintageAt'', JStr (iso_instant vintage)),
      (''forecastSourceIssuedAt'', json_time (source_issued_at target f)),
      (''forecastCapturedAt'', JStr (iso_instant (fe_captured_at f))),
      (''forecastValue'', JFloat (fe_value f)),
      (''outturnObservationID'', JStr (oe_observation_id r)),
      (''outturnRevision'', JInt (oe_revision r)),
      (''outturnValue'', JFloat (oe_value r))]"

definition vintage_payload ::
  "verification_target \<Rightarrow> instant \<Rightarrow> forecast_evidence \<Rightarrow> json" where
  "vintage_payload target vintage f = JObj
     [(''validFrom'', JStr (iso_instant (fe_valid_from f))),
      (''vintageAt'', JStr (iso_instant vintage)),
      (''sourceIssuedAt'', json_time (source_issued_at target f)),
      (''observationID'', JStr (fe_observation_id f)),
      (''revision'', JInt (fe_revision f)),
      (''value'', JFloat (fe_value f))]"

definition result_payload ::
  "verification_target \<Rightarrow> horizon_bucket \<Rightarrow> instant \<Rightarrow> instant \<Rightarrow> json list \<Rightarrow> verification_pair list \<Rightarrow> json" where
  "result_payload target horizon window_start window_end vintages pairs = JObj
     [(''registryVersion'', JStr VERIFICATION_REGISTRY_VERSION),
      (''methodologyVersion'', JStr VERIFICATION_METHODOLOGY_VERSION),
      (''metric'', JStr (metric_value (vt_metric target))),
      (''horizon'', JStr (bucket_value horizon)),
      (''windowStart'', JStr (iso_instant window_start)),
      (''windowEnd'', JStr (iso_instant window_end)),
      (''expectedVintages'', JList vintages),
      (''pairs'', JList (map (\<lambda>p. JStr (vp_content_sha256 p)) pairs))]"

definition mean_of :: "rat list \<Rightarrow> int \<Rightarrow> rat" where
  "mean_of xs n = fdiv (fsum xs) (of_int n)"

definition wape_of :: "verification_pair list \<Rightarrow> rat option" where
  "wape_of pairs =
     (let denominator = fsum (map (\<lambda>p. \<bar>oe_value (vp_outturn p)\<bar>) pairs)
      in if SAFE_WAPE_DENOMINATOR < denominator
         then Some (fmul (fdiv (fsum (map vp_absolute_error pairs)) denominator) 100) else None)"

definition aggregate ::
  "verification_target \<Rightarrow> horizon_bucket \<Rightarrow> forecast_evidence list \<Rightarrow> verification_pair list
     \<Rightarrow> instant \<Rightarrow> instant \<Rightarrow> verification_result result" where
  "aggregate target horizon selected pairs window_start window_end =
     (let expected = int (length selected);
          verified = int (length pairs);
          coverage = (if expected \<noteq> 0 then int_div verified expected else 0);
          stated = status_and_reason expected verified coverage
      in rbind (traverse (\<lambda>f. rbind (effective_vintage_at (vt_effective_vintage_time_basis target) f)
                                (\<lambda>vintage. Inr (vintage_payload target vintage f))) selected) (\<lambda>vintages.
         Inr \<lparr>vr_target = target, vr_horizon = horizon, vr_window_start = window_start,
              vr_window_end = window_end, vr_status = fst stated, vr_reason = snd stated,
              vr_mae = (if pairs = [] then None
                        else Some (mean_of (map vp_absolute_error pairs) verified)),
              vr_bias = (if pairs = [] then None
                         else Some (mean_of (map vp_signed_error pairs) verified)),
              vr_wape_percent = (if pairs = [] then None else wape_of pairs),
              vr_verified_sample_count = verified, vr_expected_sample_count = expected,
              vr_coverage_fraction = coverage,
              vr_evidence_checksum =
                json_checksum (result_payload target horizon window_start window_end vintages pairs),
              vr_source_watermark_at =
                py_max id (map fe_captured_at selected @ map (oe_retrieved_at \<circ> vp_outturn) pairs)\<rparr>))"

section \<open>Pairing\<close>

definition pair_of ::
  "verification_target \<Rightarrow> horizon_bucket \<Rightarrow> (instant, outturn_evidence) dict \<Rightarrow> forecast_evidence
     \<Rightarrow> verification_pair option result" where
  "pair_of target horizon outturns f =
     (case lookup outturns (fe_valid_from f) of
        None \<Rightarrow> Inr None
      | Some r \<Rightarrow>
          let signed_error = fsub (fe_value f) (oe_value r)
          in rbind (effective_vintage_at (vt_effective_vintage_time_basis target) f) (\<lambda>vintage.
             Inr (Some \<lparr>vp_target = target, vp_horizon = horizon, vp_forecast = f, vp_outturn = r,
                        vp_signed_error = signed_error, vp_absolute_error = \<bar>signed_error\<bar>,
                        vp_content_sha256 = json_checksum (pair_payload target horizon vintage f r)\<rparr>)))"

definition verify_bucket ::
  "verification_target \<Rightarrow> instant \<Rightarrow> instant \<Rightarrow> (horizon_bucket \<times> forecast_evidence) list
     \<Rightarrow> (instant, outturn_evidence) dict \<Rightarrow> horizon_bucket
     \<Rightarrow> (verification_pair list \<times> verification_result) result" where
  "verify_bucket target window_start window_end chosen outturns horizon =
     (let selected = map snd (filter (\<lambda>(b, f). b = horizon) chosen)
      in rbind (traverse (pair_of target horizon outturns) selected) (\<lambda>found.
         rbind (aggregate target horizon selected (somes found) window_start window_end) (\<lambda>res.
         Inr (somes found, res))))"

definition verify_forecasts ::
  "verification_target \<Rightarrow> forecast_evidence list \<Rightarrow> outturn_evidence list \<Rightarrow> datetime \<Rightarrow> datetime
     \<Rightarrow> verification_bundle result" where
  "verify_forecasts target forecasts outturns window_start window_end =
     rbind (aware window_start ''window_start'') (\<lambda>start.
     rbind (aware window_end ''window_end'') (\<lambda>finish.
     if finish \<le> start then Inl (ValueError ''verification window must be positive'')
     else
       rbind (select_vintages start finish (vt_effective_vintage_time_basis target) forecasts) (\<lambda>chosen.
       rbind (traverse (verify_bucket target start finish chosen
                          (select_outturn_revisions start finish outturns)) HORIZON_BUCKETS) (\<lambda>parts.
       Inr \<lparr>vb_target = target, vb_pairs = concat (map fst parts), vb_results = map snd parts\<rparr>))))"


section \<open>Buckets\<close>

lemma bucket_hours: "0 \<le> minimum_hours b" "minimum_hours b \<le> 48" "0 \<le> maximum_hours b" "maximum_hours b \<le> 48"
  by (cases b; simp)+

lemma bucket_contains_iff:
  "bucket_contains b h \<longleftrightarrow> (minimum_hours b * hour \<le> h \<and> h < maximum_hours b * hour)
     \<or> (b = Twenty_Four_To_Forty_Eight_Hours \<and> h = 48 * hour)"
proof -
  have lo: "of_int (minimum_hours b * 3600) \<le> int_div h 1000000 \<longleftrightarrow> minimum_hours b * hour \<le> h"
    using micro_le_lower [of "minimum_hours b * 3600" h] bucket_hours [of b] by (simp add: time_defs mult.commute)
  have up: "of_int (maximum_hours b * 3600) \<le> int_div h 1000000 \<longleftrightarrow> maximum_hours b * hour \<le> h"
    using micro_le_lower [of "maximum_hours b * 3600" h] bucket_hours [of b] by (simp add: time_defs mult.commute)
  have eq: "int_div h 1000000 = of_int (maximum_hours b * 3600) \<longleftrightarrow> h = maximum_hours b * hour"
    using micro_le_upper [of "maximum_hours b * 3600" h] bucket_hours [of b] up
    by (auto simp: time_defs mult.commute order.eq_iff)
  show ?thesis
    unfolding bucket_contains_def Let_def lo eq not_le [symmetric] up by auto
qed

lemma bucket_of_iff: "bucket_of h = Some b \<longleftrightarrow> bucket_contains b h"
  unfolding bucket_of_def HORIZON_BUCKETS_def
  by (cases b) (auto simp: bucket_contains_iff time_defs)

lemma bucket_of_None: "bucket_of h = None \<longleftrightarrow> h < 0 \<or> 48 * hour < h"
  unfolding bucket_of_def HORIZON_BUCKETS_def by (auto simp: bucket_contains_iff time_defs)

section \<open>Selection refined to the greatest per vintage\<close>

definition vintage_time :: "str \<Rightarrow> forecast_evidence \<Rightarrow> instant" where
  "vintage_time basis f = (if basis = CAPTURE_TIME_ISSUE_BASIS then fe_captured_at f else fe_issued_at f)"

definition vintage_ident :: "str \<Rightarrow> forecast_evidence \<Rightarrow> instant \<times> instant" where
  "vintage_ident basis f = (fe_valid_from f, vintage_time basis f)"

definition reviewed_basis :: "str \<Rightarrow> bool" where
  "reviewed_basis basis \<longleftrightarrow> basis = CAPTURE_TIME_ISSUE_BASIS \<or> basis = SOURCE_PUBLISHED_TIME_BASIS"

definition admissible :: "instant \<Rightarrow> instant \<Rightarrow> str \<Rightarrow> forecast_evidence \<Rightarrow> bool" where
  "admissible s e basis f \<longleftrightarrow>
     s \<le> fe_valid_from f \<and> fe_valid_from f < e \<and> vintage_time basis f \<le> fe_valid_from f"

definition latest_vintages :: "instant \<Rightarrow> instant \<Rightarrow> str \<Rightarrow> forecast_evidence list \<Rightarrow> (instant \<times> instant, forecast_evidence) dict" where
  "latest_vintages s e basis fs = keep_latest (vintage_ident basis) forecast_rank (filter (admissible s e basis) fs)"

lemma effective_vintage [simp]: "reviewed_basis basis \<Longrightarrow> effective_vintage_at basis f = Inr (vintage_time basis f)"
  by (auto simp: reviewed_basis_def effective_vintage_at_def vintage_time_def)

lemma validated_basis:
  "validate_target t = Inr t' \<Longrightarrow> reviewed_basis (vt_effective_vintage_time_basis t) \<and> t' = t"
  by (auto simp: validate_target_def reviewed_basis_def split: if_splits)

lemma vintage_loop_refines:
  assumes "reviewed_basis basis"
  shows "vintage_loop s e basis d fs =
     Inr (foldl (keep_latest_step (vintage_ident basis) forecast_rank) d (filter (admissible s e basis) fs))"
proof (induction fs arbitrary: d)
  case (Cons f fs)
  have "vintage_step s e basis d f =
     Inr (if admissible s e basis f then keep_latest_step (vintage_ident basis) forecast_rank d f else d)"
    using assms
    by (auto simp: vintage_step_def admissible_def keep_latest_step_def vintage_ident_def not_le split: option.split)
  with Cons.IH show ?case by simp
qed simp

definition lead :: "str \<Rightarrow> forecast_evidence \<Rightarrow> duration" where
  "lead basis f = fe_valid_from f - vintage_time basis f"

definition placed_vintages :: "str \<Rightarrow> forecast_evidence list \<Rightarrow> (horizon_bucket \<times> instant \<times> forecast_evidence) list" where
  "placed_vintages basis fs =
     [(b, vintage_time basis f, f). f \<leftarrow> fs, Some b \<leftarrow> [bucket_of (lead basis f)]]"

lemma placed_total:
  assumes "reviewed_basis basis"
  shows "placed basis f = Inr (map_option (\<lambda>b. (b, vintage_time basis f, f)) (bucket_of (lead basis f)))"
  using assms by (simp add: placed_def lead_def split: option.split)

lemma placed_list:
  "somes (map (\<lambda>f. map_option (\<lambda>b. (b, vintage_time basis f, f)) (bucket_of (lead basis f))) fs)
     = placed_vintages basis fs"
  by (induction fs) (auto simp: placed_vintages_def split: option.split)

lemma select_vintages_total:
  assumes "reviewed_basis basis"
  shows "select_vintages s e basis fs = Inr (map (\<lambda>(b, v, f). (b, f))
     (sort_key placed_key (placed_vintages basis (map snd (latest_vintages s e basis fs)))))"
proof -
  have "traverse (placed basis) gs
      = Inr (map (\<lambda>f. map_option (\<lambda>b. (b, vintage_time basis f, f)) (bucket_of (lead basis f))) gs)" for gs
    by (rule traverse_total) (rule placed_total [OF assms])
  then show ?thesis
    by (simp only: select_vintages_def vintage_loop_refines [OF assms] placed_list rbind_Inr
        latest_vintages_def keep_latest_def)
qed

lemma set_placed_vintages:
  "x \<in> set (placed_vintages basis fs) \<longleftrightarrow>
     (\<exists>b f. x = (b, vintage_time basis f, f) \<and> f \<in> set fs \<and> bucket_contains b (lead basis f))"
  by (auto simp: placed_vintages_def bucket_of_iff [symmetric])

definition chosen_of :: "str \<Rightarrow> forecast_evidence list \<Rightarrow> (horizon_bucket \<times> forecast_evidence) list" where
  "chosen_of basis fs = map (\<lambda>(b, v, f). (b, f)) (sort_key placed_key (placed_vintages basis fs))"

lemma set_chosen_of:
  "(b, f) \<in> set (chosen_of basis fs) \<longleftrightarrow> f \<in> set fs \<and> bucket_contains b (lead basis f)"
  by (force simp: chosen_of_def set_placed_vintages)

lemma length_placed: "length (placed_vintages basis fs) \<le> length fs"
  by (induction fs) (auto simp: placed_vintages_def split: option.split)

lemma map_snd_placed: "map (snd \<circ> snd) (placed_vintages basis fs) = filter (\<lambda>f. bucket_of (lead basis f) \<noteq> None) fs"
  by (induction fs) (auto simp: placed_vintages_def split: option.split)

lemma mset_chosen_of: "mset (map snd (chosen_of basis fs)) = mset (filter (\<lambda>f. bucket_of (lead basis f) \<noteq> None) fs)"
proof -
  have "map snd (chosen_of basis fs) = map (snd \<circ> snd) (sort_key placed_key (placed_vintages basis fs))"
    by (simp add: chosen_of_def case_prod_unfold)
  then have "mset (map snd (chosen_of basis fs)) = mset (map (snd \<circ> snd) (placed_vintages basis fs))"
    by (simp add: mset_map)
  then show ?thesis by (simp add: map_snd_placed)
qed

section \<open>The contract of the selections\<close>

text \<open>An observation id names one stored observation.\<close>

definition unique_ids :: "('a \<Rightarrow> str) \<Rightarrow> 'a list \<Rightarrow> bool" where
  "unique_ids id_of xs \<longleftrightarrow> (\<forall>x \<in> set xs. \<forall>y \<in> set xs. id_of x = id_of y \<longrightarrow> x = y)"

lemma unique_ids_filter: "unique_ids id_of xs \<Longrightarrow> unique_ids id_of (filter P xs)"
  by (simp add: unique_ids_def)

lemma unique_ids_set: "set xs = set ys \<Longrightarrow> unique_ids id_of xs = unique_ids id_of ys"
  by (simp add: unique_ids_def)

interpretation vintages: latest_selection "vintage_ident basis" forecast_rank "unique_ids fe_observation_id"
  for basis
  by unfold_locales (auto simp: forecast_rank_def unique_ids_def)

interpretation outturns: latest_selection oe_observed_at outturn_rank "unique_ids oe_observation_id"
  by unfold_locales (auto simp: outturn_rank_def unique_ids_def)

lemma latest_vintages_in:
  "f \<in> set (map snd (latest_vintages s e basis fs)) \<Longrightarrow>
     f \<in> set fs \<and> admissible s e basis f \<and> lookup (latest_vintages s e basis fs) (vintage_ident basis f) = Some f"
proof -
  let ?d = "latest_vintages s e basis fs"
  assume "f \<in> set (map snd ?d)"
  then obtain k where "(k, f) \<in> set ?d" by auto
  moreover have "distinct (map fst ?d)" by (simp add: latest_vintages_def keep_latest_distinct)
  ultimately have l: "lookup ?d k = Some f" by simp
  from keep_latest_sound [OF l [unfolded latest_vintages_def]] l
  show ?thesis by auto
qed

lemma latest_vintages_idents: "distinct (map (vintage_ident basis) (map snd (latest_vintages s e basis fs)))"
proof -
  let ?d = "latest_vintages s e basis fs"
  have d: "distinct (map fst ?d)" by (simp add: latest_vintages_def keep_latest_distinct)
  have "vintage_ident basis (snd x) = fst x" if "x \<in> set ?d" for x
  proof -
    from d that have "lookup ?d (fst x) = Some (snd x)" by simp
    from keep_latest_sound [OF this [unfolded latest_vintages_def]] show ?thesis by simp
  qed
  then have "map (vintage_ident basis \<circ> snd) ?d = map fst ?d" by (intro map_cong) auto
  with d show ?thesis by (simp only: map_map)
qed

lemma latest_vintages_cover:
  assumes "f \<in> set fs" and "admissible s e basis f"
  shows "\<exists>g \<in> set (map snd (latest_vintages s e basis fs)).
     vintage_ident basis g = vintage_ident basis f \<and> forecast_rank f \<le> forecast_rank g"
proof -
  from assms have "f \<in> set (filter (admissible s e basis) fs)" by simp
  from keep_latest_greatest [OF this, of "vintage_ident basis" forecast_rank] obtain g where
    g: "lookup (latest_vintages s e basis fs) (vintage_ident basis f) = Some g"
    and r: "forecast_rank f \<le> forecast_rank g" unfolding latest_vintages_def by blast
  from keep_latest_sound [OF g [unfolded latest_vintages_def]]
  have "vintage_ident basis g = vintage_ident basis f" by simp
  moreover from map_of_SomeD [OF g] have "g \<in> set (map snd (latest_vintages s e basis fs))" by force
  ultimately show ?thesis using r by blast
qed

lemma latest_vintages_mset:
  assumes "unique_ids fe_observation_id fs" and "set fs = set fs'"
  shows "mset (map snd (latest_vintages s e basis fs)) = mset (map snd (latest_vintages s e basis fs'))"
proof -
  have u: "unique_ids fe_observation_id (filter (admissible s e basis) fs)"
    "unique_ids fe_observation_id (filter (admissible s e basis) fs')"
    using assms by (auto simp: unique_ids_def)
  have "lookup (latest_vintages s e basis fs) = lookup (latest_vintages s e basis fs')"
    unfolding latest_vintages_def using assms(2) by (intro vintages.order_irrelevant u) auto
  then have "mset (latest_vintages s e basis fs) = mset (latest_vintages s e basis fs')"
    by (intro mset_items_eq) (simp_all add: latest_vintages_def keep_latest_distinct)
  then show ?thesis by (simp add: mset_map)
qed

lemma chosen_of_mset:
  assumes "mset fs = mset fs'" and "unique_ids fe_observation_id fs"
  shows "chosen_of basis fs = chosen_of basis fs'"
proof -
  have part: "mset (placed_vintages basis gs) = (\<Sum>f\<in>#mset gs. mset (placed_vintages basis [f]))" for gs
    by (induction gs) (auto simp: placed_vintages_def)
  have m: "mset (placed_vintages basis fs) = mset (placed_vintages basis fs')"
    unfolding part [of fs] part [of fs'] assms(1) ..
  have "sort_key placed_key (placed_vintages basis fs') = sort_key placed_key (placed_vintages basis fs)"
  proof (rule sort_key_inj_key_eq)
    show "mset (placed_vintages basis fs') = mset (sort_key placed_key (placed_vintages basis fs))"
      using m by simp
    show "inj_on placed_key (set (placed_vintages basis fs'))"
      using assms(2) mset_eq_setD [OF assms(1)] unfolding inj_on_def
      by (auto simp: set_placed_vintages unique_ids_def)
         (metis bucket_of_iff option.inject)
    show "sorted (map placed_key (sort_key placed_key (placed_vintages basis fs)))" by simp
  qed
  then show ?thesis by (simp add: chosen_of_def)
qed

section \<open>The pairs of a bundle\<close>

definition verified_pair ::
  "verification_target \<Rightarrow> horizon_bucket \<Rightarrow> forecast_evidence \<Rightarrow> outturn_evidence \<Rightarrow> verification_pair" where
  "verified_pair target h f r =
     \<lparr>vp_target = target, vp_horizon = h, vp_forecast = f, vp_outturn = r,
      vp_signed_error = fsub (fe_value f) (oe_value r),
      vp_absolute_error = \<bar>fsub (fe_value f) (oe_value r)\<bar>,
      vp_content_sha256 = json_checksum
        (pair_payload target h (vintage_time (vt_effective_vintage_time_basis target) f) f r)\<rparr>"

lemma verified_pair_sel [simp]:
  "vp_target (verified_pair t h f r) = t" "vp_horizon (verified_pair t h f r) = h"
  "vp_forecast (verified_pair t h f r) = f" "vp_outturn (verified_pair t h f r) = r"
  "vp_signed_error (verified_pair t h f r) = fsub (fe_value f) (oe_value r)"
  "vp_absolute_error (verified_pair t h f r) = \<bar>fsub (fe_value f) (oe_value r)\<bar>"
  by (simp_all add: verified_pair_def)

definition in_bucket :: "(horizon_bucket \<times> forecast_evidence) list \<Rightarrow> horizon_bucket \<Rightarrow> forecast_evidence list" where
  "in_bucket chosen h = map snd (filter (\<lambda>(b, f). b = h) chosen)"

definition found_pairs ::
  "verification_target \<Rightarrow> (instant, outturn_evidence) dict \<Rightarrow> horizon_bucket \<Rightarrow> forecast_evidence list \<Rightarrow> verification_pair list" where
  "found_pairs target outs h fs =
     somes (map (\<lambda>f. map_option (verified_pair target h f) (lookup outs (fe_valid_from f))) fs)"

lemma pair_of_total:
  assumes "reviewed_basis (vt_effective_vintage_time_basis target)"
  shows "pair_of target h outs f = Inr (map_option (verified_pair target h f) (lookup outs (fe_valid_from f)))"
  using assms by (simp add: pair_of_def verified_pair_def Let_def split: option.split)

lemma aggregate_total:
  assumes "reviewed_basis (vt_effective_vintage_time_basis target)"
  shows "\<exists>r. aggregate target h fs ps s e = Inr r"
proof -
  let ?b = "vt_effective_vintage_time_basis target"
  have "traverse (\<lambda>f. rbind (effective_vintage_at ?b f) (\<lambda>vintage. Inr (vintage_payload target vintage f))) fs
      = Inr (map (\<lambda>f. vintage_payload target (vintage_time ?b f) f) fs)"
    by (rule traverse_total) (simp add: assms)
  then show ?thesis by (simp add: aggregate_def Let_def)
qed

lemma verify_bucket_Inr:
  assumes "reviewed_basis (vt_effective_vintage_time_basis target)"
  shows "verify_bucket target s e chosen outs h = Inr part \<longleftrightarrow>
     fst part = found_pairs target outs h (in_bucket chosen h) \<and>
     aggregate target h (in_bucket chosen h) (fst part) s e = Inr (snd part)"
proof -
  have "traverse (pair_of target h outs) fs
      = Inr (map (\<lambda>f. map_option (verified_pair target h f) (lookup outs (fe_valid_from f))) fs)" for fs
    by (rule traverse_total) (rule pair_of_total [OF assms])
  then show ?thesis
    by (cases part) (auto simp: verify_bucket_def in_bucket_def found_pairs_def rbind_eq_Inr)
qed

lemma found_pairs_forecasts:
  "map vp_forecast (found_pairs target outs h fs) = filter (\<lambda>f. lookup outs (fe_valid_from f) \<noteq> None) fs"
  by (induction fs) (auto simp: found_pairs_def split: option.split)

lemma found_pairs_in:
  "p \<in> set (found_pairs target outs h fs) \<Longrightarrow>
     vp_forecast p \<in> set fs \<and> lookup outs (fe_valid_from (vp_forecast p)) = Some (vp_outturn p)
     \<and> p = verified_pair target h (vp_forecast p) (vp_outturn p)"
  by (auto simp: found_pairs_def somes_def)

lemma in_bucket_parts:
  "mset (concat (map (\<lambda>h. filter P (in_bucket chosen h)) HORIZON_BUCKETS)) = mset (filter P (map snd chosen))"
proof (induction chosen)
  case (Cons x chosen)
  obtain b f where "x = (b, f)" by (cases x)
  with Cons show ?case by (cases b) (auto simp: in_bucket_def HORIZON_BUCKETS_def)
qed (simp add: in_bucket_def HORIZON_BUCKETS_def)

text \<open>What a successful verification consists of.\<close>

lemma verify_forecasts_Inr:
  assumes "validate_target target = Inr target"
    and "verify_forecasts target fs rs ws we = Inr b"
  obtains s e chosen outs parts where "ws = Aware s" and "we = Aware e" and "s < e"
    and "chosen = chosen_of (vt_effective_vintage_time_basis target)
           (map snd (latest_vintages s e (vt_effective_vintage_time_basis target) fs))"
    and "outs = select_outturn_revisions s e rs"
    and "list_all2 (\<lambda>h part. fst part = found_pairs target outs h (in_bucket chosen h)
           \<and> aggregate target h (in_bucket chosen h) (fst part) s e = Inr (snd part)) HORIZON_BUCKETS parts"
    and "b = \<lparr>vb_target = target, vb_pairs = concat (map fst parts), vb_results = map snd parts\<rparr>"
proof -
  let ?basis = "vt_effective_vintage_time_basis target"
  from validated_basis [OF assms(1)] have v: "reviewed_basis ?basis" by simp
  from assms(2) obtain s e where se: "ws = Aware s" "we = Aware e" "s < e"
    by (auto simp: verify_forecasts_def aware_def rbind_eq_Inr aware_utc_Inr split: if_splits)
  let ?chosen = "chosen_of ?basis (map snd (latest_vintages s e ?basis fs))"
  let ?outs = "select_outturn_revisions s e rs"
  have c: "select_vintages s e ?basis fs = Inr ?chosen"
    by (simp add: select_vintages_total [OF v] chosen_of_def)
  from assms(2) se c obtain parts where
    t: "traverse (verify_bucket target s e ?chosen ?outs) HORIZON_BUCKETS = Inr parts"
    and b: "b = \<lparr>vb_target = target, vb_pairs = concat (map fst parts), vb_results = map snd parts\<rparr>"
    by (auto simp: verify_forecasts_def aware_def rbind_eq_Inr)
  show ?thesis
    by (rule that [OF se refl refl _ b]) (use t in \<open>simp add: traverse_eq_Inr verify_bucket_Inr [OF v]\<close>)
qed

lemma map_filter_forecasts:
  assumes "list_all2 (\<lambda>h part. fst part = found_pairs target outs h (in_bucket chosen h) \<and> R h part) hs parts"
  shows "map vp_forecast (concat (map fst parts))
    = concat (map (\<lambda>h. filter (\<lambda>f. lookup outs (fe_valid_from f) \<noteq> None) (in_bucket chosen h)) hs)"
  using assms by (induction rule: list_all2_induct) (simp_all add: found_pairs_forecasts)

text \<open>A pair of the evidence: the greatest correction of its vintage with the greatest revision of
  the outturn of exactly its time, in the bucket of its lead.\<close>

definition exact_pair ::
  "verification_target \<Rightarrow> forecast_evidence list \<Rightarrow> outturn_evidence list \<Rightarrow> instant \<Rightarrow> instant \<Rightarrow> verification_pair \<Rightarrow> bool" where
  "exact_pair target fs rs s e p \<longleftrightarrow>
     (let f = vp_forecast p; r = vp_outturn p; basis = vt_effective_vintage_time_basis target in
        f \<in> set fs \<and> r \<in> set rs \<and> oe_observed_at r = fe_valid_from f
        \<and> s \<le> fe_valid_from f \<and> fe_valid_from f < e
        \<and> 0 \<le> lead basis f \<and> bucket_contains (vp_horizon p) (lead basis f)
        \<and> vp_target p = target
        \<and> vp_signed_error p = fsub (fe_value f) (oe_value r) \<and> vp_absolute_error p = \<bar>vp_signed_error p\<bar>
        \<and> list_all (\<lambda>g. vintage_ident basis g = vintage_ident basis f \<longrightarrow> forecast_rank g \<le> forecast_rank f) fs
        \<and> list_all (\<lambda>q. oe_observed_at q = oe_observed_at r \<longrightarrow> outturn_rank q \<le> outturn_rank r) rs)"

lemma latest_is_greatest:
  assumes "f \<in> set (map snd (latest_vintages s e basis fs))" and "g \<in> set fs"
    and "vintage_ident basis g = vintage_ident basis f"
  shows "forecast_rank g \<le> forecast_rank f"
proof -
  note f = latest_vintages_in [OF assms(1)]
  with assms(3) have "admissible s e basis g" by (auto simp: admissible_def vintage_ident_def)
  with assms(2) have "g \<in> set (filter (admissible s e basis) fs)" by simp
  from keep_latest_greatest [OF this, of "vintage_ident basis" forecast_rank] f assms(3)
  show ?thesis by (auto simp: latest_vintages_def)
qed

lemma selected_outturn:
  assumes "lookup (select_outturn_revisions s e rs) t = Some r"
  shows "r \<in> set rs" and "oe_observed_at r = t" and "s \<le> t" and "t < e"
    and "q \<in> set rs \<Longrightarrow> oe_observed_at q = t \<Longrightarrow> outturn_rank q \<le> outturn_rank r"
proof -
  let ?P = "\<lambda>r. s \<le> oe_observed_at r \<and> oe_observed_at r < e"
  from keep_latest_sound [OF assms [unfolded select_outturn_revisions_def]]
  show r: "r \<in> set rs" "oe_observed_at r = t" "s \<le> t" "t < e" by auto
  show "outturn_rank q \<le> outturn_rank r" if "q \<in> set rs" "oe_observed_at q = t"
  proof -
    from that r have "q \<in> set (filter ?P rs)" by simp
    from keep_latest_greatest [OF this, of oe_observed_at outturn_rank] that(2) assms
    show ?thesis by (auto simp: select_outturn_revisions_def)
  qed
qed

lemma chosen_latest:
  assumes "f \<in> set (in_bucket (chosen_of basis (map snd d)) h)"
  shows "f \<in> set (map snd d)" and "bucket_contains h (lead basis f)"
  using assms set_chosen_of [of h f basis "map snd d"] by (auto simp: in_bucket_def)

section \<open>Statistics\<close>

lemma coverage_threshold:
  assumes "0 \<le> v" and "v \<le> n" and "0 < n" and "n < 2 ^ 40"
  shows "MINIMUM_COVERAGE_FRACTION \<le> int_div v n \<longleftrightarrow> 9 * n \<le> 10 * v"
proof
  assume "9 * n \<le> 10 * v"
  then have "of_int (9 * n) \<le> (of_int (10 * v) :: rat)" by (simp only: of_int_le_iff)
  then have "(9 / 10 :: rat) \<le> of_int v / of_int n" using assms by (simp add: field_simps)
  then show "MINIMUM_COVERAGE_FRACTION \<le> int_div v n"
    unfolding MINIMUM_COVERAGE_FRACTION_def int_div_def by (rule fl_mono)
next
  assume le: "MINIMUM_COVERAGE_FRACTION \<le> int_div v n"
  show "9 * n \<le> 10 * v"
  proof (rule ccontr)
    assume "\<not> 9 * n \<le> 10 * v"
    then have "of_int (10 * v + 1) \<le> (of_int (9 * n) :: rat)" by (simp only: of_int_le_iff)
    then have "of_int v / of_int n \<le> (9 / 10 - 1 / (10 * of_int n) :: rat)"
      using assms by (simp add: field_simps)
    moreover have "(of_int n :: rat) \<le> of_int (2 ^ 40)" using assms by (simp only: of_int_le_iff)
    then have "(1 / (10 * 2 ^ 40) :: rat) \<le> 1 / (10 * of_int n)"
      using assms by (intro divide_left_mono) auto
    moreover have "(9 / 10 - 1 / (10 * 2 ^ 40) :: rat) \<le> of_int 8106479329266892 * 2 powi (- 53)"
      by (simp add: power_int_minus field_simps)
    ultimately have "of_int v / of_int n \<le> (of_int 8106479329266892 * 2 powi (- 53) :: rat)" by linarith
    then have "int_div v n \<le> of_int 8106479329266892 * 2 powi (- 53)"
      unfolding int_div_def using fl_representable [of 8106479329266892 "- 53"] fl_mono by fastforce
    also have "\<dots> < of_int 8106479329266893 * 2 powi (- 53)"
      by (simp add: power_int_minus field_simps)
    also have "\<dots> = MINIMUM_COVERAGE_FRACTION" unfolding MINIMUM_COVERAGE_FRACTION_def by code_simp
    finally show False using le by simp
  qed
qed

definition sound_statistics :: "verification_result \<Rightarrow> bool" where
  "sound_statistics r \<longleftrightarrow>
     0 \<le> vr_verified_sample_count r \<and> vr_verified_sample_count r \<le> vr_expected_sample_count r
     \<and> 0 \<le> vr_coverage_fraction r \<and> vr_coverage_fraction r \<le> 1
     \<and> (display_eligible r \<longleftrightarrow> 100 \<le> vr_verified_sample_count r
          \<and> 9 * vr_expected_sample_count r \<le> 10 * vr_verified_sample_count r)
     \<and> (display_eligible r \<longleftrightarrow> vr_reason r = Eligible)
     \<and> (case (vr_bias r, vr_mae r) of
          (Some bias, Some mae) \<Rightarrow> \<bar>bias\<bar> \<le> mae \<and> 0 < vr_verified_sample_count r
        | (None, None) \<Rightarrow> vr_verified_sample_count r = 0 \<and> vr_wape_percent r = None
        | _ \<Rightarrow> False)
     \<and> (case vr_wape_percent r of Some w \<Rightarrow> 0 \<le> w | None \<Rightarrow> True)"

lemma mean_bound:
  assumes "0 < n"
  shows "\<bar>mean_of xs n\<bar> \<le> mean_of (map abs xs) n"
  unfolding mean_of_def fdiv_def fsum_def using assms by (intro f64.abs_mean_le) simp

lemma status_eligible:
  "fst (status_and_reason n v c) = Available \<longleftrightarrow> 100 \<le> v \<and> MINIMUM_COVERAGE_FRACTION \<le> c"
  "snd (status_and_reason n v c) = Eligible \<longleftrightarrow> fst (status_and_reason n v c) = Available"
  by (auto simp: status_and_reason_def MINIMUM_VERIFIED_SAMPLES_def)

lemma wape_nonneg:
  assumes "\<And>p. p \<in> set ps \<Longrightarrow> 0 \<le> vp_absolute_error p" and "wape_of ps = Some w"
  shows "0 \<le> w"
proof -
  have "0 \<le> fsum (map vp_absolute_error ps)" using assms(1) by (intro fsum_nonneg) auto
  moreover have "0 \<le> fsum (map (\<lambda>p. \<bar>oe_value (vp_outturn p)\<bar>) ps)" by (intro fsum_nonneg) auto
  ultimately show ?thesis using assms(2)
    by (auto simp: wape_of_def Let_def fmul_def fdiv_def f64.nonneg_iff split: if_splits)
qed

lemma aggregate_sound:
  assumes "aggregate target h fs (found_pairs target outs h fs) s e = Inr r" and "int (length fs) < 2 ^ 40"
  shows "sound_statistics r"
proof -
  let ?ps = "found_pairs target outs h fs"
  have len: "length ?ps \<le> length fs"
    using arg_cong [OF found_pairs_forecasts [of target outs h fs], of length] by (simp add: length_filter_le)
  have err: "vp_absolute_error p = \<bar>vp_signed_error p\<bar>" if "p \<in> set ?ps" for p
    using found_pairs_in [OF that] by (metis verified_pair_sel(5,6))
  then have abs: "map vp_absolute_error ?ps = map abs (map vp_signed_error ?ps)" by simp
  have nn: "0 \<le> vp_absolute_error p" if "p \<in> set ?ps" for p by (simp add: err [OF that])
  let ?c = "if fs \<noteq> [] then int_div (int (length ?ps)) (int (length fs)) else 0"
  have cov: "0 \<le> ?c \<and> ?c \<le> 1"
    using int_div_fraction [of "int (length ?ps)" "int (length fs)"] len by simp
  have thr: "100 \<le> int (length ?ps) \<and> MINIMUM_COVERAGE_FRACTION \<le> ?c \<longleftrightarrow>
      100 \<le> int (length ?ps) \<and> 9 * int (length fs) \<le> 10 * int (length ?ps)"
    using coverage_threshold [of "int (length ?ps)" "int (length fs)"] len assms(2) by auto
  have bias: "\<bar>mean_of (map vp_signed_error ?ps) (int (length ?ps))\<bar>
      \<le> mean_of (map vp_absolute_error ?ps) (int (length ?ps))" if "?ps \<noteq> []"
    unfolding abs using that by (intro mean_bound) simp
  have f: "vr_verified_sample_count r = int (length ?ps) \<and> vr_expected_sample_count r = int (length fs)
    \<and> vr_coverage_fraction r = ?c
    \<and> vr_status r = fst (status_and_reason (int (length fs)) (int (length ?ps)) ?c)
    \<and> vr_reason r = snd (status_and_reason (int (length fs)) (int (length ?ps)) ?c)
    \<and> vr_mae r = (if ?ps = [] then None else Some (mean_of (map vp_absolute_error ?ps) (int (length ?ps))))
    \<and> vr_bias r = (if ?ps = [] then None else Some (mean_of (map vp_signed_error ?ps) (int (length ?ps))))
    \<and> vr_wape_percent r = (if ?ps = [] then None else wape_of ?ps)"
    using assms(1) unfolding aggregate_def Let_def rbind_eq_Inr sum.inject
    by (elim exE conjE, hypsubst)
      (simp only: verification_result.select_convs of_nat_eq_0_iff length_0_conv simp_thms)
  note f = f [THEN conjunct1] f [THEN conjunct2, THEN conjunct1]
    f [THEN conjunct2, THEN conjunct2]
  have w: "0 \<le> w" if "wape_of ?ps = Some w" for w using wape_nonneg [of ?ps, OF nn] that by blast
  have eligible: "display_eligible r \<longleftrightarrow> 100 \<le> int (length ?ps) \<and> 9 * int (length fs) \<le> 10 * int (length ?ps)"
    "display_eligible r \<longleftrightarrow> vr_reason r = Eligible"
    using thr f(3) by (simp_all add: display_eligible_def status_eligible)
  show ?thesis
    unfolding sound_statistics_def eligible(1) f(1,2)
    using len cov bias w eligible f(3) by (cases "?ps = []") (auto split: option.split)
qed

lemma length_chosen: "length (in_bucket (chosen_of basis fs) h) \<le> length fs"
proof -
  have "length (in_bucket (chosen_of basis fs) h) \<le> length (chosen_of basis fs)"
    by (simp add: in_bucket_def length_filter_le)
  also have "\<dots> \<le> length fs" by (simp add: chosen_of_def length_placed)
  finally show ?thesis .
qed

lemma length_keep_latest: "length (keep_latest ident rank xs) \<le> length xs"
proof -
  have "length (keep_latest ident rank xs) = card (fst ` set (keep_latest ident rank xs))"
    using distinct_card [OF keep_latest_distinct [of ident rank xs]] by simp
  also have "\<dots> \<le> card (ident ` set xs)"
  proof (intro card_mono)
    show "fst ` set (keep_latest ident rank xs) \<subseteq> ident ` set xs"
    proof
      fix k assume "k \<in> fst ` set (keep_latest ident rank xs)"
      then obtain y where "lookup (keep_latest ident rank xs) k = Some y"
        by (metis map_of_eq_None_iff not_None_eq)
      from keep_latest_sound [OF this] show "k \<in> ident ` set xs" by auto
    qed
  qed simp
  also have "\<dots> \<le> length xs" by (rule order.trans [OF card_image_le card_length]) simp
  finally show ?thesis .
qed

lemma length_latest: "length (map snd (latest_vintages s e basis fs)) \<le> length fs"
proof -
  have "length (latest_vintages s e basis fs) \<le> length (filter (admissible s e basis) fs)"
    unfolding latest_vintages_def by (rule length_keep_latest)
  also have "\<dots> \<le> length fs" by (rule length_filter_le)
  finally show ?thesis by simp
qed

section \<open>Properties\<close>

text \<open>The four horizon buckets tile the leads from zero to forty-eight hours to the
  microsecond: no lead is in two buckets, every lead of that range is in one, and the bucket
  taken is that one, although the bounds are compared with a float number of seconds.\<close>

theorem horizon_buckets_tile:
  "(bucket_of h = Some b \<longleftrightarrow> bucket_contains b h)
   \<and> (bucket_of h = None \<longleftrightarrow> h < 0 \<or> 48 * hour < h)
   \<and> (bucket_contains b h \<longleftrightarrow> (minimum_hours b * hour \<le> h \<and> h < maximum_hours b * hour)
        \<or> (b = Twenty_Four_To_Forty_Eight_Hours \<and> h = 48 * hour))"
  using bucket_of_iff [of h b] bucket_of_None [of h] bucket_contains_iff [of b h] by blast

text \<open>The forecasts of the pairs, over all buckets.\<close>

lemma bundle_forecasts:
  assumes "list_all2 (\<lambda>h part. fst part = found_pairs target outs h (in_bucket chosen h) \<and> R h part) HORIZON_BUCKETS parts"
  shows "mset (map vp_forecast (concat (map fst parts)))
    = mset (filter (\<lambda>f. lookup outs (fe_valid_from f) \<noteq> None) (map snd chosen))"
  unfolding map_filter_forecasts [OF assms] by (rule in_bucket_parts)

lemma distinct_chosen:
  "distinct (map (vintage_ident basis) (filter P (map snd (chosen_of basis (map snd (latest_vintages s e basis fs))))))"
proof -
  let ?l = "map snd (latest_vintages s e basis fs)"
  have "mset (map (vintage_ident basis) (map snd (chosen_of basis ?l)))
      = mset (map (vintage_ident basis) (filter (\<lambda>f. bucket_of (lead basis f) \<noteq> None) ?l))"
    unfolding mset_map [of "vintage_ident basis"] mset_chosen_of ..
  moreover have "distinct (map (vintage_ident basis) (filter (\<lambda>f. bucket_of (lead basis f) \<noteq> None) ?l))"
    using latest_vintages_idents by (rule distinct_map_filter)
  ultimately have "distinct (map (vintage_ident basis) (map snd (chosen_of basis ?l)))"
    using mset_eq_imp_distinct_iff by blast
  then show ?thesis by (rule distinct_map_filter)
qed

lemma bundle_pair_exact:
  assumes "list_all2 (\<lambda>h part. fst part = found_pairs target outs h (in_bucket chosen h) \<and> R h part) HORIZON_BUCKETS parts"
    and chosen: "chosen = chosen_of (vt_effective_vintage_time_basis target)
           (map snd (latest_vintages s e (vt_effective_vintage_time_basis target) fs))"
    and outs: "outs = select_outturn_revisions s e rs"
    and p: "p \<in> set (concat (map fst parts))"
  shows "exact_pair target fs rs s e p"
proof -
  let ?basis = "vt_effective_vintage_time_basis target"
  from p obtain part where part: "part \<in> set parts" "p \<in> set (fst part)" by auto
  from part(1) list_all2_lengthD [OF assms(1)] obtain i where "i < length parts" "parts ! i = part"
    by (auto simp: in_set_conv_nth)
  with list_all2_nthD2 [OF assms(1)] part(2) obtain h where
    h: "p \<in> set (found_pairs target outs h (in_bucket chosen h))" by auto
  from found_pairs_in [OF h] have f: "vp_forecast p \<in> set (in_bucket chosen h)"
    and r: "lookup outs (fe_valid_from (vp_forecast p)) = Some (vp_outturn p)"
    and eq: "p = verified_pair target h (vp_forecast p) (vp_outturn p)" by auto
  have sel: "vp_target p = target" "vp_horizon p = h"
    "vp_signed_error p = fsub (fe_value (vp_forecast p)) (oe_value (vp_outturn p))"
    "vp_absolute_error p = \<bar>vp_signed_error p\<bar>"
    using arg_cong [OF eq, of vp_target] arg_cong [OF eq, of vp_horizon]
      arg_cong [OF eq, of vp_signed_error] arg_cong [OF eq, of vp_absolute_error] by simp_all
  note l = chosen_latest [OF f [unfolded chosen]]
  note a = latest_vintages_in [OF l(1)]
  note o = selected_outturn [OF r [unfolded outs]]
  have max_f: "list_all (\<lambda>g. vintage_ident ?basis g = vintage_ident ?basis (vp_forecast p) \<longrightarrow>
      forecast_rank g \<le> forecast_rank (vp_forecast p)) fs"
    using latest_is_greatest [OF l(1)] by (auto simp: list_all_iff)
  have max_r: "list_all (\<lambda>q. oe_observed_at q = oe_observed_at (vp_outturn p) \<longrightarrow>
      outturn_rank q \<le> outturn_rank (vp_outturn p)) rs"
    using o(2,5) by (auto simp: list_all_iff)
  have "0 \<le> lead ?basis (vp_forecast p)" using a by (simp add: admissible_def lead_def)
  then show ?thesis
    unfolding exact_pair_def Let_def using sel l a o(1-4) max_f max_r by (simp add: admissible_def)
qed

lemma verified_pairs_once:
  assumes "list_all2 (\<lambda>h part. fst part = found_pairs target outs h (in_bucket chosen h) \<and> R h part) HORIZON_BUCKETS parts"
    and chosen: "chosen = chosen_of basis (map snd (latest_vintages s e basis fs))"
  shows "distinct (map (\<lambda>p. vintage_ident basis (vp_forecast p)) (concat (map fst parts)))"
proof -
  let ?id = "vintage_ident basis"
  have "mset (map ?id (map vp_forecast (concat (map fst parts))))
      = mset (map ?id (filter (\<lambda>f. lookup outs (fe_valid_from f) \<noteq> None) (map snd chosen)))"
    unfolding mset_map [of ?id] bundle_forecasts [OF assms(1)] ..
  with distinct_chosen have "distinct (map ?id (map vp_forecast (concat (map fst parts))))"
    unfolding chosen using mset_eq_imp_distinct_iff by blast
  then show ?thesis by (simp add: comp_def)
qed

text \<open>C4: Every verified pair joins the greatest stored correction of its vintage with the greatest
  stored revision of the outturn of exactly its time, inside the window, with no vintage after
  the time it forecasts and in the bucket of its lead; no vintage is counted twice, over all
  buckets; and every vintage with a lead of at most forty-eight hours whose outturn is stored is
  counted.\<close>

theorem verified_pairs_exact:
  assumes "validate_target target = Inr target"
    and "verify_forecasts target fs rs (Aware s) (Aware e) = Inr b"
  shows "list_all (exact_pair target fs rs s e) (vb_pairs b)
    \<and> distinct (map (\<lambda>p. vintage_ident (vt_effective_vintage_time_basis target) (vp_forecast p)) (vb_pairs b))
    \<and> (\<forall>f \<in> set fs. \<forall>r \<in> set rs.
         admissible s e (vt_effective_vintage_time_basis target) f \<and> oe_observed_at r = fe_valid_from f
         \<and> lead (vt_effective_vintage_time_basis target) f \<le> 48 * hour \<longrightarrow>
         vintage_ident (vt_effective_vintage_time_basis target) f
           \<in> (\<lambda>p. vintage_ident (vt_effective_vintage_time_basis target) (vp_forecast p)) ` set (vb_pairs b))"
proof -
  let ?basis = "vt_effective_vintage_time_basis target"
  let ?id = "vintage_ident ?basis"
  obtain s' e' chosen outs parts where se: "Aware s = Aware s'" "Aware e = Aware e'" "s' < e'"
    and chosen: "chosen = chosen_of ?basis (map snd (latest_vintages s' e' ?basis fs))"
    and outs: "outs = select_outturn_revisions s' e' rs"
    and parts: "list_all2 (\<lambda>h part. fst part = found_pairs target outs h (in_bucket chosen h)
           \<and> aggregate target h (in_bucket chosen h) (fst part) s' e' = Inr (snd part)) HORIZON_BUCKETS parts"
    and b: "b = \<lparr>vb_target = target, vb_pairs = concat (map fst parts), vb_results = map snd parts\<rparr>"
    by (rule verify_forecasts_Inr [OF assms])
  from se have [simp]: "s' = s" "e' = e" by auto
  have pairs [simp]: "vb_pairs b = concat (map fst parts)" by (simp add: b)
  note forecasts = bundle_forecasts [OF parts]
  have exact: "list_all (exact_pair target fs rs s e) (vb_pairs b)"
    using bundle_pair_exact [OF parts chosen outs] by (simp add: list_all_iff)
  have once: "distinct (map (\<lambda>p. ?id (vp_forecast p)) (vb_pairs b))"
    using verified_pairs_once [OF parts chosen] by simp
  have "?id f \<in> (\<lambda>p. ?id (vp_forecast p)) ` set (vb_pairs b)"
    if f: "f \<in> set fs" "admissible s e ?basis f" "lead ?basis f \<le> 48 * hour"
      and r: "r \<in> set rs" "oe_observed_at r = fe_valid_from f" for f r
  proof -
    from latest_vintages_cover [OF f(1,2)] obtain g where
      g: "g \<in> set (map snd (latest_vintages s e ?basis fs))" "?id g = ?id f" by blast
    then have t: "fe_valid_from g = fe_valid_from f" "lead ?basis g = lead ?basis f"
      by (simp_all add: vintage_ident_def lead_def)
    have "0 \<le> lead ?basis f" using f(2) by (simp add: admissible_def lead_def)
    with f(3) have "bucket_of (lead ?basis f) \<noteq> None" by (simp add: bucket_of_None)
    then obtain h where "bucket_contains h (lead ?basis g)" unfolding t by (auto simp: bucket_of_iff)
    with g(1) have in_c: "g \<in> set (map snd chosen)" unfolding chosen using set_chosen_of [of h g] by force
    from f(2) r have "r \<in> set (filter (\<lambda>r. s \<le> oe_observed_at r \<and> oe_observed_at r < e) rs)"
      by (simp add: admissible_def)
    from keep_latest_greatest [OF this, of oe_observed_at outturn_rank] r(2)
    have "lookup outs (fe_valid_from g) \<noteq> None" by (auto simp: outs select_outturn_revisions_def t)
    with in_c have "g \<in> set (map vp_forecast (vb_pairs b))"
      unfolding pairs mset_eq_setD [OF forecasts] by simp
    with g(2) show ?thesis by force
  qed
  with exact once show ?thesis by blast
qed

lemma aggregate_horizon: "aggregate target h fs ps s e = Inr r \<Longrightarrow> vr_horizon r = h"
  unfolding aggregate_def Let_def rbind_eq_Inr sum.inject
  by (elim exE conjE, hypsubst) (simp only: verification_result.select_convs)

text \<open>A validated target always gets a bundle for a proper window.\<close>

lemma verify_total:
  assumes "reviewed_basis (vt_effective_vintage_time_basis target)" and "s < e"
  shows "\<exists>b. verify_forecasts target fs rs (Aware s) (Aware e) = Inr b"
proof -
  let ?chosen = "chosen_of (vt_effective_vintage_time_basis target)
      (map snd (latest_vintages s e (vt_effective_vintage_time_basis target) fs))"
  let ?vb = "verify_bucket target s e ?chosen (select_outturn_revisions s e rs)"
  have "\<exists>part. ?vb h = Inr part" for h
  proof -
    let ?ps = "found_pairs target (select_outturn_revisions s e rs) h (in_bucket ?chosen h)"
    from aggregate_total [OF assms(1)] obtain r where
      "aggregate target h (in_bucket ?chosen h) ?ps s e = Inr r" by blast
    then have "?vb h = Inr (?ps, r)" by (simp add: verify_bucket_Inr [OF assms(1)])
    then show ?thesis ..
  qed
  then have "\<exists>parts. traverse ?vb HORIZON_BUCKETS = Inr parts"
    using traverse_ex [of HORIZON_BUCKETS ?vb "\<lambda>_ _. True"] by blast
  moreover have "select_vintages s e (vt_effective_vintage_time_basis target) fs = Inr ?chosen"
    by (simp add: select_vintages_total [OF assms(1)] chosen_of_def)
  ultimately show ?thesis using assms(2) by (auto simp: verify_forecasts_def aware_def)
qed

definition example_forecast :: forecast_evidence where
  "example_forecast = \<lparr>fe_observation_id = ''11111111-1111-1111-1111-111111111111'',
     fe_valid_from = 4 * hour, fe_issued_at = hour, fe_captured_at = 5 * hour, fe_value = 25000, fe_revision = 0\<rparr>"

definition example_outturn :: outturn_evidence where
  "example_outturn = \<lparr>oe_observation_id = ''22222222-2222-2222-2222-222222222222'',
     oe_observed_at = 4 * hour, oe_retrieved_at = 6 * hour, oe_value = 24500, oe_revision = 0\<rparr>"

theorem verified_pairs_exact_witness:
  "\<exists>b. verify_forecasts demand_target [example_forecast] [example_outturn] (Aware 0) (Aware day_len) = Inr b
     \<and> list_all (exact_pair demand_target [example_forecast] [example_outturn] 0 day_len) (vb_pairs b)
     \<and> vb_pairs b \<noteq> []"
proof -
  have v: "validate_target demand_target = Inr demand_target" by code_simp
  obtain b where b: "verify_forecasts demand_target [example_forecast] [example_outturn] (Aware 0) (Aware day_len) = Inr b"
    using verify_total [of demand_target 0 day_len] validated_basis [OF v] by auto
  have "admissible 0 day_len (vt_effective_vintage_time_basis demand_target) example_forecast
      \<and> oe_observed_at example_outturn = fe_valid_from example_forecast
      \<and> lead (vt_effective_vintage_time_basis demand_target) example_forecast \<le> 48 * hour" by code_simp
  with verified_pairs_exact [OF v b] have "vb_pairs b \<noteq> []" by auto
  with b verified_pairs_exact [OF v b] show ?thesis by blast
qed

text \<open>C30: A validated target gets a bundle for every window of positive length, with one result per
  bucket in their order; a window that is not positive or lacks a time zone is refused.\<close>

theorem verification_always_answers:
  assumes "validate_target target = Inr target"
  shows "(s < e \<longrightarrow> (\<exists>b. verify_forecasts target fs rs (Aware s) (Aware e) = Inr b
            \<and> map vr_horizon (vb_results b) = HORIZON_BUCKETS))
    \<and> (e \<le> s \<longrightarrow> verify_forecasts target fs rs (Aware s) (Aware e)
            = Inl (ValueError ''verification window must be positive''))
    \<and> verify_forecasts target fs rs (Naive n) we = Inl (ValueError ''window_start must include a timezone'')"
proof -
  note v = validated_basis [OF assms]
  have "map vr_horizon (vb_results b) = HORIZON_BUCKETS"
    if ok: "verify_forecasts target fs rs (Aware s) (Aware e) = Inr b" for b
  proof -
    obtain s' e' chosen outs parts where "Aware s = Aware s'" "Aware e = Aware e'" "s' < e'"
      and "chosen = chosen_of (vt_effective_vintage_time_basis target)
           (map snd (latest_vintages s' e' (vt_effective_vintage_time_basis target) fs))"
      and "outs = select_outturn_revisions s' e' rs"
      and parts: "list_all2 (\<lambda>h part. fst part = found_pairs target outs h (in_bucket chosen h)
           \<and> aggregate target h (in_bucket chosen h) (fst part) s' e' = Inr (snd part)) HORIZON_BUCKETS parts"
      and b: "b = \<lparr>vb_target = target, vb_pairs = concat (map fst parts), vb_results = map snd parts\<rparr>"
      by (rule verify_forecasts_Inr [OF assms ok])
    have "list_all2 (\<lambda>h part. vr_horizon (snd part) = h) HORIZON_BUCKETS parts"
      using parts by (rule list_all2_mono) (auto dest: aggregate_horizon)
    then have "map (\<lambda>part. vr_horizon (snd part)) parts = HORIZON_BUCKETS"
      by (induction rule: list_all2_induct) auto
    then show ?thesis by (simp add: b comp_def)
  qed
  then show ?thesis using verify_total [of target s e fs rs] v
    by (auto simp: verify_forecasts_def aware_def)
qed

theorem verification_always_answers_witness:
  "\<exists>b. verify_forecasts carbon_target [] [] (Aware 0) (Aware day_len) = Inr b
     \<and> map vr_horizon (vb_results b) = HORIZON_BUCKETS"
proof -
  have "validate_target carbon_target = Inr carbon_target" by code_simp
  from verification_always_answers [OF this, of 0 day_len "[]" "[]"] show ?thesis by simp
qed

text \<open>C28: The published statistics are consistent: counts are ordered, coverage is a fraction, the
  bias is at most the mean absolute error in size, WAPE is not negative, and a result is shown
  exactly when at least a hundred pairs verify at least nine tenths of the vintages, although
  the coverage is compared as a float.\<close>

theorem verification_statistics_sound:
  assumes "validate_target target = Inr target"
    and "verify_forecasts target fs rs ws we = Inr b"
    and "int (length fs) < 2 ^ 40"
  shows "list_all sound_statistics (vb_results b)"
proof -
  let ?basis = "vt_effective_vintage_time_basis target"
  obtain s e chosen outs parts where "ws = Aware s" "we = Aware e" "s < e"
    and chosen: "chosen = chosen_of ?basis (map snd (latest_vintages s e ?basis fs))"
    and "outs = select_outturn_revisions s e rs"
    and parts: "list_all2 (\<lambda>h part. fst part = found_pairs target outs h (in_bucket chosen h)
         \<and> aggregate target h (in_bucket chosen h) (fst part) s e = Inr (snd part)) HORIZON_BUCKETS parts"
    and b: "b = \<lparr>vb_target = target, vb_pairs = concat (map fst parts), vb_results = map snd parts\<rparr>"
    by (rule verify_forecasts_Inr [OF assms(1,2)])
  have len: "int (length (in_bucket chosen h)) < 2 ^ 40" for h
    using length_chosen [of ?basis "map snd (latest_vintages s e ?basis fs)" h]
      length_latest [of s e ?basis fs] assms(3) unfolding chosen by linarith
  have "list_all2 (\<lambda>h part. sound_statistics (snd part)) HORIZON_BUCKETS parts"
    using parts by (rule list_all2_mono) (use len aggregate_sound in fastforce)
  then show ?thesis by (simp add: b list_all2_conv_all_nth list_all_length)
qed

theorem verification_statistics_witness:
  "\<exists>b. verify_forecasts demand_target [example_forecast] [] (Aware 0) (Aware day_len) = Inr b
     \<and> list_all sound_statistics (vb_results b)"
proof -
  have v: "validate_target demand_target = Inr demand_target" by code_simp
  obtain b where b: "verify_forecasts demand_target [example_forecast] [] (Aware 0) (Aware day_len) = Inr b"
    using verify_total [of demand_target 0 day_len] validated_basis [OF v] by auto
  from verification_statistics_sound [OF v b] b show ?thesis by simp
qed

text \<open>C29: The bundle, its checksums included, depends only on the set of stored observations, not
  on the order in which the database returns them.\<close>

theorem verification_order_independent:
  assumes "validate_target target = Inr target"
    and "unique_ids fe_observation_id fs" and "unique_ids oe_observation_id rs"
    and "set fs = set fs'" and "set rs = set rs'"
  shows "verify_forecasts target fs rs ws we = verify_forecasts target fs' rs' ws we"
proof -
  let ?basis = "vt_effective_vintage_time_basis target"
  note v = validated_basis [OF assms(1), THEN conjunct1]
  have sel: "select_vintages s e ?basis fs = select_vintages s e ?basis fs'" for s e
  proof -
    have "unique_ids fe_observation_id (map snd (latest_vintages s e ?basis fs))"
      using assms(2) latest_vintages_in [of _ s e ?basis fs] unfolding unique_ids_def by blast
    with latest_vintages_mset [OF assms(2,4)]
    have "chosen_of ?basis (map snd (latest_vintages s e ?basis fs))
        = chosen_of ?basis (map snd (latest_vintages s e ?basis fs'))" by (rule chosen_of_mset)
    then show ?thesis by (simp add: select_vintages_total [OF v] chosen_of_def)
  qed
  have buckets: "verify_bucket target s e c (select_outturn_revisions s e rs)
      = verify_bucket target s e c (select_outturn_revisions s e rs')" for s e c
  proof -
    let ?P = "\<lambda>r. s \<le> oe_observed_at r \<and> oe_observed_at r < e"
    have u: "unique_ids oe_observation_id (filter ?P rs)" "unique_ids oe_observation_id (filter ?P rs')"
      using assms(3,5) by (auto simp: unique_ids_def)
    have "set (filter ?P rs) = set (filter ?P rs')" using assms(5) by simp
    from outturns.order_irrelevant [OF u this]
    have "lookup (select_outturn_revisions s e rs) = lookup (select_outturn_revisions s e rs')"
      by (simp add: select_outturn_revisions_def)
    then have "pair_of target h (select_outturn_revisions s e rs)
        = pair_of target h (select_outturn_revisions s e rs')" for h
      by (intro ext) (simp add: pair_of_def)
    then show ?thesis by (intro ext) (simp add: verify_bucket_def)
  qed
  show ?thesis unfolding verify_forecasts_def sel buckets ..
qed

theorem verification_order_witness:
  "verify_forecasts wind_target [example_forecast, example_forecast\<lparr>fe_observation_id := ''x'', fe_revision := 1\<rparr>]
       [example_outturn] (Aware 0) (Aware day_len)
   = verify_forecasts wind_target [example_forecast\<lparr>fe_observation_id := ''x'', fe_revision := 1\<rparr>, example_forecast]
       [example_outturn] (Aware 0) (Aware day_len)"
proof (rule verification_order_independent)
  show "validate_target wind_target = Inr wind_target" by code_simp
qed (simp_all add: unique_ids_def example_forecast_def insert_commute)

end
