(* ===== verification/Ledger.thy ===== *)
theory Ledger
  imports Py_Base
begin

text \<open>
  Append-only revision tables, as the writers of forecast verification and of ingestion use them:
  an insert that skips the rows whose unique identity is taken (\<open>ON CONFLICT DO NOTHING\<close>), the
  contract of a ledger as the locale \<open>ledger\<close>, and a writer's plan over it.  The components
  interpret the locale on their own rows.
\<close>

section \<open>Inserts\<close>

fun insert_ignoring :: "('r \<Rightarrow> 'k) \<Rightarrow> 'r list \<Rightarrow> 'r list \<Rightarrow> 'r list \<times> int" where
  "insert_ignoring identity table [] = (table, 0)"
| "insert_ignoring identity table (r # rs) =
     (if identity r \<in> identity ` set table then insert_ignoring identity table rs
      else case insert_ignoring identity (table @ [r]) rs of (t, n) \<Rightarrow> (t, n + 1))"

definition insert_rows ::
  "('r \<Rightarrow> bool) \<Rightarrow> ('r \<Rightarrow> 'k) \<Rightarrow> 'r list \<Rightarrow> 'r list \<Rightarrow> ('r list \<times> int) result" where
  "insert_rows check identity table rows =
     (if list_all check rows then Inr (insert_ignoring identity table rows)
      else Inl (IntegrityError ''check constraint''))"

section \<open>Inserting fresh rows\<close>

lemma insert_ignoring_fresh:
  "distinct (map identity (table @ rows)) \<Longrightarrow> insert_ignoring identity table rows = (table @ rows, int (length rows))"
proof (induction rows arbitrary: table)
  case (Cons r rs)
  from Cons.prems have "identity r \<notin> identity ` set table" by auto
  moreover from Cons.prems have "distinct (map identity ((table @ [r]) @ rs))" by simp
  ultimately show ?case using Cons.IH [of "table @ [r]"] by simp
qed simp

lemma insert_rows_fresh:
  "distinct (map identity (table @ rows)) \<Longrightarrow> list_all check rows \<Longrightarrow>
     insert_rows check identity table rows = Inr (table @ rows, int (length rows))"
  by (simp add: insert_rows_def insert_ignoring_fresh)

text \<open>
  The contract of an append-only ledger: the unique identity of a row is its key with its
  revision, within the rows the writer looks at.  Then the revision after the latest is fresh,
  and appending it makes it the latest.
\<close>

definition next_revision :: "('r \<Rightarrow> int) \<Rightarrow> 'r option \<Rightarrow> int" where
  "next_revision ver existing = (case existing of None \<Rightarrow> 0 | Some row \<Rightarrow> ver row + 1)"

locale ledger =
  fixes key :: "'r \<Rightarrow> 'k" and ver :: "'r \<Rightarrow> int" and identity :: "'r \<Rightarrow> 'i"
  assumes identity_determines: "identity r = identity r' \<Longrightarrow> key r = key r' \<and> ver r = ver r'"
begin

lemma next_is_fresh:
  assumes "set (filter P table) = set scope"
    and "ver row = next_revision ver (lookup (keep_latest key ver scope) (key row))"
    and "\<And>r. r \<in> set table \<Longrightarrow> identity r = identity row \<Longrightarrow> P r"
  shows "identity row \<notin> identity ` set table"
proof
  assume "identity row \<in> identity ` set table"
  then obtain r where r: "r \<in> set table" "identity r = identity row" by auto
  with assms(3) have "P r" by simp
  with r assms(1) have "r \<in> set scope" by auto
  from keep_latest_greatest [OF this, of key ver] obtain y where
    y: "lookup (keep_latest key ver scope) (key r) = Some y" "ver r \<le> ver y" by blast
  from identity_determines [OF r(2)] have "key r = key row" "ver r = ver row" by auto
  with y assms(2) show False by (simp add: next_revision_def)
qed

text \<open>Once appended, the row is the latest of its key, whatever else was appended to other keys.\<close>

lemma appended_is_latest:
  assumes "ver row = next_revision ver (lookup (keep_latest key ver scope) (key row))"
    and "row \<in> set new" and "\<And>r. r \<in> set new \<Longrightarrow> key r = key row \<Longrightarrow> r = row"
    and "set scope' = set scope \<union> set new"
  shows "lookup (keep_latest key ver scope') (key row) = Some row"
proof -
  from assms(2,4) have "row \<in> set scope'" by simp
  from keep_latest_greatest [OF this, of key ver] obtain y where
    y: "lookup (keep_latest key ver scope') (key row) = Some y" "ver row \<le> ver y" by blast
  from keep_latest_sound [OF y(1)] have k: "y \<in> set scope'" "key y = key row" by auto
  have "y \<notin> set scope"
  proof
    assume "y \<in> set scope"
    from keep_latest_greatest [OF this, of key ver] k(2) obtain z where
      "lookup (keep_latest key ver scope) (key row) = Some z" "ver y \<le> ver z" by auto
    with assms(1) y(2) show False by (simp add: next_revision_def)
  qed
  with k(1) assms(4) have "y \<in> set new" by simp
  with assms(3) k(2) y(1) show ?thesis by simp
qed

lemma kept_is_latest:
  assumes l: "lookup (keep_latest key ver scope) k = Some y"
    and "k \<notin> key ` set new" and "set scope' = set scope \<union> set new"
    and unique: "\<And>r r'. r \<in> set scope \<Longrightarrow> r' \<in> set scope \<Longrightarrow> key r = key r' \<Longrightarrow> ver r = ver r' \<Longrightarrow> r = r'"
  shows "lookup (keep_latest key ver scope') k = Some y"
proof -
  from keep_latest_sound [OF l] have y: "y \<in> set scope" "key y = k" by auto
  with assms(3) have "y \<in> set scope'" by simp
  from keep_latest_greatest [OF this, of key ver] y(2) obtain z where
    z: "lookup (keep_latest key ver scope') k = Some z" "ver y \<le> ver z" by auto
  from keep_latest_sound [OF z(1)] assms(2,3) have zs: "z \<in> set scope" "key z = k" by auto
  from keep_latest_greatest [OF zs(1), of key ver] zs(2) l have "ver z \<le> ver y" by auto
  with z(2) have "z = y" using unique [OF zs(1) y(1)] zs(2) y(2) by simp
  with z(1) show ?thesis by simp
qed

end

text \<open>
  A writer's plan: an item whose latest row carries its digest needs no row, any other gets one
  with the next revision.  \<open>offers\<close> is what the writer's items and rows have to satisfy.
\<close>

definition planned ::
  "('k, 'r) dict \<Rightarrow> ('r \<Rightarrow> int) \<Rightarrow> ('r \<Rightarrow> 'd) \<Rightarrow> ('x \<Rightarrow> 'k) \<Rightarrow> ('x \<Rightarrow> 'd) \<Rightarrow> ('x \<Rightarrow> int \<Rightarrow> 'r) \<Rightarrow> 'x \<Rightarrow> 'r option" where
  "planned latest ver row_digest item_key item_digest row_of x =
     (let existing = lookup latest (item_key x) in
      if map_option row_digest existing = Some (item_digest x) then None
      else Some (row_of x (next_revision ver existing)))"

definition offers ::
  "('r \<Rightarrow> 'k) \<Rightarrow> ('r \<Rightarrow> int) \<Rightarrow> ('r \<Rightarrow> 'i) \<Rightarrow> ('r \<Rightarrow> bool) \<Rightarrow> ('r list \<Rightarrow> 'r list) \<Rightarrow> ('r \<Rightarrow> 'd)
     \<Rightarrow> ('x \<Rightarrow> 'k) \<Rightarrow> ('x \<Rightarrow> 'd) \<Rightarrow> ('x \<Rightarrow> int \<Rightarrow> 'r) \<Rightarrow> 'x list \<Rightarrow> bool" where
  "offers key ver identity visible scope row_digest item_key item_digest row_of items \<longleftrightarrow>
     distinct (map item_key items)
     \<and> (\<forall>table. set (scope table) = set (filter visible table))
     \<and> (\<forall>x \<in> set items. \<forall>n \<ge> 0. key (row_of x n) = item_key x \<and> ver (row_of x n) = n
          \<and> row_digest (row_of x n) = item_digest x \<and> visible (row_of x n)
          \<and> (\<forall>r. identity r = identity (row_of x n) \<longrightarrow> visible r))
     \<and> (\<forall>r r'. visible r \<longrightarrow> visible r' \<longrightarrow> key r = key r' \<longrightarrow> ver r = ver r' \<longrightarrow> identity r = identity r')"

lemma notin_imageI:
  assumes "\<And>z. z \<in> A \<Longrightarrow> f z \<noteq> k"
  shows "k \<notin> f ` A"
proof
  assume "k \<in> f ` A"
  then obtain z where "z \<in> A" "f z = k" by auto
  with assms [of z] show False by simp
qed

lemma map_disjointI:
  assumes "\<And>y. y \<in> set ys \<Longrightarrow> f y \<notin> f ` set xs"
  shows "set (map f xs) \<inter> set (map f ys) = {}"
proof (rule equals0I)
  fix k assume "k \<in> set (map f xs) \<inter> set (map f ys)"
  then have k: "k \<in> f ` set xs" "k \<in> f ` set ys" by simp_all
  from k(2) obtain y where "k = f y" "y \<in> set ys" by (rule imageE)
  with k(1) assms [of y] show False by simp
qed

lemma somes_map_distinct:
  assumes "distinct (map key xs)" and "\<And>x y. x \<in> set xs \<Longrightarrow> f x = Some y \<Longrightarrow> key' y = key x"
  shows "distinct (map key' (somes (map f xs)))"
  using assms
proof (induction xs)
  case (Cons x xs)
  then have IH: "distinct (map key' (somes (map f xs)))" by simp
  show ?case
  proof (cases "f x")
    case (Some y)
    have "key' z \<noteq> key x" if "z \<in> set (somes (map f xs))" for z
    proof -
      from that obtain w where "w \<in> set xs" "f w = Some z" by (auto simp: somes_def)
      with Cons.prems(2) [of w z] have "key' z \<in> key ` set xs" by auto
      with Cons.prems(1) show ?thesis by auto
    qed
    then have "key x \<notin> key' ` set (somes (map f xs))" by (rule notin_imageI)
    with IH Some Cons.prems(2) [of x y] show ?thesis by simp
  qed (use IH in simp)
qed simp

lemma distinct_map_weaken:
  assumes "distinct (map f xs)" and "\<And>x y. x \<in> set xs \<Longrightarrow> y \<in> set xs \<Longrightarrow> g x = g y \<Longrightarrow> f x = f y"
  shows "distinct (map g xs)"
proof -
  have "x = y" if "x \<in> set xs" "y \<in> set xs" "g x = g y" for x y
    using assms(1) assms(2) [OF that] that(1,2) by (simp add: distinct_map inj_on_def)
  with assms(1) show ?thesis by (simp add: distinct_map inj_on_def)
qed

lemma next_revision_nonneg:
  "(\<And>row. existing = Some row \<Longrightarrow> 0 \<le> ver row) \<Longrightarrow> 0 \<le> next_revision ver existing"
  by (cases existing) (auto simp: next_revision_def)

context ledger
begin

text \<open>The writer's lemmas, for a table of distinct identities with revisions from zero.\<close>

lemma plan_revision:
  assumes "offers key ver identity visible scope row_digest item_key item_digest row_of items"
    and "\<And>r. r \<in> set table \<Longrightarrow> 0 \<le> ver r"
  shows "0 \<le> next_revision ver (lookup (keep_latest key ver (scope table)) k)"
proof (rule next_revision_nonneg)
  fix row assume "lookup (keep_latest key ver (scope table)) k = Some row"
  from keep_latest_sound [OF this] assms(1) have "row \<in> set table" by (simp add: offers_def)
  then show "0 \<le> ver row" by (rule assms(2))
qed

lemma planned_from:
  assumes o: "offers key ver identity visible scope row_digest item_key item_digest row_of items"
    and nn: "\<And>r. r \<in> set table \<Longrightarrow> 0 \<le> ver r"
    and x: "x \<in> set items"
    and p: "planned (keep_latest key ver (scope table)) ver row_digest item_key item_digest row_of x = Some row"
  shows "key row = item_key x" and "row_digest row = item_digest x" and "visible row"
    and "ver row = next_revision ver (lookup (keep_latest key ver (scope table)) (key row))"
    and "\<And>r. identity r = identity row \<Longrightarrow> visible r"
    and "row = row_of x (ver row)" and "0 \<le> ver row"
proof -
  let ?n = "next_revision ver (lookup (keep_latest key ver (scope table)) (item_key x))"
  have n: "0 \<le> ?n" using o nn by (rule plan_revision)
  from p have row: "row = row_of x ?n" by (auto simp: planned_def Let_def split: if_splits)
  from o x n have m: "key (row_of x ?n) = item_key x \<and> ver (row_of x ?n) = ?n
      \<and> row_digest (row_of x ?n) = item_digest x \<and> visible (row_of x ?n)
      \<and> (\<forall>r. identity r = identity (row_of x ?n) \<longrightarrow> visible r)"
    unfolding offers_def by blast
  show "key row = item_key x" "row_digest row = item_digest x" "visible row" "0 \<le> ver row"
    "ver row = next_revision ver (lookup (keep_latest key ver (scope table)) (key row))"
    "row = row_of x (ver row)"
    using m n by (simp_all add: row)
  show "\<And>r. identity r = identity row \<Longrightarrow> visible r" using m by (simp add: row)
qed

lemma plan_fresh:
  assumes o: "offers key ver identity visible scope row_digest item_key item_digest row_of items"
    and nn: "\<And>r. r \<in> set table \<Longrightarrow> 0 \<le> ver r"
    and d: "distinct (map identity table)"
    and new: "new = somes (map (planned (keep_latest key ver (scope table)) ver row_digest item_key item_digest row_of) items)"
  shows "distinct (map key new)" and "distinct (map identity (table @ new))"
proof -
  have from_item: "\<exists>x \<in> set items. planned (keep_latest key ver (scope table)) ver row_digest item_key item_digest row_of x = Some row"
    if "row \<in> set new" for row
    using that by (auto simp: new somes_def)
  have items: "distinct (map item_key items)" using o by (simp add: offers_def)
  show keys: "distinct (map key new)"
    unfolding new using items by (rule somes_map_distinct) (rule planned_from(1) [OF o nn])
  have "distinct (map identity new)"
    using keys by (rule distinct_map_weaken) (use identity_determines in blast)
  moreover have "identity row \<notin> identity ` set table" if "row \<in> set new" for row
  proof -
    from from_item [OF that] obtain x where x: "x \<in> set items"
      "planned (keep_latest key ver (scope table)) ver row_digest item_key item_digest row_of x = Some row" by blast
    note f = planned_from [OF o nn x]
    have "set (filter visible table) = set (scope table)" using o by (simp add: offers_def)
    then show ?thesis using f(4,5) by (rule next_is_fresh)
  qed
  then have "set (map identity table) \<inter> set (map identity new) = {}" by (rule map_disjointI)
  ultimately show "distinct (map identity (table @ new))" using d by simp
qed

lemma plan_latest:
  assumes o: "offers key ver identity visible scope row_digest item_key item_digest row_of items"
    and nn: "\<And>r. r \<in> set table \<Longrightarrow> 0 \<le> ver r"
    and d: "distinct (map identity table)"
    and new: "new = somes (map (planned (keep_latest key ver (scope table)) ver row_digest item_key item_digest row_of) items)"
    and x: "x \<in> set items"
  shows "map_option row_digest (lookup (keep_latest key ver (scope (table @ new))) (item_key x)) = Some (item_digest x)"
proof -
  let ?plan = "planned (keep_latest key ver (scope table)) ver row_digest item_key item_digest row_of"
  have vis: "visible row" if "row \<in> set new" for row
    using that planned_from(3) [OF o nn] by (auto simp: new somes_def)
  have scopes: "set (scope t) = set (filter visible t)" for t using o by (simp add: offers_def)
  have scope: "set (scope (table @ new)) = set (scope table) \<union> set new"
    unfolding scopes using vis by auto
  note keys = plan_fresh(1) [OF o nn d new]
  show ?thesis
  proof (cases "?plan x")
    case (Some row)
    then have r: "row \<in> set new" using x by (force simp: new somes_def)
    note f = planned_from [OF o nn x Some]
    have "lookup (keep_latest key ver (scope (table @ new))) (key row) = Some row"
      using f(4) r
    proof (rule appended_is_latest [OF _ _ _ scope])
      show "q = row" if "q \<in> set new" "key q = key row" for q
        using keys that r by (auto simp: distinct_map dest: inj_onD)
    qed
    with f(1,2) show ?thesis by simp
  next
    case None
    then obtain y where y: "lookup (keep_latest key ver (scope table)) (item_key x) = Some y"
      and content: "row_digest y = item_digest x"
      by (auto simp: planned_def Let_def split: if_splits)
    have "key row \<noteq> item_key x" if "row \<in> set new" for row
    proof
      assume k: "key row = item_key x"
      from that obtain z where z: "z \<in> set items" "?plan z = Some row" by (auto simp: new somes_def)
      from planned_from(1) [OF o nn z] k have "item_key z = item_key x" by simp
      with o x z(1) have "z = x" by (auto simp: offers_def distinct_map dest: inj_onD)
      with z(2) None show False by simp
    qed
    then have "item_key x \<notin> key ` set new" by (rule notin_imageI)
    moreover have "r = r'" if "r \<in> set (scope table)" "r' \<in> set (scope table)" "key r = key r'" "ver r = ver r'" for r r'
    proof -
      have "identity r = identity r'" using that o unfolding scopes by (auto simp: offers_def)
      with that(1,2) d show ?thesis unfolding scopes by (auto simp: distinct_map dest: inj_onD)
    qed
    ultimately show ?thesis using kept_is_latest [OF y _ scope] content by simp
  qed
qed

lemma plan_again:
  assumes o: "offers key ver identity visible scope row_digest item_key item_digest row_of items"
    and nn: "\<And>r. r \<in> set table \<Longrightarrow> 0 \<le> ver r"
    and d: "distinct (map identity table)"
    and new: "new = somes (map (planned (keep_latest key ver (scope table)) ver row_digest item_key item_digest row_of) items)"
  shows "somes (map (planned (keep_latest key ver (scope (table @ new))) ver row_digest item_key item_digest row_of) items) = []"
proof -
  have "planned (keep_latest key ver (scope (table @ new))) ver row_digest item_key item_digest row_of x = None"
    if "x \<in> set items" for x
    unfolding planned_def Let_def using plan_latest [OF o nn d new that] by (rule if_P)
  then show ?thesis by (simp add: somes_def)
qed

end

end
