(* ===== verification/Verification_Store.thy ===== *)
theory Verification_Store
  imports Forecast_Verification Ledger
begin

text \<open>
  The tables of forecast verification and their writers: the rows and constraints of
  app/db/models.py, the append-only writers and the checkpoint of
  app/forecast_verification/job.py, and the input compatibility rules of
  app/forecast_verification/repository.py.  A table is the list of its rows in insertion order;
  the random primary keys and the creation times are left out.  An insert checks the CHECK
  constraints of its rows and skips a row whose unique identity is taken, as
  \<open>ON CONFLICT DO NOTHING\<close> does.
\<close>

section \<open>Rows\<close>

record stored_pair =
  sp_metric_id :: str
  sp_horizon_bucket :: str
  sp_valid_from :: instant
  sp_forecast_source_id :: str
  sp_outturn_source_id :: str
  sp_forecast_observation_id :: str
  sp_outturn_observation_id :: str
  sp_forecast_vintage_at :: instant
  sp_forecast_source_issued_at :: "instant option"
  sp_forecast_captured_at :: instant
  sp_issue_time_basis :: str
  sp_effective_vintage_time_basis :: str
  sp_forecast_value :: rat
  sp_outturn_value :: rat
  sp_signed_error :: rat
  sp_absolute_error :: rat
  sp_unit :: str
  sp_forecast_revision :: int
  sp_outturn_revision :: int
  sp_forecast_methodology_version :: str
  sp_outturn_methodology_version :: str
  sp_verification_methodology_version :: str
  sp_registry_version :: str
  sp_revision :: int
  sp_content_sha256 :: str

definition bucket_names :: "str list" where
  "bucket_names = [''0_3h'', ''3_12h'', ''12_24h'', ''24_48h'']"

text \<open>The CHECK constraints of \<open>forecast_verification_pairs\<close> and its unique identity.\<close>

definition pair_row_ok :: "stored_pair \<Rightarrow> bool" where
  "pair_row_ok r \<longleftrightarrow>
     sp_horizon_bucket r \<in> set bucket_names
     \<and> sp_issue_time_basis r \<in> {SOURCE_PUBLISHED_TIME_BASIS, SOURCE_ISSUE_TIME_UNAVAILABLE}
     \<and> sp_effective_vintage_time_basis r \<in> {SOURCE_PUBLISHED_TIME_BASIS, CAPTURE_TIME_ISSUE_BASIS}
     \<and> sp_forecast_vintage_at r \<le> sp_valid_from r
     \<and> ((sp_issue_time_basis r = SOURCE_PUBLISHED_TIME_BASIS
           \<and> sp_effective_vintage_time_basis r = SOURCE_PUBLISHED_TIME_BASIS
           \<and> sp_forecast_source_issued_at r = Some (sp_forecast_vintage_at r))
         \<or> (sp_issue_time_basis r = SOURCE_ISSUE_TIME_UNAVAILABLE
           \<and> sp_effective_vintage_time_basis r = CAPTURE_TIME_ISSUE_BASIS
           \<and> sp_forecast_source_issued_at r = None
           \<and> sp_forecast_vintage_at r = sp_forecast_captured_at r))
     \<and> 0 \<le> sp_absolute_error r
     \<and> 0 \<le> sp_forecast_revision r \<and> 0 \<le> sp_outturn_revision r \<and> 0 \<le> sp_revision r
     \<and> length (sp_content_sha256 r) = 64"

definition pair_row_identity :: "stored_pair \<Rightarrow> str \<times> str \<times> instant \<times> instant \<times> str \<times> int" where
  "pair_row_identity r = (sp_metric_id r, sp_horizon_bucket r, sp_valid_from r, sp_forecast_vintage_at r,
     sp_verification_methodology_version r, sp_revision r)"

record stored_result =
  sr_metric_id :: str
  sr_horizon_bucket :: str
  sr_window_start :: instant
  sr_window_end :: instant
  sr_status :: str
  sr_reason :: str
  sr_mae :: "rat option"
  sr_bias :: "rat option"
  sr_wape_percent :: "rat option"
  sr_verified_sample_count :: int
  sr_expected_sample_count :: int
  sr_coverage_fraction :: rat
  sr_unit :: str
  sr_forecast_source_id :: str
  sr_outturn_source_id :: str
  sr_issue_time_basis :: str
  sr_effective_vintage_time_basis :: str
  sr_forecast_methodology_version :: str
  sr_outturn_methodology_version :: str
  sr_verification_methodology_version :: str
  sr_registry_version :: str
  sr_evidence_checksum :: str
  sr_source_watermark_at :: "instant option"
  sr_revision :: int
  sr_computed_at :: instant

definition result_row_ok :: "stored_result \<Rightarrow> bool" where
  "result_row_ok r \<longleftrightarrow>
     sr_window_start r < sr_window_end r
     \<and> sr_horizon_bucket r \<in> set bucket_names
     \<and> sr_status r \<in> {''available'', ''insufficient_data''}
     \<and> 0 \<le> sr_verified_sample_count r \<and> 0 \<le> sr_expected_sample_count r
     \<and> sr_verified_sample_count r \<le> sr_expected_sample_count r
     \<and> 0 \<le> sr_coverage_fraction r \<and> sr_coverage_fraction r \<le> 1
     \<and> (case sr_mae r of None \<Rightarrow> True | Some x \<Rightarrow> 0 \<le> x)
     \<and> (case sr_wape_percent r of None \<Rightarrow> True | Some x \<Rightarrow> 0 \<le> x)
     \<and> ((sr_verified_sample_count r = 0 \<and> sr_mae r = None \<and> sr_bias r = None \<and> sr_wape_percent r = None)
        \<or> (0 < sr_verified_sample_count r \<and> sr_mae r \<noteq> None \<and> sr_bias r \<noteq> None))
     \<and> (sr_status r \<noteq> ''available''
        \<or> (100 \<le> sr_verified_sample_count r \<and> fl (9 / 10) \<le> sr_coverage_fraction r))
     \<and> sr_issue_time_basis r \<in> {SOURCE_PUBLISHED_TIME_BASIS, SOURCE_ISSUE_TIME_UNAVAILABLE}
     \<and> ((sr_issue_time_basis r = SOURCE_PUBLISHED_TIME_BASIS
           \<and> sr_effective_vintage_time_basis r = SOURCE_PUBLISHED_TIME_BASIS)
        \<or> (sr_issue_time_basis r = SOURCE_ISSUE_TIME_UNAVAILABLE
           \<and> sr_effective_vintage_time_basis r = CAPTURE_TIME_ISSUE_BASIS))
     \<and> 0 \<le> sr_revision r
     \<and> length (sr_evidence_checksum r) = 64"

definition result_row_identity :: "stored_result \<Rightarrow> str \<times> str \<times> instant \<times> instant \<times> str \<times> int" where
  "result_row_identity r = (sr_metric_id r, sr_horizon_bucket r, sr_window_start r, sr_window_end r,
     sr_verification_methodology_version r, sr_revision r)"

section \<open>The writer of pairs\<close>

definition PAIR_INSERT_BATCH_SIZE :: nat where "PAIR_INSERT_BATCH_SIZE = 400"

definition pair_values :: "verification_pair \<Rightarrow> int \<Rightarrow> stored_pair result" where
  "pair_values p revision =
     (if revision < 0 then Inl (ValueError ''forecast pair revision must be non-negative'')
      else rbind (forecast_vintage_at p) (\<lambda>vintage.
       Inr \<lparr>sp_metric_id = metric_value (vt_metric (vp_target p)),
            sp_horizon_bucket = bucket_value (vp_horizon p),
            sp_valid_from = fe_valid_from (vp_forecast p),
            sp_forecast_source_id = vt_forecast_source_id (vp_target p),
            sp_outturn_source_id = vt_outturn_source_id (vp_target p),
            sp_forecast_observation_id = fe_observation_id (vp_forecast p),
            sp_outturn_observation_id = oe_observation_id (vp_outturn p),
            sp_forecast_vintage_at = vintage,
            sp_forecast_source_issued_at = source_issued_at (vp_target p) (vp_forecast p),
            sp_forecast_captured_at = fe_captured_at (vp_forecast p),
            sp_issue_time_basis = vt_issue_time_basis (vp_target p),
            sp_effective_vintage_time_basis = vt_effective_vintage_time_basis (vp_target p),
            sp_forecast_value = fe_value (vp_forecast p),
            sp_outturn_value = oe_value (vp_outturn p),
            sp_signed_error = vp_signed_error p,
            sp_absolute_error = vp_absolute_error p,
            sp_unit = vt_unit (vp_target p),
            sp_forecast_revision = fe_revision (vp_forecast p),
            sp_outturn_revision = oe_revision (vp_outturn p),
            sp_forecast_methodology_version = vt_forecast_methodology_version (vp_target p),
            sp_outturn_methodology_version = vt_outturn_methodology_version (vp_target p),
            sp_verification_methodology_version = VERIFICATION_METHODOLOGY_VERSION,
            sp_registry_version = VERIFICATION_REGISTRY_VERSION,
            sp_revision = revision,
            sp_content_sha256 = vp_content_sha256 p\<rparr>))"

definition insert_pair_batch :: "stored_pair list \<Rightarrow> stored_pair list \<Rightarrow> (stored_pair list \<times> int) result" where
  "insert_pair_batch table values =
     (if \<not> (1 \<le> length values \<and> length values \<le> PAIR_INSERT_BATCH_SIZE)
      then Inl (ValueError ''forecast pair insert batch is outside its reviewed bound'')
      else rbind (insert_rows pair_row_ok pair_row_identity table values) (\<lambda>(table', inserted).
        if inserted \<noteq> int (length values)
        then Inl (RuntimeError ''forecast pair revision conflict; retry under the source lock'')
        else Inr (table', inserted)))"

definition pair_row_key :: "stored_pair \<Rightarrow> str \<times> instant \<times> instant" where
  "pair_row_key r = (sp_horizon_bucket r, sp_valid_from r, sp_forecast_vintage_at r)"

definition pair_times :: "verification_bundle \<Rightarrow> instant list" where
  "pair_times b = map (\<lambda>p. fe_valid_from (vp_forecast p)) (vb_pairs b)"

definition pairs_in_scope :: "verification_bundle \<Rightarrow> stored_pair list \<Rightarrow> stored_pair list" where
  "pairs_in_scope b table =
     (case (py_min id (pair_times b), py_max id (pair_times b)) of
        (Some lo, Some hi) \<Rightarrow>
          sort_key (\<lambda>r. (sp_valid_from r, sp_horizon_bucket r, sp_revision r))
            (filter (\<lambda>r. sp_metric_id r = metric_value (vt_metric (vb_target b))
               \<and> sp_verification_methodology_version r = VERIFICATION_METHODOLOGY_VERSION
               \<and> lo \<le> sp_valid_from r \<and> sp_valid_from r \<le> hi) table)
      | _ \<Rightarrow> [])"

fun append_pairs_loop ::
  "(str \<times> instant \<times> instant, stored_pair) dict \<Rightarrow> stored_pair list \<Rightarrow> stored_pair list \<Rightarrow> int \<Rightarrow> int
     \<Rightarrow> verification_pair list \<Rightarrow> (stored_pair list \<times> int \<times> int) result" where
  "append_pairs_loop latest table values inserted unchanged [] =
     (if values = [] then Inr (table, inserted, unchanged)
      else rbind (insert_pair_batch table values) (\<lambda>(table', n). Inr (table', inserted + n, unchanged)))"
| "append_pairs_loop latest table values inserted unchanged (p # ps) =
     rbind (forecast_vintage_at p) (\<lambda>vintage.
       let existing = lookup latest (bucket_value (vp_horizon p), fe_valid_from (vp_forecast p), vintage)
       in if map_option sp_content_sha256 existing = Some (vp_content_sha256 p)
          then append_pairs_loop latest table values inserted (unchanged + 1) ps
          else
            let revision = (case existing of None \<Rightarrow> 0 | Some row \<Rightarrow> sp_revision row + 1)
            in rbind (pair_values p revision) (\<lambda>row.
                 let values' = values @ [row]
                 in if length values' = PAIR_INSERT_BATCH_SIZE
                    then rbind (insert_pair_batch table values') (\<lambda>(table', n).
                           append_pairs_loop latest table' [] (inserted + n) unchanged ps)
                    else append_pairs_loop latest table values' inserted unchanged ps))"

definition append_pairs ::
  "stored_pair list \<Rightarrow> verification_bundle \<Rightarrow> (stored_pair list \<times> int \<times> int) result" where
  "append_pairs table b =
     append_pairs_loop (keep_latest pair_row_key sp_revision (pairs_in_scope b table)) table [] 0 0 (vb_pairs b)"

section \<open>The writer of results\<close>

fun status_value :: "verification_status \<Rightarrow> str" where
  "status_value Available = ''available''"
| "status_value Insufficient_Data = ''insufficient_data''"

fun reason_value :: "verification_reason \<Rightarrow> str" where
  "reason_value Eligible = ''eligible''"
| "reason_value No_Forecasts = ''no_forecasts''"
| "reason_value No_Compatible_Outturns = ''no_compatible_outturns''"
| "reason_value Sample_And_Coverage_Thresholds_Not_Met = ''sample_and_coverage_thresholds_not_met''"
| "reason_value Fewer_Than_100_Verified_Samples = ''fewer_than_100_verified_samples''"
| "reason_value Coverage_Below_90_Percent = ''coverage_below_90_percent''"

definition result_values :: "verification_result \<Rightarrow> int \<Rightarrow> instant \<Rightarrow> stored_result result" where
  "result_values r revision computed_at =
     (if revision < 0 then Inl (ValueError ''forecast result revision must be non-negative'')
      else Inr \<lparr>sr_metric_id = metric_value (vt_metric (vr_target r)),
                sr_horizon_bucket = bucket_value (vr_horizon r),
                sr_window_start = vr_window_start r, sr_window_end = vr_window_end r,
                sr_status = status_value (vr_status r), sr_reason = reason_value (vr_reason r),
                sr_mae = vr_mae r, sr_bias = vr_bias r, sr_wape_percent = vr_wape_percent r,
                sr_verified_sample_count = vr_verified_sample_count r,
                sr_expected_sample_count = vr_expected_sample_count r,
                sr_coverage_fraction = vr_coverage_fraction r,
                sr_unit = vt_unit (vr_target r),
                sr_forecast_source_id = vt_forecast_source_id (vr_target r),
                sr_outturn_source_id = vt_outturn_source_id (vr_target r),
                sr_issue_time_basis = vt_issue_time_basis (vr_target r),
                sr_effective_vintage_time_basis = vt_effective_vintage_time_basis (vr_target r),
                sr_forecast_methodology_version = vt_forecast_methodology_version (vr_target r),
                sr_outturn_methodology_version = vt_outturn_methodology_version (vr_target r),
                sr_verification_methodology_version = VERIFICATION_METHODOLOGY_VERSION,
                sr_registry_version = VERIFICATION_REGISTRY_VERSION,
                sr_evidence_checksum = vr_evidence_checksum r,
                sr_source_watermark_at = vr_source_watermark_at r,
                sr_revision = revision, sr_computed_at = computed_at\<rparr>)"

fun plan_results ::
  "(str, stored_result) dict \<Rightarrow> instant \<Rightarrow> verification_result list \<Rightarrow> (stored_result list \<times> int) result" where
  "plan_results latest computed_at [] = Inr ([], 0)"
| "plan_results latest computed_at (r # rs) =
     (let existing = lookup latest (bucket_value (vr_horizon r))
      in if map_option sr_evidence_checksum existing = Some (vr_evidence_checksum r)
         then rbind (plan_results latest computed_at rs) (\<lambda>(values, unchanged). Inr (values, unchanged + 1))
         else
           let revision = (case existing of None \<Rightarrow> 0 | Some row \<Rightarrow> sr_revision row + 1)
           in rbind (result_values r revision computed_at) (\<lambda>row.
              rbind (plan_results latest computed_at rs) (\<lambda>(values, unchanged).
              Inr (row # values, unchanged))))"

definition append_results ::
  "stored_result list \<Rightarrow> verification_bundle \<Rightarrow> instant \<Rightarrow> (stored_result list \<times> int \<times> int) result" where
  "append_results table b computed_at =
     (case vb_results b of
        [] \<Rightarrow> Inl (IndexError ''tuple index out of range'')
      | first # _ \<Rightarrow>
          let existing_rows = sort_key (\<lambda>r. (sr_horizon_bucket r, sr_revision r))
                (filter (\<lambda>r. sr_metric_id r = metric_value (vt_metric (vb_target b))
                   \<and> sr_window_start r = vr_window_start first \<and> sr_window_end r = vr_window_end first
                   \<and> sr_verification_methodology_version r = VERIFICATION_METHODOLOGY_VERSION) table);
              latest = keep_latest sr_horizon_bucket sr_revision existing_rows
          in rbind (plan_results latest computed_at (vb_results b)) (\<lambda>(values, unchanged).
             if values = [] then Inr (table, 0, unchanged)
             else rbind (insert_rows result_row_ok result_row_identity table values) (\<lambda>(table', inserted).
               if inserted \<noteq> int (length values)
               then Inl (RuntimeError ''forecast result revision conflict; retry under the global lock'')
               else Inr (table', inserted, unchanged))))"

section \<open>The two ledgers\<close>

interpretation pair_ledger: ledger pair_row_key sp_revision pair_row_identity
  by unfold_locales (auto simp: pair_row_identity_def pair_row_key_def)

interpretation result_ledger: ledger sr_horizon_bucket sr_revision result_row_identity
  by unfold_locales (auto simp: result_row_identity_def)

section \<open>What a bundle offers the writers\<close>

definition vintage_of :: "verification_pair \<Rightarrow> instant" where
  "vintage_of p = vintage_time (vt_effective_vintage_time_basis (vp_target p)) (vp_forecast p)"

definition pair_key :: "verification_pair \<Rightarrow> str \<times> instant \<times> instant" where
  "pair_key p = (bucket_value (vp_horizon p), fe_valid_from (vp_forecast p), vintage_of p)"

definition storable_pair :: "verification_target \<Rightarrow> verification_pair \<Rightarrow> bool" where
  "storable_pair target p \<longleftrightarrow>
     vp_target p = target \<and> vintage_of p \<le> fe_valid_from (vp_forecast p) \<and> 0 \<le> vp_absolute_error p
     \<and> 0 \<le> fe_revision (vp_forecast p) \<and> 0 \<le> oe_revision (vp_outturn p)
     \<and> length (vp_content_sha256 p) = 64"

definition storable_result :: "verification_target \<Rightarrow> instant \<Rightarrow> instant \<Rightarrow> verification_result \<Rightarrow> bool" where
  "storable_result target s e r \<longleftrightarrow>
     vr_target r = target \<and> vr_window_start r = s \<and> vr_window_end r = e \<and> s < e
     \<and> sound_statistics r \<and> length (vr_evidence_checksum r) = 64
     \<and> vr_coverage_fraction r = (if vr_expected_sample_count r \<noteq> 0
          then int_div (vr_verified_sample_count r) (vr_expected_sample_count r) else 0)
     \<and> (display_eligible r \<longleftrightarrow> 100 \<le> vr_verified_sample_count r
          \<and> MINIMUM_COVERAGE_FRACTION \<le> vr_coverage_fraction r)"

definition storable_bundle :: "instant \<Rightarrow> instant \<Rightarrow> verification_bundle \<Rightarrow> bool" where
  "storable_bundle s e b \<longleftrightarrow>
     validate_target (vb_target b) = Inr (vb_target b)
     \<and> list_all (storable_pair (vb_target b)) (vb_pairs b)
     \<and> distinct (map pair_key (vb_pairs b))
     \<and> list_all (storable_result (vb_target b) s e) (vb_results b)
     \<and> map vr_horizon (vb_results b) = HORIZON_BUCKETS"

lemma aggregate_fields:
  assumes "aggregate target h fs (found_pairs target outs h fs) s e = Inr r" and "s < e"
    and "int (length fs) < 2 ^ 40"
  shows "storable_result target s e r"
proof -
  have "vr_target r = target \<and> vr_window_start r = s \<and> vr_window_end r = e \<and> length (vr_evidence_checksum r) = 64
      \<and> vr_coverage_fraction r = (if vr_expected_sample_count r \<noteq> 0
          then int_div (vr_verified_sample_count r) (vr_expected_sample_count r) else 0)
      \<and> vr_status r = fst (status_and_reason (vr_expected_sample_count r) (vr_verified_sample_count r)
          (vr_coverage_fraction r))"
    using assms(1) unfolding aggregate_def Let_def rbind_eq_Inr sum.inject
    by (elim exE conjE, hypsubst)
      (simp only: verification_result.select_convs json_checksum_shape simp_thms)
  with aggregate_sound [OF assms(1,3)] assms(2) show ?thesis
    by (simp add: storable_result_def display_eligible_def status_eligible)
qed

definition evidence_ok :: "forecast_evidence list \<Rightarrow> outturn_evidence list \<Rightarrow> bool" where
  "evidence_ok fs rs \<longleftrightarrow> list_all (\<lambda>f. 0 \<le> fe_revision f) fs \<and> list_all (\<lambda>r. 0 \<le> oe_revision r) rs
     \<and> int (length fs) < 2 ^ 40"

lemma bundle_storable:
  assumes target: "validate_target target = Inr target" and ok: "evidence_ok fs rs"
    and v: "verify_forecasts target fs rs (Aware s) (Aware e) = Inr b"
  shows "storable_bundle s e b" and "vb_target b = target"
proof -
  let ?basis = "vt_effective_vintage_time_basis target"
  obtain s' e' chosen outs parts where se: "Aware s = Aware s'" "Aware e = Aware e'" "s' < e'"
    and chosen: "chosen = chosen_of ?basis (map snd (latest_vintages s' e' ?basis fs))"
    and outs: "outs = select_outturn_revisions s' e' rs"
    and parts: "list_all2 (\<lambda>h part. fst part = found_pairs target outs h (in_bucket chosen h)
           \<and> aggregate target h (in_bucket chosen h) (fst part) s' e' = Inr (snd part)) HORIZON_BUCKETS parts"
    and b: "b = \<lparr>vb_target = target, vb_pairs = concat (map fst parts), vb_results = map snd parts\<rparr>"
    by (rule verify_forecasts_Inr [OF target v])
  have [simp]: "s' = s" "e' = e" using se by auto
  show "vb_target b = target" by (simp add: b)
  have pair: "storable_pair target p" if p: "p \<in> set (vb_pairs b)" for p
  proof -
    have e: "exact_pair target fs rs s e p" using bundle_pair_exact [OF parts chosen outs, of p] p by (simp add: b)
    from p obtain part where "part \<in> set parts" "p \<in> set (fst part)" by (auto simp: b)
    then obtain h where "p \<in> set (found_pairs target outs h (in_bucket chosen h))"
      using list_all2_nthD2 [OF parts] by (metis in_set_conv_nth)
    from found_pairs_in [OF this] have "p = verified_pair target h (vp_forecast p) (vp_outturn p)" by simp
    from arg_cong [OF this, of vp_content_sha256] have "length (vp_content_sha256 p) = 64"
      by (simp add: verified_pair_def json_checksum_shape)
    with e ok show ?thesis
      by (auto simp: exact_pair_def Let_def storable_pair_def vintage_of_def lead_def evidence_ok_def list_all_iff)
  qed
  have once: "distinct (map (\<lambda>p. vintage_ident ?basis (vp_forecast p)) (vb_pairs b))"
    using verified_pairs_once [OF parts chosen] by (simp add: b)
  have weaker: "pair_key p = pair_key q \<Longrightarrow> vintage_ident ?basis (vp_forecast p) = vintage_ident ?basis (vp_forecast q)"
    if "p \<in> set (vb_pairs b)" "q \<in> set (vb_pairs b)" for p q
    using pair [OF that(1)] pair [OF that(2)] by (simp add: pair_key_def vintage_ident_def vintage_of_def storable_pair_def)
  have keys: "distinct (map pair_key (vb_pairs b))"
    using once weaker by (rule distinct_map_weaken)
  have len: "int (length (in_bucket chosen h)) < 2 ^ 40" for h
    using length_chosen [of ?basis "map snd (latest_vintages s e ?basis fs)" h]
      length_latest [of s e ?basis fs] ok unfolding chosen evidence_ok_def by simp
  have "list_all2 (\<lambda>h part. storable_result target s e (snd part) \<and> vr_horizon (snd part) = h) HORIZON_BUCKETS parts"
    using parts
  proof (rule list_all2_mono)
    fix h part
    assume a: "fst part = found_pairs target outs h (in_bucket chosen h)
           \<and> aggregate target h (in_bucket chosen h) (fst part) s' e' = Inr (snd part)"
    then have "aggregate target h (in_bucket chosen h) (found_pairs target outs h (in_bucket chosen h)) s e = Inr (snd part)"
      by (elim conjE) simp
    with aggregate_fields [OF this _ len] aggregate_horizon [OF this] se(3)
    show "storable_result target s e (snd part) \<and> vr_horizon (snd part) = h" by simp
  qed
  then have "list_all (storable_result target s e) (map snd parts)" "map vr_horizon (map snd parts) = HORIZON_BUCKETS"
    by (induction rule: list_all2_induct) auto
  with pair keys target show "storable_bundle s e b" by (simp add: storable_bundle_def b list_all_iff)
qed

section \<open>The pairs table\<close>

definition pair_row :: "verification_pair \<Rightarrow> int \<Rightarrow> stored_pair" where
  "pair_row p revision = projr (pair_values p revision)"

definition pairs_wf :: "stored_pair list \<Rightarrow> bool" where
  "pairs_wf table \<longleftrightarrow> list_all pair_row_ok table \<and> distinct (map pair_row_identity table)"

lemma vintage_at:
  assumes "validate_target target = Inr target" and "storable_pair target p"
  shows "forecast_vintage_at p = Inr (vintage_of p)"
  using assms validated_basis [OF assms(1)]
  by (simp add: forecast_vintage_at_def storable_pair_def vintage_of_def)

lemma pair_values_row:
  assumes "validate_target target = Inr target" and "storable_pair target p" and "0 \<le> revision"
  shows "pair_values p revision = Inr (pair_row p revision)"
  using assms(3) by (simp add: pair_row_def pair_values_def vintage_at [OF assms(1,2)])

lemma pair_row_sel:
  assumes "validate_target target = Inr target" and "storable_pair target p" and "0 \<le> revision"
  shows "pair_row_key (pair_row p revision) = pair_key p"
    and "sp_revision (pair_row p revision) = revision"
    and "sp_metric_id (pair_row p revision) = metric_value (vt_metric target)"
    and "sp_verification_methodology_version (pair_row p revision) = VERIFICATION_METHODOLOGY_VERSION"
    and "sp_content_sha256 (pair_row p revision) = vp_content_sha256 p"
    and "sp_valid_from (pair_row p revision) = fe_valid_from (vp_forecast p)"
  using assms by (simp_all add: pair_row_def pair_values_def vintage_at [OF assms(1,2)]
      pair_row_key_def pair_key_def storable_pair_def)

lemma bucket_value_in: "bucket_value h \<in> set bucket_names"
  by (cases h) (simp_all add: bucket_names_def)

lemma target_bases:
  assumes "validate_target target = Inr target"
  shows "(vt_issue_time_basis target = SOURCE_PUBLISHED_TIME_BASIS
       \<and> vt_effective_vintage_time_basis target = SOURCE_PUBLISHED_TIME_BASIS)
    \<or> (vt_issue_time_basis target = SOURCE_ISSUE_TIME_UNAVAILABLE
       \<and> vt_effective_vintage_time_basis target = CAPTURE_TIME_ISSUE_BASIS)"
  using assms by (auto simp: validate_target_def SOURCE_PUBLISHED_TIME_BASIS_def
      SOURCE_ISSUE_TIME_UNAVAILABLE_def CAPTURE_TIME_ISSUE_BASIS_def split: if_splits)

lemma basis_names [simp]:
  "SOURCE_PUBLISHED_TIME_BASIS \<noteq> SOURCE_ISSUE_TIME_UNAVAILABLE"
  "SOURCE_PUBLISHED_TIME_BASIS \<noteq> CAPTURE_TIME_ISSUE_BASIS"
  "SOURCE_ISSUE_TIME_UNAVAILABLE \<noteq> SOURCE_PUBLISHED_TIME_BASIS"
  "CAPTURE_TIME_ISSUE_BASIS \<noteq> SOURCE_PUBLISHED_TIME_BASIS"
  by (simp_all add: SOURCE_PUBLISHED_TIME_BASIS_def SOURCE_ISSUE_TIME_UNAVAILABLE_def CAPTURE_TIME_ISSUE_BASIS_def)

lemma pair_row_checked:
  assumes "validate_target target = Inr target" and "storable_pair target p" and "0 \<le> revision"
  shows "pair_row_ok (pair_row p revision)"
proof -
  have s: "vp_target p = target" "vintage_of p \<le> fe_valid_from (vp_forecast p)" "0 \<le> vp_absolute_error p"
    "0 \<le> fe_revision (vp_forecast p)" "0 \<le> oe_revision (vp_outturn p)" "length (vp_content_sha256 p) = 64"
    using assms(2) by (simp_all add: storable_pair_def)
  have r: "pair_row p revision = projr (pair_values p revision)" by (simp add: pair_row_def)
  from target_bases [OF assms(1)] show ?thesis
    using assms(3) s bucket_value_in [of "vp_horizon p"]
    by (auto simp: pair_row_ok_def r pair_values_def vintage_at [OF assms(1,2)] source_issued_at_def
        vintage_of_def vintage_time_def)
qed

text \<open>The row a pair needs, if any, given the latest rows.\<close>

abbreviation planned_row :: "(str \<times> instant \<times> instant, stored_pair) dict \<Rightarrow> verification_pair \<Rightarrow> stored_pair option" where
  "planned_row latest \<equiv> planned latest sp_revision sp_content_sha256 pair_key vp_content_sha256 pair_row"

lemma distinct_map_prefix: "distinct (map f (xs @ ys @ zs)) \<Longrightarrow> distinct (map f (xs @ ys))"
  by auto

lemma append_loop_refines:
  assumes target: "validate_target target = Inr target"
    and latest: "\<And>k row. lookup latest k = Some row \<Longrightarrow> 0 \<le> sp_revision row"
    and "list_all (storable_pair target) ps"
    and "list_all pair_row_ok values" and "length values < PAIR_INSERT_BATCH_SIZE"
    and "distinct (map pair_row_identity (table @ values @ somes (map (planned_row latest) ps)))"
  shows "append_pairs_loop latest table values inserted unchanged ps =
     Inr (table @ values @ somes (map (planned_row latest) ps),
          inserted + int (length values) + int (length (somes (map (planned_row latest) ps))),
          unchanged + int (length ps) - int (length (somes (map (planned_row latest) ps))))"
  using assms(3-)
proof (induction ps arbitrary: table "values" inserted unchanged)
  case Nil
  then have "insert_rows pair_row_ok pair_row_identity table values = Inr (table @ values, int (length values))"
    by (intro insert_rows_fresh) simp_all
  with Nil.prems show ?case
    by (cases "values") (simp_all add: insert_pair_batch_def)
next
  case (Cons p ps)
  let ?existing = "lookup latest (pair_key p)"
  let ?revision = "next_revision sp_revision ?existing"
  from Cons.prems(1) have p: "storable_pair target p" and ps: "list_all (storable_pair target) ps" by simp_all
  have rev: "0 \<le> ?revision" by (rule next_revision_nonneg) (rule latest)
  note row = pair_values_row [OF target p rev]
  note step = append_pairs_loop.simps(2) [of latest table "values" inserted unchanged p ps,
      unfolded vintage_at [OF target p] rbind_Inr Let_def pair_key_def [symmetric] next_revision_def [symmetric] row]
  show ?case
  proof (cases "map_option sp_content_sha256 ?existing = Some (vp_content_sha256 p)")
    case True
    then have none: "planned_row latest p = None" by (simp add: planned_def)
    have "append_pairs_loop latest table values inserted (unchanged + 1) ps =
     Inr (table @ values @ somes (map (planned_row latest) ps),
          inserted + int (length values) + int (length (somes (map (planned_row latest) ps))),
          unchanged + 1 + int (length ps) - int (length (somes (map (planned_row latest) ps))))"
      using Cons.prems(4) by (intro Cons.IH [OF ps Cons.prems(2,3)]) (simp add: none)
    with step True none show ?thesis by simp
  next
    case False
    let ?row = "pair_row p ?revision"
    from False have some: "planned_row latest p = Some ?row"
      unfolding planned_def Let_def by (rule if_not_P)
    have checked: "list_all pair_row_ok (values @ [?row])"
      using Cons.prems(2) pair_row_checked [OF target p rev] by simp
    have fresh: "distinct (map pair_row_identity (table @ (values @ [?row]) @ somes (map (planned_row latest) ps)))"
      using Cons.prems(4) by (simp add: some)
    show ?thesis
    proof (cases "length (values @ [?row]) = PAIR_INSERT_BATCH_SIZE")
      case full: True
      have "insert_rows pair_row_ok pair_row_identity table (values @ [?row])
          = Inr (table @ values @ [?row], int (length (values @ [?row])))"
        using insert_rows_fresh [OF distinct_map_prefix [OF fresh] checked] by simp
      then have batch: "insert_pair_batch table (values @ [?row])
          = Inr (table @ values @ [?row], int (length (values @ [?row])))"
        using full by (simp add: insert_pair_batch_def)
      have "append_pairs_loop latest (table @ values @ [?row]) [] (inserted + int (length (values @ [?row]))) unchanged ps =
        Inr ((table @ values @ [?row]) @ [] @ somes (map (planned_row latest) ps),
          inserted + int (length (values @ [?row])) + int (length ([] :: stored_pair list))
            + int (length (somes (map (planned_row latest) ps))),
          unchanged + int (length ps) - int (length (somes (map (planned_row latest) ps))))"
        using fresh by (intro Cons.IH [OF ps]) (simp_all add: PAIR_INSERT_BATCH_SIZE_def)
      with step [unfolded if_not_P [OF False] if_P [OF full] batch rbind_Inr prod.case] some
      show ?thesis by simp
    next
      case part: False
      with Cons.prems(3) have "length (values @ [?row]) < PAIR_INSERT_BATCH_SIZE" by simp
      from Cons.IH [OF ps checked this fresh] step [unfolded if_not_P [OF False] if_not_P [OF part]] some
      show ?thesis by simp
    qed
  qed
qed

lemma set_pairs_in_scope:
  "set (pairs_in_scope b table) = set (filter (\<lambda>r. \<exists>lo hi. py_min id (pair_times b) = Some lo
       \<and> py_max id (pair_times b) = Some hi
       \<and> sp_metric_id r = metric_value (vt_metric (vb_target b))
       \<and> sp_verification_methodology_version r = VERIFICATION_METHODOLOGY_VERSION
       \<and> lo \<le> sp_valid_from r \<and> sp_valid_from r \<le> hi) table)"
proof (cases "pair_times b = []")
  case True
  then show ?thesis by (simp add: pairs_in_scope_def py_min_def)
next
  case False
  then have "py_min id (pair_times b) \<noteq> None" "py_max id (pair_times b) \<noteq> None" by simp_all
  then obtain lo hi where m: "py_min id (pair_times b) = Some lo" "py_max id (pair_times b) = Some hi" by blast
  show ?thesis by (simp only: pairs_in_scope_def m option.case prod.case option.inject simp_thms
      set_sort) auto
qed

lemma pair_in_window:
  assumes "p \<in> set (vb_pairs b)"
  shows "\<exists>lo hi. py_min id (pair_times b) = Some lo
       \<and> py_max id (pair_times b) = Some hi
       \<and> lo \<le> fe_valid_from (vp_forecast p) \<and> fe_valid_from (vp_forecast p) \<le> hi"
proof -
  let ?ts = "pair_times b"
  have m: "fe_valid_from (vp_forecast p) \<in> set ?ts" using assms by (auto simp: pair_times_def)
  then have "py_min id ?ts \<noteq> None" "py_max id ?ts \<noteq> None" unfolding py_min_None py_max_None by auto
  then obtain lo hi where "py_min id ?ts = Some lo" "py_max id ?ts = Some hi" by blast
  with py_min_le [of id ?ts lo, OF _ m] py_max_ge [of id ?ts hi, OF _ m] show ?thesis by auto
qed

abbreviation latest_pairs :: "verification_bundle \<Rightarrow> stored_pair list \<Rightarrow> (str \<times> instant \<times> instant, stored_pair) dict" where
  "latest_pairs b table \<equiv> keep_latest pair_row_key sp_revision (pairs_in_scope b table)"

definition new_pairs :: "verification_bundle \<Rightarrow> stored_pair list \<Rightarrow> stored_pair list" where
  "new_pairs b table = somes (map (planned_row (latest_pairs b table)) (vb_pairs b))"

definition pair_visible :: "verification_bundle \<Rightarrow> stored_pair \<Rightarrow> bool" where
  "pair_visible b r \<longleftrightarrow> (\<exists>lo hi. py_min id (pair_times b) = Some lo \<and> py_max id (pair_times b) = Some hi
       \<and> sp_metric_id r = metric_value (vt_metric (vb_target b))
       \<and> sp_verification_methodology_version r = VERIFICATION_METHODOLOGY_VERSION
       \<and> lo \<le> sp_valid_from r \<and> sp_valid_from r \<le> hi)"

lemma pairs_offered:
  assumes "storable_bundle s e b"
  shows "offers pair_row_key sp_revision pair_row_identity (pair_visible b) (pairs_in_scope b)
     sp_content_sha256 pair_key vp_content_sha256 pair_row (vb_pairs b)"
proof -
  have "pair_row_key (pair_row p n) = pair_key p \<and> sp_revision (pair_row p n) = n
      \<and> sp_content_sha256 (pair_row p n) = vp_content_sha256 p \<and> pair_visible b (pair_row p n)
      \<and> (\<forall>r. pair_row_identity r = pair_row_identity (pair_row p n) \<longrightarrow> pair_visible b r)"
    if p: "p \<in> set (vb_pairs b)" and n: "0 \<le> n" for p n
  proof -
    from assms p have t: "validate_target (vb_target b) = Inr (vb_target b)" "storable_pair (vb_target b) p"
      by (auto simp: storable_bundle_def list_all_iff)
    note sel = pair_row_sel [OF t n]
    have "pair_visible b (pair_row p n)"
      using pair_in_window [OF p] by (simp add: pair_visible_def sel)
    then show ?thesis by (simp add: sel pair_row_identity_def pair_visible_def)
  qed
  moreover have "set (pairs_in_scope b table) = set (filter (pair_visible b) table)" for table
    unfolding set_pairs_in_scope by (simp add: pair_visible_def)
  moreover have "pair_row_identity r = pair_row_identity r'"
    if "pair_visible b r" "pair_visible b r'" "pair_row_key r = pair_row_key r'" "sp_revision r = sp_revision r'" for r r'
    using that by (auto simp: pair_visible_def pair_row_identity_def pair_row_key_def)
  moreover have "distinct (map pair_key (vb_pairs b))" using assms by (simp add: storable_bundle_def)
  ultimately show ?thesis unfolding offers_def by blast
qed

lemma pairs_wf_revisions: "pairs_wf table \<Longrightarrow> r \<in> set table \<Longrightarrow> 0 \<le> sp_revision r"
  by (auto simp: pairs_wf_def list_all_iff pair_row_ok_def)

lemma append_pairs_appends:
  assumes "storable_bundle s e b" and wf: "pairs_wf table"
  shows "append_pairs table b = Inr (table @ new_pairs b table, int (length (new_pairs b table)),
      int (length (vb_pairs b)) - int (length (new_pairs b table)))"
    and "pairs_wf (table @ new_pairs b table)"
proof -
  have t: "validate_target (vb_target b) = Inr (vb_target b)" "list_all (storable_pair (vb_target b)) (vb_pairs b)"
    using assms(1) by (simp_all add: storable_bundle_def)
  have d: "distinct (map pair_row_identity table)" using wf by (simp add: pairs_wf_def)
  note o = pairs_offered [OF assms(1)]
  note fresh = pair_ledger.plan_fresh(2) [OF o pairs_wf_revisions [OF wf] d new_pairs_def]
  have nonneg: "0 \<le> sp_revision row" if "lookup (latest_pairs b table) k = Some row" for k row
  proof -
    from keep_latest_sound [OF that] have "row \<in> set table" by (auto simp: set_pairs_in_scope)
    then show ?thesis by (rule pairs_wf_revisions [OF wf])
  qed
  have "append_pairs_loop (latest_pairs b table) table [] 0 0 (vb_pairs b)
      = Inr (table @ [] @ new_pairs b table, 0 + int (length ([] :: stored_pair list)) + int (length (new_pairs b table)),
          0 + int (length (vb_pairs b)) - int (length (new_pairs b table)))"
    unfolding new_pairs_def
    by (rule append_loop_refines [OF t(1) nonneg t(2)])
      (use fresh in \<open>simp_all add: PAIR_INSERT_BATCH_SIZE_def new_pairs_def\<close>)
  then show "append_pairs table b = Inr (table @ new_pairs b table, int (length (new_pairs b table)),
      int (length (vb_pairs b)) - int (length (new_pairs b table)))"
    by (simp add: append_pairs_def)
  have "pair_row_ok row" if "row \<in> set (new_pairs b table)" for row
  proof -
    from that obtain p where p: "p \<in> set (vb_pairs b)" "planned_row (latest_pairs b table) p = Some row"
      by (auto simp: new_pairs_def somes_def)
    note f = pair_ledger.planned_from(6,7) [OF o pairs_wf_revisions [OF wf] p]
    from t p(1) have "storable_pair (vb_target b) p" by (simp add: list_all_iff)
    from pair_row_checked [OF t(1) this f(2)] f(1) show ?thesis by simp
  qed
  then have "list_all pair_row_ok (new_pairs b table)" by (simp add: list_all_iff)
  then show "pairs_wf (table @ new_pairs b table)"
    using wf fresh by (simp add: pairs_wf_def)
qed

section \<open>The results table\<close>

definition result_row :: "instant \<Rightarrow> verification_result \<Rightarrow> int \<Rightarrow> stored_result" where
  "result_row computed_at r revision = projr (result_values r revision computed_at)"

definition results_wf :: "stored_result list \<Rightarrow> bool" where
  "results_wf table \<longleftrightarrow> list_all result_row_ok table \<and> distinct (map result_row_identity table)"

definition result_key :: "verification_result \<Rightarrow> str" where
  "result_key r = bucket_value (vr_horizon r)"

abbreviation planned_result :: "instant \<Rightarrow> (str, stored_result) dict \<Rightarrow> verification_result \<Rightarrow> stored_result option" where
  "planned_result t latest \<equiv> planned latest sr_revision sr_evidence_checksum result_key vr_evidence_checksum (result_row t)"

lemma result_values_row: "0 \<le> n \<Longrightarrow> result_values r n t = Inr (result_row t r n)"
  by (simp add: result_row_def result_values_def)

lemma result_row_sel:
  assumes "0 \<le> n"
  shows "sr_horizon_bucket (result_row t r n) = result_key r" "sr_revision (result_row t r n) = n"
    "sr_evidence_checksum (result_row t r n) = vr_evidence_checksum r"
    "sr_metric_id (result_row t r n) = metric_value (vt_metric (vr_target r))"
    "sr_window_start (result_row t r n) = vr_window_start r" "sr_window_end (result_row t r n) = vr_window_end r"
    "sr_verification_methodology_version (result_row t r n) = VERIFICATION_METHODOLOGY_VERSION"
  using assms by (simp_all add: result_row_def result_values_def result_key_def)

lemma result_row_checked:
  assumes "validate_target target = Inr target" and "storable_result target s e r" and n: "0 \<le> n"
  shows "result_row_ok (result_row t r n)"
proof -
  have s: "vr_target r = target" "vr_window_start r = s" "vr_window_end r = e" "s < e"
    "length (vr_evidence_checksum r) = 64"
    and stats: "sound_statistics r"
    and avail: "vr_status r = Available \<longleftrightarrow> 100 \<le> vr_verified_sample_count r
       \<and> fl (9 / 10) \<le> vr_coverage_fraction r"
    using assms(2) by (simp_all add: storable_result_def display_eligible_def MINIMUM_COVERAGE_FRACTION_def)
  have mae: "case vr_mae r of None \<Rightarrow> True | Some x \<Rightarrow> 0 \<le> x"
    using stats by (auto simp: sound_statistics_def split: option.splits)
  have metrics: "(vr_verified_sample_count r = 0 \<and> vr_mae r = None \<and> vr_bias r = None \<and> vr_wape_percent r = None)
      \<or> (0 < vr_verified_sample_count r \<and> vr_mae r \<noteq> None \<and> vr_bias r \<noteq> None)"
    using stats by (auto simp: sound_statistics_def split: option.splits)
  have bounds: "0 \<le> vr_verified_sample_count r" "vr_verified_sample_count r \<le> vr_expected_sample_count r"
    "0 \<le> vr_coverage_fraction r" "vr_coverage_fraction r \<le> 1"
    "case vr_wape_percent r of Some w \<Rightarrow> 0 \<le> w | None \<Rightarrow> True"
    using stats by (simp_all add: sound_statistics_def)
  have wape: "case vr_wape_percent r of None \<Rightarrow> True | Some x \<Rightarrow> 0 \<le> x"
    using bounds(5) by (simp split: option.splits)
  have status: "status_value (vr_status r) \<in> {''available'', ''insufficient_data''}"
    "status_value (vr_status r) \<noteq> ''available'' \<or> vr_status r = Available"
    by (cases "vr_status r"; simp)+
  have row: "result_row t r n = projr (result_values r n t)" by (simp add: result_row_def)
  show ?thesis
    unfolding result_row_ok_def row result_values_def if_not_P [OF n [folded not_less]] sum.sel
      stored_result.select_convs s(1-3)
    using s(4,5) mae metrics bounds(1-4) wape status avail target_bases [OF assms(1)] bucket_value_in n
    by auto
qed

lemma plan_results_refines:
  assumes "\<And>k row. lookup latest k = Some row \<Longrightarrow> 0 \<le> sr_revision row"
  shows "plan_results latest t rs = Inr (somes (map (planned_result t latest) rs),
     int (length rs) - int (length (somes (map (planned_result t latest) rs))))"
proof (induction rs)
  case (Cons r rs)
  let ?existing = "lookup latest (result_key r)"
  have n: "0 \<le> next_revision sr_revision ?existing" by (rule next_revision_nonneg) (rule assms)
  note step = plan_results.simps(2) [of latest t r rs, unfolded Let_def result_key_def [symmetric]
      next_revision_def [symmetric] result_values_row [OF n] rbind_Inr Cons.IH prod.case]
  show ?case
  proof (cases "map_option sr_evidence_checksum ?existing = Some (vr_evidence_checksum r)")
    case True
    then have "planned_result t latest r = None" by (simp add: planned_def)
    with step [unfolded if_P [OF True]] show ?thesis by simp
  next
    case False
    have "planned_result t latest r = Some (result_row t r (next_revision sr_revision ?existing))"
      unfolding planned_def Let_def by (rule if_not_P [OF False])
    with step [unfolded if_not_P [OF False]] show ?thesis by simp
  qed
qed simp

definition results_in_scope :: "verification_target \<Rightarrow> instant \<Rightarrow> instant \<Rightarrow> stored_result list \<Rightarrow> stored_result list" where
  "results_in_scope target s e table = sort_key (\<lambda>r. (sr_horizon_bucket r, sr_revision r))
     (filter (\<lambda>r. sr_metric_id r = metric_value (vt_metric target)
        \<and> sr_window_start r = s \<and> sr_window_end r = e
        \<and> sr_verification_methodology_version r = VERIFICATION_METHODOLOGY_VERSION) table)"

abbreviation latest_results :: "verification_target \<Rightarrow> instant \<Rightarrow> instant \<Rightarrow> stored_result list \<Rightarrow> (str, stored_result) dict" where
  "latest_results target s e table \<equiv> keep_latest sr_horizon_bucket sr_revision (results_in_scope target s e table)"

definition new_results :: "instant \<Rightarrow> instant \<Rightarrow> instant \<Rightarrow> verification_bundle \<Rightarrow> stored_result list \<Rightarrow> stored_result list" where
  "new_results s e t b table = somes (map (planned_result t (latest_results (vb_target b) s e table)) (vb_results b))"

lemma bucket_value_inj: "bucket_value h = bucket_value h' \<Longrightarrow> h = h'"
  by (cases h; cases h') simp_all

lemma results_offered:
  assumes "storable_bundle s e b"
  shows "offers sr_horizon_bucket sr_revision result_row_identity
     (\<lambda>r. sr_metric_id r = metric_value (vt_metric (vb_target b)) \<and> sr_window_start r = s \<and> sr_window_end r = e
        \<and> sr_verification_methodology_version r = VERIFICATION_METHODOLOGY_VERSION)
     (results_in_scope (vb_target b) s e) sr_evidence_checksum result_key vr_evidence_checksum (result_row t) (vb_results b)"
    (is "offers _ _ _ ?visible _ _ _ _ _ _")
proof -
  have "sr_horizon_bucket (result_row t r n) = result_key r \<and> sr_revision (result_row t r n) = n
      \<and> sr_evidence_checksum (result_row t r n) = vr_evidence_checksum r \<and> ?visible (result_row t r n)
      \<and> (\<forall>q. result_row_identity q = result_row_identity (result_row t r n) \<longrightarrow> ?visible q)"
    if "r \<in> set (vb_results b)" and n: "0 \<le> n" for r n
    using assms that(1) by (auto simp: result_row_sel [OF n] result_row_identity_def storable_bundle_def
        list_all_iff storable_result_def)
  moreover have "set (results_in_scope (vb_target b) s e table) = set (filter ?visible table)" for table
    by (simp add: results_in_scope_def)
  moreover have "result_row_identity r = result_row_identity r'"
    if "?visible r" "?visible r'" "sr_horizon_bucket r = sr_horizon_bucket r'" "sr_revision r = sr_revision r'" for r r'
    using that by (simp add: result_row_identity_def)
  moreover have "distinct (map result_key (vb_results b))"
  proof -
    have "map vr_horizon (vb_results b) = HORIZON_BUCKETS" using assms by (simp add: storable_bundle_def)
    then have "distinct (map vr_horizon (vb_results b))" by (simp add: HORIZON_BUCKETS_def)
    then show ?thesis by (rule distinct_map_weaken) (simp add: result_key_def bucket_value_inj)
  qed
  ultimately show ?thesis unfolding offers_def by blast
qed

lemma results_wf_revisions: "results_wf table \<Longrightarrow> r \<in> set table \<Longrightarrow> 0 \<le> sr_revision r"
  by (auto simp: results_wf_def list_all_iff result_row_ok_def)

lemma append_results_appends:
  assumes "storable_bundle s e b" and wf: "results_wf table"
  shows "append_results table b t = Inr (table @ new_results s e t b table, int (length (new_results s e t b table)),
      int (length (vb_results b)) - int (length (new_results s e t b table)))"
    and "results_wf (table @ new_results s e t b table)"
proof -
  let ?latest = "latest_results (vb_target b) s e table" and ?new = "new_results s e t b table"
  have d: "distinct (map result_row_identity table)" using wf by (simp add: results_wf_def)
  note o = results_offered [OF assms(1), of t]
  note fresh = result_ledger.plan_fresh(2) [OF o results_wf_revisions [OF wf] d new_results_def]
  have nonneg: "0 \<le> sr_revision row" if "lookup ?latest k = Some row" for k row
  proof -
    from keep_latest_sound [OF that] have "row \<in> set table" by (simp add: results_in_scope_def)
    then show ?thesis by (rule results_wf_revisions [OF wf])
  qed
  have "result_row_ok row" if "row \<in> set ?new" for row
  proof -
    from that obtain r where r: "r \<in> set (vb_results b)" "planned_result t ?latest r = Some row"
      by (auto simp: new_results_def somes_def)
    note f = result_ledger.planned_from(6,7) [OF o results_wf_revisions [OF wf] r]
    from assms(1) r(1) have "validate_target (vb_target b) = Inr (vb_target b)" "storable_result (vb_target b) s e r"
      by (simp_all add: storable_bundle_def list_all_iff)
    from result_row_checked [OF this f(2), of t] f(1) show ?thesis by metis
  qed
  then have checked: "list_all result_row_ok ?new" by (simp add: list_all_iff)
  then show "results_wf (table @ ?new)" using wf fresh by (simp add: results_wf_def)
  obtain first rest where rs: "vb_results b = first # rest"
    using assms(1) by (cases "vb_results b") (auto simp: storable_bundle_def HORIZON_BUCKETS_def)
  then have "storable_result (vb_target b) s e first" using assms(1) by (simp add: storable_bundle_def)
  then have w: "vr_window_start first = s" "vr_window_end first = e" by (simp_all add: storable_result_def)
  have plan: "plan_results ?latest t (vb_results b) = Inr (?new, int (length (vb_results b)) - int (length ?new))"
    unfolding new_results_def by (rule plan_results_refines) (rule nonneg)
  have ins: "insert_rows result_row_ok result_row_identity table ?new = Inr (table @ ?new, int (length ?new))"
    using fresh checked by (rule insert_rows_fresh)
  show "append_results table b t = Inr (table @ ?new, int (length ?new), int (length (vb_results b)) - int (length ?new))"
    unfolding append_results_def rs list.case Let_def w results_in_scope_def [symmetric]
    unfolding rs [symmetric] plan rbind_Inr prod.case ins by simp
qed

section \<open>Properties\<close>

text \<open>C31: Writing the pairs of a verification appends: no stored row changes, no constraint of the
  table breaks and no conflict arises, whatever the batches; afterwards the latest revision of
  every pair carries the bundle's content, and writing the bundle again appends nothing.\<close>

theorem pairs_are_appended:
  assumes "validate_target target = Inr target" and "evidence_ok fs rs"
    and "verify_forecasts target fs rs (Aware s) (Aware e) = Inr b"
    and "pairs_wf table"
  shows "\<exists>new inserted unchanged. append_pairs table b = Inr (table @ new, inserted, unchanged)
     \<and> pairs_wf (table @ new)
     \<and> inserted = int (length new) \<and> inserted + unchanged = int (length (vb_pairs b))
     \<and> list_all (\<lambda>p. map_option sp_content_sha256
          (lookup (keep_latest pair_row_key sp_revision (pairs_in_scope b (table @ new))) (pair_key p))
          = Some (vp_content_sha256 p)) (vb_pairs b)
     \<and> append_pairs (table @ new) b = Inr (table @ new, 0, int (length (vb_pairs b)))"
proof -
  from bundle_storable [OF assms(1-3)] have st: "storable_bundle s e b" by simp
  have d: "distinct (map pair_row_identity table)" using assms(4) by (simp add: pairs_wf_def)
  let ?new = "new_pairs b table"
  note first = append_pairs_appends [OF st assms(4)]
  note second = append_pairs_appends(1) [OF st first(2)]
  have again: "new_pairs b (table @ ?new) = []"
    using pair_ledger.plan_again [OF pairs_offered [OF st] pairs_wf_revisions [OF assms(4)] d new_pairs_def]
    by (simp add: new_pairs_def)
  have latest: "list_all (\<lambda>p. map_option sp_content_sha256 (lookup (latest_pairs b (table @ ?new)) (pair_key p))
      = Some (vp_content_sha256 p)) (vb_pairs b)"
    using pair_ledger.plan_latest [OF pairs_offered [OF st] pairs_wf_revisions [OF assms(4)] d new_pairs_def]
    unfolding list_all_iff by blast
  show ?thesis
    using first latest second [unfolded again]
    by (intro exI [of _ ?new] exI [of _ "int (length ?new)"]
        exI [of _ "int (length (vb_pairs b)) - int (length ?new)"]) simp
qed

lemma example_bundle:
  obtains b where "verify_forecasts demand_target [example_forecast] [example_outturn] (Aware 0) (Aware day_len) = Inr b"
    and "validate_target demand_target = Inr demand_target"
    and "evidence_ok [example_forecast] [example_outturn]"
proof -
  have v: "validate_target demand_target = Inr demand_target" by code_simp
  have e: "evidence_ok [example_forecast] [example_outturn]"
    by (simp add: evidence_ok_def example_forecast_def example_outturn_def)
  from verify_total [of demand_target 0 day_len] validated_basis [OF v] v e that show thesis by auto
qed

theorem pairs_are_appended_witness:
  "\<exists>b new. verify_forecasts demand_target [example_forecast] [example_outturn] (Aware 0) (Aware day_len) = Inr b
     \<and> append_pairs new b = Inr (new, 0, int (length (vb_pairs b))) \<and> pairs_wf new"
proof -
  obtain b where b: "verify_forecasts demand_target [example_forecast] [example_outturn] (Aware 0) (Aware day_len) = Inr b"
    and v: "validate_target demand_target = Inr demand_target" and e: "evidence_ok [example_forecast] [example_outturn]"
    by (rule example_bundle)
  have "pairs_wf []" by (simp add: pairs_wf_def)
  from pairs_are_appended [OF v e b this] b show ?thesis by auto
qed

end
