(* ===== verification/Verification_Job.thy ===== *)
theory Verification_Job
  imports Verification_Store Settlement
begin

text \<open>
  The forecast verification job (app/forecast_verification/job.py) with its bounded inputs
  (app/forecast_verification/repository.py): which stored rows are evidence, the date ranges and
  requests of the command line, the checkpoint table, the runner with its locks, and the report.
  The clock readings, the locks and the rows the database holds are arguments; the London
  transitions are the parameter \<open>tz\<close> of the settlement calendar.
\<close>

section \<open>Stored observations as evidence\<close>

record forecast_row =
  fo_id :: str
  fo_source_id :: str
  fo_metric_type :: str
  fo_series_key :: str
  fo_variant :: str
  fo_value :: pyfloat
  fo_unit :: str
  fo_valid_from :: datetime
  fo_valid_to :: "datetime option"
  fo_issued_at :: datetime
  fo_published_at :: "datetime option"
  fo_retrieved_at :: datetime
  fo_revision :: int
  fo_attributes :: "(str, json) dict"

datatype row_quality = Row_Validated | Row_Provisional | Row_Estimated | Row_Other

record observation_row =
  ob_id :: str
  ob_source_id :: str
  ob_quality :: row_quality
  ob_observed_at :: datetime
  ob_retrieved_at :: datetime
  ob_revision :: int

text \<open>Series key and kind of a demand or generation row, region of a carbon row, and the value.\<close>

datatype outturn_row =
    Demand_Row observation_row str str "pyfloat option"
  | Generation_Row observation_row str str "pyfloat option"
  | Carbon_Row observation_row str "pyfloat option"

fun row_observation :: "outturn_row \<Rightarrow> observation_row" where
  "row_observation (Demand_Row ob _ _ _) = ob"
| "row_observation (Generation_Row ob _ _ _) = ob"
| "row_observation (Carbon_Row ob _ _) = ob"

fun row_value :: "outturn_row \<Rightarrow> pyfloat option" where
  "row_value (Demand_Row _ _ _ v) = v"
| "row_value (Generation_Row _ _ _ v) = v"
| "row_value (Carbon_Row _ _ v) = v"

text \<open>\<open>str(attributes.get(name, "")).casefold() == word\<close>: only a text attribute prints as one of
  the words the rules compare with.\<close>

definition attribute_is :: "(str, json) dict \<Rightarrow> str \<Rightarrow> str \<Rightarrow> bool" where
  "attribute_is attributes name word =
     (case lookup attributes name of Some (JStr s) \<Rightarrow> lower s = word | _ \<Rightarrow> False)"

text \<open>\<open>unit.casefold().replace(<subscript two>, "2")\<close> on UTF-8 text.\<close>

fun plain_two :: "str \<Rightarrow> str" where
  "plain_two (a # b # c # s) =
     (if [a, b, c] = [CHR 0xE2, CHR 0x82, CHR 0x82] then CHR ''2'' # plain_two s else a # plain_two (b # c # s))"
| "plain_two s = s"

fun finite_nonneg :: "pyfloat \<Rightarrow> bool" where
  "finite_nonneg (Finite x) \<longleftrightarrow> 0 \<le> x"
| "finite_nonneg _ \<longleftrightarrow> False"

definition published_at_issue :: "forecast_row \<Rightarrow> bool" where
  "published_at_issue row \<longleftrightarrow> fo_published_at row = Some (fo_issued_at row)"

definition later_than :: "datetime \<Rightarrow> datetime \<Rightarrow> bool" where
  "later_than a b = (case (a, b) of (Aware x, Aware y) \<Rightarrow> y < x | (Naive x, Naive y) \<Rightarrow> y < x | _ \<Rightarrow> False)"

definition compatible_forecast :: "forecast_row \<Rightarrow> verification_target \<Rightarrow> bool" where
  "compatible_forecast row target \<longleftrightarrow>
     (let attributes = fo_attributes row in
      fo_source_id row = vt_forecast_source_id target
      \<and> fo_variant row = ''point''
      \<and> attribute_is attributes ''classification'' ''forecast''
      \<and> 0 \<le> fo_revision row
      \<and> finite_nonneg (fo_value row)
      \<and> (case vt_metric target of
           National_Demand \<Rightarrow>
             fo_metric_type row = ''demand'' \<and> lower (fo_series_key row) = ''n'' \<and> lower (fo_unit row) = ''mw''
             \<and> attribute_is attributes ''dataset'' ''ndf'' \<and> attribute_is attributes ''boundary'' ''n''
             \<and> published_at_issue row
         | Wind_Generation \<Rightarrow>
             fo_metric_type row = ''generation'' \<and> lower (fo_series_key row) = ''wind'' \<and> lower (fo_unit row) = ''mw''
             \<and> attribute_is attributes ''dataset'' ''windfor'' \<and> attribute_is attributes ''fuelType'' ''wind''
             \<and> published_at_issue row
         | National_Carbon_Intensity \<Rightarrow>
             fo_metric_type row = ''carbon_intensity'' \<and> lower (fo_series_key row) = ''gb''
             \<and> plain_two (lower (fo_unit row)) = ''gco2/kwh''
             \<and> (case fo_valid_to row of None \<Rightarrow> False | Some t \<Rightarrow> later_than t (fo_valid_from row))
             \<and> attribute_is attributes ''dataset'' ''carbon_intensity_national''
             \<and> attribute_is attributes ''issueTimeBasis'' CAPTURE_TIME_ISSUE_BASIS
             \<and> fo_published_at row = None
             \<and> fo_issued_at row = fo_retrieved_at row))"

definition accepted_quality :: "row_quality \<Rightarrow> bool" where
  "accepted_quality q \<longleftrightarrow> q = Row_Validated \<or> q = Row_Provisional"

fun compatible_kind :: "verification_metric \<Rightarrow> str \<Rightarrow> outturn_row \<Rightarrow> bool" where
  "compatible_kind National_Demand source (Demand_Row ob series kind v) \<longleftrightarrow>
     ob_source_id ob = source \<and> series = ''gb'' \<and> kind = ''indo'' \<and> accepted_quality (ob_quality ob)"
| "compatible_kind Wind_Generation source (Generation_Row ob series fuel v) \<longleftrightarrow>
     ob_source_id ob = source \<and> series = ''WIND'' \<and> fuel = ''wind'' \<and> accepted_quality (ob_quality ob)"
| "compatible_kind National_Carbon_Intensity source (Carbon_Row ob region v) \<longleftrightarrow>
     ob_source_id ob = source \<and> region = ''GB'' \<and> ob_quality ob = Row_Estimated"
| "compatible_kind _ _ _ \<longleftrightarrow> False"

definition compatible_outturn :: "outturn_row \<Rightarrow> verification_target \<Rightarrow> bool" where
  "compatible_outturn row target \<longleftrightarrow>
     compatible_kind (vt_metric target) (vt_outturn_source_id target) row
     \<and> 0 \<le> ob_revision (row_observation row)
     \<and> (case row_value row of None \<Rightarrow> False | Some v \<Rightarrow> finite_nonneg v)"

definition map_forecast :: "forecast_row \<Rightarrow> forecast_evidence result" where
  "map_forecast row =
     rbind (aware (fo_issued_at row) ''issued_at'') (\<lambda>issued.
     rbind (aware (fo_retrieved_at row) ''retrieved_at'') (\<lambda>captured.
     rbind (aware (fo_valid_from row) ''valid_from'') (\<lambda>valid.
     mk_forecast_evidence (fo_id row) (Aware valid) (Aware issued) (Aware captured) (fo_value row) (fo_revision row))))"

definition map_outturn :: "outturn_row \<Rightarrow> outturn_evidence result" where
  "map_outturn row =
     (let ob = row_observation row in
      rbind (aware (ob_observed_at ob) ''observed_at'') (\<lambda>observed.
      rbind (aware (ob_retrieved_at ob) ''retrieved_at'') (\<lambda>retrieved.
      case row_value row of
        None \<Rightarrow> Inl (TypeError ''float() argument must be a string or a real number'')
      | Some v \<Rightarrow> mk_outturn_evidence (ob_id ob) (Aware observed) (Aware retrieved) v (ob_revision ob))))"

definition MAX_FORECAST_INPUT_ROWS :: nat where "MAX_FORECAST_INPUT_ROWS = 250000"
definition MAX_OUTTURN_INPUT_ROWS :: nat where "MAX_OUTTURN_INPUT_ROWS = 60000"
definition MAX_VERIFICATION_INPUT_WINDOW :: duration where "MAX_VERIFICATION_INPUT_WINDOW = 32 * day_len"

text \<open>
  The bounded read, over what the two statements of the repository return for the target and the
  window (in their order, cut at one row over the bound).
\<close>

definition load_inputs ::
  "(verification_target \<Rightarrow> instant \<Rightarrow> instant \<Rightarrow> nat \<Rightarrow> forecast_row list)
     \<Rightarrow> (verification_target \<Rightarrow> instant \<Rightarrow> instant \<Rightarrow> nat \<Rightarrow> outturn_row list)
     \<Rightarrow> verification_target \<Rightarrow> datetime \<Rightarrow> datetime
     \<Rightarrow> (forecast_evidence list \<times> outturn_evidence list) result" where
  "load_inputs forecast_query outturn_query target window_start window_end =
     rbind (aware window_start ''window_start'') (\<lambda>start.
     rbind (aware window_end ''window_end'') (\<lambda>finish.
     if finish \<le> start \<or> MAX_VERIFICATION_INPUT_WINDOW < finish - start
     then Inl (ValueError ''verification input window must be positive and bounded'')
     else
       let forecast_rows = forecast_query target start finish (MAX_FORECAST_INPUT_ROWS + 1)
       in if MAX_FORECAST_INPUT_ROWS < length forecast_rows
       then Inl (AppError ''VerificationInputLimitError''
                   ''forecast verification input exceeded its reviewed row bound'')
       else
         let outturn_rows = outturn_query target start finish (MAX_OUTTURN_INPUT_ROWS + 1)
         in if MAX_OUTTURN_INPUT_ROWS < length outturn_rows
         then Inl (AppError ''VerificationInputLimitError''
                     ''forecast outturn input exceeded its reviewed row bound'')
         else
           rbind (traverse map_forecast (filter (\<lambda>r. compatible_forecast r target) forecast_rows)) (\<lambda>fs.
           rbind (traverse map_outturn (filter (\<lambda>r. compatible_outturn r target) outturn_rows)) (\<lambda>rs.
           Inr (fs, rs)))))"

section \<open>Date ranges and requests\<close>

definition DEFAULT_VERIFICATION_DAYS :: int where "DEFAULT_VERIFICATION_DAYS = 28"
definition MAX_VERIFICATION_DAYS :: int where "MAX_VERIFICATION_DAYS = 31"
definition REFRESH_LATEST_DAYS :: int where "REFRESH_LATEST_DAYS = 7"
definition MAX_LONDON_HALF_HOURS_PER_DAY :: int where "MAX_LONDON_HALF_HOURS_PER_DAY = 50"
definition MAX_CAPTURE_VINTAGES_PER_VALID_TIME :: int where "MAX_CAPTURE_VINTAGES_PER_VALID_TIME = 96"

record date_range =
  dr_start :: date
  dr_end :: date

definition day_count :: "date_range \<Rightarrow> int" where
  "day_count r = dr_end r - dr_start r"

definition mk_date_range :: "py_day \<Rightarrow> py_day \<Rightarrow> date_range result" where
  "mk_date_range start finish =
     (case (start, finish) of
        (PyDate s, PyDate e) \<Rightarrow>
          if e \<le> s then Inl (ValueError ''verification end must be after start'')
          else let r = \<lparr>dr_start = s, dr_end = e\<rparr>
               in if MAX_VERIFICATION_DAYS < day_count r
                  then Inl (ValueError ''verification windows cannot exceed 31 completed days'')
                  else Inr r
      | _ \<Rightarrow> Inl (TypeError ''verification bounds must be dates''))"

definition start_utc :: "instant list \<Rightarrow> date_range \<Rightarrow> instant" where
  "start_utc tz r = local_to_utc tz (local_midnight (dr_start r))"

definition end_utc :: "instant list \<Rightarrow> date_range \<Rightarrow> instant" where
  "end_utc tz r = local_to_utc tz (local_midnight (dr_end r))"

definition VERIFICATION_METRICS :: "verification_metric list" where
  "VERIFICATION_METRICS = [National_Demand, Wind_Generation, National_Carbon_Intensity]"

record verification_request =
  vq_date_range :: date_range
  vq_metrics :: "verification_metric list"
  vq_dry_run :: bool
  vq_force :: bool
  vq_refresh_latest :: bool

definition validate_request :: "verification_request \<Rightarrow> verification_request result" where
  "validate_request q =
     (if vq_metrics q = [] \<or> \<not> distinct (vq_metrics q)
      then Inl (ValueError ''verification metrics must be non-empty and unique'')
      else if vq_refresh_latest q \<and> \<not> vq_force q
      then Inl (ValueError ''latest refresh must force checkpoint re-evaluation'')
      else Inr q)"

definition request_targets :: "verification_request \<Rightarrow> verification_target list" where
  "request_targets q = filter (\<lambda>t. vt_metric t \<in> set (vq_metrics q)) VERIFICATION_TARGETS"

definition resolve_date_range :: "int option \<Rightarrow> date option \<Rightarrow> date option \<Rightarrow> date \<Rightarrow> date_range result" where
  "resolve_date_range days start finish today =
     rbind (if start \<noteq> None \<or> finish \<noteq> None then
              if days \<noteq> None then Inl (ValueError ''--days cannot be combined with --start or --end'')
              else (case (start, finish) of
                      (Some s, Some e) \<Rightarrow> mk_date_range (PyDate s) (PyDate e)
                    | _ \<Rightarrow> Inl (ValueError ''--start and --end must be supplied together''))
            else
              let count = (case days of Some d \<Rightarrow> d | None \<Rightarrow> DEFAULT_VERIFICATION_DAYS)
              in if \<not> (1 \<le> count \<and> count \<le> MAX_VERIFICATION_DAYS)
                 then Inl (ValueError ''--days must be between 1 and 31'')
                 else mk_date_range (PyDate (today - count)) (PyDate today)) (\<lambda>resolved.
     if today < dr_end resolved
     then Inl (ValueError (''verification end cannot be later than today'' @ [CHR 0x27] @ ''s London date''))
     else Inr resolved)"

record cli_args =
  ca_days :: "int option"
  ca_start :: "date option"
  ca_end :: "date option"
  ca_metric :: "str list option"
  ca_dry_run :: bool
  ca_force :: bool
  ca_refresh_latest :: bool

definition request_from_args :: "cli_args \<Rightarrow> date \<Rightarrow> verification_request result" where
  "request_from_args args today =
     rbind (if ca_refresh_latest args then
              if ca_days args \<noteq> None \<or> ca_start args \<noteq> None \<or> ca_end args \<noteq> None
              then Inl (ValueError ''--refresh-latest cannot be combined with --days, --start, or --end'')
              else mk_date_range (PyDate (today - REFRESH_LATEST_DAYS)) (PyDate today)
            else resolve_date_range (ca_days args) (ca_start args) (ca_end args) today) (\<lambda>dates.
     let requested = (case ca_metric args of Some (m # ms) \<Rightarrow> m # ms | _ \<Rightarrow> map metric_value VERIFICATION_METRICS);
         metrics = filter (\<lambda>m. metric_value m \<in> set requested) VERIFICATION_METRICS
     in validate_request \<lparr>vq_date_range = dates, vq_metrics = metrics, vq_dry_run = ca_dry_run args,
          vq_force = (ca_force args \<or> ca_refresh_latest args),
          vq_refresh_latest = ca_refresh_latest args\<rparr>)"

definition conservative_carbon_forecast_row_bound :: "int \<Rightarrow> int result" where
  "conservative_carbon_forecast_row_bound days =
     (if \<not> (1 \<le> days \<and> days \<le> 366)
      then Inl (ValueError ''capacity estimate days must be between 1 and 366'')
      else Inr (days * MAX_LONDON_HALF_HOURS_PER_DAY * MAX_CAPTURE_VINTAGES_PER_VALID_TIME))"

definition verification_job_key :: "verification_target \<Rightarrow> date_range \<Rightarrow> str" where
  "verification_job_key target dates =
     (let metric = metric_value (vt_metric target);
          identity = VERIFICATION_REGISTRY_VERSION @ '':'' @ VERIFICATION_METHODOLOGY_VERSION @ '':''
            @ metric @ '':'' @ iso_date (dr_start dates) @ '':'' @ iso_date (dr_end dates)
      in ''forecast-verify:'' @ metric @ '':'' @ take 24 (sha256_hex identity))"

section \<open>The checkpoint table and the stored state\<close>

datatype checkpoint_status = Run_Running | Run_Succeeded | Run_Failed

record run_row =
  rr_job_key :: str
  rr_metric_id :: str
  rr_registry_version :: str
  rr_window_start_date :: date
  rr_window_end_date :: date
  rr_status :: checkpoint_status
  rr_attempt_count :: int
  rr_pairs_written :: int
  rr_results_written :: int
  rr_result_checksum :: "str option"
  rr_started_at :: instant
  rr_completed_at :: "instant option"
  rr_error_type :: "str option"

definition run_row_ok :: "run_row \<Rightarrow> bool" where
  "run_row_ok r \<longleftrightarrow>
     rr_window_start_date r < rr_window_end_date r
     \<and> 0 \<le> rr_attempt_count r \<and> 0 \<le> rr_pairs_written r \<and> 0 \<le> rr_results_written r
     \<and> (case rr_status r of
          Run_Running \<Rightarrow> rr_completed_at r = None \<and> rr_result_checksum r = None \<and> rr_error_type r = None
        | Run_Succeeded \<Rightarrow> rr_completed_at r \<noteq> None \<and> rr_result_checksum r \<noteq> None \<and> rr_error_type r = None
        | Run_Failed \<Rightarrow> rr_completed_at r \<noteq> None \<and> rr_result_checksum r = None \<and> rr_error_type r \<noteq> None)
     \<and> (case rr_result_checksum r of None \<Rightarrow> True | Some c \<Rightarrow> length c = 64)"

record verification_db =
  vd_pairs :: "stored_pair list"
  vd_results :: "stored_result list"
  vd_runs :: "(str, run_row) dict"

definition run_succeeded :: "verification_db \<Rightarrow> str \<Rightarrow> bool" where
  "run_succeeded db job_key = (map_option rr_status (lookup (vd_runs db) job_key) = Some Run_Succeeded)"

definition record_started :: "verification_db \<Rightarrow> str \<Rightarrow> verification_target \<Rightarrow> date_range \<Rightarrow> instant \<Rightarrow> verification_db" where
  "record_started db job_key target dates started_at =
     db\<lparr>vd_runs := store (vd_runs db) job_key
       (case lookup (vd_runs db) job_key of
          None \<Rightarrow> \<lparr>rr_job_key = job_key, rr_metric_id = metric_value (vt_metric target),
                   rr_registry_version = VERIFICATION_REGISTRY_VERSION,
                   rr_window_start_date = dr_start dates, rr_window_end_date = dr_end dates,
                   rr_status = Run_Running, rr_attempt_count = 1, rr_pairs_written = 0,
                   rr_results_written = 0, rr_result_checksum = None, rr_started_at = started_at,
                   rr_completed_at = None, rr_error_type = None\<rparr>
        | Some r \<Rightarrow> r\<lparr>rr_registry_version := VERIFICATION_REGISTRY_VERSION, rr_status := Run_Running,
                       rr_attempt_count := rr_attempt_count r + 1, rr_pairs_written := 0,
                       rr_results_written := 0, rr_result_checksum := None,
                       rr_started_at := started_at, rr_completed_at := None, rr_error_type := None\<rparr>)\<rparr>"

definition update_run :: "verification_db \<Rightarrow> str \<Rightarrow> (run_row \<Rightarrow> run_row) \<Rightarrow> verification_db" where
  "update_run db job_key f =
     (case lookup (vd_runs db) job_key of
        None \<Rightarrow> db | Some r \<Rightarrow> db\<lparr>vd_runs := store (vd_runs db) job_key (f r)\<rparr>)"

record persistence_outcome =
  po_pairs_inserted :: int
  po_pairs_unchanged :: int
  po_results_inserted :: int
  po_results_unchanged :: int

text \<open>One transaction: an error leaves the state as it was.\<close>

definition persist_success ::
  "verification_db \<Rightarrow> str \<Rightarrow> verification_bundle \<Rightarrow> instant \<Rightarrow> (verification_db \<times> persistence_outcome) result" where
  "persist_success db job_key bundle completed_at =
     rbind (append_pairs (vd_pairs db) bundle) (\<lambda>(pairs, pairs_inserted, pairs_unchanged).
     rbind (append_results (vd_results db) bundle completed_at) (\<lambda>(results, results_inserted, results_unchanged).
     Inr (update_run (db\<lparr>vd_pairs := pairs, vd_results := results\<rparr>) job_key
            (\<lambda>r. r\<lparr>rr_status := Run_Succeeded, rr_pairs_written := pairs_inserted,
                   rr_results_written := results_inserted,
                   rr_result_checksum := Some (result_checksum bundle),
                   rr_completed_at := Some completed_at, rr_error_type := None\<rparr>),
          \<lparr>po_pairs_inserted = pairs_inserted, po_pairs_unchanged = pairs_unchanged,
           po_results_inserted = results_inserted, po_results_unchanged = results_unchanged\<rparr>)))"

definition record_failure :: "verification_db \<Rightarrow> str \<Rightarrow> instant \<Rightarrow> str \<Rightarrow> verification_db" where
  "record_failure db job_key failed_at error_type =
     update_run db job_key (\<lambda>r. r\<lparr>rr_status := Run_Failed, rr_pairs_written := 0, rr_results_written := 0,
        rr_result_checksum := None, rr_completed_at := Some failed_at,
        rr_error_type := Some (take 120 (if error_type = [] then ''OperationFailed'' else error_type))\<rparr>)"

section \<open>The runner\<close>

datatype run_status = Planned | Succeeded | Skipped_Completed | Skipped_Locked | Failed

record run_outcome =
  ro_metric :: verification_metric
  ro_job_key :: str
  ro_status :: run_status
  ro_persistence :: "persistence_outcome option"
  ro_error_type :: "str option"

record verification_report =
  rp_request :: verification_request
  rp_outcomes :: "run_outcome list"

definition exit_code :: "verification_report \<Rightarrow> int" where
  "exit_code r = (if \<exists>oc \<in> set (rp_outcomes r). ro_status oc = Failed \<or> ro_status oc = Skipped_Locked then 1 else 0)"

text \<open>The outside world of a run: the locks it gets, the clock readings, and the loader.\<close>

record run_env =
  re_lock :: "str \<Rightarrow> bool"
  re_started_at :: "verification_target \<Rightarrow> datetime"
  re_completed_at :: "verification_target \<Rightarrow> datetime"
  re_failed_at :: "verification_target \<Rightarrow> datetime"
  re_load :: "verification_target \<Rightarrow> datetime \<Rightarrow> datetime \<Rightarrow> (forecast_evidence list \<times> outturn_evidence list) result"

definition clock_aware :: "datetime \<Rightarrow> instant result" where
  "clock_aware value = aware_utc ''verification clock must include a timezone'' value"

definition outcome_of :: "verification_target \<Rightarrow> str \<Rightarrow> run_status \<Rightarrow> run_outcome" where
  "outcome_of target job_key status =
     \<lparr>ro_metric = vt_metric target, ro_job_key = job_key, ro_status = status,
      ro_persistence = None, ro_error_type = None\<rparr>"

definition target_locks :: "verification_target \<Rightarrow> str list" where
  "target_locks target = sorted_set [''50hz:ingest:'' @ vt_forecast_ingestion_lock target,
                                     ''50hz:ingest:'' @ vt_outturn_ingestion_lock target]"

text \<open>The body of the \<open>try\<close> once the run is recorded as started.\<close>

definition verify_and_persist ::
  "run_env \<Rightarrow> instant list \<Rightarrow> verification_target \<Rightarrow> date_range \<Rightarrow> str \<Rightarrow> verification_db
     \<Rightarrow> (verification_db \<times> persistence_outcome) result" where
  "verify_and_persist env tz target dates job_key db =
     (let s = Aware (start_utc tz dates); e = Aware (end_utc tz dates) in
      rbind (re_load env target s e) (\<lambda>(forecasts, outturns).
      rbind (verify_forecasts target forecasts outturns s e) (\<lambda>bundle.
      rbind (clock_aware (re_completed_at env target)) (\<lambda>completed_at.
      persist_success db job_key bundle completed_at))))"

definition run_target ::
  "run_env \<Rightarrow> instant list \<Rightarrow> verification_request \<Rightarrow> verification_target \<Rightarrow> verification_db
     \<Rightarrow> verification_db \<times> run_outcome" where
  "run_target env tz request target db =
     (let dates = vq_date_range request;
          job_key = verification_job_key target dates
      in if \<not> vq_force request \<and> run_succeeded db job_key
         then (db, outcome_of target job_key Skipped_Completed)
         else if \<not> list_all (re_lock env) (target_locks target)
         then (db, outcome_of target job_key Skipped_Locked)
         else case clock_aware (re_started_at env target) of
           Inl e \<Rightarrow> (db, (outcome_of target job_key Failed)\<lparr>ro_error_type := Some (error_name e)\<rparr>)
         | Inr started_at \<Rightarrow>
             let db' = record_started db job_key target dates started_at
             in case verify_and_persist env tz target dates job_key db' of
                  Inr (db'', persistence) \<Rightarrow>
                    (db'', (outcome_of target job_key Succeeded)\<lparr>ro_persistence := Some persistence\<rparr>)
                | Inl e \<Rightarrow>
                    ((case clock_aware (re_failed_at env target) of
                        Inr failed_at \<Rightarrow> record_failure db' job_key failed_at (error_name e)
                      | Inl _ \<Rightarrow> db'),
                     (outcome_of target job_key Failed)\<lparr>ro_error_type := Some (error_name e)\<rparr>))"

fun run_targets ::
  "run_env \<Rightarrow> instant list \<Rightarrow> verification_request \<Rightarrow> verification_target list \<Rightarrow> verification_db
     \<Rightarrow> verification_db \<times> run_outcome list" where
  "run_targets env tz request [] db = (db, [])"
| "run_targets env tz request (t # ts) db =
     (case run_target env tz request t db of (db', oc) \<Rightarrow>
      case run_targets env tz request ts db' of (db'', outcomes) \<Rightarrow> (db'', oc # outcomes))"

definition run_request ::
  "run_env \<Rightarrow> instant list \<Rightarrow> verification_request \<Rightarrow> verification_db \<Rightarrow> verification_db \<times> verification_report" where
  "run_request env tz request db =
     (let outcomes = (\<lambda>status. map (\<lambda>t. outcome_of t (verification_job_key t (vq_date_range request)) status)
                               (request_targets request))
      in if vq_dry_run request
         then (db, \<lparr>rp_request = request, rp_outcomes = outcomes Planned\<rparr>)
         else if \<not> re_lock env (''50hz:forecast:verify:'' @ VERIFICATION_REGISTRY_VERSION)
         then (db, \<lparr>rp_request = request, rp_outcomes = outcomes Skipped_Locked\<rparr>)
         else case run_targets env tz request (request_targets request) db of
           (db', ocs) \<Rightarrow> (db', \<lparr>rp_request = request, rp_outcomes = ocs\<rparr>))"

section \<open>The report\<close>

fun run_status_value :: "run_status \<Rightarrow> str" where
  "run_status_value Planned = ''planned''"
| "run_status_value Succeeded = ''succeeded''"
| "run_status_value Skipped_Completed = ''skipped_completed''"
| "run_status_value Skipped_Locked = ''skipped_locked''"
| "run_status_value Failed = ''failed''"

definition status_counts :: "run_outcome list \<Rightarrow> (run_status \<times> int) list" where
  "status_counts outcomes =
     map (\<lambda>s. (s, int (length (filter (\<lambda>oc. ro_status oc = s) outcomes))))
       [Planned, Succeeded, Skipped_Completed, Skipped_Locked, Failed]"

definition report_lines :: "verification_report \<Rightarrow> str list" where
  "report_lines report =
     (let request = rp_request report; dates = vq_date_range request;
          mode = (if vq_dry_run request then ''DRY RUN'' else if vq_refresh_latest request then ''REFRESH'' else ''VERIFY'')
      in [mode @ '': '' @ iso_date (dr_start dates) @ '' to '' @ iso_date (dr_end dates) @ '' (exclusive), ''
            @ str_of_int (day_count dates) @ '' completed London days'',
          ''targets: '' @ join '', '' (map metric_value (vq_metrics request)),
          ''runs: '' @ join '', '' [run_status_value s @ ''='' @ str_of_int n. (s, n) \<leftarrow> status_counts (rp_outcomes report), n \<noteq> 0],
          ''pairing: exact stored vintages and exact reviewed outturn timestamps only'',
          ''bounds: at most '' @ str_of_int MAX_VERIFICATION_DAYS @ '' days, ''
            @ str_of_int (int MAX_FORECAST_INPUT_ROWS) @ '' forecast rows and ''
            @ str_of_int (int MAX_OUTTURN_INPUT_ROWS) @ '' outturn rows per target'',
          ''corrections: changed evidence appends pair and aggregate revisions; prior evidence is retained'',
          ''display: at least 100 verified samples and 90% compatible coverage'',
          if exit_code report = 0 then ''status: complete'' else ''status: incomplete''])"

definition render_report :: "verification_report \<Rightarrow> str" where
  "render_report report = join [CHR 0x0A] (report_lines report)"

section \<open>The loader keeps its word\<close>

lemma mk_forecast_nonneg: "mk_forecast_evidence i v s c x n = Inr f \<Longrightarrow> 0 \<le> fe_revision f"
  by (auto simp: mk_forecast_evidence_def rbind_eq_Inr split: option.splits if_splits)

lemma mk_outturn_nonneg: "mk_outturn_evidence i t r x n = Inr f \<Longrightarrow> 0 \<le> oe_revision f"
  by (auto simp: mk_outturn_evidence_def rbind_eq_Inr split: option.splits if_splits)

lemma traverse_results:
  assumes "traverse f xs = Inr ys" and "\<And>x y. x \<in> set xs \<Longrightarrow> f x = Inr y \<Longrightarrow> P y" and "y \<in> set ys"
  shows "P y"
proof -
  from assms(1) have "list_all2 (\<lambda>x y. f x = Inr y) xs ys" by (simp only: traverse_eq_Inr)
  moreover from assms(3) obtain i where i: "i < length ys" "ys ! i = y" by (auto simp: in_set_conv_nth)
  ultimately have "f (xs ! i) = Inr y" "i < length xs" using list_all2_nthD2 list_all2_lengthD by fastforce+
  then show ?thesis using assms(2) [of "xs ! i" y] by simp
qed

lemma load_inputs_Inr:
  assumes "load_inputs fq oq target ws we = Inr (fs, rs)"
  obtains s e where "ws = Aware s" and "we = Aware e"
    and "traverse map_forecast (filter (\<lambda>r. compatible_forecast r target) (fq target s e (MAX_FORECAST_INPUT_ROWS + 1))) = Inr fs"
    and "traverse map_outturn (filter (\<lambda>r. compatible_outturn r target) (oq target s e (MAX_OUTTURN_INPUT_ROWS + 1))) = Inr rs"
    and "length (fq target s e (MAX_FORECAST_INPUT_ROWS + 1)) \<le> MAX_FORECAST_INPUT_ROWS"
proof -
  from assms obtain s where s: "ws = Aware s"
    by (auto simp: load_inputs_def rbind_eq_Inr aware_def aware_utc_Inr)
  from assms obtain e where e: "we = Aware e"
    by (auto simp: load_inputs_def rbind_eq_Inr aware_def aware_utc_Inr)
  show thesis
    by (rule that [OF s e]) (use assms s e in
      \<open>auto simp: load_inputs_def rbind_eq_Inr aware_def Let_def split: if_splits\<close>)
qed

lemma load_inputs_ok:
  assumes "load_inputs fq oq target ws we = Inr (fs, rs)"
  shows "evidence_ok fs rs"
proof -
  obtain s e where
    f: "traverse map_forecast (filter (\<lambda>r. compatible_forecast r target) (fq target s e (MAX_FORECAST_INPUT_ROWS + 1))) = Inr fs"
    and r: "traverse map_outturn (filter (\<lambda>r. compatible_outturn r target) (oq target s e (MAX_OUTTURN_INPUT_ROWS + 1))) = Inr rs"
    and l: "length (fq target s e (MAX_FORECAST_INPUT_ROWS + 1)) \<le> MAX_FORECAST_INPUT_ROWS"
    using assms by (rule load_inputs_Inr)
  have "0 \<le> fe_revision x" if "x \<in> set fs" for x
    by (rule traverse_results [OF f _ that])
      (auto simp: map_forecast_def rbind_eq_Inr dest: mk_forecast_nonneg)
  moreover have "0 \<le> oe_revision x" if "x \<in> set rs" for x
    by (rule traverse_results [OF r _ that])
      (auto simp: map_outturn_def rbind_eq_Inr Let_def dest: mk_outturn_nonneg split: option.splits)
  moreover have "length fs \<le> MAX_FORECAST_INPUT_ROWS"
    using traverse_length [OF f] l length_filter_le [of "\<lambda>r. compatible_forecast r target"
      "fq target s e (MAX_FORECAST_INPUT_ROWS + 1)"] by linarith
  then have "length fs \<le> 250000" unfolding MAX_FORECAST_INPUT_ROWS_def .
  then have "int (length fs) < 2 ^ 40" by simp
  ultimately show ?thesis by (simp add: evidence_ok_def list_all_iff)
qed

section \<open>The state invariant\<close>

definition runs_ok :: "(str, run_row) dict \<Rightarrow> bool" where
  "runs_ok runs \<longleftrightarrow> (\<forall>k r. lookup runs k = Some r \<longrightarrow> rr_job_key r = k \<and> run_row_ok r)"

definition db_wf :: "verification_db \<Rightarrow> bool" where
  "db_wf db \<longleftrightarrow> pairs_wf (vd_pairs db) \<and> results_wf (vd_results db) \<and> runs_ok (vd_runs db)"

text \<open>Evidence only grows at the end, and a checkpoint never disappears.\<close>

definition db_extends :: "verification_db \<Rightarrow> verification_db \<Rightarrow> bool" where
  "db_extends db db' \<longleftrightarrow>
     (\<exists>ps. vd_pairs db' = vd_pairs db @ ps) \<and> (\<exists>rs. vd_results db' = vd_results db @ rs)
     \<and> (\<forall>k. lookup (vd_runs db) k \<noteq> None \<longrightarrow> lookup (vd_runs db') k \<noteq> None)"

lemma db_extends_refl [simp]: "db_extends db db"
  by (simp add: db_extends_def)

lemma db_extends_trans: "db_extends a b \<Longrightarrow> db_extends b c \<Longrightarrow> db_extends a c"
  by (auto simp: db_extends_def)

lemma runs_ok_store:
  "runs_ok runs \<Longrightarrow> rr_job_key r = k \<Longrightarrow> run_row_ok r \<Longrightarrow> runs_ok (store runs k r)"
  by (auto simp: runs_ok_def split: if_splits)

lemma record_started_ok:
  assumes "db_wf db" and "dr_start dates < dr_end dates"
  shows "db_wf (record_started db k t dates i)" and "db_extends db (record_started db k t dates i)"
    and "lookup (vd_runs (record_started db k t dates i)) k \<noteq> None"
    and "k' \<noteq> k \<Longrightarrow> lookup (vd_runs (record_started db k t dates i)) k' = lookup (vd_runs db) k'"
proof -
  have "runs_ok (vd_runs (record_started db k t dates i))"
  proof (cases "lookup (vd_runs db) k")
    case None
    then show ?thesis using assms
      by (auto simp: record_started_def db_wf_def run_row_ok_def intro!: runs_ok_store)
  next
    case (Some r)
    with assms(1) have "rr_job_key r = k" "run_row_ok r" by (auto simp: db_wf_def runs_ok_def)
    with Some assms show ?thesis
      by (auto simp: record_started_def db_wf_def run_row_ok_def intro!: runs_ok_store)
  qed
  then show "db_wf (record_started db k t dates i)" using assms(1) by (simp add: db_wf_def record_started_def)
  show "db_extends db (record_started db k t dates i)" by (simp add: db_extends_def record_started_def)
  show "lookup (vd_runs (record_started db k t dates i)) k \<noteq> None" by (simp add: record_started_def)
  show "k' \<noteq> k \<Longrightarrow> lookup (vd_runs (record_started db k t dates i)) k' = lookup (vd_runs db) k'"
    by (simp add: record_started_def)
qed

lemma update_run_ok:
  assumes "db_wf db" and "\<And>r. run_row_ok r \<Longrightarrow> run_row_ok (f r) \<and> rr_job_key (f r) = rr_job_key r"
  shows "db_wf (update_run db k f)" and "db_extends db (update_run db k f)"
    and "k' \<noteq> k \<Longrightarrow> lookup (vd_runs (update_run db k f)) k' = lookup (vd_runs db) k'"
    and "vd_pairs (update_run db k f) = vd_pairs db" and "vd_results (update_run db k f) = vd_results db"
proof -
  show "db_wf (update_run db k f)"
  proof (cases "lookup (vd_runs db) k")
    case (Some r)
    with assms(1) have "rr_job_key r = k" "run_row_ok r" by (auto simp: db_wf_def runs_ok_def)
    with Some assms show ?thesis by (auto simp: update_run_def db_wf_def intro!: runs_ok_store)
  qed (use assms(1) in \<open>simp add: update_run_def\<close>)
  show "db_extends db (update_run db k f)" by (auto simp: update_run_def db_extends_def split: option.split)
  show "k' \<noteq> k \<Longrightarrow> lookup (vd_runs (update_run db k f)) k' = lookup (vd_runs db) k'"
    by (simp add: update_run_def split: option.split)
  show "vd_pairs (update_run db k f) = vd_pairs db" "vd_results (update_run db k f) = vd_results db"
    by (simp_all add: update_run_def split: option.split)
qed

lemma record_failure_ok:
  assumes "db_wf db"
  shows "db_wf (record_failure db k i e)" and "db_extends db (record_failure db k i e)"
    and "k' \<noteq> k \<Longrightarrow> lookup (vd_runs (record_failure db k i e)) k' = lookup (vd_runs db) k'"
proof -
  have row: "run_row_ok (r\<lparr>rr_status := Run_Failed, rr_pairs_written := 0, rr_results_written := 0,
        rr_result_checksum := None, rr_completed_at := Some i, rr_error_type := Some x\<rparr>)
      \<and> rr_job_key (r\<lparr>rr_status := Run_Failed, rr_pairs_written := 0, rr_results_written := 0,
        rr_result_checksum := None, rr_completed_at := Some i, rr_error_type := Some x\<rparr>) = rr_job_key r"
    if "run_row_ok r" for r x
    using that by (simp add: run_row_ok_def)
  show "db_wf (record_failure db k i e)" "db_extends db (record_failure db k i e)"
    "k' \<noteq> k \<Longrightarrow> lookup (vd_runs (record_failure db k i e)) k' = lookup (vd_runs db) k'"
    unfolding record_failure_def using row by (intro update_run_ok [OF assms]; blast)+
qed

lemma result_checksum_length: "length (result_checksum b) = 64"
  by (simp add: result_checksum_def json_checksum_shape)

lemma persist_success_ok:
  assumes wf: "db_wf db" and st: "storable_bundle s e b" and k: "lookup (vd_runs db) k \<noteq> None"
  shows "\<exists>db' oc. persist_success db k b t = Inr (db', oc) \<and> db_wf db' \<and> db_extends db db'
     \<and> run_succeeded db' k \<and> (\<forall>k'. k' \<noteq> k \<longrightarrow> lookup (vd_runs db') k' = lookup (vd_runs db) k')
     \<and> map_option rr_result_checksum (lookup (vd_runs db') k) = Some (Some (result_checksum b))"
proof -
  from wf have p: "pairs_wf (vd_pairs db)" and r: "results_wf (vd_results db)" by (simp_all add: db_wf_def)
  let ?ps = "vd_pairs db @ new_pairs b (vd_pairs db)"
  let ?rs = "vd_results db @ new_results s e t b (vd_results db)"
  let ?db = "db\<lparr>vd_pairs := ?ps, vd_results := ?rs\<rparr>"
  let ?f = "\<lambda>r. r\<lparr>rr_status := Run_Succeeded, rr_pairs_written := int (length (new_pairs b (vd_pairs db))),
       rr_results_written := int (length (new_results s e t b (vd_results db))),
       rr_result_checksum := Some (result_checksum b), rr_completed_at := Some t, rr_error_type := None\<rparr>"
  note ap = append_pairs_appends [OF st p] and ar = append_results_appends [OF st r]
  have wf': "db_wf ?db" using wf ap(2) ar(2) by (simp add: db_wf_def)
  have f: "run_row_ok (?f x) \<and> rr_job_key (?f x) = rr_job_key x" if "run_row_ok x" for x
    using that by (simp add: run_row_ok_def result_checksum_length)
  note u = update_run_ok [OF wf', where f = ?f, OF f]
  from k obtain x where x: "lookup (vd_runs db) k = Some x" by blast
  have succ: "run_succeeded (update_run ?db k ?f) k"
    "map_option rr_result_checksum (lookup (vd_runs (update_run ?db k ?f)) k) = Some (Some (result_checksum b))"
    by (simp_all add: update_run_def x run_succeeded_def)
  have "db_extends db ?db" by (simp add: db_extends_def)
  from db_extends_trans [OF this u(2)] have ext: "db_extends db (update_run ?db k ?f)" .
  show ?thesis
    unfolding persist_success_def ap(1) ar(1) rbind_Inr prod.case
    using u(1) ext succ u(3) by (intro exI conjI; (rule refl)?; simp?)
qed

section \<open>One target\<close>

lemma targets_validated: "t \<in> set VERIFICATION_TARGETS \<Longrightarrow> validate_target t = Inr t"
proof -
  have "list_all (\<lambda>t. validate_target t = Inr t) VERIFICATION_TARGETS" by code_simp
  then show "t \<in> set VERIFICATION_TARGETS \<Longrightarrow> validate_target t = Inr t" by (simp add: list_all_iff)
qed

lemma request_targets_in: "t \<in> set (request_targets q) \<Longrightarrow> t \<in> set VERIFICATION_TARGETS"
  by (simp add: request_targets_def)

definition loads_evidence :: "run_env \<Rightarrow> verification_target \<Rightarrow> bool" where
  "loads_evidence env target \<longleftrightarrow>
     (\<forall>s e fs rs. re_load env target s e = Inr (fs, rs) \<longrightarrow> evidence_ok fs rs)"

text \<open>What a persisted verification leaves: the state, extended, with the checkpoint succeeded.\<close>

lemma verify_and_persist_ok:
  assumes "db_wf db" and "validate_target target = Inr target"
    and load: "loads_evidence env target"
    and k: "lookup (vd_runs db) k \<noteq> None"
    and v: "verify_and_persist env tz target dates k db = Inr (db', oc)"
  shows "db_wf db' \<and> db_extends db db' \<and> run_succeeded db' k
     \<and> (\<forall>k'. k' \<noteq> k \<longrightarrow> lookup (vd_runs db') k' = lookup (vd_runs db) k')"
proof -
  let ?s = "start_utc tz dates" and ?e = "end_utc tz dates"
  from v obtain fs rs b t where l: "re_load env target (Aware ?s) (Aware ?e) = Inr (fs, rs)"
    and b: "verify_forecasts target fs rs (Aware ?s) (Aware ?e) = Inr b"
    and p: "persist_success db k b t = Inr (db', oc)"
    by (auto simp: verify_and_persist_def Let_def rbind_eq_Inr)
  from load l have "evidence_ok fs rs" unfolding loads_evidence_def by blast
  from bundle_storable(1) [OF assms(2) this b] have st: "storable_bundle ?s ?e b" .
  from persist_success_ok [OF assms(1) st k, of t] p show ?thesis by auto
qed

lemma run_target_ok:
  assumes "db_wf db" and "validate_target target = Inr target"
    and load: "loads_evidence env target"
    and dates: "dr_start (vq_date_range q) < dr_end (vq_date_range q)"
    and run: "run_target env tz q target db = (db', oc)"
  shows "db_wf db' \<and> db_extends db db'
     \<and> (\<forall>k'. k' \<noteq> verification_job_key target (vq_date_range q) \<longrightarrow> lookup (vd_runs db') k' = lookup (vd_runs db) k')
     \<and> ro_metric oc = vt_metric target \<and> ro_job_key oc = verification_job_key target (vq_date_range q)
     \<and> (ro_status oc = Skipped_Locked \<longrightarrow> db' = db)
     \<and> (ro_status oc = Skipped_Completed \<longrightarrow> db' = db \<and> \<not> vq_force q)
     \<and> (ro_status oc = Succeeded \<or> ro_status oc = Skipped_Completed
          \<longrightarrow> run_succeeded db' (verification_job_key target (vq_date_range q)))
     \<and> ro_status oc \<noteq> Planned"
proof -
  let ?k = "verification_job_key target (vq_date_range q)"
  have outcome [simp]: "ro_metric (outcome_of target ?k s) = vt_metric target"
    "ro_job_key (outcome_of target ?k s) = ?k" "ro_status (outcome_of target ?k s) = s" for s
    by (simp_all add: outcome_of_def)
  show ?thesis
  proof (cases "\<not> vq_force q \<and> run_succeeded db ?k")
    case True
    with run show ?thesis using assms(1) by (auto simp: run_target_def Let_def)
  next
    case skip: False
    show ?thesis
    proof (cases "list_all (re_lock env) (target_locks target)")
      case False
      with skip run show ?thesis using assms(1) by (auto simp: run_target_def Let_def)
    next
      case locks: True
      show ?thesis
      proof (cases "clock_aware (re_started_at env target)")
        case (Inl e)
        with skip locks run show ?thesis using assms(1) by (auto simp: run_target_def Let_def)
      next
        case (Inr i)
        let ?db = "record_started db ?k target (vq_date_range q) i"
        note started = record_started_ok [OF assms(1) dates, where k = ?k and t = target and i = i]
        have run': "(db', oc) = (case verify_and_persist env tz target (vq_date_range q) ?k ?db of
            Inr (db'', persistence) \<Rightarrow>
              (db'', (outcome_of target ?k Succeeded)\<lparr>ro_persistence := Some persistence\<rparr>)
          | Inl e \<Rightarrow>
              ((case clock_aware (re_failed_at env target) of
                  Inr failed_at \<Rightarrow> record_failure ?db ?k failed_at (error_name e) | Inl _ \<Rightarrow> ?db),
               (outcome_of target ?k Failed)\<lparr>ro_error_type := Some (error_name e)\<rparr>))"
          using run skip locks Inr by (simp add: run_target_def Let_def)
        show ?thesis
        proof (cases "verify_and_persist env tz target (vq_date_range q) ?k ?db")
          case (Inl e)
          note failed = record_failure_ok [OF started(1), where k = ?k]
          from run' Inl show ?thesis
            using started failed db_extends_trans [OF started(2)]
            by (cases "clock_aware (re_failed_at env target)") auto
        next
          case (Inr r)
          obtain db2 po where r: "r = (db2, po)" by (cases r)
          from verify_and_persist_ok [OF started(1) assms(2) load started(3) Inr [unfolded r]]
          have "db_wf db2" "db_extends ?db db2" "run_succeeded db2 ?k"
            "\<forall>k'. k' \<noteq> ?k \<longrightarrow> lookup (vd_runs db2) k' = lookup (vd_runs ?db) k'" by blast+
          with run' Inr r show ?thesis
            using started db_extends_trans [OF started(2)] by auto
        qed
      qed
    qed
  qed
qed

lemma job_key_metric:
  assumes "verification_job_key t dates = verification_job_key t' dates"
  shows "vt_metric t = vt_metric t'"
proof -
  have "hd (drop 25 (verification_job_key t dates)) = hd (drop 25 (verification_job_key t' dates))"
    "hd (drop 16 (verification_job_key t dates)) = hd (drop 16 (verification_job_key t' dates))"
    by (simp_all only: assms)
  then show ?thesis
    by (cases "vt_metric t"; cases "vt_metric t'") (simp_all add: verification_job_key_def Let_def)
qed

text \<open>A run over several targets: each leaves the checkpoints of the others alone.\<close>

lemma run_targets_ok:
  assumes "db_wf db" and "list_all (\<lambda>t. validate_target t = Inr t) ts"
    and load: "\<And>t. loads_evidence env t"
    and dates: "dr_start (vq_date_range q) < dr_end (vq_date_range q)"
    and "distinct (map vt_metric ts)"
    and "run_targets env tz q ts db = (db', ocs)"
  shows "db_wf db' \<and> db_extends db db' \<and> map ro_metric ocs = map vt_metric ts
     \<and> (\<forall>k'. k' \<notin> (\<lambda>t. verification_job_key t (vq_date_range q)) ` set ts \<longrightarrow>
          lookup (vd_runs db') k' = lookup (vd_runs db) k')
     \<and> list_all2 (\<lambda>t oc. ro_job_key oc = verification_job_key t (vq_date_range q)
          \<and> ro_status oc \<noteq> Planned
          \<and> (ro_status oc = Succeeded \<or> ro_status oc = Skipped_Completed
               \<longrightarrow> run_succeeded db' (verification_job_key t (vq_date_range q)))) ts ocs"
  using assms(1,2,5,6)
proof (induction ts arbitrary: db ocs)
  case (Cons t ts)
  let ?key = "\<lambda>t. verification_job_key t (vq_date_range q)"
  obtain db1 oc where one: "run_target env tz q t db = (db1, oc)" by fastforce
  obtain db2 ocs' where rest: "run_targets env tz q ts db1 = (db2, ocs')" by fastforce
  from Cons.prems(4) one rest have eq: "db' = db2" "ocs = oc # ocs'" by simp_all
  from Cons.prems(2) have t: "validate_target t = Inr t" by simp
  note first = run_target_ok [OF Cons.prems(1) t load dates one]
  then have wf1: "db_wf db1" by simp
  have IH: "db_wf db2 \<and> db_extends db1 db2 \<and> map ro_metric ocs' = map vt_metric ts
     \<and> (\<forall>k'. k' \<notin> ?key ` set ts \<longrightarrow> lookup (vd_runs db2) k' = lookup (vd_runs db1) k')
     \<and> list_all2 (\<lambda>t oc. ro_job_key oc = ?key t \<and> ro_status oc \<noteq> Planned
          \<and> (ro_status oc = Succeeded \<or> ro_status oc = Skipped_Completed \<longrightarrow> run_succeeded db2 (?key t))) ts ocs'"
    using Cons.IH [OF wf1 _ _ rest [folded eq(1)]] Cons.prems(2,3) unfolding eq by simp
  have "?key t \<noteq> ?key u" if "u \<in> set ts" for u
  proof
    assume "?key t = ?key u"
    from job_key_metric [OF this] that Cons.prems(3) show False by simp
  qed
  then have "?key t \<notin> ?key ` set ts" by (intro notin_imageI) (metis)
  with IH have keep: "lookup (vd_runs db2) (?key t) = lookup (vd_runs db1) (?key t)" by blast
  have "run_succeeded db2 (?key t) = run_succeeded db1 (?key t)" by (simp add: run_succeeded_def keep)
  with first have head: "ro_metric oc = vt_metric t" "ro_job_key oc = ?key t" "ro_status oc \<noteq> Planned"
    "ro_status oc = Succeeded \<or> ro_status oc = Skipped_Completed \<longrightarrow> run_succeeded db2 (?key t)" by blast+
  have "lookup (vd_runs db2) k' = lookup (vd_runs db) k'" if "k' \<notin> ?key ` set (t # ts)" for k'
    using that IH first by simp
  moreover have "db_extends db db2" using IH first db_extends_trans [of db db1 db2] by simp
  ultimately show ?case unfolding eq list.map list_all2_Cons using IH head by blast
qed simp

section \<open>Properties\<close>

lemma run_request_ok:
  assumes "db_wf db" and load: "\<And>t. loads_evidence env t"
    and dates: "dr_start (vq_date_range q) < dr_end (vq_date_range q)"
    and run: "run_request env tz q db = (db', report)"
  shows "db_wf db' \<and> db_extends db db' \<and> rp_request report = q
     \<and> map ro_metric (rp_outcomes report) = map vt_metric (request_targets q)
     \<and> (vq_dry_run q \<longrightarrow> db' = db)
     \<and> list_all2 (\<lambda>t oc. ro_job_key oc = verification_job_key t (vq_date_range q)
          \<and> (ro_status oc = Succeeded \<or> ro_status oc = Skipped_Completed
               \<longrightarrow> run_succeeded db' (verification_job_key t (vq_date_range q)))) (request_targets q) (rp_outcomes report)
     \<and> (exit_code report = 0 \<and> \<not> vq_dry_run q \<longrightarrow>
          (\<forall>t \<in> set (request_targets q). run_succeeded db' (verification_job_key t (vq_date_range q))))"
proof -
  let ?key = "\<lambda>t. verification_job_key t (vq_date_range q)" and ?ts = "request_targets q"
  let ?static = "\<lambda>status. map (\<lambda>t. outcome_of t (?key t) status) ?ts"
  have static: "map ro_metric (?static st) = map vt_metric ?ts"
    "list_all2 (\<lambda>t oc. ro_job_key oc = ?key t \<and> ro_status oc = st) ?ts (?static st)" for st
    by (simp_all add: outcome_of_def list_all2_conv_all_nth)
  have quiet: "list_all2 (\<lambda>t oc. ro_job_key oc = ?key t
      \<and> (ro_status oc = Succeeded \<or> ro_status oc = Skipped_Completed \<longrightarrow> run_succeeded db' (?key t))) ?ts (?static st)"
    if "st \<noteq> Succeeded" "st \<noteq> Skipped_Completed" for st
    using static(2) [of st] by (rule list_all2_mono) (use that in auto)
  show ?thesis
  proof (cases "vq_dry_run q")
    case True
    with run have "db' = db" "report = \<lparr>rp_request = q, rp_outcomes = ?static Planned\<rparr>"
      by (simp_all add: run_request_def Let_def)
    with assms(1) static(1) quiet [of Planned] True show ?thesis by simp
  next
    case wet: False
    show ?thesis
    proof (cases "re_lock env (''50hz:forecast:verify:'' @ VERIFICATION_REGISTRY_VERSION)")
      case False
      with run wet have eq: "db' = db" "report = \<lparr>rp_request = q, rp_outcomes = ?static Skipped_Locked\<rparr>"
        by (simp_all add: run_request_def Let_def)
      have "exit_code report = 1" if "?ts \<noteq> []"
        using that by (cases ?ts) (simp_all add: eq exit_code_def outcome_of_def)
      then have clear: "exit_code report = 0 \<longrightarrow> (\<forall>t \<in> set ?ts. run_succeeded db (?key t))"
        by (cases "?ts = []") auto
      have rq: "rp_request report = q" "rp_outcomes report = ?static Skipped_Locked" by (simp_all add: eq)
      have "list_all2 (\<lambda>t oc. ro_job_key oc = ?key t
          \<and> (ro_status oc = Succeeded \<or> ro_status oc = Skipped_Completed \<longrightarrow> run_succeeded db (?key t))) ?ts (?static Skipped_Locked)"
        using quiet [of Skipped_Locked] by (simp add: eq(1))
      with assms(1) static(1) [of Skipped_Locked] wet clear show ?thesis
        unfolding rq eq(1) using db_extends_refl by blast
    next
      case True
      obtain db2 ocs where r: "run_targets env tz q ?ts db = (db2, ocs)" by fastforce
      with run wet True have eq: "db' = db2" "report = \<lparr>rp_request = q, rp_outcomes = ocs\<rparr>"
        by (simp_all add: run_request_def Let_def)
      have v: "list_all (\<lambda>t. validate_target t = Inr t) ?ts"
        using targets_validated request_targets_in by (auto simp: list_all_iff)
      have "distinct (map vt_metric VERIFICATION_TARGETS)" by code_simp
      then have d: "distinct (map vt_metric ?ts)" unfolding request_targets_def by (rule distinct_map_filter)
      note ok = run_targets_ok [OF assms(1) v load dates d r]
      then have l2: "list_all2 (\<lambda>t oc. ro_job_key oc = ?key t \<and> ro_status oc \<noteq> Planned
          \<and> (ro_status oc = Succeeded \<or> ro_status oc = Skipped_Completed \<longrightarrow> run_succeeded db2 (?key t))) ?ts ocs"
        by blast
      have "run_succeeded db2 (?key t)" if "exit_code report = 0" and t: "t \<in> set ?ts" for t
      proof -
        from t obtain i where i: "i < length ?ts" "?ts ! i = t" by (auto simp: in_set_conv_nth)
        define oc where "oc = ocs ! i"
        from list_all2_nthD [OF l2 i(1)] i list_all2_lengthD [OF l2]
        have oc: "oc \<in> set ocs" "ro_status oc \<noteq> Planned"
          "ro_status oc = Succeeded \<or> ro_status oc = Skipped_Completed \<longrightarrow> run_succeeded db2 (?key t)"
          by (simp_all add: oc_def)
        from that(1) oc(1) have "ro_status oc \<noteq> Failed" "ro_status oc \<noteq> Skipped_Locked"
          by (auto simp: exit_code_def eq split: if_splits)
        with oc(2,3) show ?thesis by (cases "ro_status oc") auto
      qed
      moreover have "list_all2 (\<lambda>t oc. ro_job_key oc = ?key t
          \<and> (ro_status oc = Succeeded \<or> ro_status oc = Skipped_Completed \<longrightarrow> run_succeeded db2 (?key t))) ?ts ocs"
        using l2 by (rule list_all2_mono) blast
      ultimately show ?thesis using ok wet eq by simp
    qed
  qed
qed

lemma loader_trusted:
  assumes "re_load env = load_inputs fq oq"
  shows "loads_evidence env t"
  unfolding loads_evidence_def assms using load_inputs_ok by blast

text \<open>C32: Whatever the locks, the clock, the stored observations and the faults of a run, the job
  leaves the tables within their constraints, appends evidence without changing or losing a row,
  reports one outcome per requested target in order, and its exit code is zero only when every
  requested target is verified for the range.\<close>

theorem verification_job_keeps_state:
  assumes "db_wf db" and "re_load env = load_inputs fq oq"
    and "dr_start (vq_date_range q) < dr_end (vq_date_range q)"
    and "run_request env tz q db = (db', report)"
  shows "db_wf db' \<and> db_extends db db'
     \<and> map ro_metric (rp_outcomes report) = map vt_metric (request_targets q)
     \<and> (vq_dry_run q \<longrightarrow> db' = db)
     \<and> (exit_code report = 0 \<and> \<not> vq_dry_run q \<longrightarrow>
          list_all (\<lambda>t. run_succeeded db' (verification_job_key t (vq_date_range q))) (request_targets q))"
  using run_request_ok [OF assms(1) loader_trusted [OF assms(2)] assms(3,4)]
  by (simp add: list_all_iff)

definition example_db :: verification_db where
  "example_db = \<lparr>vd_pairs = [], vd_results = [], vd_runs = []\<rparr>"

definition example_request :: verification_request where
  "example_request = \<lparr>vq_date_range = \<lparr>dr_start = 20640, dr_end = 20641\<rparr>, vq_metrics = [National_Demand],
     vq_dry_run = False, vq_force = False, vq_refresh_latest = False\<rparr>"

definition example_env :: run_env where
  "example_env = \<lparr>re_lock = (\<lambda>name. True), re_started_at = (\<lambda>t. Aware 0), re_completed_at = (\<lambda>t. Aware 1),
     re_failed_at = (\<lambda>t. Aware 1), re_load = load_inputs (\<lambda>t s e n. []) (\<lambda>t s e n. [])\<rparr>"

lemma example_db_wf: "db_wf example_db"
  by (simp add: example_db_def db_wf_def pairs_wf_def results_wf_def runs_ok_def)

theorem verification_job_keeps_state_witness:
  "db_wf (fst (run_request example_env gb_transitions example_request example_db))"
  using verification_job_keeps_state [OF example_db_wf, of example_env "\<lambda>t s e n. []" "\<lambda>t s e n. []" example_request
      gb_transitions "fst (run_request example_env gb_transitions example_request example_db)"
      "snd (run_request example_env gb_transitions example_request example_db)"]
  by (simp add: example_env_def example_request_def)

text \<open>A completed target is skipped by a run that does not force.\<close>

lemma run_targets_skip:
  assumes "\<not> vq_force q"
    and "list_all (\<lambda>t. run_succeeded db (verification_job_key t (vq_date_range q))) ts"
  shows "run_targets env tz q ts db
    = (db, map (\<lambda>t. outcome_of t (verification_job_key t (vq_date_range q)) Skipped_Completed) ts)"
  using assms(2)
proof (induction ts)
  case (Cons t ts)
  then have "run_target env tz q t db
      = (db, outcome_of t (verification_job_key t (vq_date_range q)) Skipped_Completed)"
    using assms(1) by (simp add: run_target_def Let_def)
  with Cons show ?case by simp
qed simp

text \<open>C33: The job is resumable: once a run of a request has ended with exit code zero, every later
  run of it that gets the global lock and does not force leaves the tables as they are, skips
  every target as completed and ends with exit code zero, whatever has become of the loader, the
  clock and the ingestion locks.\<close>

theorem verification_job_resumes:
  assumes "db_wf db" and "re_load env = load_inputs fq oq"
    and "dr_start (vq_date_range q) < dr_end (vq_date_range q)" and "\<not> vq_dry_run q"
    and "run_request env tz q db = (db', report)" and "exit_code report = 0"
    and "vq_date_range q' = vq_date_range q" and "vq_metrics q' = vq_metrics q"
    and "\<not> vq_force q'" and "\<not> vq_dry_run q'"
    and "re_lock env' (''50hz:forecast:verify:'' @ VERIFICATION_REGISTRY_VERSION)"
  shows "\<exists>report'. run_request env' tz' q' db' = (db', report') \<and> exit_code report' = 0
     \<and> list_all (\<lambda>oc. ro_status oc = Skipped_Completed) (rp_outcomes report')"
proof -
  have same: "request_targets q' = request_targets q" by (simp add: request_targets_def assms(8))
  have "list_all (\<lambda>t. run_succeeded db' (verification_job_key t (vq_date_range q'))) (request_targets q')"
    using run_request_ok [OF assms(1) loader_trusted [OF assms(2)] assms(3,5)] assms(4,6,7)
    by (simp add: list_all_iff same)
  from run_targets_skip [OF assms(9) this, of env' tz'] assms(10,11)
  have "run_request env' tz' q' db' = (db', \<lparr>rp_request = q', rp_outcomes =
      map (\<lambda>t. outcome_of t (verification_job_key t (vq_date_range q')) Skipped_Completed) (request_targets q')\<rparr>)"
    by (simp add: run_request_def Let_def)
  then show ?thesis by (simp add: exit_code_def list_all_iff outcome_of_def)
qed

lemma utc_window:
  assumes "dr_start d < dr_end d"
  shows "start_utc tz d < end_utc tz d"
proof -
  have "dr_start d + 1 \<le> dr_end d" using assms by simp
  then have "(dr_start d + 1) * day_len \<le> dr_end d * day_len" by (rule mult_right_mono) (simp add: time_defs)
  then show ?thesis
    by (simp add: start_utc_def end_utc_def local_to_utc_def local_midnight_def time_defs)
qed

text \<open>A target that is due, with its locks free and a clock that knows its time zone.\<close>

definition target_due :: "run_env \<Rightarrow> verification_request \<Rightarrow> verification_target \<Rightarrow> verification_db \<Rightarrow> bool" where
  "target_due env q t db \<longleftrightarrow>
     (vq_force q \<or> \<not> run_succeeded db (verification_job_key t (vq_date_range q)))
     \<and> list_all (re_lock env) (target_locks t)
     \<and> isl (clock_aware (re_started_at env t)) = False \<and> isl (clock_aware (re_completed_at env t)) = False
     \<and> isl (clock_aware (re_failed_at env t)) = False"

lemma target_due_clocks:
  assumes "target_due env q t db"
  obtains i c f where "clock_aware (re_started_at env t) = Inr i" and "clock_aware (re_completed_at env t) = Inr c"
    and "clock_aware (re_failed_at env t) = Inr f"
proof -
  have inr: "isl x = False \<Longrightarrow> \<exists>y. x = Inr y" for x :: "instant result" by (cases x) auto
  from assms have "isl (clock_aware (re_started_at env t)) = False" "isl (clock_aware (re_completed_at env t)) = False"
    "isl (clock_aware (re_failed_at env t)) = False" by (simp_all add: target_due_def)
  from this [THEN inr] that show thesis by auto
qed

lemma run_target_due:
  assumes "target_due env q t db" and "clock_aware (re_started_at env t) = Inr i"
  shows "run_target env tz q t db =
     (let k = verification_job_key t (vq_date_range q);
          db1 = record_started db k t (vq_date_range q) i
      in case verify_and_persist env tz t (vq_date_range q) k db1 of
           Inr (db2, po) \<Rightarrow> (db2, (outcome_of t k Succeeded)\<lparr>ro_persistence := Some po\<rparr>)
         | Inl e \<Rightarrow> ((case clock_aware (re_failed_at env t) of
                        Inr failed_at \<Rightarrow> record_failure db1 k failed_at (error_name e) | Inl _ \<Rightarrow> db1),
                     (outcome_of t k Failed)\<lparr>ro_error_type := Some (error_name e)\<rparr>))"
  using assms by (auto simp: run_target_def Let_def target_due_def)

lemma completed_status:
  assumes "db_wf db" and "t \<in> set VERIFICATION_TARGETS"
    and "dr_start (vq_date_range q) < dr_end (vq_date_range q)" and "target_due env q t db"
    and "loads_evidence env t"
    and l: "re_load env t (Aware (start_utc tz (vq_date_range q))) (Aware (end_utc tz (vq_date_range q))) = Inr (fs, rs)"
    and run: "run_target env tz q t db = (db', oc)"
  shows "ro_status oc = Succeeded \<and> run_succeeded db' (verification_job_key t (vq_date_range q))"
proof -
  let ?dates = "vq_date_range q" let ?k = "verification_job_key t ?dates"
  let ?s = "start_utc tz ?dates" and ?e = "end_utc tz ?dates"
  obtain i c f where clocks: "clock_aware (re_started_at env t) = Inr i" "clock_aware (re_completed_at env t) = Inr c"
    "clock_aware (re_failed_at env t) = Inr f" by (rule target_due_clocks [OF assms(4)])
  let ?db = "record_started db ?k t ?dates i"
  note started = record_started_ok [OF assms(1,3), where k = ?k and t = t and i = i]
  have ok: "evidence_ok fs rs" using assms(5) l by (auto simp: loads_evidence_def)
  note v = targets_validated [OF assms(2)]
  from verify_total [of t ?s ?e fs rs] validated_basis [OF v] utc_window [OF assms(3)]
  obtain b where b: "verify_forecasts t fs rs (Aware ?s) (Aware ?e) = Inr b" by blast
  from persist_success_ok [OF started(1) bundle_storable(1) [OF v ok b] started(3), of c] obtain db2 po where
    p: "persist_success ?db ?k b c = Inr (db2, po)" "run_succeeded db2 ?k" by blast
  have "verify_and_persist env tz t ?dates ?k ?db = Inr (db2, po)"
    by (simp add: verify_and_persist_def Let_def l b clocks(2) p(1))
  with run [unfolded run_target_due [OF assms(4) clocks(1)] Let_def]
  have "db' = db2" "oc = (outcome_of t ?k Succeeded)\<lparr>ro_persistence := Some po\<rparr>" by simp_all
  with p(2) show ?thesis by (simp add: outcome_of_def)
qed

text \<open>A due target ends as its loader does.  When the loader returns evidence the run succeeds:
  verification and persistence raise nothing, and the checkpoint of the job says so.  When the
  loader raises, the outcome is a failure with the name of the error, the checkpoint records it,
  and no evidence is written.\<close>

theorem verification_target_answers:
  assumes "db_wf db" and "t \<in> set VERIFICATION_TARGETS"
    and "dr_start (vq_date_range q) < dr_end (vq_date_range q)" and "target_due env q t db"
    and "loads_evidence env t"
    and "loaded = re_load env t (Aware (start_utc tz (vq_date_range q))) (Aware (end_utc tz (vq_date_range q)))"
    and "run_target env tz q t db = (db', oc)"
  shows "case loaded of
      Inr evidence \<Rightarrow> ro_status oc = Succeeded \<and> run_succeeded db' (verification_job_key t (vq_date_range q))
    | Inl e \<Rightarrow> ro_status oc = Failed \<and> ro_error_type oc = Some (error_name e)
        \<and> vd_pairs db' = vd_pairs db \<and> vd_results db' = vd_results db
        \<and> map_option rr_status (lookup (vd_runs db') (verification_job_key t (vq_date_range q))) = Some Run_Failed"
proof -
  let ?dates = "vq_date_range q" let ?k = "verification_job_key t ?dates"
  let ?s = "start_utc tz ?dates" and ?e = "end_utc tz ?dates"
  obtain i c f where clocks: "clock_aware (re_started_at env t) = Inr i" "clock_aware (re_completed_at env t) = Inr c"
    "clock_aware (re_failed_at env t) = Inr f" by (rule target_due_clocks [OF assms(4)])
  let ?db = "record_started db ?k t ?dates i"
  note started = record_started_ok [OF assms(1,3), where k = ?k and t = t and i = i]
  note run = assms(7) [unfolded run_target_due [OF assms(4) clocks(1)] Let_def]
  show ?thesis
  proof (cases loaded)
    case (Inl e)
    then have "verify_and_persist env tz t ?dates ?k ?db = Inl e"
      using assms(6) by (simp add: verify_and_persist_def Let_def)
    with run clocks(3) have eq: "db' = record_failure ?db ?k f (error_name e)"
      "oc = (outcome_of t ?k Failed)\<lparr>ro_error_type := Some (error_name e)\<rparr>" by simp_all
    from started(3) obtain r where r: "lookup (vd_runs ?db) ?k = Some r" by blast
    have "vd_pairs ?db = vd_pairs db" "vd_results ?db = vd_results db" by (simp_all add: record_started_def)
    then show ?thesis unfolding eq using Inl
      by (simp add: record_failure_def update_run_def r outcome_of_def)
  next
    case (Inr evidence)
    obtain fs rs where "evidence = (fs, rs)" by (cases evidence)
    with Inr assms(6) have "re_load env t (Aware ?s) (Aware ?e) = Inr (fs, rs)" by simp
    from completed_status [OF assms(1-5) this assms(7)] Inr show ?thesis by simp
  qed
qed

lemma example_load:
  "re_load example_env t (Aware (start_utc gb_transitions (vq_date_range example_request)))
     (Aware (end_utc gb_transitions (vq_date_range example_request))) = Inr ([], [])"
proof -
  have "0 < end_utc gb_transitions (vq_date_range example_request) - start_utc gb_transitions (vq_date_range example_request)
      \<and> end_utc gb_transitions (vq_date_range example_request) - start_utc gb_transitions (vq_date_range example_request)
        \<le> MAX_VERIFICATION_INPUT_WINDOW"
    by code_simp
  then show ?thesis
    by (simp add: example_env_def load_inputs_def aware_def Let_def)
qed

lemma example_due: "target_due example_env example_request t example_db"
  by (simp add: target_due_def example_env_def example_request_def example_db_def run_succeeded_def
      clock_aware_def list_all_iff)

lemma example_dates: "dr_start (vq_date_range example_request) < dr_end (vq_date_range example_request)"
  by (simp add: example_request_def)

theorem verification_target_answers_witness:
  "ro_status (snd (run_target example_env gb_transitions example_request demand_target example_db)) = Succeeded"
proof -
  have "demand_target \<in> set VERIFICATION_TARGETS" by (simp add: VERIFICATION_TARGETS_def)
  moreover have "loads_evidence example_env demand_target"
    by (rule loader_trusted) (simp add: example_env_def)
  ultimately show ?thesis
    using verification_target_answers [OF example_db_wf _ example_dates example_due, of demand_target
        "Inr ([], [])" gb_transitions "fst (run_target example_env gb_transitions example_request demand_target example_db)"
        "snd (run_target example_env gb_transitions example_request demand_target example_db)"]
    by (simp add: example_load)
qed

lemma example_sel:
  "\<not> vq_dry_run example_request" "\<not> vq_force example_request" "re_lock example_env name"
  "re_load example_env = load_inputs (\<lambda>t s e n. []) (\<lambda>t s e n. [])"
  by (simp_all add: example_request_def example_env_def)

theorem verification_job_resumes_witness:
  "\<exists>report'. exit_code report' = 0 \<and> list_all (\<lambda>oc. ro_status oc = Skipped_Completed) (rp_outcomes report')
     \<and> run_request example_env gb_transitions example_request
         (fst (run_request example_env gb_transitions example_request example_db))
       = (fst (run_request example_env gb_transitions example_request example_db), report')"
proof -
  obtain db' report where run: "run_request example_env gb_transitions example_request example_db = (db', report)"
    by fastforce
  have ts: "request_targets example_request = [demand_target]"
    by code_simp
  obtain db1 oc where one: "run_target example_env gb_transitions example_request demand_target example_db = (db1, oc)"
    by fastforce
  have "demand_target \<in> set VERIFICATION_TARGETS" by (simp add: VERIFICATION_TARGETS_def)
  from completed_status [OF example_db_wf this example_dates example_due loader_trusted [where env = example_env] example_load one]
  have "ro_status oc = Succeeded" by (simp add: example_sel)
  moreover from run one have "rp_outcomes report = [oc]"
    by (auto simp: run_request_def ts Let_def example_sel)
  ultimately have "exit_code report = 0" by (simp add: exit_code_def)
  from verification_job_resumes [OF example_db_wf _ example_dates _ run this, of "\<lambda>t s e n. []" "\<lambda>t s e n. []"
      example_request example_env gb_transitions] run
  show ?thesis by (auto simp: example_sel)
qed

end
