(* ===== verification/Verification_Api.thy ===== *)
theory Verification_Api
  imports Verification_Job
begin

text \<open>
  The public answer on forecast verification (app/forecast_verification/api.py over the response
  models of app/forecast_verification/models.py): the gate a stored row has to pass, and the item
  that is shown for a metric and a horizon.  Rows are those of the table of results; the validation
  of the response models runs in the model.
\<close>

section \<open>Response models\<close>

record horizon_definition =
  hd_id :: str
  hd_minimum_hours :: int
  hd_maximum_hours :: int

record verification_source =
  vs_source_id :: str
  vs_dataset :: str
  vs_methodology_version :: str
  vs_fact_class :: str

record verification_item =
  vi_metric :: verification_metric
  vi_display_name :: str
  vi_unit :: str
  vi_expected_interval_minutes :: int
  vi_horizon :: horizon_definition
  vi_status :: verification_status
  vi_reason :: str
  vi_mae :: "rat option"
  vi_bias :: "rat option"
  vi_wape_percent :: "rat option"
  vi_verified_samples :: int
  vi_expected_samples :: int
  vi_coverage :: rat
  vi_verification_window :: "(instant \<times> instant) option"
  vi_issue_time_basis :: str
  vi_effective_vintage_time_basis :: str
  vi_forecast :: verification_source
  vi_outturn :: verification_source
  vi_registry_version :: str
  vi_verification_methodology_version :: str
  vi_evidence_checksum :: "str option"
  vi_revision :: "int option"
  vi_computed_at :: "instant option"
  vi_source_watermark_at :: "instant option"

definition mk_horizon_definition :: "str \<Rightarrow> int \<Rightarrow> int \<Rightarrow> horizon_definition result" where
  "mk_horizon_definition i lo hi =
     (if 0 \<le> lo \<and> lo \<le> 48 \<and> 0 < hi \<and> hi \<le> 48
      then Inr \<lparr>hd_id = i, hd_minimum_hours = lo, hd_maximum_hours = hi\<rparr>
      else Inl (ValueError ''hours''))"

definition validate_item :: "verification_item \<Rightarrow> verification_item result" where
  "validate_item x =
     (if \<not> (0 < vi_expected_interval_minutes x \<and> vi_expected_interval_minutes x \<le> 60)
      then Inl (ValueError ''expected_interval_minutes'')
      else if \<not> (case vi_mae x of None \<Rightarrow> True | Some v \<Rightarrow> 0 \<le> v) then Inl (ValueError ''mae'')
      else if \<not> (case vi_wape_percent x of None \<Rightarrow> True | Some v \<Rightarrow> 0 \<le> v) then Inl (ValueError ''wape_percent'')
      else if vi_verified_samples x < 0 then Inl (ValueError ''verified_samples'')
      else if vi_expected_samples x < 0 then Inl (ValueError ''expected_samples'')
      else if \<not> (0 \<le> vi_coverage x \<and> vi_coverage x \<le> 1) then Inl (ValueError ''coverage'')
      else if \<not> (case vi_evidence_checksum x of None \<Rightarrow> True | Some c \<Rightarrow> length c = 64)
      then Inl (ValueError ''evidence_checksum'')
      else if \<not> (case vi_revision x of None \<Rightarrow> True | Some r \<Rightarrow> 0 \<le> r) then Inl (ValueError ''revision'')
      else Inr x)"

record verification_response =
  vx_generated_at :: "instant option"
  vx_results :: "verification_item list"

section \<open>The gate\<close>

definition metric_of :: "str \<Rightarrow> verification_metric option" where
  "metric_of s = find (\<lambda>m. metric_value m = s) VERIFICATION_METRICS"

definition bucket_named :: "str \<Rightarrow> horizon_bucket option" where
  "bucket_named s = find (\<lambda>b. bucket_value b = s) HORIZON_BUCKETS"

fun target_of :: "verification_metric \<Rightarrow> verification_target" where
  "target_of National_Demand = demand_target"
| "target_of Wind_Generation = wind_target"
| "target_of National_Carbon_Intensity = carbon_target"

text \<open>\<open>math.isclose\<close> with its default tolerances.\<close>

definition isclose :: "rat \<Rightarrow> rat \<Rightarrow> bool" where
  "isclose a b \<longleftrightarrow> a = b \<or>
     (let diff = \<bar>fsub b a\<bar>; rel = fl (1 / 10 ^ 9)
      in diff \<le> \<bar>fmul rel b\<bar> \<or> diff \<le> \<bar>fmul rel a\<bar> \<or> diff \<le> 0)"

definition PUBLIC_REASONS :: "str list" where
  "PUBLIC_REASONS = [''eligible'', ''no_forecasts'', ''no_compatible_outturns'',
     ''sample_and_coverage_thresholds_not_met'', ''fewer_than_100_verified_samples'',
     ''coverage_below_90_percent'']"

definition row_is_valid :: "verification_target \<Rightarrow> stored_result \<Rightarrow> bool" where
  "row_is_valid target row \<longleftrightarrow>
     (let expected_coverage = (if sr_expected_sample_count row \<noteq> 0
            then int_div (sr_verified_sample_count row) (sr_expected_sample_count row) else 0)
      in sr_registry_version row = VERIFICATION_REGISTRY_VERSION
         \<and> sr_verification_methodology_version row = VERIFICATION_METHODOLOGY_VERSION
         \<and> sr_forecast_source_id row = vt_forecast_source_id target
         \<and> sr_outturn_source_id row = vt_outturn_source_id target
         \<and> sr_forecast_methodology_version row = vt_forecast_methodology_version target
         \<and> sr_outturn_methodology_version row = vt_outturn_methodology_version target
         \<and> sr_issue_time_basis row = vt_issue_time_basis target
         \<and> sr_effective_vintage_time_basis row = vt_effective_vintage_time_basis target
         \<and> sr_unit row = vt_unit target
         \<and> 0 \<le> sr_revision row
         \<and> sr_verified_sample_count row \<le> sr_expected_sample_count row \<and> 0 \<le> sr_verified_sample_count row
         \<and> 0 \<le> sr_coverage_fraction row \<and> sr_coverage_fraction row \<le> 1
         \<and> isclose (sr_coverage_fraction row) expected_coverage
         \<and> length (sr_evidence_checksum row) = 64
         \<and> sr_window_start row < sr_window_end row
         \<and> sr_status row \<in> {''available'', ''insufficient_data''}
         \<and> sr_reason row \<in> set PUBLIC_REASONS
         \<and> (sr_status row \<noteq> ''available''
            \<or> (sr_mae row \<noteq> None \<and> sr_bias row \<noteq> None
               \<and> MINIMUM_VERIFIED_SAMPLES \<le> sr_verified_sample_count row
               \<and> MINIMUM_COVERAGE_FRACTION \<le> sr_coverage_fraction row)))"

definition safe_key :: "stored_result \<Rightarrow> (verification_metric \<times> horizon_bucket) option" where
  "safe_key row =
     (case (metric_of (sr_metric_id row), bucket_named (sr_horizon_bucket row)) of
        (Some m, Some b) \<Rightarrow> if row_is_valid (target_of m) row then Some (m, b) else None
      | _ \<Rightarrow> None)"

section \<open>Items\<close>

definition forecast_source :: "verification_target \<Rightarrow> verification_source" where
  "forecast_source t = \<lparr>vs_source_id = vt_forecast_source_id t, vs_dataset = vt_forecast_dataset t,
     vs_methodology_version = vt_forecast_methodology_version t, vs_fact_class = ''forecast''\<rparr>"

definition outturn_source :: "verification_target \<Rightarrow> verification_source" where
  "outturn_source t = \<lparr>vs_source_id = vt_outturn_source_id t, vs_dataset = vt_outturn_dataset t,
     vs_methodology_version = vt_outturn_methodology_version t,
     vs_fact_class = (if vt_metric t = National_Carbon_Intensity then ''estimated'' else ''observed'')\<rparr>"

definition base_item :: "verification_target \<Rightarrow> horizon_definition \<Rightarrow> verification_item" where
  "base_item t h = \<lparr>vi_metric = vt_metric t, vi_display_name = vt_display_name t, vi_unit = vt_unit t,
     vi_expected_interval_minutes = vt_expected_interval_minutes t, vi_horizon = h,
     vi_status = Insufficient_Data, vi_reason = ''not_computed'', vi_mae = None, vi_bias = None,
     vi_wape_percent = None, vi_verified_samples = 0, vi_expected_samples = 0, vi_coverage = 0,
     vi_verification_window = None, vi_issue_time_basis = vt_issue_time_basis t,
     vi_effective_vintage_time_basis = vt_effective_vintage_time_basis t,
     vi_forecast = forecast_source t, vi_outturn = outturn_source t,
     vi_registry_version = VERIFICATION_REGISTRY_VERSION,
     vi_verification_methodology_version = VERIFICATION_METHODOLOGY_VERSION,
     vi_evidence_checksum = None, vi_revision = None, vi_computed_at = None, vi_source_watermark_at = None\<rparr>"

definition row_eligible :: "stored_result \<Rightarrow> bool" where
  "row_eligible row \<longleftrightarrow> sr_status row = ''available''
     \<and> MINIMUM_VERIFIED_SAMPLES \<le> sr_verified_sample_count row
     \<and> MINIMUM_COVERAGE_FRACTION \<le> sr_coverage_fraction row"

definition present_item ::
  "verification_target \<Rightarrow> horizon_bucket \<Rightarrow> stored_result option \<Rightarrow> verification_item result" where
  "present_item target horizon row =
     rbind (mk_horizon_definition (bucket_value horizon) (minimum_hours horizon) (maximum_hours horizon)) (\<lambda>h.
     case row of
       None \<Rightarrow> validate_item (base_item target h)
     | Some r \<Rightarrow>
         let eligible = row_eligible r in
         validate_item ((base_item target h)\<lparr>
           vi_status := (if eligible then Available else Insufficient_Data),
           vi_reason := sr_reason r,
           vi_mae := (if eligible then sr_mae r else None),
           vi_bias := (if eligible then sr_bias r else None),
           vi_wape_percent := (if eligible then sr_wape_percent r else None),
           vi_verified_samples := sr_verified_sample_count r,
           vi_expected_samples := sr_expected_sample_count r,
           vi_coverage := sr_coverage_fraction r,
           vi_verification_window := Some (sr_window_start r, sr_window_end r),
           vi_evidence_checksum := Some (sr_evidence_checksum r),
           vi_revision := Some (sr_revision r),
           vi_computed_at := Some (sr_computed_at r),
           vi_source_watermark_at := sr_source_watermark_at r\<rparr>))"

definition safe_rows ::
  "verification_metric list \<Rightarrow> stored_result list \<Rightarrow> (verification_metric \<times> horizon_bucket, stored_result) dict" where
  "safe_rows selected rows =
     foldl (\<lambda>d row. case safe_key row of
              None \<Rightarrow> d
            | Some k \<Rightarrow> if fst k \<in> set selected \<and> lookup d k = None then store d k row else d)
       [] (take 12 rows)"

definition selected_cells :: "verification_metric list \<Rightarrow> (verification_metric \<times> horizon_bucket) list" where
  "selected_cells selected = [(m, h). m \<leftarrow> selected, h \<leftarrow> HORIZON_BUCKETS]"

definition present_forecast_verification ::
  "stored_result list \<Rightarrow> verification_metric option \<Rightarrow> verification_response result" where
  "present_forecast_verification rows metric =
     (let selected = (case metric of Some m \<Rightarrow> [m] | None \<Rightarrow> VERIFICATION_METRICS);
          safe = safe_rows selected rows;
          cells = selected_cells selected
      in rbind (traverse (\<lambda>(m, h). present_item (target_of m) h (lookup safe (m, h))) cells) (\<lambda>results.
         Inr \<lparr>vx_generated_at = py_max id (map sr_computed_at (somes (map (lookup safe) cells))),
              vx_results = results\<rparr>))"

section \<open>Lemmas\<close>

lemma metric_of_value [simp]: "metric_of (metric_value m) = Some m"
  by (cases m) (simp_all add: metric_of_def VERIFICATION_METRICS_def)

lemma metric_of_iff: "metric_of s = Some m \<Longrightarrow> s = metric_value m"
  unfolding metric_of_def find_Some_iff by auto

lemma bucket_named_value [simp]: "bucket_named (bucket_value h) = Some h"
  by (cases h) (simp_all add: bucket_named_def HORIZON_BUCKETS_def)

lemma target_of_metric: "t \<in> set VERIFICATION_TARGETS \<Longrightarrow> target_of (vt_metric t) = t"
  by (auto simp: VERIFICATION_TARGETS_def demand_target_def wind_target_def carbon_target_def)

lemma target_of_in: "target_of m \<in> set VERIFICATION_TARGETS \<and> vt_metric (target_of m) = m"
  by (cases m) (simp_all add: VERIFICATION_TARGETS_def demand_target_def wind_target_def carbon_target_def)

lemma horizon_definition_ok:
  "mk_horizon_definition (bucket_value h) (minimum_hours h) (maximum_hours h)
     = Inr \<lparr>hd_id = bucket_value h, hd_minimum_hours = minimum_hours h, hd_maximum_hours = maximum_hours h\<rparr>"
  by (cases h) (simp_all add: mk_horizon_definition_def)

lemma target_interval: "t \<in> set VERIFICATION_TARGETS \<Longrightarrow>
    0 < vt_expected_interval_minutes t \<and> vt_expected_interval_minutes t \<le> 60"
  by (auto simp: VERIFICATION_TARGETS_def demand_target_def wind_target_def carbon_target_def)

lemma base_item_sel [simp]:
  "vi_metric (base_item t h) = vt_metric t" "vi_horizon (base_item t h) = h"
  "vi_expected_interval_minutes (base_item t h) = vt_expected_interval_minutes t"
  "vi_status (base_item t h) = Insufficient_Data" "vi_mae (base_item t h) = None" "vi_bias (base_item t h) = None"
  "vi_wape_percent (base_item t h) = None" "vi_verified_samples (base_item t h) = 0"
  "vi_expected_samples (base_item t h) = 0" "vi_coverage (base_item t h) = 0"
  "vi_evidence_checksum (base_item t h) = None" "vi_revision (base_item t h) = None"
  by (simp_all add: base_item_def)

text \<open>Statistics are shown with enough evidence, or not at all.\<close>

definition honest_item :: "verification_item \<Rightarrow> bool" where
  "honest_item i \<longleftrightarrow>
     (if vi_status i = Available
      then vi_mae i \<noteq> None \<and> vi_bias i \<noteq> None \<and> 100 \<le> vi_verified_samples i
        \<and> MINIMUM_COVERAGE_FRACTION \<le> vi_coverage i
      else vi_mae i = None \<and> vi_bias i = None \<and> vi_wape_percent i = None)"

lemma present_row:
  assumes "t \<in> set VERIFICATION_TARGETS" and "result_row_ok row"
  shows "\<exists>i. present_item t h (Some row) = Inr i \<and> vi_metric i = vt_metric t
     \<and> hd_id (vi_horizon i) = bucket_value h \<and> honest_item i
     \<and> vi_status i = (if row_eligible row then Available else Insufficient_Data)
     \<and> vi_mae i = (if row_eligible row then sr_mae row else None)
     \<and> vi_bias i = (if row_eligible row then sr_bias row else None)
     \<and> vi_wape_percent i = (if row_eligible row then sr_wape_percent row else None)
     \<and> vi_reason i = sr_reason row \<and> vi_verified_samples i = sr_verified_sample_count row
     \<and> vi_coverage i = sr_coverage_fraction row"
proof -
  have r: "0 \<le> sr_verified_sample_count row" "0 \<le> sr_expected_sample_count row"
    "0 \<le> sr_coverage_fraction row" "sr_coverage_fraction row \<le> 1" "0 \<le> sr_revision row"
    "length (sr_evidence_checksum row) = 64"
    "case sr_mae row of None \<Rightarrow> True | Some x \<Rightarrow> 0 \<le> x"
    "case sr_wape_percent row of None \<Rightarrow> True | Some x \<Rightarrow> 0 \<le> x"
    "sr_verified_sample_count row = 0 \<or> sr_mae row \<noteq> None \<and> sr_bias row \<noteq> None"
    using assms(2) by (auto simp: result_row_ok_def)
  have e: "row_eligible row \<Longrightarrow> sr_mae row \<noteq> None \<and> sr_bias row \<noteq> None \<and> 100 \<le> sr_verified_sample_count row
      \<and> MINIMUM_COVERAGE_FRACTION \<le> sr_coverage_fraction row"
    using r(9) by (auto simp: row_eligible_def MINIMUM_VERIFIED_SAMPLES_def)
  show ?thesis
    unfolding present_item_def horizon_definition_ok rbind_Inr option.case Let_def
    using r(1-8) e target_interval [OF assms(1)]
    by (simp add: validate_item_def honest_item_def)
qed

lemma present_none:
  assumes "t \<in> set VERIFICATION_TARGETS"
  shows "\<exists>i. present_item t h None = Inr i \<and> vi_metric i = vt_metric t
     \<and> hd_id (vi_horizon i) = bucket_value h \<and> honest_item i"
  unfolding present_item_def horizon_definition_ok rbind_Inr option.case
  using target_interval [OF assms] by (simp add: validate_item_def honest_item_def)

lemma safe_rows_in:
  assumes "lookup (safe_rows selected rows) k = Some row"
  shows "row \<in> set rows \<and> safe_key row = Some k"
proof -
  let ?step = "\<lambda>d row. case safe_key row of None \<Rightarrow> d
      | Some k \<Rightarrow> if fst k \<in> set selected \<and> lookup d k = None then store d k row else d"
  have "row \<in> set xs \<and> safe_key row = Some k"
    if "lookup (foldl ?step [] xs) k = Some row" for xs
    using that
    by (induction xs rule: rev_induct) (auto split: option.splits if_splits)
  from this [of "take 12 rows"] assms show ?thesis
    by (auto simp: safe_rows_def dest: in_set_takeD)
qed

section \<open>Properties\<close>

text \<open>The public answer never fails on rows that satisfy the constraints of their table, lists
  every horizon of every selected metric in order, computed or not, and shows error statistics
  exactly with at least a hundred verified samples and nine tenths coverage.\<close>

theorem verification_answer_is_honest:
  assumes "list_all result_row_ok rows"
  shows "\<exists>response. present_forecast_verification rows metric = Inr response
     \<and> map (\<lambda>i. (vi_metric i, hd_id (vi_horizon i))) (vx_results response)
       = map (\<lambda>(m, h). (m, bucket_value h))
           (selected_cells (case metric of Some m \<Rightarrow> [m] | None \<Rightarrow> VERIFICATION_METRICS))
     \<and> list_all honest_item (vx_results response)"
proof -
  let ?selected = "case metric of Some m \<Rightarrow> [m] | None \<Rightarrow> VERIFICATION_METRICS"
  let ?safe = "safe_rows ?selected rows"
  let ?present = "\<lambda>(m, h). present_item (target_of m) h (lookup ?safe (m, h))"
  let ?good = "\<lambda>(m, h) i. vi_metric i = m \<and> hd_id (vi_horizon i) = bucket_value h \<and> honest_item i"
  have one: "\<exists>i. ?present c = Inr i \<and> ?good c i" for c
  proof -
    obtain m h where c: "c = (m, h)" by (cases c)
    show ?thesis
    proof (cases "lookup ?safe (m, h)")
      case None
      with present_none [of "target_of m" h] target_of_in [of m] show ?thesis by (auto simp: c)
    next
      case (Some row)
      from safe_rows_in [OF this] assms have "result_row_ok row" by (simp add: list_all_iff)
      from present_row [OF _ this, of "target_of m" h] target_of_in [of m] Some show ?thesis
        by (auto simp: c)
    qed
  qed
  obtain items where items: "traverse ?present (selected_cells ?selected) = Inr items"
    and all: "list_all2 ?good (selected_cells ?selected) items"
    using traverse_ex [of "selected_cells ?selected" ?present ?good] one by blast
  from all have "map (\<lambda>i. (vi_metric i, hd_id (vi_horizon i))) items
      = map (\<lambda>(m, h). (m, bucket_value h)) (selected_cells ?selected) \<and> list_all honest_item items"
    by (induction rule: list_all2_induct) auto
  with items show ?thesis by (simp add: present_forecast_verification_def Let_def)
qed

theorem verification_answer_is_honest_witness:
  "\<exists>response. present_forecast_verification [] None = Inr response \<and> length (vx_results response) = 12"
proof -
  obtain response where r: "present_forecast_verification [] None = Inr response"
    "map (\<lambda>i. (vi_metric i, hd_id (vi_horizon i))) (vx_results response)
       = map (\<lambda>(m, h). (m, bucket_value h)) (selected_cells VERIFICATION_METRICS)"
    using verification_answer_is_honest [of "[]" None] by auto
  from arg_cong [OF r(2), of length] have "length (vx_results response) = 12"
    by (simp add: selected_cells_def VERIFICATION_METRICS_def HORIZON_BUCKETS_def)
  with r(1) show ?thesis by blast
qed

text \<open>C34: From evidence to the public answer: every result a verification of a registered target
  stores passes the gate of the API, and the item shown for it has the status of the
  verification, its statistics exactly when they are eligible, and its counts.\<close>

theorem stored_results_are_published:
  assumes "target \<in> set VERIFICATION_TARGETS" and "evidence_ok fs rs"
    and "verify_forecasts target fs rs (Aware s) (Aware e) = Inr b"
    and "r \<in> set (vb_results b)" and "result_values r revision computed_at = Inr row"
  shows "safe_key row = Some (vt_metric target, vr_horizon r)
    \<and> (\<exists>i. present_item target (vr_horizon r) (Some row) = Inr i
        \<and> vi_status i = vr_status r \<and> vi_reason i = reason_value (vr_reason r)
        \<and> vi_mae i = (if display_eligible r then vr_mae r else None)
        \<and> vi_bias i = (if display_eligible r then vr_bias r else None)
        \<and> vi_wape_percent i = (if display_eligible r then vr_wape_percent r else None)
        \<and> vi_verified_samples i = vr_verified_sample_count r \<and> vi_coverage i = vr_coverage_fraction r)"
proof -
  note v = targets_validated [OF assms(1)]
  note st = bundle_storable [OF v assms(2,3)]
  from st assms(4) have sr: "storable_result target s e r" by (auto simp: storable_bundle_def list_all_iff)
  have n: "0 \<le> revision" using assms(5) by (simp add: result_values_def split: if_splits)
  with assms(5) have row: "row = result_row computed_at r revision" by (simp add: result_values_row)
  have ok: "result_row_ok row" unfolding row by (rule result_row_checked [OF v sr n])
  have f: "sr_metric_id row = metric_value (vt_metric (vr_target r))" "sr_horizon_bucket row = bucket_value (vr_horizon r)"
    "sr_status row = status_value (vr_status r)" "sr_reason row = reason_value (vr_reason r)"
    "sr_mae row = vr_mae r" "sr_bias row = vr_bias r" "sr_wape_percent row = vr_wape_percent r"
    "sr_verified_sample_count row = vr_verified_sample_count r"
    "sr_expected_sample_count row = vr_expected_sample_count r"
    "sr_coverage_fraction row = vr_coverage_fraction r" "sr_unit row = vt_unit (vr_target r)"
    "sr_forecast_source_id row = vt_forecast_source_id (vr_target r)"
    "sr_outturn_source_id row = vt_outturn_source_id (vr_target r)"
    "sr_issue_time_basis row = vt_issue_time_basis (vr_target r)"
    "sr_effective_vintage_time_basis row = vt_effective_vintage_time_basis (vr_target r)"
    "sr_forecast_methodology_version row = vt_forecast_methodology_version (vr_target r)"
    "sr_outturn_methodology_version row = vt_outturn_methodology_version (vr_target r)"
    "sr_verification_methodology_version row = VERIFICATION_METHODOLOGY_VERSION"
    "sr_registry_version row = VERIFICATION_REGISTRY_VERSION"
    "sr_window_start row = vr_window_start r" "sr_window_end row = vr_window_end r"
    using assms(5) n by (auto simp: result_values_def)
  have t: "vr_target r = target" using sr by (simp add: storable_result_def)
  have eligible: "row_eligible row \<longleftrightarrow> display_eligible r"
  proof -
    have "status_value (vr_status r) = ''available'' \<longleftrightarrow> vr_status r = Available" by (cases "vr_status r") simp_all
    then show ?thesis using sr
      by (auto simp: row_eligible_def f display_eligible_def storable_result_def MINIMUM_VERIFIED_SAMPLES_def)
  qed
  have reason: "reason_value (vr_reason r) \<in> set PUBLIC_REASONS"
    by (cases "vr_reason r") (simp_all add: PUBLIC_REASONS_def)
  have close: "isclose (vr_coverage_fraction r) (if vr_expected_sample_count r \<noteq> 0
      then int_div (vr_verified_sample_count r) (vr_expected_sample_count r) else 0)"
    using sr by (simp add: isclose_def storable_result_def)
  have shown: "sr_status row \<noteq> ''available'' \<or> sr_mae row \<noteq> None \<and> sr_bias row \<noteq> None
      \<and> MINIMUM_VERIFIED_SAMPLES \<le> sr_verified_sample_count row \<and> MINIMUM_COVERAGE_FRACTION \<le> sr_coverage_fraction row"
    using ok by (auto simp: result_row_ok_def MINIMUM_VERIFIED_SAMPLES_def MINIMUM_COVERAGE_FRACTION_def)
  have bounds: "0 \<le> sr_revision row" "sr_verified_sample_count row \<le> sr_expected_sample_count row"
    "0 \<le> sr_verified_sample_count row" "0 \<le> sr_coverage_fraction row" "sr_coverage_fraction row \<le> 1"
    "length (sr_evidence_checksum row) = 64" "sr_window_start row < sr_window_end row"
    "sr_status row \<in> {''available'', ''insufficient_data''}"
    using ok by (simp_all add: result_row_ok_def)
  have "row_is_valid target row"
    unfolding row_is_valid_def Let_def
    using bounds shown close reason by (simp only: f t simp_thms)
  then have key: "safe_key row = Some (vt_metric target, vr_horizon r)"
    by (simp add: safe_key_def f t target_of_metric [OF assms(1)])
  from present_row [OF assms(1) ok, of "vr_horizon r"] show ?thesis
    unfolding eligible f using key by (cases "vr_status r") (auto simp: display_eligible_def)
qed

theorem stored_results_are_published_witness:
  "\<exists>b r row i. verify_forecasts demand_target [example_forecast] [example_outturn] (Aware 0) (Aware day_len) = Inr b
     \<and> r \<in> set (vb_results b) \<and> result_values r 0 0 = Inr row
     \<and> present_item demand_target (vr_horizon r) (Some row) = Inr i \<and> vi_status i = vr_status r"
proof -
  obtain b where b: "verify_forecasts demand_target [example_forecast] [example_outturn] (Aware 0) (Aware day_len) = Inr b"
    and v: "validate_target demand_target = Inr demand_target" and e: "evidence_ok [example_forecast] [example_outturn]"
    by (rule example_bundle)
  from bundle_storable(1) [OF v e b] have "map vr_horizon (vb_results b) = HORIZON_BUCKETS"
    by (simp add: storable_bundle_def)
  then obtain r where r: "r \<in> set (vb_results b)" by (cases "vb_results b") (auto simp: HORIZON_BUCKETS_def)
  have t: "demand_target \<in> set VERIFICATION_TARGETS" by (simp add: VERIFICATION_TARGETS_def)
  have row: "result_values r 0 0 = Inr (result_row 0 r 0)" by (rule result_values_row) simp
  from stored_results_are_published [OF t e b r row] b r row show ?thesis by blast
qed

end
