(* ===== verification/Charging.thy ===== *)
theory Charging
  imports Float64 Py_Base
begin

text \<open>
  The flexible-use planner (\<open>app/charging/models.py\<close>, \<open>planner.py\<close> and \<open>service.py\<close>).  A forecast
  series is a list of carbon-intensity points; the planner sorts and checks them, averages every
  window of half hours between two bounds with the loop \<open>window_loop\<close>, recommends the lowest
  average and compares it with starting now.  The loop's body is \<open>window_step\<close>; one lemma says
  that each round advances the cursor, which both closes the loop's termination proof and gives
  the termination property.  Over aligned half hours the loop is the plain fold \<open>mean_of\<close>.
  Durations are microseconds, instants UTC, and the seconds the code multiplies with are the
  floats \<open>timedelta.total_seconds\<close> returns.
\<close>

section \<open>Models\<close>

definition METHODOLOGY_VERSION :: str where "METHODOLOGY_VERSION = ''50hz.local.flexible-use.v1''"
definition RESULT_VERSION :: str where "RESULT_VERSION = ''1''"
definition INTERVAL_MINUTES :: int where "INTERVAL_MINUTES = 30"
definition MEANINGFUL_ABSOLUTE_DELTA_GCO2_KWH :: rat where "MEANINGFUL_ABSOLUTE_DELTA_GCO2_KWH = 5"
definition MEANINGFUL_PERCENT_DELTA :: rat where "MEANINGFUL_PERCENT_DELTA = 5"
definition INTERVAL :: duration where "INTERVAL = INTERVAL_MINUTES * minute"
definition INTERVAL_SECONDS :: int where "INTERVAL_SECONDS = trunc (int_div INTERVAL 1000000)"

record carbon_point =
  cp_start :: instant
  cp_end :: instant
  cp_intensity :: rat
  cp_source_record_id :: str

definition carbon_forecast_point ::
  "datetime \<Rightarrow> datetime \<Rightarrow> pyfloat \<Rightarrow> str \<Rightarrow> carbon_point result" where
  "carbon_forecast_point starts ends intensity record_id =
     rbind (aware_utc ''start'' starts) (\<lambda>s.
     rbind (aware_utc ''end'' ends) (\<lambda>e.
     case finite_value intensity of
       None \<Rightarrow> Inl (ValueError ''intensity_gco2_kwh'')
     | Some x \<Rightarrow>
         if x < 0 then Inl (ValueError ''intensity_gco2_kwh'')
         else if record_id = [] then Inl (ValueError ''source_record_id'')
         else if e \<le> s then Inl (ValueError ''forecast point end must follow its start'')
         else Inr \<lparr>cp_start = s, cp_end = e, cp_intensity = x, cp_source_record_id = record_id\<rparr>))"

record carbon_series =
  cs_series_id :: str
  cs_geography :: str
  cs_source_id :: str
  cs_methodology_version :: str
  cs_vintage_at :: "instant option"
  cs_fact_class :: str
  cs_points :: "carbon_point list"

definition validate_series :: "carbon_series \<Rightarrow> carbon_series result" where
  "validate_series s =
     rbind (ensure (cs_series_id s \<noteq> []) (ValueError ''series_id'')) (\<lambda>_.
     rbind (ensure (cs_geography s \<noteq> []) (ValueError ''geography'')) (\<lambda>_.
     rbind (ensure (cs_source_id s \<noteq> []) (ValueError ''source_id'')) (\<lambda>_.
     rbind (ensure (cs_methodology_version s \<noteq> []) (ValueError ''methodology_version'')) (\<lambda>_.
     rbind (ensure (cs_fact_class s = ''forecast'') (ValueError ''fact_class'')) (\<lambda>_. Inr s)))))"

record charging_window =
  cw_start :: instant
  cw_end :: instant
  cw_average_intensity_gco2_kwh :: rat
  cw_source_record_ids :: "str list"
  cw_coverage_fraction :: rat

definition validate_window :: "charging_window \<Rightarrow> charging_window result" where
  "validate_window w =
     rbind (ensure (0 \<le> cw_average_intensity_gco2_kwh w) (ValueError ''average_intensity_gco2_kwh'')) (\<lambda>_.
     rbind (ensure (0 \<le> cw_coverage_fraction w \<and> cw_coverage_fraction w \<le> 1)
              (ValueError ''coverage_fraction'')) (\<lambda>_. Inr w))"

record charging_comparison =
  cc_requested_battery_energy_kwh :: rat
  cc_assumed_efficiency :: rat
  cc_grid_energy_kwh :: rat
  cc_now_emissions_kg :: rat
  cc_window_emissions_kg :: rat
  cc_avoided_emissions_kg :: rat

definition validate_charging_comparison :: "charging_comparison \<Rightarrow> charging_comparison result" where
  "validate_charging_comparison c =
     rbind (ensure (0 < cc_requested_battery_energy_kwh c) (ValueError ''requested_battery_energy_kwh'')) (\<lambda>_.
     rbind (ensure (0 < cc_assumed_efficiency c \<and> cc_assumed_efficiency c \<le> 1)
              (ValueError ''assumed_efficiency'')) (\<lambda>_.
     rbind (ensure (0 < cc_grid_energy_kwh c) (ValueError ''grid_energy_kwh'')) (\<lambda>_.
     rbind (ensure (0 \<le> cc_now_emissions_kg c) (ValueError ''now_emissions_kg'')) (\<lambda>_.
     rbind (ensure (0 \<le> cc_window_emissions_kg c) (ValueError ''window_emissions_kg'')) (\<lambda>_. Inr c)))))"

datatype flexible_use_status =
  Lower_Carbon_Window | No_Meaningful_Difference | Window_Found | Insufficient_Coverage

datatype start_now_status = Compatible | Incompatible_Series | Start_Now_Insufficient

record forecast_coverage =
  fc_required_interval_count :: int
  fc_expected_interval_count :: int
  fc_available_interval_count :: int
  fc_coverage_fraction :: rat
  fc_gap_starts :: "instant list"
  fc_candidate_start_count :: int
  fc_complete_candidate_count :: int

definition validate_coverage :: "forecast_coverage \<Rightarrow> forecast_coverage result" where
  "validate_coverage c =
     rbind (ensure (1 \<le> fc_required_interval_count c) (ValueError ''required_interval_count'')) (\<lambda>_.
     rbind (ensure (0 \<le> fc_expected_interval_count c) (ValueError ''expected_interval_count'')) (\<lambda>_.
     rbind (ensure (0 \<le> fc_available_interval_count c) (ValueError ''available_interval_count'')) (\<lambda>_.
     rbind (ensure (0 \<le> fc_coverage_fraction c \<and> fc_coverage_fraction c \<le> 1)
              (ValueError ''coverage_fraction'')) (\<lambda>_.
     rbind (ensure (0 \<le> fc_candidate_start_count c) (ValueError ''candidate_start_count'')) (\<lambda>_.
     rbind (ensure (0 \<le> fc_complete_candidate_count c) (ValueError ''complete_candidate_count'')) (\<lambda>_.
     Inr c))))))"

record flexible_use_comparison =
  fx_status :: start_now_status
  fx_start_now_window :: "charging_window option"
  fx_incompatibility_fields :: "str list"
  fx_delta :: "rat option"
  fx_percent :: "rat option"
  fx_is_meaningful :: "bool option"

definition validate_comparison :: "flexible_use_comparison \<Rightarrow> flexible_use_comparison result" where
  "validate_comparison c =
     (if fx_status c = Compatible
      then if fx_start_now_window c = None
           then Inl (ValueError ''a compatible comparison requires a start-now window'')
           else if fx_delta c = None
           then Inl (ValueError ''a compatible comparison requires an intensity delta'')
           else if fx_is_meaningful c = None
           then Inl (ValueError ''a compatible comparison requires a meaningfulness result'')
           else Inr c
      else if fx_delta c \<noteq> None \<or> fx_percent c \<noteq> None \<or> fx_is_meaningful c \<noteq> None
      then Inl (ValueError ''incompatible or incomplete comparisons cannot expose deltas'')
      else Inr c)"

text \<open>The plan's fixed fields (versions, methodology text, \<open>continuous\<close>) are constants of the
  response model and left out; \<open>fp_summary\<close> is the sentence the code picks.\<close>

record flexible_use_plan =
  fp_status :: flexible_use_status
  fp_summary :: str
  fp_requested_duration_minutes :: int
  fp_earliest_start :: instant
  fp_latest_finish :: instant
  fp_recommended_window :: "charging_window option"
  fp_coverage :: forecast_coverage
  fp_comparison :: flexible_use_comparison

definition validate_plan :: "flexible_use_plan \<Rightarrow> flexible_use_plan result" where
  "validate_plan p =
     (if fp_requested_duration_minutes p \<le> 0 then Inl (ValueError ''requested_duration_minutes'')
      else if fp_status p = Insufficient_Coverage
      then if fp_recommended_window p \<noteq> None
           then Inl (ValueError ''an unavailable plan cannot contain a recommendation'') else Inr p
      else if fp_recommended_window p = None
      then Inl (ValueError ''an available plan requires a recommendation'')
      else if fp_status p = Lower_Carbon_Window \<and> fx_is_meaningful (fp_comparison p) \<noteq> Some True
      then Inl (ValueError ''lower-carbon status requires a meaningful comparison'')
      else if fp_status p = No_Meaningful_Difference \<and> fx_is_meaningful (fp_comparison p) \<noteq> Some False
      then Inl (ValueError ''no-meaningful-difference status requires a compatible comparison'')
      else Inr p)"

section \<open>Planner\<close>

text \<open>\<open>bisect_right\<close> of the standard library, on a list.\<close>

function bisect_loop :: "'a::linorder list \<Rightarrow> 'a \<Rightarrow> nat \<Rightarrow> nat \<Rightarrow> nat" where
  "bisect_loop xs x lo hi =
     (if lo < hi
      then let mid = (lo + hi) div 2
           in if x < xs ! mid then bisect_loop xs x lo mid else bisect_loop xs x (mid + 1) hi
      else lo)"
  by pat_completeness auto
termination by (relation "measure (\<lambda>(xs, x, lo, hi). hi - lo)") auto

declare bisect_loop.simps [simp del]

definition bisect_right :: "'a::linorder list \<Rightarrow> 'a \<Rightarrow> nat" where
  "bisect_right xs x = bisect_loop xs x 0 (length xs)"

record prepared_point =
  pp_start :: instant
  pp_end :: instant
  pp_intensity :: rat
  pp_source_record_id :: str

record calculated_window =
  kw_raw_average :: rat
  kw_public :: charging_window

definition duration_seconds :: "duration \<Rightarrow> int result" where
  "duration_seconds d =
     (let seconds = int_div d 1000000
      in if seconds \<le> 0 then Inl (ValueError ''duration must be positive'')
         else if seconds \<noteq> of_int \<lfloor>seconds\<rfloor> \<or> trunc seconds mod INTERVAL_SECONDS \<noteq> 0
         then Inl (ValueError ''duration must be a whole number of half-hour intervals'')
         else Inr (trunc seconds))"

definition prepared_of :: "carbon_point \<Rightarrow> prepared_point" where
  "prepared_of p = \<lparr>pp_start = cp_start p, pp_end = cp_end p, pp_intensity = cp_intensity p,
     pp_source_record_id = cp_source_record_id p\<rparr>"

definition check_prepared :: "prepared_point \<Rightarrow> unit result" where
  "check_prepared p =
     (if pp_end p - pp_start p \<noteq> INTERVAL
      then Inl (ValueError ''every forecast point must cover exactly 30 minutes'')
      else if \<not> is_half_hour_boundary (pp_start p)
      then Inl (ValueError ''forecast points must start on half-hour boundaries'')
      else Inr ())"

fun overlapping :: "prepared_point list \<Rightarrow> bool" where
  "overlapping (previous # current # rest) \<longleftrightarrow>
     pp_start current < pp_end previous \<or> overlapping (current # rest)"
| "overlapping _ \<longleftrightarrow> False"

definition prepare_points :: "carbon_series \<Rightarrow> prepared_point list result" where
  "prepare_points series =
     (let prepared = sort_key pp_start (map prepared_of (cs_points series))
      in rbind (traverse check_prepared prepared) (\<lambda>_.
         if overlapping prepared then Inl (ValueError ''forecast points must not overlap'')
         else Inr prepared))"

definition by_start_of :: "prepared_point list \<Rightarrow> (instant, prepared_point) dict" where
  "by_start_of ps = foldl (\<lambda>d p. store d (pp_start p) p) [] ps"

definition point_covering ::
  "(instant, prepared_point) dict \<Rightarrow> instant list \<Rightarrow> instant \<Rightarrow> prepared_point option result" where
  "point_covering by_start starts instant =
     (let index = int (bisect_right starts instant) - 1
      in if index < 0 then Inr None
         else case lookup by_start (starts ! nat index) of
                None \<Rightarrow> Inl (KeyError ''start'')
              | Some point \<Rightarrow>
                  if pp_start point \<le> instant \<and> instant < pp_end point then Inr (Some point)
                  else Inr None)"

record window_state =
  ws_cursor :: instant
  ws_weighted_total :: rat
  ws_covered_seconds :: rat
  ws_source_record_ids :: "str list"

text \<open>One round of the loop: an error, the early \<open>return None\<close>, or the next state.\<close>

definition window_step ::
  "(instant, prepared_point) dict \<Rightarrow> instant list \<Rightarrow> instant \<Rightarrow> window_state
     \<Rightarrow> window_state option result" where
  "window_step by_start starts target_end s =
     rbind (point_covering by_start starts (ws_cursor s)) (\<lambda>found.
       case found of
         None \<Rightarrow> Inr None
       | Some point \<Rightarrow>
           let segment_end = min (pp_end point) target_end;
               seconds = int_div (segment_end - ws_cursor s) 1000000
           in if seconds \<le> 0 then Inr None
              else Inr (Some
                \<lparr>ws_cursor = segment_end,
                 ws_weighted_total = fadd (ws_weighted_total s) (fmul (pp_intensity point) seconds),
                 ws_covered_seconds = fadd (ws_covered_seconds s) seconds,
                 ws_source_record_ids =
                   (if ws_source_record_ids s = [] \<or> last (ws_source_record_ids s) \<noteq> pp_source_record_id point
                    then ws_source_record_ids s @ [pp_source_record_id point]
                    else ws_source_record_ids s)\<rparr>))"

lemma window_step_advances:
  assumes "window_step by_start starts target s = Inr (Some s')"
  shows "ws_cursor s < ws_cursor s' \<and> ws_cursor s' \<le> target"
  using assms
  by (auto simp: window_step_def res_simps Let_def int_div_def not_le f64.pos_iff split: option.splits if_splits)

function window_loop ::
  "(instant, prepared_point) dict \<Rightarrow> instant list \<Rightarrow> instant \<Rightarrow> window_state
     \<Rightarrow> window_state option result" where
  "window_loop by_start starts target_end s =
     (if ws_cursor s < target_end
      then case window_step by_start starts target_end s of
             Inl e \<Rightarrow> Inl e
           | Inr None \<Rightarrow> Inr None
           | Inr (Some s') \<Rightarrow> window_loop by_start starts target_end s'
      else Inr (Some s))"
  by pat_completeness auto
termination
  by (relation "measure (\<lambda>(by_start, starts, target_end, s). nat (target_end - ws_cursor s))")
    (auto dest: window_step_advances)

declare window_loop.simps [simp del]

definition window_at ::
  "(instant, prepared_point) dict \<Rightarrow> instant list \<Rightarrow> instant \<Rightarrow> int \<Rightarrow> calculated_window option result" where
  "window_at by_start starts begins seconds =
     (let target_end = begins + seconds * second
      in rbind (window_loop by_start starts target_end
                 \<lparr>ws_cursor = begins, ws_weighted_total = 0, ws_covered_seconds = 0, ws_source_record_ids = []\<rparr>)
         (\<lambda>final. case final of
            None \<Rightarrow> Inr None
          | Some s \<Rightarrow>
              if ws_covered_seconds s \<noteq> of_int seconds then Inr None
              else
                let average = fdiv (ws_weighted_total s) (ws_covered_seconds s)
                in rbind (validate_window
                     \<lparr>cw_start = begins, cw_end = target_end,
                      cw_average_intensity_gco2_kwh = py_round 2 average,
                      cw_source_record_ids = ws_source_record_ids s, cw_coverage_fraction = 1\<rparr>)
                   (\<lambda>public. Inr (Some \<lparr>kw_raw_average = average, kw_public = public\<rparr>))))"

definition compatibility_mismatches :: "carbon_series \<Rightarrow> carbon_series \<Rightarrow> str list" where
  "compatibility_mismatches left right =
     (if cs_series_id left \<noteq> cs_series_id right then [''series_id''] else [])
     @ (if cs_geography left \<noteq> cs_geography right then [''geography''] else [])
     @ (if cs_source_id left \<noteq> cs_source_id right then [''source_id''] else [])
     @ (if cs_methodology_version left \<noteq> cs_methodology_version right then [''methodology_version''] else [])
     @ (if cs_fact_class left \<noteq> cs_fact_class right then [''fact_class''] else [])
     @ (if cs_vintage_at left \<noteq> cs_vintage_at right then [''vintage_at''] else [])"

definition plain_comparison :: "start_now_status \<Rightarrow> flexible_use_comparison" where
  "plain_comparison status = \<lparr>fx_status = status, fx_start_now_window = None, fx_incompatibility_fields = [],
     fx_delta = None, fx_percent = None, fx_is_meaningful = None\<rparr>"

definition compare_start_now ::
  "calculated_window \<Rightarrow> carbon_series \<Rightarrow> carbon_series \<Rightarrow> instant \<Rightarrow> int
     \<Rightarrow> flexible_use_comparison result" where
  "compare_start_now recommended recommended_series comparison_series begins seconds =
     rbind (prepare_points comparison_series) (\<lambda>comparison_points.
     rbind (window_at (by_start_of comparison_points) (map pp_start comparison_points) begins seconds)
     (\<lambda>found. case found of
       None \<Rightarrow> validate_comparison (plain_comparison Start_Now_Insufficient)
     | Some w \<Rightarrow>
         let mismatches = compatibility_mismatches recommended_series comparison_series
         in if mismatches \<noteq> []
            then validate_comparison ((plain_comparison Incompatible_Series)\<lparr>
                   fx_start_now_window := Some (kw_public w), fx_incompatibility_fields := mismatches\<rparr>)
            else
              let delta = fsub (kw_raw_average w) (kw_raw_average recommended);
                  percent = (if 0 < kw_raw_average w
                             then Some (fmul (fdiv delta (kw_raw_average w)) 100) else None);
                  meaningful = (case percent of None \<Rightarrow> False
                                | Some p \<Rightarrow> MEANINGFUL_ABSOLUTE_DELTA_GCO2_KWH \<le> delta
                                            \<and> MEANINGFUL_PERCENT_DELTA \<le> p)
              in validate_comparison ((plain_comparison Compatible)\<lparr>
                   fx_start_now_window := Some (kw_public w),
                   fx_delta := Some (py_round 2 delta),
                   fx_percent := map_option (py_round 2) percent,
                   fx_is_meaningful := Some meaningful\<rparr>)))"

definition comparison_without_recommendation ::
  "carbon_series \<Rightarrow> carbon_series \<Rightarrow> flexible_use_comparison result" where
  "comparison_without_recommendation recommended_series comparison_series =
     (let mismatches = compatibility_mismatches recommended_series comparison_series
      in if mismatches \<noteq> []
         then validate_comparison
                ((plain_comparison Incompatible_Series)\<lparr>fx_incompatibility_fields := mismatches\<rparr>)
         else validate_comparison (plain_comparison Start_Now_Insufficient))"

function steps :: "instant \<Rightarrow> instant \<Rightarrow> instant list" where
  "steps cursor finish = (if cursor < finish then cursor # steps (cursor + INTERVAL) finish else [])"
  by pat_completeness auto
termination
  by (relation "measure (\<lambda>(c, f). nat (f - c))") (auto simp: INTERVAL_def INTERVAL_MINUTES_def time_defs)

function steps_inclusive :: "instant \<Rightarrow> instant \<Rightarrow> instant list" where
  "steps_inclusive cursor finish =
     (if cursor \<le> finish then cursor # steps_inclusive (cursor + INTERVAL) finish else [])"
  by pat_completeness auto
termination
  by (relation "measure (\<lambda>(c, f). nat (f - c + 1))") (auto simp: INTERVAL_def INTERVAL_MINUTES_def time_defs)

declare steps.simps [simp del] steps_inclusive.simps [simp del]

definition coverage_of ::
  "int \<Rightarrow> instant list \<Rightarrow> instant list \<Rightarrow> instant list \<Rightarrow> calculated_window list
     \<Rightarrow> forecast_coverage result" where
  "coverage_of seconds expected_starts gap_starts candidate_starts calculated_candidates =
     (let available_intervals = int (length expected_starts) - int (length gap_starts)
      in validate_coverage
           \<lparr>fc_required_interval_count = seconds div INTERVAL_SECONDS,
            fc_expected_interval_count = int (length expected_starts),
            fc_available_interval_count = available_intervals,
            fc_coverage_fraction =
              (if expected_starts \<noteq> []
               then py_round 4 (int_div available_intervals (int (length expected_starts))) else 0),
            fc_gap_starts = gap_starts,
            fc_candidate_start_count = int (length candidate_starts),
            fc_complete_candidate_count = int (length calculated_candidates)\<rparr>)"

definition plan_without_recommendation ::
  "int \<Rightarrow> instant \<Rightarrow> instant \<Rightarrow> forecast_coverage \<Rightarrow> flexible_use_comparison \<Rightarrow> flexible_use_plan result" where
  "plan_without_recommendation seconds earliest latest coverage comparison =
     validate_plan
       \<lparr>fp_status = Insufficient_Coverage,
        fp_summary = ''There is not enough contiguous half-hour forecast coverage for the requested duration within the requested bounds.'',
        fp_requested_duration_minutes = seconds div 60,
        fp_earliest_start = earliest, fp_latest_finish = latest, fp_recommended_window = None,
        fp_coverage = coverage, fp_comparison = comparison\<rparr>"

definition plan_with_recommendation ::
  "int \<Rightarrow> instant \<Rightarrow> instant \<Rightarrow> forecast_coverage \<Rightarrow> calculated_window \<Rightarrow> flexible_use_comparison
     \<Rightarrow> flexible_use_plan result" where
  "plan_with_recommendation seconds earliest latest coverage recommended comparison =
     (let (status, summary) =
        (if fx_status comparison \<noteq> Compatible
         then (Window_Found,
           ''A lowest-intensity window was found, but a compatible start-now comparison is unavailable.'')
         else if fx_is_meaningful comparison = Some True
         then (Lower_Carbon_Window, ''A meaningfully lower-carbon forecast window is available.'')
         else (No_Meaningful_Difference,
           ''There is no meaningful lower-carbon difference within the requested bounds.''))
      in validate_plan
           \<lparr>fp_status = status, fp_summary = summary,
            fp_requested_duration_minutes = seconds div 60,
            fp_earliest_start = earliest, fp_latest_finish = latest,
            fp_recommended_window = Some (kw_public recommended),
            fp_coverage = coverage, fp_comparison = comparison\<rparr>)"

definition plan_flexible_use ::
  "carbon_series \<Rightarrow> duration \<Rightarrow> datetime \<Rightarrow> datetime \<Rightarrow> datetime \<Rightarrow> carbon_series option \<Rightarrow> bool
     \<Rightarrow> flexible_use_plan result" where
  "plan_flexible_use forecast duration earliest_start latest_finish start_now start_now_forecast contiguous =
     (if \<not> contiguous then Inl (ValueError ''only continuous flexible-use windows are supported'')
      else rbind (duration_seconds duration) (\<lambda>seconds.
      rbind (aware_utc ''earliest_start must be timezone-aware'' earliest_start) (\<lambda>earliest.
      rbind (aware_utc ''latest_finish must be timezone-aware'' latest_finish) (\<lambda>latest.
      rbind (aware_utc ''start_now must be timezone-aware'' start_now) (\<lambda>comparison_start.
      if latest \<le> earliest then Inl (ValueError ''latest_finish must follow earliest_start'')
      else if \<not> is_half_hour_boundary earliest
      then Inl (ValueError ''earliest_start must be on a half-hour boundary'')
      else if \<not> is_half_hour_boundary latest
      then Inl (ValueError ''latest_finish must be on a half-hour boundary'')
      else rbind (prepare_points forecast) (\<lambda>prepared.
        let by_start = by_start_of prepared;
            starts = map pp_start prepared;
            expected_starts = steps earliest latest;
            gap_starts = filter (\<lambda>t. lookup by_start t = None) expected_starts;
            last_candidate_start = latest - seconds * second;
            candidate_starts =
              (if earliest \<le> last_candidate_start then steps_inclusive earliest last_candidate_start else [])
        in rbind (traverse (\<lambda>t. window_at by_start starts t seconds) candidate_starts) (\<lambda>found.
           let calculated_candidates = somes found
           in rbind (coverage_of seconds expected_starts gap_starts candidate_starts calculated_candidates)
           (\<lambda>coverage.
           let comparison_series = (case start_now_forecast of None \<Rightarrow> forecast | Some f \<Rightarrow> f)
           in rbind (comparison_without_recommendation forecast comparison_series) (\<lambda>comparison.
           case py_min (\<lambda>c. (kw_raw_average c, cw_start (kw_public c))) calculated_candidates of
             None \<Rightarrow> plan_without_recommendation seconds earliest latest coverage comparison
           | Some recommended \<Rightarrow>
               rbind (compare_start_now recommended forecast comparison_series comparison_start seconds)
                 (plan_with_recommendation seconds earliest latest coverage recommended)))))))))) "

section \<open>Compatibility wrapper and emissions\<close>

definition find_cleanest_window :: "carbon_point list \<Rightarrow> duration \<Rightarrow> charging_window option result" where
  "find_cleanest_window points duration =
     (if duration \<le> 0 then Inl (ValueError ''duration must be positive'')
      else
        let seconds = int_div duration 1000000
        in if seconds \<noteq> of_int \<lfloor>seconds\<rfloor> \<or> trunc seconds mod (30 * 60) \<noteq> 0
           then Inl (ValueError ''duration must be a whole number of half-hour intervals'')
           else case (py_min (\<lambda>t. t) (map cp_start points), py_max (\<lambda>t. t) (map cp_end points)) of
             (Some earliest, Some latest) \<Rightarrow>
               rbind (validate_series
                 \<lparr>cs_series_id = ''legacy-clean-window'', cs_geography = ''unspecified'',
                  cs_source_id = ''unspecified'', cs_methodology_version = ''unspecified'',
                  cs_vintage_at = None, cs_fact_class = ''forecast'', cs_points = points\<rparr>) (\<lambda>forecast.
               rbind (plan_flexible_use forecast duration (Aware earliest) (Aware latest) (Aware earliest) None True)
                 (\<lambda>plan. Inr (fp_recommended_window plan)))
           | _ \<Rightarrow> Inr None)"

definition compare_charging :: "rat \<Rightarrow> rat \<Rightarrow> rat \<Rightarrow> charging_window \<Rightarrow> charging_comparison result" where
  "compare_charging battery_energy charging_efficiency now_intensity window =
     (if battery_energy \<le> 0 then Inl (ValueError ''battery energy must be positive'')
      else if \<not> (0 < charging_efficiency \<and> charging_efficiency \<le> 1)
      then Inl (ValueError ''charging efficiency must be greater than zero and at most one'')
      else if now_intensity < 0 then Inl (ValueError ''carbon intensity cannot be negative'')
      else
        let grid_energy = fdiv battery_energy charging_efficiency;
            now_kg = fdiv (fmul grid_energy now_intensity) 1000;
            window_kg = fdiv (fmul grid_energy (cw_average_intensity_gco2_kwh window)) 1000
        in validate_charging_comparison
             \<lparr>cc_requested_battery_energy_kwh = battery_energy, cc_assumed_efficiency = charging_efficiency,
              cc_grid_energy_kwh = py_round 2 grid_energy, cc_now_emissions_kg = py_round 2 now_kg,
              cc_window_emissions_kg = py_round 2 window_kg,
              cc_avoided_emissions_kg = py_round 2 (fsub now_kg window_kg)\<rparr>)"

section \<open>Half-hourly points\<close>

lemma interval_half_hour: "INTERVAL = half_hour"
  by (simp add: INTERVAL_def INTERVAL_MINUTES_def time_defs)

lemma interval_seconds: "INTERVAL_SECONDS = 1800"
proof -
  have "int_div INTERVAL 1000000 = of_int 1800"
    unfolding int_div_def interval_half_hour by (simp add: time_defs fl_of_int [of 1800, simplified])
  then show ?thesis unfolding INTERVAL_SECONDS_def by (simp only: trunc_def) simp
qed

lemma bisect_loop_bounds:
  assumes "sorted xs" and "lo \<le> hi" and "hi \<le> length xs"
    and "\<forall>i < lo. xs ! i \<le> x" and "\<forall>i < length xs. hi \<le> i \<longrightarrow> x < xs ! i"
  shows "(\<forall>i < bisect_loop xs x lo hi. xs ! i \<le> x)
    \<and> (\<forall>i < length xs. bisect_loop xs x lo hi \<le> i \<longrightarrow> x < xs ! i)
    \<and> bisect_loop xs x lo hi \<le> length xs"
  using assms
proof (induction xs x lo hi rule: bisect_loop.induct)
  case (1 xs x lo hi)
  show ?case
  proof (cases "lo < hi")
    case False
    then have "bisect_loop xs x lo hi = lo" by (simp add: bisect_loop.simps [of xs x lo hi])
    with "1.prems" False show ?thesis by simp
  next
    case True
    define mid where "mid = (lo + hi) div 2"
    have mid: "lo \<le> mid" "mid < hi" "mid < length xs" using True "1.prems"(3) by (auto simp: mid_def)
    show ?thesis
    proof (cases "x < xs ! mid")
      case less: True
      have "\<forall>i < length xs. mid \<le> i \<longrightarrow> x < xs ! i"
        using less "1.prems"(1) by (auto simp: sorted_iff_nth_mono intro: less_le_trans)
      with "1.IH"(1) [OF True mid_def less] "1.prems" mid True less show ?thesis
        by (simp add: bisect_loop.simps [of xs x lo hi] mid_def [symmetric])
    next
      case ge: False
      have "\<forall>i < mid + 1. xs ! i \<le> x"
        using ge "1.prems"(1) mid(3) by (auto simp: sorted_iff_nth_mono not_less less_Suc_eq_le intro: order_trans)
      with "1.IH"(2) [OF True mid_def ge] "1.prems" mid True ge show ?thesis
        by (simp add: bisect_loop.simps [of xs x lo hi] mid_def [symmetric])
    qed
  qed
qed

lemma bisect_right_splits:
  assumes "sorted xs"
  shows "\<forall>i < bisect_right xs x. xs ! i \<le> x"
    and "\<forall>i < length xs. bisect_right xs x \<le> i \<longrightarrow> x < xs ! i"
    and "bisect_right xs x \<le> length xs"
  using bisect_loop_bounds [OF assms, of 0 "length xs" x] by (simp_all add: bisect_right_def)

definition half_hourly :: "prepared_point list \<Rightarrow> bool" where
  "half_hourly ps \<longleftrightarrow> sorted_wrt (\<lambda>p q. pp_start p < pp_start q) ps
     \<and> (\<forall>p \<in> set ps. half_hour dvd pp_start p \<and> pp_end p = pp_start p + half_hour)"

lemma not_overlapping_strict:
  assumes "\<not> overlapping ps" and "\<forall>p \<in> set ps. pp_end p = pp_start p + half_hour"
  shows "sorted_wrt (\<lambda>p q. pp_start p < pp_start q) ps"
  using assms
proof (induction ps rule: overlapping.induct)
  case (1 p q ps)
  then have "sorted_wrt (\<lambda>p q. pp_start p < pp_start q) (q # ps)" by simp
  moreover have "pp_start p + half_hour \<le> pp_start q" using 1 by simp
  then have "pp_start p < pp_start q" using durations_pos(5) by linarith
  moreover note 1
  ultimately have "sorted_wrt (\<lambda>p q. pp_start p < pp_start q) (q # ps)" "pp_start p < pp_start q" by simp_all
  then show ?case by fastforce
qed simp_all

lemma half_hourly_not_overlapping:
  assumes "half_hourly ps" shows "\<not> overlapping ps"
  using assms
proof (induction ps rule: overlapping.induct)
  case (1 p q ps)
  then have "\<not> overlapping (q # ps)" by (simp add: half_hourly_def)
  moreover have "pp_start p < pp_start q" "half_hour dvd pp_start p" "half_hour dvd pp_start q"
    using 1 by (simp_all add: half_hourly_def)
  then have "pp_start p + half_hour \<le> pp_start q"
    using zdvd_imp_le [of half_hour "pp_start q - pp_start p"] by simp
  ultimately show ?case using 1 by (simp add: half_hourly_def)
qed simp_all

lemma prepare_points_iff:
  "prepare_points f = Inr ps \<longleftrightarrow>
     ps = sort_key pp_start (map prepared_of (cs_points f)) \<and> half_hourly ps"
proof -
  let ?ps = "sort_key pp_start (map prepared_of (cs_points f))"
  have check: "check_prepared p = Inr () \<longleftrightarrow> half_hour dvd pp_start p \<and> pp_end p = pp_start p + half_hour" for p
    by (auto simp: check_prepared_def interval_half_hour is_half_hour_boundary_dvd)
  have t: "(\<exists>us. traverse check_prepared qs = Inr us) \<longleftrightarrow> (\<forall>p \<in> set qs. check_prepared p = Inr ())" for qs
    by (induction qs) (auto simp: res_simps)
  have "prepare_points f = Inr ps \<longleftrightarrow>
      (\<forall>p \<in> set ?ps. check_prepared p = Inr ()) \<and> \<not> overlapping ?ps \<and> ps = ?ps"
    unfolding prepare_points_def Let_def rbind_eq_Inr t [symmetric] by auto
  also have "\<dots> \<longleftrightarrow> half_hourly ?ps \<and> ps = ?ps"
    using not_overlapping_strict [of ?ps] half_hourly_not_overlapping [of ?ps]
    unfolding check half_hourly_def by blast
  finally show ?thesis by blast
qed

lemma half_hourly_distinct: "half_hourly ps \<Longrightarrow> distinct (map pp_start ps)"
  unfolding half_hourly_def by (induction ps) force+

lemma half_hourly_sorted: "half_hourly ps \<Longrightarrow> sorted (map pp_start ps)"
  unfolding half_hourly_def by (induction ps) force+

lemma by_start_snoc: "by_start_of (ps @ [p]) = store (by_start_of ps) (pp_start p) p"
  by (simp add: by_start_of_def)

lemma lookup_by_start:
  assumes "distinct (map pp_start ps)"
  shows "lookup (by_start_of ps) t = Some p \<longleftrightarrow> p \<in> set ps \<and> pp_start p = t"
  using assms
proof (induction ps rule: rev_induct)
  case Nil
  show ?case by (simp add: by_start_of_def)
next
  case (snoc q ps)
  have "pp_start q \<notin> pp_start ` set ps" using snoc.prems by simp
  then have other: "\<forall>x \<in> set ps. pp_start x \<noteq> pp_start q" by (metis imageI)
  have "lookup (by_start_of ps) t = Some p \<longleftrightarrow> p \<in> set ps \<and> pp_start p = t"
    using snoc by simp
  with other show ?case by (auto simp: by_start_snoc)
qed

lemma floor_half_hour:
  fixes s t :: int
  assumes "half_hour dvd s" and "s \<le> t" and "t < s + half_hour"
  shows "t - t mod half_hour = s"
proof -
  from assms(1) obtain k where "s = half_hour * k" by (elim dvdE)
  with assms(2,3) show ?thesis
    by (metis add.commute diff_add_cancel diff_ge_0_iff_ge less_diff_eq mod_mult_self3 mod_pos_pos_trivial
        mult.commute diff_diff_eq2 add_diff_cancel_left')
qed

lemma point_covering_floor:
  assumes "half_hourly ps"
  shows "point_covering (by_start_of ps) (map pp_start ps) t
    = Inr (lookup (by_start_of ps) (t - t mod half_hour))"
proof -
  define r where "r = bisect_right (map pp_start ps) t"
  note d = half_hourly_distinct [OF assms]
  note split = bisect_right_splits [OF half_hourly_sorted [OF assms], of t, folded r_def, simplified]
  have fl: "t - t mod half_hour \<le> t" "t < t - t mod half_hour + half_hour" by simp_all
  have later: "t < pp_start p" if "p \<in> set (drop r ps)" for p
    using that split(2,3) by (auto simp: in_set_conv_nth)
  show ?thesis
  proof (cases "r = 0")
    case True
    have "lookup (by_start_of ps) (t - t mod half_hour) \<noteq> Some q" for q
    proof
      assume "lookup (by_start_of ps) (t - t mod half_hour) = Some q"
      then have "q \<in> set ps" "pp_start q = t - t mod half_hour" using lookup_by_start [OF d] by auto
      with later [of q] True fl(1) show False by simp
    qed
    then have "lookup (by_start_of ps) (t - t mod half_hour) = None" by (rule not_Some_eq [THEN iffD1, OF allI])
    with True show ?thesis by (simp add: point_covering_def r_def [symmetric])
  next
    case False
    define p where "p = ps ! (r - 1)"
    have p: "p \<in> set ps" "pp_start p \<le> t" using False split(1,3) by (auto simp: p_def)
    then have e: "half_hour dvd pp_start p" "pp_end p = pp_start p + half_hour"
      using assms by (auto simp: half_hourly_def)
    have l: "lookup (by_start_of ps) (pp_start p) = Some p" using lookup_by_start [OF d] p by simp
    have i: "map pp_start ps ! nat (int r - 1) = pp_start p"
      using False split(3) by (simp add: p_def nat_diff_distrib)
    show ?thesis
    proof (cases "t < pp_end p")
      case True
      then have "t - t mod half_hour = pp_start p" using p(2) e by (intro floor_half_hour) auto
      with True p l i False show ?thesis by (simp add: point_covering_def r_def [symmetric])
    next
      case past: False
      have "lookup (by_start_of ps) (t - t mod half_hour) \<noteq> Some q" for q
      proof
        assume "lookup (by_start_of ps) (t - t mod half_hour) = Some q"
        then have q: "q \<in> set ps" "pp_start q = t - t mod half_hour" using lookup_by_start [OF d] by auto
        then have "pp_start q \<le> t" "pp_start p < pp_start q" using fl past e(2) by linarith+
        moreover from q(1) obtain k where k: "k < length ps" "q = ps ! k" by (auto simp: in_set_conv_nth)
        ultimately have "k < r" using split(2) by (auto simp: not_less [symmetric])
        then have "k \<le> r - 1" "r - 1 < length ps" using False split(3) by auto
        then have "pp_start q \<le> pp_start p"
          using half_hourly_sorted [OF assms] unfolding k(2) p_def sorted_iff_nth_mono by auto
        with \<open>pp_start p < pp_start q\<close> show False by simp
      qed
      then have "lookup (by_start_of ps) (t - t mod half_hour) = None" by (rule not_Some_eq [THEN iffD1, OF allI])
      with past l i False show ?thesis by (simp add: point_covering_def r_def [symmetric])
    qed
  qed
qed

section \<open>The loop over aligned half hours\<close>

definition half_hours :: "instant \<Rightarrow> nat \<Rightarrow> instant list" where
  "half_hours t n = map (\<lambda>k. t + int k * half_hour) [0..<n]"

lemma half_hours_0 [simp]: "half_hours t 0 = []"
  by (simp add: half_hours_def)

lemma half_hours_Suc: "half_hours t (Suc n) = t # half_hours (t + half_hour) n"
  unfolding half_hours_def upt_conv_Cons [OF zero_less_Suc] map_Suc_upt [symmetric]
  by (simp add: algebra_simps)

lemma length_half_hours [simp]: "length (half_hours t n) = n"
  by (simp add: half_hours_def)

lemma half_hours_aligned: "half_hour dvd t \<Longrightarrow> h \<in> set (half_hours t n) \<Longrightarrow> half_hour dvd h"
  by (auto simp: half_hours_def)

definition intensity_at :: "prepared_point list \<Rightarrow> instant \<Rightarrow> rat" where
  "intensity_at ps t = (case lookup (by_start_of ps) t of None \<Rightarrow> 0 | Some p \<Rightarrow> pp_intensity p)"

definition weighted_total :: "prepared_point list \<Rightarrow> rat \<Rightarrow> instant list \<Rightarrow> rat" where
  "weighted_total ps = foldl (\<lambda>w t. fadd w (fmul (intensity_at ps t) 1800))"

definition has_points :: "prepared_point list \<Rightarrow> instant list \<Rightarrow> bool" where
  "has_points ps ts \<longleftrightarrow> (\<forall>t \<in> set ts. lookup (by_start_of ps) t \<noteq> None)"

lemma int_div_seconds: "\<bar>n\<bar> < 2 ^ 53 \<Longrightarrow> int_div (n * second) 1000000 = of_int n"
  by (simp add: int_div_def time_defs fl_of_int)

lemma half_hour_seconds: "int_div half_hour 1000000 = 1800"
  using int_div_seconds [of 1800] by (simp add: time_defs)

lemma window_loop_aligned:
  assumes "half_hourly ps" and "half_hour dvd ws_cursor s"
  shows "\<exists>ids. window_loop (by_start_of ps) (map pp_start ps) (ws_cursor s + int n * half_hour) s
    = Inr (if has_points ps (half_hours (ws_cursor s) n)
           then Some \<lparr>ws_cursor = ws_cursor s + int n * half_hour,
            ws_weighted_total = weighted_total ps (ws_weighted_total s) (half_hours (ws_cursor s) n),
            ws_covered_seconds = ((\<lambda>c. fadd c 1800) ^^ n) (ws_covered_seconds s),
            ws_source_record_ids = ids\<rparr> else None)"
  using assms(2)
proof (induction n arbitrary: s)
  case 0
  show ?case
    by (rule exI [of _ "ws_source_record_ids s"]) (simp add: window_loop.simps weighted_total_def has_points_def)
next
  case (Suc n)
  let ?d = "by_start_of ps" and ?ts = "map pp_start ps"
  let ?target = "ws_cursor s + int (Suc n) * half_hour"
  have lt: "ws_cursor s < ?target" "half_hour \<le> int (Suc n) * half_hour" by (simp_all add: time_defs)
  have cov: "point_covering ?d ?ts (ws_cursor s) = Inr (lookup ?d (ws_cursor s))"
    using point_covering_floor [OF assms(1)] Suc.prems by (metis diff_zero dvd_imp_mod_0)
  show ?case
  proof (cases "lookup ?d (ws_cursor s)")
    case None
    then have "window_loop ?d ?ts ?target s = Inr None"
      using lt(1) by (subst window_loop.simps) (simp add: window_step_def cov)
    moreover from None have "\<not> has_points ps (half_hours (ws_cursor s) (Suc n))"
      by (simp add: has_points_def half_hours_Suc)
    ultimately show ?thesis by simp
  next
    case (Some p)
    then have "p \<in> set ps" "pp_start p = ws_cursor s"
      using lookup_by_start [OF half_hourly_distinct [OF assms(1)]] by auto
    then have "pp_end p = ws_cursor s + half_hour" using assms(1) by (simp add: half_hourly_def)
    then have m: "min (pp_end p) ?target = ws_cursor s + half_hour" using lt(2) by simp
    define s' where "s' = \<lparr>ws_cursor = ws_cursor s + half_hour,
      ws_weighted_total = fadd (ws_weighted_total s) (fmul (intensity_at ps (ws_cursor s)) 1800),
      ws_covered_seconds = fadd (ws_covered_seconds s) 1800,
      ws_source_record_ids = (if ws_source_record_ids s = [] \<or> last (ws_source_record_ids s) \<noteq> pp_source_record_id p
        then ws_source_record_ids s @ [pp_source_record_id p] else ws_source_record_ids s)\<rparr>"
    have s': "window_step ?d ?ts ?target s = Inr (Some s')" "ws_cursor s' = ws_cursor s + half_hour"
      "ws_weighted_total s' = fadd (ws_weighted_total s) (fmul (intensity_at ps (ws_cursor s)) 1800)"
      "ws_covered_seconds s' = fadd (ws_covered_seconds s) 1800"
      unfolding window_step_def cov Some rbind_Inr option.case m Let_def s'_def
      by (simp_all add: half_hour_seconds intensity_at_def Some)
    have e: "?target = ws_cursor s' + int n * half_hour"
      "weighted_total ps (ws_weighted_total s) (half_hours (ws_cursor s) (Suc n))
        = weighted_total ps (ws_weighted_total s') (half_hours (ws_cursor s') n)"
      "((\<lambda>c. fadd c 1800) ^^ Suc n) (ws_covered_seconds s) = ((\<lambda>c. fadd c 1800) ^^ n) (ws_covered_seconds s')"
      unfolding funpow_Suc_right by (simp_all add: s'(2,3,4) half_hours_Suc weighted_total_def algebra_simps)
    have step: "window_loop ?d ?ts ?target s = window_loop ?d ?ts ?target s'"
      using lt(1) s'(1) by (subst window_loop.simps) simp
    have rest: "has_points ps (half_hours (ws_cursor s) (Suc n)) = has_points ps (half_hours (ws_cursor s') n)"
      using Some s'(2) by (simp add: has_points_def half_hours_Suc)
    have dvd': "half_hour dvd ws_cursor s'" using Suc.prems s'(2) by simp
    show ?thesis
      using Suc.IH [OF dvd'] unfolding step rest unfolding e .
  qed
qed

lemma covered_sum: "0 \<le> m \<Longrightarrow> m + 1800 * int n < 2 ^ 53 \<Longrightarrow>
    ((\<lambda>c. fadd c 1800) ^^ n) (of_int m) = of_int (m + 1800 * int n)"
proof (induction n arbitrary: m)
  case (Suc n)
  have "fadd (of_int m) 1800 = of_int (m + 1800)"
    using fl_of_int [of "m + 1800"] Suc.prems by (simp add: fadd_def)
  then have "((\<lambda>c. fadd c 1800) ^^ Suc n) (of_int m) = ((\<lambda>c. fadd c 1800) ^^ n) (of_int (m + 1800))"
    by (simp only: funpow_Suc_right o_apply)
  also have "\<dots> = of_int ((m + 1800) + 1800 * int n)" using Suc.prems by (intro Suc.IH) auto
  finally show ?case by (simp add: algebra_simps)
qed simp

definition mean_of :: "prepared_point list \<Rightarrow> instant \<Rightarrow> nat \<Rightarrow> rat" where
  "mean_of ps t n = fdiv (weighted_total ps 0 (half_hours t n)) (of_int (1800 * int n))"

lemma weighted_total_nonneg:
  assumes "\<forall>p \<in> set ps. 0 \<le> pp_intensity p" and "distinct (map pp_start ps)"
  shows "0 \<le> w \<Longrightarrow> 0 \<le> weighted_total ps w ts"
proof (induction ts arbitrary: w)
  case (Cons t ts)
  have "0 \<le> intensity_at ps t"
    using assms lookup_by_start [OF assms(2), of t] by (auto simp: intensity_at_def split: option.split)
  then have "0 \<le> fadd w (fmul (intensity_at ps t) 1800)"
    using Cons.prems by (simp add: fadd_def fmul_def f64.nonneg)
  from Cons.IH [OF this] show ?case by (simp add: weighted_total_def)
qed (simp add: weighted_total_def)

text \<open>On a half-hour boundary \<open>window_at\<close> is the mean of the half hours it covers, and \<open>None\<close> when
  one is missing.\<close>

lemma window_at_aligned:
  assumes "half_hourly ps" and "\<forall>p \<in> set ps. 0 \<le> pp_intensity p" and "half_hour dvd t"
    and "0 < n" and "1800 * int n < 2 ^ 53"
  shows "\<exists>ids. window_at (by_start_of ps) (map pp_start ps) t (1800 * int n) =
    Inr (if has_points ps (half_hours t n)
         then Some \<lparr>kw_raw_average = mean_of ps t n,
           kw_public = \<lparr>cw_start = t, cw_end = t + int n * half_hour,
             cw_average_intensity_gco2_kwh = py_round 2 (mean_of ps t n),
             cw_source_record_ids = ids, cw_coverage_fraction = 1\<rparr>\<rparr>
         else None)"
proof -
  let ?s = "\<lparr>ws_cursor = t, ws_weighted_total = 0, ws_covered_seconds = 0, ws_source_record_ids = []\<rparr>"
  have target: "t + 1800 * int n * second = t + int n * half_hour" by (simp add: time_defs)
  have loop: "\<exists>ids. window_loop (by_start_of ps) (map pp_start ps) (t + 1800 * int n * second) ?s
       = Inr (if has_points ps (half_hours t n) then Some \<lparr>ws_cursor = t + 1800 * int n * second,
            ws_weighted_total = weighted_total ps 0 (half_hours t n),
            ws_covered_seconds = ((\<lambda>c. fadd c 1800) ^^ n) 0, ws_source_record_ids = ids\<rparr> else None)"
    using window_loop_aligned [of ps ?s n] assms(1,3) unfolding target window_state.select_convs by blast
  have cov: "((\<lambda>c. fadd c 1800) ^^ n) 0 = of_int (1800 * int n)" using covered_sum [of 0 n] assms(5) by simp
  have mean: "0 \<le> mean_of ps t n"
    using weighted_total_nonneg [OF assms(2) half_hourly_distinct [OF assms(1)], of 0 "half_hours t n"]
    by (simp add: mean_of_def fdiv_def f64.nonneg)
  from loop obtain ids where ids:
    "window_loop (by_start_of ps) (map pp_start ps) (t + 1800 * int n * second) ?s
       = Inr (if has_points ps (half_hours t n) then Some \<lparr>ws_cursor = t + 1800 * int n * second,
            ws_weighted_total = weighted_total ps 0 (half_hours t n),
            ws_covered_seconds = of_int (1800 * int n), ws_source_record_ids = ids\<rparr> else None)"
    unfolding cov by blast
  show ?thesis
  proof (intro exI [of _ ids], cases "has_points ps (half_hours t n)")
    case True
    show "window_at (by_start_of ps) (map pp_start ps) t (1800 * int n) =
      Inr (if has_points ps (half_hours t n)
         then Some \<lparr>kw_raw_average = mean_of ps t n,
           kw_public = \<lparr>cw_start = t, cw_end = t + int n * half_hour,
             cw_average_intensity_gco2_kwh = py_round 2 (mean_of ps t n),
             cw_source_record_ids = ids, cw_coverage_fraction = 1\<rparr>\<rparr>
         else None)"
      unfolding window_at_def Let_def ids if_P [OF True] rbind_Inr option.case window_state.select_convs
      unfolding mean_of_def [symmetric] target
      using mean by (simp add: validate_window_def py_round_nonneg)
  next
    case False
    then show "window_at (by_start_of ps) (map pp_start ps) t (1800 * int n) =
      Inr (if has_points ps (half_hours t n)
         then Some \<lparr>kw_raw_average = mean_of ps t n,
           kw_public = \<lparr>cw_start = t, cw_end = t + int n * half_hour,
             cw_average_intensity_gco2_kwh = py_round 2 (mean_of ps t n),
             cw_source_record_ids = ids, cw_coverage_fraction = 1\<rparr>\<rparr>
         else None)"
      unfolding window_at_def Let_def ids if_not_P [OF False] by simp
  qed
qed

section \<open>The loop from any instant\<close>

lemma window_loop_total:
  assumes "half_hourly ps" and "\<forall>p \<in> set ps. 0 \<le> pp_intensity p"
  shows "0 \<le> ws_weighted_total s \<Longrightarrow> 0 \<le> ws_covered_seconds s \<Longrightarrow>
    \<exists>r. window_loop (by_start_of ps) (map pp_start ps) target s = Inr r
      \<and> (\<forall>s'. r = Some s' \<longrightarrow> 0 \<le> ws_weighted_total s' \<and> 0 \<le> ws_covered_seconds s')"
proof (induction "by_start_of ps" "map pp_start ps" target s rule: window_loop.induct)
  case (1 target s)
  note [simp] = window_loop.simps [of "by_start_of ps" "map pp_start ps" target s]
  show ?case
  proof (cases "ws_cursor s < target")
    case False
    with 1 show ?thesis by simp
  next
    case True
    have cov: "point_covering (by_start_of ps) (map pp_start ps) (ws_cursor s)
        = Inr (lookup (by_start_of ps) (ws_cursor s - ws_cursor s mod half_hour))"
      by (rule point_covering_floor [OF assms(1)])
    have "\<exists>r. window_step (by_start_of ps) (map pp_start ps) target s = Inr r"
      unfolding window_step_def cov by (cases "lookup (by_start_of ps) (ws_cursor s - ws_cursor s mod half_hour)")
        (auto simp: Let_def)
    then obtain r where r: "window_step (by_start_of ps) (map pp_start ps) target s = Inr r" ..
    show ?thesis
    proof (cases r)
      case None
      with r True show ?thesis by simp
    next
      case (Some s')
      have "0 \<le> ws_weighted_total s' \<and> 0 \<le> ws_covered_seconds s'"
        using r 1(2,3) assms(2) lookup_by_start [OF half_hourly_distinct [OF assms(1)]]
        unfolding Some window_step_def cov
        by (auto simp: Let_def fadd_def fmul_def intro!: f64.nonneg add_nonneg_nonneg mult_nonneg_nonneg
            split: option.splits if_splits)
      with "1.hyps" [OF True r Some] show ?thesis using True r Some by simp
    qed
  qed
qed

lemma window_at_total:
  assumes "half_hourly ps" and "\<forall>p \<in> set ps. 0 \<le> pp_intensity p"
  shows "\<exists>r. window_at (by_start_of ps) (map pp_start ps) t seconds = Inr r"
proof -
  obtain r where r: "window_loop (by_start_of ps) (map pp_start ps) (t + seconds * second)
      \<lparr>ws_cursor = t, ws_weighted_total = 0, ws_covered_seconds = 0, ws_source_record_ids = []\<rparr> = Inr r"
    "\<forall>s'. r = Some s' \<longrightarrow> 0 \<le> ws_weighted_total s' \<and> 0 \<le> ws_covered_seconds s'"
    using window_loop_total [OF assms, of
      "\<lparr>ws_cursor = t, ws_weighted_total = 0, ws_covered_seconds = 0, ws_source_record_ids = []\<rparr>"] by auto
  show ?thesis
  proof (cases r)
    case None
    with r show ?thesis by (simp add: window_at_def)
  next
    case (Some s)
    then have "0 \<le> py_round 2 (fdiv (ws_weighted_total s) (ws_covered_seconds s))"
      using r(2) by (auto intro!: py_round_nonneg simp: fdiv_def f64.nonneg)
    then show ?thesis unfolding window_at_def Let_def unfolding r(1) Some
      by (cases "ws_covered_seconds s = of_int seconds") (simp_all add: validate_window_def)
  qed
qed

lemma compare_start_now_total:
  assumes "prepare_points g = Inr qs" and "\<forall>q \<in> set (cs_points g). 0 \<le> cp_intensity q"
  shows "\<exists>cmp. compare_start_now w f g t seconds = Inr cmp
    \<and> (fx_status cmp = Compatible \<longrightarrow> fx_is_meaningful cmp \<noteq> None)"
proof -
  from assms(1) have qs: "qs = sort_key pp_start (map prepared_of (cs_points g))" "half_hourly qs"
    by (blast dest: prepare_points_iff [THEN iffD1])+
  then have "\<forall>q \<in> set qs. 0 \<le> pp_intensity q" using assms(2) by (auto simp: prepared_of_def)
  from window_at_total [OF qs(2) this] obtain r where
    "window_at (by_start_of qs) (map pp_start qs) t seconds = Inr r" by blast
  with assms(1) show ?thesis
    unfolding compare_start_now_def
    by (cases r) (simp_all add: validate_comparison_def plain_comparison_def Let_def)
qed

lemma comparison_without_total: "\<exists>cmp. comparison_without_recommendation f g = Inr cmp"
  by (simp add: comparison_without_recommendation_def validate_comparison_def plain_comparison_def Let_def)

lemma plan_with_total:
  assumes "60 \<le> seconds" and "fx_status cmp = Compatible \<longrightarrow> fx_is_meaningful cmp \<noteq> None"
  shows "\<exists>p. plan_with_recommendation seconds e l cov w cmp = Inr p
    \<and> fp_recommended_window p = Some (kw_public w) \<and> fp_coverage p = cov \<and> fp_comparison p = cmp
    \<and> (fp_status p = Lower_Carbon_Window \<longleftrightarrow> fx_status cmp = Compatible \<and> fx_is_meaningful cmp = Some True)
    \<and> fp_status p \<noteq> Insufficient_Coverage"
proof -
  have "0 < seconds div 60" using zdiv_mono1 [of 60 seconds 60] assms(1) by simp
  with assms(2) show ?thesis
    by (cases "fx_is_meaningful cmp") (auto simp: plan_with_recommendation_def validate_plan_def)
qed

lemma coverage_total:
  assumes "1800 \<le> seconds" and "length gaps \<le> length expected"
  shows "\<exists>cov. coverage_of seconds expected gaps cands calc = Inr cov
    \<and> fc_gap_starts cov = gaps \<and> fc_complete_candidate_count cov = int (length calc)
    \<and> fc_candidate_start_count cov = int (length cands)"
proof -
  have "1 \<le> seconds div INTERVAL_SECONDS"
    unfolding interval_seconds using zdiv_mono1 [of 1800 seconds 1800] assms(1) by simp
  moreover have "0 \<le> py_round 4 (int_div (int (length expected) - int (length gaps)) (int (length expected)))"
    "py_round 4 (int_div (int (length expected) - int (length gaps)) (int (length expected))) \<le> 1"
    using int_div_fraction [of "int (length expected) - int (length gaps)" "int (length expected)"] assms(2)
    by (simp_all add: py_round_nonneg py_round_le_one)
  ultimately show ?thesis using assms(2) by (simp add: coverage_of_def validate_coverage_def Let_def)
qed

section \<open>The plan\<close>

text \<open>What the planner accepts of a series, and what it promises: the complete windows between the
  bounds and their means, read off the series itself.\<close>

definition ready :: "carbon_series \<Rightarrow> bool" where
  "ready f \<longleftrightarrow> distinct (map cp_start (cs_points f))
     \<and> (\<forall>q \<in> set (cs_points f). half_hour dvd cp_start q \<and> cp_end q = cp_start q + half_hour)"

definition has_point :: "carbon_series \<Rightarrow> instant \<Rightarrow> bool" where
  "has_point f h \<longleftrightarrow> (\<exists>q \<in> set (cs_points f). cp_start q = h)"

definition candidate :: "carbon_series \<Rightarrow> instant \<Rightarrow> instant \<Rightarrow> nat \<Rightarrow> instant \<Rightarrow> bool" where
  "candidate f earliest latest n t \<longleftrightarrow> half_hour dvd t \<and> earliest \<le> t \<and> t + int n * half_hour \<le> latest
     \<and> (\<forall>h \<in> set (half_hours t n). has_point f h)"

definition point_intensity :: "carbon_series \<Rightarrow> instant \<Rightarrow> rat" where
  "point_intensity f h = (case find (\<lambda>q. cp_start q = h) (cs_points f) of None \<Rightarrow> 0 | Some q \<Rightarrow> cp_intensity q)"

definition series_mean :: "carbon_series \<Rightarrow> instant \<Rightarrow> nat \<Rightarrow> rat" where
  "series_mean f t n = fdiv (foldl (\<lambda>w h. fadd w (fmul (point_intensity f h) 1800)) 0 (half_hours t n))
     (of_int (1800 * int n))"

lemma prepare_points_ready:
  "(\<exists>ps. prepare_points f = Inr ps) \<longleftrightarrow> ready f"
  "prepare_points f = Inr ps \<Longrightarrow> ps = sort_key pp_start (map prepared_of (cs_points f)) \<and> half_hourly ps"
proof -
  let ?ps = "sort_key pp_start (map prepared_of (cs_points f))"
  have s: "map pp_start ?ps = sort (map cp_start (cs_points f))"
    by (rule properties_for_sort [symmetric]) (simp_all add: prepared_of_def multiset.map_comp o_def)
  have w: "sorted_wrt (\<lambda>p q. pp_start p < pp_start q) ?ps \<longleftrightarrow> sorted_wrt (<) (map pp_start ?ps)"
    by (simp add: sorted_wrt_map)
  have "half_hourly ?ps \<longleftrightarrow> ready f"
    unfolding half_hourly_def ready_def w s strict_sorted_iff by (auto simp: prepared_of_def)
  then show "(\<exists>ps. prepare_points f = Inr ps) \<longleftrightarrow> ready f" by (simp add: prepare_points_iff)
  show "prepare_points f = Inr ps \<Longrightarrow> ps = ?ps \<and> half_hourly ps"
    by (rule prepare_points_iff [THEN iffD1])
qed

lemma prepared_lookup:
  assumes "half_hourly ps" and "ps = sort_key pp_start (map prepared_of (cs_points f))"
  shows "lookup (by_start_of ps) h = None \<longleftrightarrow> \<not> has_point f h"
    and "intensity_at ps h = point_intensity f h"
proof -
  note l = lookup_by_start [OF half_hourly_distinct [OF assms(1)], of h]
  have s: "set ps = prepared_of ` set (cs_points f)" by (simp add: assms(2))
  show n: "lookup (by_start_of ps) h = None \<longleftrightarrow> \<not> has_point f h"
  proof (cases "lookup (by_start_of ps) h")
    case None
    then have "prepared_of q \<in> set ps \<longrightarrow> pp_start (prepared_of q) \<noteq> h" for q using l [of "prepared_of q"] by simp
    with None s show ?thesis by (auto simp: has_point_def prepared_of_def)
  next
    case (Some p)
    with l [of p] s show ?thesis by (auto simp: has_point_def prepared_of_def)
  qed
  show "intensity_at ps h = point_intensity f h"
  proof (cases "find (\<lambda>q. cp_start q = h) (cs_points f)")
    case None
    then have "lookup (by_start_of ps) h = None" by (auto simp: n has_point_def find_None_iff)
    with None show ?thesis by (simp add: intensity_at_def point_intensity_def)
  next
    case (Some q)
    then have "q \<in> set (cs_points f)" "cp_start q = h" by (auto simp: find_Some_iff)
    then have "prepared_of q \<in> set ps" "pp_start (prepared_of q) = h"
      unfolding s by (auto simp: prepared_of_def)
    then have "lookup (by_start_of ps) h = Some (prepared_of q)" using l by blast
    with Some show ?thesis by (simp add: intensity_at_def point_intensity_def prepared_of_def)
  qed
qed

lemma prepared_mean:
  assumes "half_hourly ps" and "ps = sort_key pp_start (map prepared_of (cs_points f))"
  shows "mean_of ps t n = series_mean f t n"
    and "has_points ps (half_hours t n) \<longleftrightarrow> (\<forall>h \<in> set (half_hours t n). has_point f h)"
  using prepared_lookup [OF assms]
  by (simp_all add: mean_of_def series_mean_def weighted_total_def has_points_def)

lemma duration_seconds_iff:
  assumes "d \<le> 4000000000 * second"
  shows "duration_seconds d = Inr k \<longleftrightarrow> 0 < d \<and> half_hour dvd d \<and> d = k * second"
proof (cases "0 < d")
  case False
  then have "int_div d 1000000 \<le> 0"
    using f64.pos_iff [of "of_int d / of_int 1000000"] by (simp add: int_div_def not_less [symmetric])
  with False show ?thesis by (simp add: duration_seconds_def)
next
  case True
  define x where "x = int_div d 1000000"
  define m where "m = \<lfloor>x\<rfloor>"
  have x: "0 < x" "x \<le> of_int 4000000000"
    using True assms micro_le_upper [of 4000000000 d] f64.pos_iff [of "of_int d / of_int 1000000"]
    by (simp_all add: x_def int_div_def time_defs)
  then have "m \<le> 4000000000" "0 \<le> m" unfolding m_def by (simp_all add: floor_le_iff)
  then have m: "0 \<le> m" "m < 2 ^ 32" by simp_all
  have "duration_seconds d = Inr k \<longleftrightarrow> x = of_int m \<and> m mod 1800 = 0 \<and> k = m"
    using x(1) m(1) by (auto simp: duration_seconds_def x_def [symmetric] trunc_def m_def interval_seconds Let_def)
  also have "\<dots> \<longleftrightarrow> d = m * 1000000 \<and> m mod 1800 = 0 \<and> k = m"
    using total_seconds_whole [OF m, of d] by (simp add: x_def)
  also have "\<dots> \<longleftrightarrow> half_hour dvd d \<and> d = k * second"
  proof
    assume "d = m * 1000000 \<and> m mod 1800 = 0 \<and> k = m"
    then show "half_hour dvd d \<and> d = k * second" by (auto simp: time_defs elim!: dvdE simp flip: dvd_eq_mod_eq_0)
  next
    assume a: "half_hour dvd d \<and> d = k * second"
    then obtain j where j: "d = 1800000000 * j" by (auto simp: time_defs elim: dvdE)
    with a have k: "k = 1800 * j" by (simp add: time_defs)
    then have "0 \<le> k" "k < 2 ^ 32" using a True assms by (auto simp: time_defs)
    with a have "x = of_int k" using total_seconds_whole [of k d] by (simp add: x_def time_defs)
    then have "m = k" by (simp add: m_def)
    with a k show "d = m * 1000000 \<and> m mod 1800 = 0 \<and> k = m" by (simp add: time_defs)
  qed
  finally show ?thesis using True by simp
qed

lemma half_hours_target: "t + int (Suc n) * half_hour = (t + half_hour) + int n * half_hour"
  by (simp add: algebra_simps)

lemma steps_half_hours: "steps t (t + int n * half_hour) = half_hours t n"
proof (induction n arbitrary: t)
  case (Suc n)
  have "t < t + int (Suc n) * half_hour" by simp
  then have "steps t (t + int (Suc n) * half_hour) = t # steps (t + half_hour) (t + int (Suc n) * half_hour)"
    by (simp only: steps.simps [of t] interval_half_hour if_True)
  then show ?case unfolding half_hours_target half_hours_Suc Suc .
qed (simp add: steps.simps)

lemma steps_inclusive_half_hours: "steps_inclusive t (t + int n * half_hour) = half_hours t (Suc n)"
proof (induction n arbitrary: t)
  case 0
  have "\<not> t + half_hour \<le> t" using durations_pos(5) by linarith
  then have "steps_inclusive (t + half_hour) t = []" by (simp only: steps_inclusive.simps [of "t + half_hour"] if_False)
  then show ?case by (simp add: steps_inclusive.simps [of t] interval_half_hour half_hours_Suc)
next
  case (Suc n)
  have "t \<le> t + int (Suc n) * half_hour" by (simp add: time_defs)
  then have "steps_inclusive t (t + int (Suc n) * half_hour)
      = t # steps_inclusive (t + half_hour) (t + int (Suc n) * half_hour)"
    by (simp only: steps_inclusive.simps [of t] interval_half_hour if_True)
  then show ?case unfolding half_hours_target half_hours_Suc [of t] Suc .
qed

lemma half_hours_set:
  assumes "half_hour dvd a" and "half_hour dvd b"
  shows "t \<in> set (half_hours a n) \<longleftrightarrow> half_hour dvd t \<and> a \<le> t \<and> t < a + int n * half_hour"
proof
  assume "half_hour dvd t \<and> a \<le> t \<and> t < a + int n * half_hour"
  moreover from this assms(1) obtain k where "t - a = half_hour * k" by (metis dvd_diff dvdE)
  ultimately have "t = a + int (nat k) * half_hour" "nat k \<in> {0..<n}"
    by (auto simp: time_defs)
  then show "t \<in> set (half_hours a n)" unfolding half_hours_def set_map set_upt by (rule image_eqI)
next
  assume "t \<in> set (half_hours a n)"
  then show "half_hour dvd t \<and> a \<le> t \<and> t < a + int n * half_hour"
    using assms by (auto simp: half_hours_def time_defs)
qed

definition candidate_starts :: "instant \<Rightarrow> instant \<Rightarrow> instant list" where
  "candidate_starts earliest latest = (if earliest \<le> latest then steps_inclusive earliest latest else [])"

lemma candidate_starts_set:
  assumes "half_hour dvd e" and "half_hour dvd l"
  shows "t \<in> set (candidate_starts e (l - int n * half_hour))
    \<longleftrightarrow> half_hour dvd t \<and> e \<le> t \<and> t + int n * half_hour \<le> l"
proof (cases "e \<le> l - int n * half_hour")
  case False
  then show ?thesis by (auto simp: candidate_starts_def)
next
  case True
  have d: "half_hour dvd l - int n * half_hour - e" using assms by simp
  then obtain k where k: "l - int n * half_hour - e = half_hour * k" by (elim dvdE)
  with True have "0 \<le> k" by (simp add: time_defs)
  with k have eq: "l - int n * half_hour = e + int (nat k) * half_hour" by (simp add: algebra_simps)
  have "t \<in> set (half_hours e (Suc (nat k))) \<longleftrightarrow> half_hour dvd t \<and> e \<le> t \<and> t < e + int (Suc (nat k)) * half_hour"
    by (rule half_hours_set [OF assms])
  also have "\<dots> \<longleftrightarrow> half_hour dvd t \<and> e \<le> t \<and> t \<le> l - int n * half_hour"
  proof (intro conj_cong refl)
    assume "half_hour dvd t"
    then have "half_hour dvd e + int (Suc (nat k)) * half_hour - t" using assms(1) by simp
    then have "t < e + int (Suc (nat k)) * half_hour \<longleftrightarrow> t + half_hour \<le> e + int (Suc (nat k)) * half_hour"
      using zdvd_imp_le [of half_hour "e + int (Suc (nat k)) * half_hour - t"] durations_pos(5) by linarith
    also have "\<dots> \<longleftrightarrow> t \<le> l - int n * half_hour" unfolding eq by (simp add: algebra_simps)
    finally show "t < e + int (Suc (nat k)) * half_hour \<longleftrightarrow> t \<le> l - int n * half_hour" .
  qed
  finally show ?thesis
    unfolding candidate_starts_def if_P [OF True] unfolding eq steps_inclusive_half_hours
    unfolding eq [symmetric] by (simp add: algebra_simps)
qed

definition window_result :: "carbon_series \<Rightarrow> nat \<Rightarrow> calculated_window \<Rightarrow> bool" where
  "window_result f n x \<longleftrightarrow> kw_raw_average x = series_mean f (cw_start (kw_public x)) n
     \<and> cw_end (kw_public x) = cw_start (kw_public x) + int n * half_hour
     \<and> cw_average_intensity_gco2_kwh (kw_public x) = py_round 2 (kw_raw_average x)"

lemma candidate_windows:
  assumes "prepare_points f = Inr ps" and "\<forall>q \<in> set (cs_points f). 0 \<le> cp_intensity q"
    and "half_hour dvd e" and "half_hour dvd l" and "0 < n" and "n \<le> 2000000"
  shows "\<exists>found. traverse (\<lambda>t. window_at (by_start_of ps) (map pp_start ps) t (1800 * int n))
        (candidate_starts e (l - int n * half_hour)) = Inr found
    \<and> (\<forall>x \<in> set (somes found). candidate f e l n (cw_start (kw_public x)) \<and> window_result f n x)
    \<and> (\<forall>t. candidate f e l n t \<longrightarrow> (\<exists>x \<in> set (somes found). cw_start (kw_public x) = t))"
proof -
  let ?w = "\<lambda>t. window_at (by_start_of ps) (map pp_start ps) t (1800 * int n)"
  have ps: "ps = sort_key pp_start (map prepared_of (cs_points f))" "half_hourly ps"
    using prepare_points_ready(2) [OF assms(1)] by blast+
  have pos: "\<forall>p \<in> set ps. 0 \<le> pp_intensity p" using assms(2) ps(1) by (auto simp: prepared_of_def)
  have W: "\<exists>x. ?w t = Inr x \<and> (x \<noteq> None \<longleftrightarrow> (\<forall>h \<in> set (half_hours t n). has_point f h))
      \<and> (\<forall>y. x = Some y \<longrightarrow> cw_start (kw_public y) = t \<and> window_result f n y)"
    if "half_hour dvd t" for t
  proof -
    have "1800 * int n < 2 ^ 53" using assms(6) by simp
    from window_at_aligned [OF ps(2) pos that assms(5) this] obtain ids where
      "?w t = Inr (if \<forall>h \<in> set (half_hours t n). has_point f h
         then Some \<lparr>kw_raw_average = series_mean f t n,
           kw_public = \<lparr>cw_start = t, cw_end = t + int n * half_hour,
             cw_average_intensity_gco2_kwh = py_round 2 (series_mean f t n),
             cw_source_record_ids = ids, cw_coverage_fraction = 1\<rparr>\<rparr>
         else None)"
      unfolding prepared_mean [OF ps(2,1), of t n] by blast
    then show ?thesis
      by (cases "\<forall>h \<in> set (half_hours t n). has_point f h") (simp_all only: if_True if_False, auto simp: window_result_def)
  qed
  have "\<exists>found. list_all2 (\<lambda>t x. ?w t = Inr x) (candidate_starts e (l - int n * half_hour)) found"
    using W candidate_starts_set [OF assms(3,4)] traverse_total
  proof -
    have "traverse ?w ts = Inr (map (\<lambda>t. case ?w t of Inr x \<Rightarrow> x | Inl _ \<Rightarrow> None) ts)"
      if "\<forall>t \<in> set ts. half_hour dvd t" for ts
      using that W by (intro traverse_total) fastforce
    then show ?thesis
      using candidate_starts_set [OF assms(3,4)] by (auto simp flip: traverse_eq_Inr)
  qed
  then obtain found where found: "list_all2 (\<lambda>t x. ?w t = Inr x) (candidate_starts e (l - int n * half_hour)) found" ..
  have "candidate f e l n (cw_start (kw_public x)) \<and> window_result f n x" if "Some x \<in> set found" for x
  proof -
    from that found obtain t where t: "t \<in> set (candidate_starts e (l - int n * half_hour))" "?w t = Inr (Some x)"
      by (auto simp: list_all2_conv_all_nth in_set_conv_nth) metis
    then have t': "half_hour dvd t" "e \<le> t" "t + int n * half_hour \<le> l"
      using candidate_starts_set [OF assms(3,4)] by blast+
    with W [OF t'(1)] t(2) show ?thesis by (auto simp: candidate_def)
  qed
  moreover have "\<exists>x. Some x \<in> set found \<and> cw_start (kw_public x) = t" if c: "candidate f e l n t" for t
  proof -
    from c have t: "t \<in> set (candidate_starts e (l - int n * half_hour))" "half_hour dvd t"
      using candidate_starts_set [OF assms(3,4)] by (auto simp: candidate_def)
    with found obtain x where "x \<in> set found" "?w t = Inr x"
      by (auto simp: list_all2_conv_all_nth in_set_conv_nth) metis
    with W [OF t(2)] c show ?thesis by (auto simp: candidate_def)
  qed
  ultimately show ?thesis using found by (intro exI [of _ found]) (auto simp: traverse_eq_Inr Bex_def)
qed

lemma plan_shape:
  assumes "ready f" and "\<forall>q \<in> set (cs_points f). 0 \<le> cp_intensity q"
    and "e < l" and "half_hour dvd e" and "half_hour dvd l" and "0 < n" and "n \<le> 2000000"
  shows "\<exists>calc cov cmp.
      plan_flexible_use f (int n * half_hour) (Aware e) (Aware l) (Aware now) g True =
        (case py_min (\<lambda>c. (kw_raw_average c, cw_start (kw_public c))) calc of
           None \<Rightarrow> plan_without_recommendation (1800 * int n) e l cov cmp
         | Some r \<Rightarrow> rbind (compare_start_now r f (case g of None \<Rightarrow> f | Some f' \<Rightarrow> f') now (1800 * int n))
             (plan_with_recommendation (1800 * int n) e l cov r))
    \<and> (\<forall>x \<in> set calc. candidate f e l n (cw_start (kw_public x)) \<and> window_result f n x)
    \<and> (\<forall>t. candidate f e l n t \<longrightarrow> (\<exists>x \<in> set calc. cw_start (kw_public x) = t))
    \<and> fc_gap_starts cov = filter (\<lambda>h. \<not> has_point f h) (half_hours e (nat ((l - e) div half_hour)))"
proof -
  obtain ps where prep: "prepare_points f = Inr ps" using prepare_points_ready(1) assms(1) by blast
  have ps: "ps = sort_key pp_start (map prepared_of (cs_points f))" "half_hourly ps"
    using prepare_points_ready(2) [OF prep] by blast+
  obtain found where found:
    "traverse (\<lambda>t. window_at (by_start_of ps) (map pp_start ps) t (1800 * int n))
       (candidate_starts e (l - int n * half_hour)) = Inr found"
    "\<forall>x \<in> set (somes found). candidate f e l n (cw_start (kw_public x)) \<and> window_result f n x"
    "\<forall>t. candidate f e l n t \<longrightarrow> (\<exists>x \<in> set (somes found). cw_start (kw_public x) = t)"
    using candidate_windows [OF prep assms(2,4,5,6,7)] by (elim exE conjE)
  have secs: "duration_seconds (int n * half_hour) = Inr (1800 * int n)"
    using assms(6,7) by (subst duration_seconds_iff) (auto simp: time_defs)
  have len: "l - (1800 * int n) * second = l - int n * half_hour" by (simp add: time_defs)
  have "half_hour dvd l - e" using assms(4,5) by simp
  then have expected: "steps e l = half_hours e (nat ((l - e) div half_hour))"
    using steps_half_hours [of e "nat ((l - e) div half_hour)"] assms(3) pos_imp_zdiv_nonneg_iff [of half_hour "l - e"]
    by simp
  have gaps: "filter (\<lambda>t. lookup (by_start_of ps) t = None) (steps e l)
      = filter (\<lambda>h. \<not> has_point f h) (half_hours e (nat ((l - e) div half_hour)))"
    unfolding expected prepared_lookup(1) [OF ps(2,1)] ..
  obtain cov where cov: "coverage_of (1800 * int n) (steps e l) (filter (\<lambda>t. lookup (by_start_of ps) t = None) (steps e l))
      (candidate_starts e (l - int n * half_hour)) (somes found) = Inr cov"
    "fc_gap_starts cov = filter (\<lambda>t. lookup (by_start_of ps) t = None) (steps e l)"
    using coverage_total [of "1800 * int n" "filter (\<lambda>t. lookup (by_start_of ps) t = None) (steps e l)" "steps e l"
        "candidate_starts e (l - int n * half_hour)" "somes found"] assms(6)
    by (auto simp: length_filter_le)
  obtain cmp where cmp: "comparison_without_recommendation f (case g of None \<Rightarrow> f | Some f' \<Rightarrow> f') = Inr cmp"
    using comparison_without_total by blast
  have "plan_flexible_use f (int n * half_hour) (Aware e) (Aware l) (Aware now) g True =
        (case py_min (\<lambda>c. (kw_raw_average c, cw_start (kw_public c))) (somes found) of
           None \<Rightarrow> plan_without_recommendation (1800 * int n) e l cov cmp
         | Some r \<Rightarrow> rbind (compare_start_now r f (case g of None \<Rightarrow> f | Some f' \<Rightarrow> f') now (1800 * int n))
             (plan_with_recommendation (1800 * int n) e l cov r))"
    using assms(3,4,5) unfolding plan_flexible_use_def secs prep
    by (simp add: is_half_hour_boundary_dvd Let_def len flip: candidate_starts_def) (simp add: found(1) cov(1) cmp)
  with found(2,3) cov(2) gaps show ?thesis by (intro exI conjI) auto
qed

lemma plan_accepted:
  assumes "plan_flexible_use f d (Aware e) (Aware l) (Aware now) g c = Inr p" and "d \<le> 3600000000 * second"
  shows "c \<and> e < l \<and> half_hour dvd e \<and> half_hour dvd l \<and> ready f \<and> 0 < d \<and> half_hour dvd d"
proof -
  have d: "d \<le> 4000000000 * second" using assms(2) by (simp add: time_defs)
  have "c \<and> e < l \<and> half_hour dvd e \<and> half_hour dvd l \<and> (\<exists>k. duration_seconds d = Inr k)
      \<and> (\<exists>ps. prepare_points f = Inr ps)"
    using assms(1) unfolding plan_flexible_use_def
    by (auto simp: rbind_eq_Inr is_half_hour_boundary_dvd split: if_splits)
  then show ?thesis unfolding duration_seconds_iff [OF d] prepare_points_ready(1) by blast
qed

lemma whole_half_hours:
  assumes "0 < d" and "half_hour dvd d" and "d \<le> 3600000000 * second"
  obtains n where "d = int n * half_hour" and "0 < n" and "n \<le> 2000000"
proof -
  from assms(2) obtain k where k: "d = half_hour * k" by (elim dvdE)
  with assms(1,3) have "0 < k" "k \<le> 2000000" by (auto simp: time_defs zero_less_mult_iff)
  with k show ?thesis by (intro that [of "nat k"]) auto
qed

lemma recommendation_total:
  assumes "\<forall>q \<in> set (cs_points f). 0 \<le> cp_intensity q"
    and "ready (case g of None \<Rightarrow> f | Some f' \<Rightarrow> f')"
    and "\<forall>q \<in> set (cs_points (case g of None \<Rightarrow> f | Some f' \<Rightarrow> f')). 0 \<le> cp_intensity q" and "0 < n"
  shows "\<exists>p. rbind (compare_start_now r f (case g of None \<Rightarrow> f | Some f' \<Rightarrow> f') now (1800 * int n))
             (plan_with_recommendation (1800 * int n) e l cov r) = Inr p"
proof -
  obtain qs where "prepare_points (case g of None \<Rightarrow> f | Some f' \<Rightarrow> f') = Inr qs"
    using assms(2) prepare_points_ready(1) by blast
  from compare_start_now_total [OF this assms(3)] obtain cmp where cmp:
    "compare_start_now r f (case g of None \<Rightarrow> f | Some f' \<Rightarrow> f') now (1800 * int n) = Inr cmp"
    "fx_status cmp = Compatible \<longrightarrow> fx_is_meaningful cmp \<noteq> None" by blast
  have "60 \<le> 1800 * int n" using assms(4) by simp
  from plan_with_total [OF this cmp(2), of e l cov r] show ?thesis unfolding cmp(1) rbind_Inr by blast
qed

lemma round_half_even_unique:
  assumes "\<bar>y - of_int m\<bar> < 1 / 2 \<or> \<bar>y - of_int m\<bar> = 1 / 2 \<and> even m"
  shows "round_half_even y = m"
proof (cases "of_int m \<le> y")
  case True
  with assms have "\<lfloor>y\<rfloor> = m" by (intro floor_unique) auto
  with True assms show ?thesis by (auto simp: round_half_even_def Let_def)
next
  case False
  with assms have "\<lfloor>y\<rfloor> = m - 1" by (intro floor_unique) auto
  with False assms show ?thesis by (auto simp: round_half_even_def Let_def)
qed

text \<open>Evaluating one rounding: the double whose distance is at most half a unit in the last place.\<close>

lemma fl_eqI:
  assumes "2 ^ 52 < m" and "m < 2 ^ 53" and "\<bar>x / 2 powi k - of_int m\<bar> < 1 / 2 \<or> \<bar>x / 2 powi k - of_int m\<bar> = 1 / 2 \<and> even m"
  shows "fl x = of_int m * 2 powi k"
proof -
  have p: "(0::rat) < 2 powi k" by simp
  have m: "(2::rat) ^ 52 + 1 \<le> of_int m" "of_int m + 1 \<le> (2::rat) ^ 53"
    using assms(1,2) of_int_le_iff [where 'a = rat, of "2 ^ 52 + 1" m] of_int_le_iff [where 'a = rat, of "m + 1" "2 ^ 53"]
    by simp_all
  with assms(3) have q: "(2::rat) ^ 52 \<le> x / 2 powi k" "x / 2 powi k < 2 ^ 53" by linarith+
  then have "2 ^ 52 * 2 powi k \<le> x" "x < 2 ^ 53 * 2 powi k"
    using p by (simp_all add: pos_le_divide_eq pos_divide_less_eq)
  then have "2 powi (k + 52) \<le> x" "x < 2 powi (k + 52 + 1)"
    by (simp_all add: power_int_add)
  moreover from this p have "0 < x" by (meson less_le_trans zero_less_power_int zero_less_numeral)
  ultimately have "fl x = of_int (round_half_even (x / 2 powi k)) * 2 powi k"
    using ilog2_eqI [of "k + 52" x] by (simp add: fl_def Let_def)
  then show ?thesis using round_half_even_unique [OF assms(3)] by simp
qed

section \<open>Properties\<close>

text \<open>C3: a plan recommends a window exactly when the forecast covers some window of the requested
  length between the bounds; the window it recommends is one of those, has the lowest unrounded
  average of all of them and the earliest start among the equal ones, and the gaps it reports are
  the half hours between the bounds for which the series has no point.\<close>

theorem flexible_use_recommends_lowest:
  assumes "plan_flexible_use f (int n * half_hour) (Aware e) (Aware l) (Aware now) g c = Inr p"
    and "\<forall>q \<in> set (cs_points f). 0 \<le> cp_intensity q" and "n \<le> 2000000"
  shows "fc_gap_starts (fp_coverage p) = filter (\<lambda>h. \<not> has_point f h) (half_hours e (nat ((l - e) div half_hour)))
    \<and> (case fp_recommended_window p of
         None \<Rightarrow> (\<forall>t. \<not> candidate f e l n t)
       | Some w \<Rightarrow> candidate f e l n (cw_start w) \<and> cw_end w = cw_start w + int n * half_hour
           \<and> cw_average_intensity_gco2_kwh w = py_round 2 (series_mean f (cw_start w) n)
           \<and> (\<forall>t. candidate f e l n t \<longrightarrow>
                (series_mean f (cw_start w) n, cw_start w) \<le> (series_mean f t n, t)))"
proof -
  have d: "int n * half_hour \<le> 3600000000 * second" using assms(3) by (simp add: time_defs)
  note acc = plan_accepted [OF assms(1) d]
  then have "0 < n" by (simp add: zero_less_mult_iff)
  obtain calc cov cmp where plan: "(case py_min (\<lambda>c. (kw_raw_average c, cw_start (kw_public c))) calc of
           None \<Rightarrow> plan_without_recommendation (1800 * int n) e l cov cmp
         | Some r \<Rightarrow> rbind (compare_start_now r f (case g of None \<Rightarrow> f | Some f' \<Rightarrow> f') now (1800 * int n))
             (plan_with_recommendation (1800 * int n) e l cov r)) = Inr p"
    and calc: "\<forall>x \<in> set calc. candidate f e l n (cw_start (kw_public x)) \<and> window_result f n x"
      "\<forall>t. candidate f e l n t \<longrightarrow> (\<exists>x \<in> set calc. cw_start (kw_public x) = t)"
    and gaps: "fc_gap_starts cov = filter (\<lambda>h. \<not> has_point f h) (half_hours e (nat ((l - e) div half_hour)))"
    using plan_shape [of f e l n now g] assms acc \<open>0 < n\<close> by auto
  show ?thesis
  proof (cases "py_min (\<lambda>c. (kw_raw_average c, cw_start (kw_public c))) calc")
    case None
    then have "fp_recommended_window p = None" "fp_coverage p = cov"
      using plan unfolding None option.case
      by (auto simp: plan_without_recommendation_def validate_plan_def split: if_splits)
    moreover from None have "calc = []" by simp
    ultimately show ?thesis using calc(2) gaps by simp
  next
    case (Some r)
    obtain cmp' where "plan_with_recommendation (1800 * int n) e l cov r cmp' = Inr p"
      using plan unfolding Some option.case by (auto simp: rbind_eq_Inr)
    then have p: "fp_recommended_window p = Some (kw_public r)" "fp_coverage p = cov"
      by (auto simp: plan_with_recommendation_def validate_plan_def Let_def split: if_splits prod.splits)
    have r: "candidate f e l n (cw_start (kw_public r))" "window_result f n r"
      using py_min_in [OF Some] calc(1) by blast+
    have least: "(kw_raw_average r, cw_start (kw_public r)) \<le> (series_mean f t n, t)" if t: "candidate f e l n t" for t
    proof -
      from calc(2) t obtain x where x: "x \<in> set calc" "cw_start (kw_public x) = t" by blast
      with calc(1) have "kw_raw_average x = series_mean f t n" by (auto simp: window_result_def)
      with py_min_le [OF Some x(1)] x(2) show ?thesis by simp
    qed
    with r show ?thesis unfolding p option.case gaps window_result_def by simp
  qed
qed

text \<open>C35: the planner answers exactly the requests it can: a continuous use of a positive whole
  number of half hours, aligned bounds in order, and series whose points are distinct aligned half
  hours (the comparison series matters only when there is a window to compare with).  Then none of
  the validators of its response models rejects what it built.\<close>

theorem flexible_use_answers_iff:
  assumes "\<forall>q \<in> set (cs_points f). 0 \<le> cp_intensity q" and "d \<le> 3600000000 * second"
    and "\<forall>q \<in> set (cs_points (case g of None \<Rightarrow> f | Some f' \<Rightarrow> f')). 0 \<le> cp_intensity q"
  shows "(\<exists>p. plan_flexible_use f d (Aware e) (Aware l) (Aware now) g c = Inr p) \<longleftrightarrow>
     c \<and> 0 < d \<and> half_hour dvd d \<and> e < l \<and> half_hour dvd e \<and> half_hour dvd l \<and> ready f
     \<and> ((\<exists>t. candidate f e l (nat (d div half_hour)) t) \<longrightarrow> ready (case g of None \<Rightarrow> f | Some f' \<Rightarrow> f'))"
    (is "_ = ?r")
proof (cases "c \<and> e < l \<and> half_hour dvd e \<and> half_hour dvd l \<and> ready f \<and> 0 < d \<and> half_hour dvd d")
  case False
  with plan_accepted [OF _ assms(2)] show ?thesis by blast
next
  case acc: True
  then obtain n where n: "d = int n * half_hour" "0 < n" "n \<le> 2000000"
    using whole_half_hours [OF _ _ assms(2)] by blast
  then have dn: "nat (d div half_hour) = n" by (simp add: time_defs)
  obtain calc cov cmp where plan: "plan_flexible_use f d (Aware e) (Aware l) (Aware now) g c =
        (case py_min (\<lambda>c. (kw_raw_average c, cw_start (kw_public c))) calc of
           None \<Rightarrow> plan_without_recommendation (1800 * int n) e l cov cmp
         | Some r \<Rightarrow> rbind (compare_start_now r f (case g of None \<Rightarrow> f | Some f' \<Rightarrow> f') now (1800 * int n))
             (plan_with_recommendation (1800 * int n) e l cov r))"
    and calc: "\<forall>x \<in> set calc. candidate f e l n (cw_start (kw_public x)) \<and> window_result f n x"
      "\<forall>t. candidate f e l n t \<longrightarrow> (\<exists>x \<in> set calc. cw_start (kw_public x) = t)"
    using plan_shape [of f e l n now g] assms(1) acc n by auto
  show ?thesis
  proof (cases "py_min (\<lambda>c. (kw_raw_average c, cw_start (kw_public c))) calc")
    case None
    then have "\<not> (\<exists>t. candidate f e l n t)" using calc(2) by simp
    moreover have "0 < (1800 * int n) div 60" using n(2) by simp
    ultimately show ?thesis
      using acc unfolding plan None dn by (simp add: plan_without_recommendation_def validate_plan_def)
  next
    case (Some r)
    then have cand: "\<exists>t. candidate f e l n t" using py_min_in [OF Some] calc(1) by blast
    let ?run = "rbind (compare_start_now r f (case g of None \<Rightarrow> f | Some f' \<Rightarrow> f') now (1800 * int n))
             (plan_with_recommendation (1800 * int n) e l cov r)"
    have "(\<exists>p. ?run = Inr p) \<longleftrightarrow> ready (case g of None \<Rightarrow> f | Some f' \<Rightarrow> f')"
    proof
      assume "\<exists>p. ?run = Inr p"
      then have "\<exists>qs. prepare_points (case g of None \<Rightarrow> f | Some f' \<Rightarrow> f') = Inr qs"
        unfolding compare_start_now_def rbind_eq_Inr by blast
      then show "ready (case g of None \<Rightarrow> f | Some f' \<Rightarrow> f')" unfolding prepare_points_ready(1) .
    next
      assume "ready (case g of None \<Rightarrow> f | Some f' \<Rightarrow> f')"
      then show "\<exists>p. ?run = Inr p" by (rule recommendation_total [OF assms(1) _ assms(3) n(2)])
    qed
    then show ?thesis using acc cand unfolding plan Some option.case dn by simp
  qed
qed

text \<open>C36: the window loop cannot run for ever: whatever the points, no infinite sequence of rounds
  exists, because each round moves the cursor forward and never past the end of the window.\<close>

theorem window_loop_terminates:
  "\<nexists>run. \<forall>i. ws_cursor (run i) < target
      \<and> window_step by_start starts target (run i) = Inr (Some (run (Suc i)))"
proof
  assume "\<exists>run. \<forall>i. ws_cursor (run i) < target
      \<and> window_step by_start starts target (run i) = Inr (Some (run (Suc i)))"
  then obtain run where "\<And>i. window_step by_start starts target (run i) = Inr (Some (run (Suc i)))"
    by blast
  then have adv: "ws_cursor (run i) < ws_cursor (run (Suc i)) \<and> ws_cursor (run (Suc i)) \<le> target" for i
    using window_step_advances by blast
  have far: "ws_cursor (run 0) + int i \<le> ws_cursor (run i)" for i
  proof (induction i)
    case (Suc i)
    with adv [of i] show ?case by simp
  qed simp
  from far [of "Suc (nat (target - ws_cursor (run 0)))"] adv [of "nat (target - ws_cursor (run 0))"] adv [of 0]
  show False by simp
qed

definition example_point :: "instant \<Rightarrow> carbon_point" where
  "example_point t = \<lparr>cp_start = t, cp_end = t + half_hour, cp_intensity = 100, cp_source_record_id = ''r''\<rparr>"

definition example_series :: carbon_series where
  "example_series = \<lparr>cs_series_id = ''s'', cs_geography = ''GB'', cs_source_id = ''neso'',
     cs_methodology_version = ''v1'', cs_vintage_at = Some 0, cs_fact_class = ''forecast'',
     cs_points = map example_point [0, half_hour, 2 * half_hour]\<rparr>"

lemma example_prepared:
  "prepare_points example_series = Inr (map (prepared_of \<circ> example_point) [0, half_hour, 2 * half_hour])"
  unfolding prepare_points_iff
  by (simp add: example_series_def example_point_def prepared_of_def half_hourly_def time_defs)

lemma lost_seconds:
  "int_div 1799997000 1000000 = 7916470525847667 / 2 ^ 42"
  "int_div 3000 1000000 = 6917529027641082 / 2 ^ 61"
  "fadd 0 (7916470525847667 / 2 ^ 42) = 7916470525847667 / 2 ^ 42"
  "fadd (7916470525847667 / 2 ^ 42) 1800 = 7916477122917434 / 2 ^ 41"
  "fadd (7916477122917434 / 2 ^ 41) (6917529027641082 / 2 ^ 61) = 7916483719987201 / 2 ^ 41"
proof -
  show "int_div 1799997000 1000000 = 7916470525847667 / 2 ^ 42"
    using fl_eqI [of 7916470525847667 "1799997 / 1000" "- 42"] by (simp add: int_div_def power_int_minus)
  show "int_div 3000 1000000 = 6917529027641082 / 2 ^ 61"
    using fl_eqI [of 6917529027641082 "3 / 1000" "- 61"] by (simp add: int_div_def power_int_minus)
  show "fadd 0 (7916470525847667 / 2 ^ 42) = 7916470525847667 / 2 ^ 42"
    using fl_representable [of 7916470525847667 "- 42"] by (simp add: fadd_def power_int_minus field_simps)
  show "fadd (7916470525847667 / 2 ^ 42) 1800 = 7916477122917434 / 2 ^ 41"
    unfolding fadd_def
    by (rule trans [OF fl_eqI [of 7916477122917434 "7916470525847667 / 2 ^ 42 + 1800" "- 41"]]) (simp_all add: power_int_minus)
  show "fadd (7916477122917434 / 2 ^ 41) (6917529027641082 / 2 ^ 61) = 7916483719987201 / 2 ^ 41"
    unfolding fadd_def
    by (rule trans [OF fl_eqI [of 7916483719987201 "7916477122917434 / 2 ^ 41 + 6917529027641082 / 2 ^ 61" "- 41"]])
      (simp_all add: power_int_minus)
qed

lemma window_loop_round:
  "ws_cursor s < target \<Longrightarrow> window_step d ts target s = Inr (Some s') \<Longrightarrow>
    window_loop d ts target s = window_loop d ts target s'"
  by (subst window_loop.simps) simp

lemma window_loop_done: "target \<le> ws_cursor s \<Longrightarrow> window_loop d ts target s = Inr (Some s)"
  by (subst window_loop.simps) simp

lemma example_lost:
  "window_at (by_start_of (map (prepared_of \<circ> example_point) [0, half_hour, 2 * half_hour]))
     (map pp_start (map (prepared_of \<circ> example_point) [0, half_hour, 2 * half_hour])) 3000 3600 = Inr None"
proof -
  let ?ps = "map (prepared_of \<circ> example_point) [0, half_hour, 2 * half_hour]"
  have hh: "half_hourly ?ps" by (simp add: half_hourly_def prepared_of_def example_point_def time_defs)
  have cov: "point_covering (by_start_of ?ps) (map pp_start ?ps) t = Inr (lookup (by_start_of ?ps) (t - t mod half_hour))" for t
    by (rule point_covering_floor [OF hh])
  have l: "lookup (by_start_of ?ps) t = (if t \<in> {0, half_hour, 2 * half_hour} then Some (prepared_of (example_point t)) else None)" for t
    by (auto simp: by_start_of_def prepared_of_def example_point_def)
  define B where "B = by_start_of ?ps"
  define S where "S = map pp_start ?ps"
  have found: "point_covering B S t = Inr (let h = t - t mod half_hour
      in if h \<in> {0, half_hour, 2 * half_hour} then Some (prepared_of (example_point h)) else None)" for t
    unfolding B_def S_def cov l Let_def ..
  note step = window_step_def found prepared_of_def example_point_def time_defs lost_seconds
    half_hour_seconds [unfolded time_defs]
  let ?s0 = "\<lparr>ws_cursor = 3000, ws_weighted_total = 0, ws_covered_seconds = 0, ws_source_record_ids = []\<rparr>"
  have 1: "\<exists>w. window_step B S 3600003000 ?s0 = Inr (Some \<lparr>ws_cursor = 1800000000, ws_weighted_total = w,
      ws_covered_seconds = 7916470525847667 / 2 ^ 42, ws_source_record_ids = [''r'']\<rparr>)"
    by (simp add: step Let_def del: power_numeral)
  have 2: "\<exists>w'. window_step B S 3600003000 \<lparr>ws_cursor = 1800000000, ws_weighted_total = w,
      ws_covered_seconds = 7916470525847667 / 2 ^ 42, ws_source_record_ids = [''r'']\<rparr>
      = Inr (Some \<lparr>ws_cursor = 3600000000, ws_weighted_total = w',
      ws_covered_seconds = 7916477122917434 / 2 ^ 41, ws_source_record_ids = [''r'']\<rparr>)" for w
    by (simp add: step Let_def del: power_numeral)
  have 3: "\<exists>w'. window_step B S 3600003000 \<lparr>ws_cursor = 3600000000, ws_weighted_total = w,
      ws_covered_seconds = 7916477122917434 / 2 ^ 41, ws_source_record_ids = [''r'']\<rparr>
      = Inr (Some \<lparr>ws_cursor = 3600003000, ws_weighted_total = w',
      ws_covered_seconds = 7916483719987201 / 2 ^ 41, ws_source_record_ids = [''r'']\<rparr>)" for w
    by (simp add: step Let_def del: power_numeral)
  obtain w1 where w1: "window_step B S 3600003000 ?s0 = Inr (Some \<lparr>ws_cursor = 1800000000, ws_weighted_total = w1,
      ws_covered_seconds = 7916470525847667 / 2 ^ 42, ws_source_record_ids = [''r'']\<rparr>)" using 1 ..
  obtain w2 where w2: "window_step B S 3600003000 \<lparr>ws_cursor = 1800000000, ws_weighted_total = w1,
      ws_covered_seconds = 7916470525847667 / 2 ^ 42, ws_source_record_ids = [''r'']\<rparr>
      = Inr (Some \<lparr>ws_cursor = 3600000000, ws_weighted_total = w2,
      ws_covered_seconds = 7916477122917434 / 2 ^ 41, ws_source_record_ids = [''r'']\<rparr>)" using 2 ..
  obtain w3 where w3: "window_step B S 3600003000 \<lparr>ws_cursor = 3600000000, ws_weighted_total = w2,
      ws_covered_seconds = 7916477122917434 / 2 ^ 41, ws_source_record_ids = [''r'']\<rparr>
      = Inr (Some \<lparr>ws_cursor = 3600003000, ws_weighted_total = w3,
      ws_covered_seconds = 7916483719987201 / 2 ^ 41, ws_source_record_ids = [''r'']\<rparr>)" using 3 ..
  have "window_loop B S 3600003000 ?s0 = Inr (Some \<lparr>ws_cursor = 3600003000, ws_weighted_total = w3,
      ws_covered_seconds = 7916483719987201 / 2 ^ 41, ws_source_record_ids = [''r'']\<rparr>)"
    using window_loop_round [OF _ w1] window_loop_round [OF _ w2] window_loop_round [OF _ w3]
      window_loop_done [of 3600003000 "\<lparr>ws_cursor = 3600003000, ws_weighted_total = w3,
      ws_covered_seconds = 7916483719987201 / 2 ^ 41, ws_source_record_ids = [''r'']\<rparr>" B S]
    by simp
  then show ?thesis
    unfolding window_at_def B_def [symmetric] S_def [symmetric] by (simp add: time_defs)
qed

lemma example_ready: "ready example_series"
    by (simp add: ready_def example_series_def example_point_def time_defs)

lemma example_nonneg: "\<forall>q \<in> set (cs_points example_series). 0 \<le> cp_intensity q"
  by (simp add: example_series_def example_point_def)

lemma example_candidate: "candidate example_series 0 (3 * half_hour) 2 0"
    by (simp add: candidate_def half_hours_def has_point_def example_series_def example_point_def upt_rec time_defs)

lemma example_plan:
  "\<exists>p. plan_flexible_use example_series hour (Aware 0) (Aware (3 * half_hour)) (Aware 3000) None True = Inr p
    \<and> fp_recommended_window p \<noteq> None \<and> fx_status (fp_comparison p) = Start_Now_Insufficient"
proof -
  have h: "hour = int 2 * half_hour" by (simp add: time_defs)
  obtain calc cov cmp where plan: "plan_flexible_use example_series hour (Aware 0) (Aware (3 * half_hour)) (Aware 3000) None True =
        (case py_min (\<lambda>c. (kw_raw_average c, cw_start (kw_public c))) calc of
           None \<Rightarrow> plan_without_recommendation (1800 * int 2) 0 (3 * half_hour) cov cmp
         | Some r \<Rightarrow> rbind (compare_start_now r example_series (case None of None \<Rightarrow> example_series | Some f' \<Rightarrow> f') 3000 (1800 * int 2))
             (plan_with_recommendation (1800 * int 2) 0 (3 * half_hour) cov r))"
    and calc: "\<forall>t. candidate example_series 0 (3 * half_hour) 2 t \<longrightarrow> (\<exists>x \<in> set calc. cw_start (kw_public x) = t)"
    using plan_shape [OF example_ready example_nonneg, of 0 "3 * half_hour" 2 3000 None, folded h] by auto
  from calc example_candidate have "calc \<noteq> []" by auto
  then obtain w where w: "py_min (\<lambda>c. (kw_raw_average c, cw_start (kw_public c))) calc = Some w"
    by (cases "py_min (\<lambda>c. (kw_raw_average c, cw_start (kw_public c))) calc") auto
  have "compare_start_now w example_series example_series 3000 3600 = Inr (plain_comparison Start_Now_Insufficient)"
    unfolding compare_start_now_def example_prepared rbind_Inr example_lost
    by (simp add: validate_comparison_def plain_comparison_def)
  with plan_with_total [of 3600 "plain_comparison Start_Now_Insufficient" 0 "3 * half_hour" cov w]
  show ?thesis
    unfolding plan w by (auto simp: plain_comparison_def)
qed

text \<open>Every instant of a window lies in a half hour the series has a point for.\<close>

definition covers_window :: "carbon_series \<Rightarrow> instant \<Rightarrow> instant \<Rightarrow> bool" where
  "covers_window f s e \<longleftrightarrow> (\<forall>t. s \<le> t \<and> t < e \<longrightarrow> has_point f (t - t mod half_hour))"

lemma example_covers: "covers_window example_series 3000 (3000 + hour)"
  unfolding covers_window_def
proof (intro allI impI)
  fix t :: int
  assume t: "3000 \<le> t \<and> t < 3000 + hour"
  define k where "k = t div half_hour"
  have "0 \<le> k" "k \<le> 2" using t zdiv_mono1 [of 0 t half_hour] zdiv_mono1 [of t "3000 + hour" half_hour]
    by (simp_all add: k_def time_defs)
  then have "k \<in> {0, 1, 2}" by auto
  moreover have "t - t mod half_hour = k * half_hour" by (simp add: k_def minus_mod_eq_div_mult)
  ultimately show "has_point example_series (t - t mod half_hour)"
    by (auto simp: has_point_def example_series_def example_point_def)
qed


theorem flexible_use_recommends_lowest_witness:
  "\<exists>p w. plan_flexible_use example_series hour (Aware 0) (Aware (3 * half_hour)) (Aware 3000) None True = Inr p
    \<and> fp_recommended_window p = Some w \<and> candidate example_series 0 (3 * half_hour) 2 (cw_start w)"
proof -
  have h: "hour = int 2 * half_hour" by (simp add: time_defs)
  obtain p w where p: "plan_flexible_use example_series hour (Aware 0) (Aware (3 * half_hour)) (Aware 3000) None True = Inr p"
    "fp_recommended_window p = Some w" using example_plan by blast
  from flexible_use_recommends_lowest [OF p(1) [unfolded h] example_nonneg] p show ?thesis by simp
qed

theorem flexible_use_answers_iff_witness:
  "\<exists>p. plan_flexible_use example_series hour (Aware 0) (Aware (3 * half_hour)) (Aware 60000000) None True = Inr p"
  using flexible_use_answers_iff [of example_series hour None 0 "3 * half_hour" 60000000 True]
    example_nonneg example_ready by (simp add: time_defs)

end
