(* ===== verification/Ingestion_Rows.thy ===== *)
theory Ingestion_Rows
  imports Float64 Py_Text Ledger
begin

text \<open>
  The generic half of \<open>app/persistence/ingestion.py\<close>: rows as dictionaries of cells, the upsert
  specifications of the tables, the canonical form of a fact, and the two ways of writing a batch:
  the append-only revisions of an immutable table and the upsert of a current-state table.  A
  table is the list of its rows; random keys and creation times are left out.  Stored rows and the
  rows the mapping functions build have every column their specification names
  (\<open>Ingestion_Records\<close> proves it), so a column that is absent is read as NULL here.
\<close>

section \<open>Cells and facts\<close>

type_synonym uuid = str

datatype cell =
    CNone
  | CBool bool
  | CInt int
  | CFloat rat
  | CStr str
  | CTime instant
  | CDate date
  | CUuid uuid
  | CEnum str
  | CList "cell list"
  | CMap "(str \<times> cell) list"

type_synonym row = "(str, cell) dict"

text \<open>A test of a value that may be missing: \<open>x is not None and ...\<close>.\<close>

definition holds_for :: "('a \<Rightarrow> bool) \<Rightarrow> 'a option \<Rightarrow> bool" where
  "holds_for P x = (case x of None \<Rightarrow> False | Some y \<Rightarrow> P y)"

lemma holds_for_iff [simp]: "holds_for P x \<longleftrightarrow> (\<exists>y. x = Some y \<and> P y)"
  by (cases x) (simp_all add: holds_for_def)

text \<open>The values Python compares when it compares two signatures: numbers by value (a bool is the
  number it stands for), text, dates, and tuples.\<close>

datatype fact = FNone | FBool bool | FNum rat | FStr str | FDate date | FTuple "fact list"

fun fact_of :: "(bool \<Rightarrow> fact) \<Rightarrow> cell \<Rightarrow> fact" where
  "fact_of b CNone = FNone"
| "fact_of b (CBool x) = b x"
| "fact_of b (CInt n) = FNum (of_int n)"
| "fact_of b (CFloat x) = FNum x"
| "fact_of b (CStr s) = FStr s"
| "fact_of b (CTime t) = FStr (iso_instant t)"
| "fact_of b (CDate d) = FDate d"
| "fact_of b (CUuid u) = FStr u"
| "fact_of b (CEnum v) = FStr v"
| "fact_of b (CList cs) = FTuple (map (fact_of b) cs)"
| "fact_of b (CMap kvs) = FTuple (map (\<lambda>(k, f). FTuple [FStr k, f])
     (sort_key fst (map (\<lambda>(k, c). (k, fact_of b c)) kvs)))"

definition canonical_fact :: "cell \<Rightarrow> fact" where
  "canonical_fact = fact_of (\<lambda>x. FNum (if x then 1 else 0))"

text \<open>\<open>IS DISTINCT FROM\<close> compares the stored values, where true is not the number one.\<close>

definition distinct_from :: "cell \<Rightarrow> cell \<Rightarrow> bool" where
  "distinct_from a b \<longleftrightarrow> fact_of FBool a \<noteq> fact_of FBool b"

definition row_value :: "row \<Rightarrow> str \<Rightarrow> cell" where
  "row_value r name = (case lookup r name of Some c \<Rightarrow> c | None \<Rightarrow> CNone)"

section \<open>Specifications\<close>

record upsert_spec =
  us_model :: str
  us_conflict_columns :: "str list"
  us_update_columns :: "str list"
  us_change_columns :: "str list"
  us_identity_columns :: "str list"
  us_factual_columns :: "str list"

definition immutable_revisioned :: "upsert_spec \<Rightarrow> bool" where
  "immutable_revisioned spec \<longleftrightarrow> us_identity_columns spec \<noteq> []"

definition REVISION_LOOKUP_BATCH_SIZE :: nat where "REVISION_LOOKUP_BATCH_SIZE = 250"
definition NORMALIZED_WRITE_BATCH_SIZE :: nat where "NORMALIZED_WRITE_BATCH_SIZE = 400"

definition immutable_spec :: "str \<Rightarrow> str list \<Rightarrow> str list \<Rightarrow> upsert_spec" where
  "immutable_spec model identity factual =
     \<lparr>us_model = model, us_conflict_columns = identity @ [''revision''], us_update_columns = [],
      us_change_columns = [], us_identity_columns = identity, us_factual_columns = factual\<rparr>"

definition current_spec :: "str \<Rightarrow> str list \<Rightarrow> str list \<Rightarrow> str list \<Rightarrow> upsert_spec" where
  "current_spec model conflict update change =
     \<lparr>us_model = model, us_conflict_columns = conflict, us_update_columns = update,
      us_change_columns = change, us_identity_columns = [], us_factual_columns = []\<rparr>"

definition GENERATION_SPEC :: upsert_spec where
  "GENERATION_SPEC = immutable_spec ''generation_observations''
     [''source_id'', ''series_key'', ''observed_at'']
     [''source_record_id'', ''fuel_type'', ''asset_id'', ''generation_mw'', ''settlement_date'',
      ''settlement_period'', ''published_at'', ''quality'', ''attributes'']"

definition DEMAND_SPEC :: upsert_spec where
  "DEMAND_SPEC = immutable_spec ''demand_observations''
     [''source_id'', ''series_key'', ''demand_type'', ''observed_at'']
     [''source_record_id'', ''demand_mw'', ''settlement_date'', ''settlement_period'',
      ''published_at'', ''quality'', ''attributes'']"

definition FREQUENCY_SPEC :: upsert_spec where
  "FREQUENCY_SPEC = immutable_spec ''frequency_observations''
     [''source_id'', ''series_key'', ''observed_at'']
     [''source_record_id'', ''frequency_hz'', ''published_at'', ''quality'', ''attributes'']"

definition INTERCONNECTOR_SPEC :: upsert_spec where
  "INTERCONNECTOR_SPEC = immutable_spec ''interconnector_observations''
     [''source_id'', ''connector_code'', ''observed_at'']
     [''source_record_id'', ''asset_id'', ''counterparty'', ''flow_mw'', ''published_at'',
      ''quality'', ''attributes'']"

definition CARBON_ACTUAL_SPEC :: upsert_spec where
  "CARBON_ACTUAL_SPEC = immutable_spec ''carbon_observations''
     [''source_id'', ''region_code'', ''observed_at'']
     [''source_record_id'', ''intensity_gco2_kwh'', ''index_label'', ''generation_mix'',
      ''published_at'', ''quality'', ''attributes'']"

definition FORECAST_SPEC :: upsert_spec where
  "FORECAST_SPEC = immutable_spec ''forecast_observations''
     [''source_id'', ''metric_type'', ''series_key'', ''variant'', ''valid_from'', ''issued_at'']
     [''source_record_id'', ''value'', ''unit'', ''value_low'', ''value_high'', ''valid_to'',
      ''published_at'', ''model_name'', ''settlement_date'', ''settlement_period'', ''attributes'']"

definition REPORTED_NOTICE_SPEC :: upsert_spec where
  "REPORTED_NOTICE_SPEC = current_spec ''reported_notices''
     [''source_id'', ''notice_kind'', ''external_id'', ''revision_key'']
     [''raw_payload_id'', ''source_record_id'', ''content_sha256'', ''revision_number'',
      ''published_at'', ''source_created_at'', ''retrieved_at'', ''event_start'', ''event_end'',
      ''heading'', ''event_type'', ''unavailability_type'', ''event_status'', ''participant_id'',
      ''asset_id'', ''asset_type'', ''affected_unit'', ''affected_unit_eic'', ''affected_area'',
      ''bidding_zone'', ''fuel_type'', ''normal_capacity_mw'', ''available_capacity_mw'',
      ''unavailable_capacity_mw'', ''duration_uncertainty'', ''reported_cause'',
      ''reported_related_information'', ''warning_type'', ''warning_text'', ''evidence''] []"

definition DISTRIBUTION_INCIDENT_SPEC :: upsert_spec where
  "DISTRIBUTION_INCIDENT_SPEC = immutable_spec ''distribution_incident_revisions''
     [''source_id'', ''incident_reference'']
     [''content_sha256'', ''classification'', ''status'', ''status_id'', ''source_created_at'',
      ''observed_at'', ''incident_start'', ''restored_at'', ''estimated_restoration_at'',
      ''customers_affected'', ''calls_reported'', ''postcode_sectors'', ''outward_codes'',
      ''latitude'', ''longitude'', ''geography_precision'', ''operating_zone'',
      ''official_summary'', ''official_details'', ''restoration_window_text'',
      ''incident_category'']"

definition ASSET_REFERENCE_SPEC :: upsert_spec where
  "ASSET_REFERENCE_SPEC = current_spec ''assets'' [''source_id'', ''external_id'']
     [''asset_type'', ''display_name'', ''fuel_type'', ''region_code'', ''counterparty'',
      ''capacity_mw'', ''latitude'', ''longitude'', ''map_x'', ''map_y'', ''active'', ''attributes''] []"

definition PHYSICAL_NOTIFICATION_SPEC :: upsert_spec where
  "PHYSICAL_NOTIFICATION_SPEC = current_spec ''physical_notification_segments_current''
     [''source_id'', ''national_grid_bm_unit'', ''settlement_date'', ''settlement_period'',
      ''segment_start'', ''segment_end'']
     [''raw_payload_id'', ''asset_id'', ''elexon_bm_unit'', ''level_from_mw'', ''level_to_mw'',
      ''classification'', ''retrieved_at'', ''attributes'']
     [''asset_id'', ''elexon_bm_unit'', ''level_from_mw'', ''level_to_mw'', ''classification'']"

definition B1610_SETTLED_ENERGY_SPEC :: upsert_spec where
  "B1610_SETTLED_ENERGY_SPEC = immutable_spec ''b1610_settled_energy_revisions''
     [''source_id'', ''asset_id'', ''settlement_date'', ''settlement_period'']
     [''national_grid_bm_unit'', ''elexon_bm_unit'', ''interval_start'', ''interval_end'',
      ''energy_mwh'', ''average_mw'', ''psr_type'', ''classification'']"

section \<open>Constraints of the tables\<close>

definition null_or :: "(cell \<Rightarrow> bool) \<Rightarrow> cell \<Rightarrow> bool" where
  "null_or p c \<longleftrightarrow> c = CNone \<or> p c"

fun number_where :: "(rat \<Rightarrow> bool) \<Rightarrow> cell \<Rightarrow> bool" where
  "number_where p (CInt n) = p (of_int n)"
| "number_where p (CFloat x) = p x"
| "number_where p c = False"

fun before :: "cell \<Rightarrow> cell \<Rightarrow> bool" where
  "before (CTime a) (CTime b) \<longleftrightarrow> a < b"
| "before _ _ \<longleftrightarrow> True"

fun not_after :: "cell \<Rightarrow> cell \<Rightarrow> bool" where
  "not_after (CTime a) (CTime b) \<longleftrightarrow> a \<le> b"
| "not_after _ _ \<longleftrightarrow> True"

text \<open>The CHECK constraints of the tables; a comparison with NULL is unknown and passes.\<close>

definition between :: "rat \<Rightarrow> rat \<Rightarrow> cell \<Rightarrow> bool" where
  "between lo hi = null_or (number_where (\<lambda>x. lo \<le> x \<and> x \<le> hi))"

definition nonnegative :: "cell \<Rightarrow> bool" where
  "nonnegative = null_or (number_where (\<lambda>x. 0 \<le> x))"

fun ordered_numbers :: "cell \<Rightarrow> cell \<Rightarrow> bool" where
  "ordered_numbers (CFloat a) (CFloat b) \<longleftrightarrow> a \<le> b"
| "ordered_numbers _ _ \<longleftrightarrow> True"

definition one_of :: "str list \<Rightarrow> cell \<Rightarrow> bool" where
  "one_of names = null_or (\<lambda>c. c \<in> CStr ` set names)"

definition generation_row_ok :: "row \<Rightarrow> bool" where
  "generation_row_ok r = between 1 50 (row_value r ''settlement_period'')"

definition demand_row_ok :: "row \<Rightarrow> bool" where
  "demand_row_ok r = between 1 50 (row_value r ''settlement_period'')"

definition carbon_row_ok :: "row \<Rightarrow> bool" where
  "carbon_row_ok r = nonnegative (row_value r ''intensity_gco2_kwh'')"

definition forecast_row_ok :: "row \<Rightarrow> bool" where
  "forecast_row_ok r \<longleftrightarrow> before (row_value r ''valid_from'') (row_value r ''valid_to'')
     \<and> ordered_numbers (row_value r ''value_low'') (row_value r ''value_high'')
     \<and> between 1 50 (row_value r ''settlement_period'')"

definition notice_row_ok :: "row \<Rightarrow> bool" where
  "notice_row_ok r \<longleftrightarrow> null_or (number_where (\<lambda>x. 0 < x)) (row_value r ''revision_number'')
     \<and> not_after (row_value r ''event_start'') (row_value r ''event_end'')
     \<and> one_of [''reported''] (row_value r ''classification'')"

definition incident_statuses :: "str list" where
  "incident_statuses = [''planned'', ''unplanned'', ''restored'']"

definition incident_revision_row_ok :: "row \<Rightarrow> bool" where
  "incident_revision_row_ok r \<longleftrightarrow> nonnegative (row_value r ''revision'')
     \<and> one_of incident_statuses (row_value r ''status'')
     \<and> one_of [''reported''] (row_value r ''classification'')
     \<and> nonnegative (row_value r ''customers_affected'') \<and> nonnegative (row_value r ''calls_reported'')
     \<and> between (- 90) 90 (row_value r ''latitude'') \<and> between (- 180) 180 (row_value r ''longitude'')
     \<and> (case row_value r ''content_sha256'' of CStr s \<Rightarrow> length s = 64 | _ \<Rightarrow> True)"

definition asset_row_ok :: "row \<Rightarrow> bool" where
  "asset_row_ok r \<longleftrightarrow> nonnegative (row_value r ''capacity_mw'')
     \<and> between 0 1 (row_value r ''map_x'') \<and> between 0 1 (row_value r ''map_y'')"

definition segment_row_ok :: "row \<Rightarrow> bool" where
  "segment_row_ok r \<longleftrightarrow> between 1 50 (row_value r ''settlement_period'')
     \<and> before (row_value r ''segment_start'') (row_value r ''segment_end'')
     \<and> one_of [''reported_plan''] (row_value r ''classification'')"

definition settled_row_ok :: "row \<Rightarrow> bool" where
  "settled_row_ok r \<longleftrightarrow> (row_value r ''national_grid_bm_unit'' \<noteq> CNone \<or> row_value r ''elexon_bm_unit'' \<noteq> CNone)
     \<and> nonnegative (row_value r ''revision'') \<and> between 1 50 (row_value r ''settlement_period'')
     \<and> before (row_value r ''interval_start'') (row_value r ''interval_end'')
     \<and> one_of [''settled_metered''] (row_value r ''classification'')"

definition current_incident_row_ok :: "row \<Rightarrow> bool" where
  "current_incident_row_ok r \<longleftrightarrow> one_of incident_statuses (row_value r ''status'')
     \<and> not_after (row_value r ''first_seen_at'') (row_value r ''last_seen_at'')"

definition row_ok :: "str \<Rightarrow> row \<Rightarrow> bool" where
  "row_ok table r =
     (if table = ''generation_observations'' then generation_row_ok r
      else if table = ''demand_observations'' then demand_row_ok r
      else if table = ''carbon_observations'' then carbon_row_ok r
      else if table = ''forecast_observations'' then forecast_row_ok r
      else if table = ''reported_notices'' then notice_row_ok r
      else if table = ''distribution_incident_revisions'' then incident_revision_row_ok r
      else if table = ''assets'' then asset_row_ok r
      else if table = ''physical_notification_segments_current'' then segment_row_ok r
      else if table = ''b1610_settled_energy_revisions'' then settled_row_ok r
      else True)"

section \<open>Writing batches\<close>

function chunks :: "nat \<Rightarrow> 'a list \<Rightarrow> 'a list list" where
  "chunks n xs = (if n = 0 \<or> xs = [] then [] else take n xs # chunks n (drop n xs))"
  by pat_completeness auto
termination by (relation "measure (\<lambda>(n, xs). length xs)") auto

declare chunks.simps [simp del]

definition normalized_write_batches :: "row list \<Rightarrow> row list list" where
  "normalized_write_batches rows = chunks NORMALIZED_WRITE_BATCH_SIZE rows"

definition key_of :: "str list \<Rightarrow> row \<Rightarrow> cell list" where
  "key_of columns r = map (row_value r) columns"

definition identity_key :: "upsert_spec \<Rightarrow> row \<Rightarrow> cell list" where
  "identity_key spec = key_of (us_identity_columns spec)"

definition factual_signature :: "upsert_spec \<Rightarrow> row \<Rightarrow> fact list" where
  "factual_signature spec r = map (\<lambda>name. canonical_fact (row_value r name)) (us_factual_columns spec)"

definition deduplicate_rows :: "row list \<Rightarrow> str list \<Rightarrow> row list \<times> int" where
  "deduplicate_rows rows conflict_columns =
     (let by_key = foldl (\<lambda>d r. store d (key_of conflict_columns r) r) [] rows
      in (map snd by_key, int (length rows) - int (length by_key)))"

text \<open>The \<open>revision\<close> column, which is an integer in every stored row.\<close>

definition revision_of :: "row \<Rightarrow> int" where
  "revision_of r = (case row_value r ''revision'' of CInt n \<Rightarrow> n | _ \<Rightarrow> 0)"

text \<open>One \<open>SELECT DISTINCT ON\<close>: the row of the greatest revision for every identity asked for.\<close>

definition latest_revision_rows ::
  "upsert_spec \<Rightarrow> row list \<Rightarrow> cell list list \<Rightarrow> (cell list, row) dict" where
  "latest_revision_rows spec table identity_keys =
     keep_latest (identity_key spec) revision_of
       (filter (\<lambda>r. identity_key spec r \<in> set identity_keys) table)"

definition load_latest_revisions :: "upsert_spec \<Rightarrow> row list \<Rightarrow> row list \<Rightarrow> (cell list, row) dict" where
  "load_latest_revisions spec table rows =
     foldl (\<lambda>latest batch. foldl (\<lambda>d (k, existing). store d k existing) latest
               (latest_revision_rows spec table batch))
       [] (chunks REVISION_LOOKUP_BATCH_SIZE (map (identity_key spec) rows))"

record prepared_revisions =
  pr_rows :: "row list"
  pr_inserted :: int
  pr_corrected :: int
  pr_unchanged :: int

fun prepare_immutable_revisions ::
  "upsert_spec \<Rightarrow> row list \<Rightarrow> (cell list, row) dict \<Rightarrow> prepared_revisions" where
  "prepare_immutable_revisions spec [] latest =
     \<lparr>pr_rows = [], pr_inserted = 0, pr_corrected = 0, pr_unchanged = 0\<rparr>"
| "prepare_immutable_revisions spec (candidate # rest) latest =
     (let prepared = prepare_immutable_revisions spec rest latest
      in case lookup latest (identity_key spec candidate) of
           None \<Rightarrow> prepared\<lparr>pr_rows := store candidate ''revision'' (CInt 0) # pr_rows prepared,
                            pr_inserted := pr_inserted prepared + 1\<rparr>
         | Some existing \<Rightarrow>
             if factual_signature spec candidate = factual_signature spec existing
             then prepared\<lparr>pr_unchanged := pr_unchanged prepared + 1\<rparr>
             else prepared\<lparr>pr_rows := store candidate ''revision'' (CInt (revision_of existing + 1)) # pr_rows prepared,
                           pr_corrected := pr_corrected prepared + 1\<rparr>)"

fun insert_immutable_batches :: "upsert_spec \<Rightarrow> row list \<Rightarrow> row list list \<Rightarrow> row list result" where
  "insert_immutable_batches spec table [] = Inr table"
| "insert_immutable_batches spec table (write_rows # rest) =
     rbind (insert_rows (row_ok (us_model spec)) (key_of (us_conflict_columns spec)) table write_rows)
     (\<lambda>(table', written).
       if written \<noteq> int (length write_rows)
       then Inl (AppError ''ImmutableRevisionConflictError''
              ''immutable observation revision conflicted; source lock was not exclusive'')
       else insert_immutable_batches spec table' rest)"

definition insert_immutable_revisions :: "upsert_spec \<Rightarrow> row list \<Rightarrow> row list \<Rightarrow> row list result" where
  "insert_immutable_revisions spec table rows =
     insert_immutable_batches spec table (normalized_write_batches rows)"

text \<open>
  \<open>ON CONFLICT DO UPDATE ... WHERE changed RETURNING xmax = 0\<close>, row by row: a new key is inserted
  (true), a row whose compared columns differ takes the new values (false), any other row is left
  and returns nothing.  A statement that meets one key twice is an error.
\<close>

definition changed :: "upsert_spec \<Rightarrow> row \<Rightarrow> row \<Rightarrow> bool" where
  "changed spec existing r \<longleftrightarrow>
     (\<exists>c \<in> set (if us_change_columns spec \<noteq> [] then us_change_columns spec else us_update_columns spec).
        distinct_from (row_value existing c) (row_value r c))"

definition refresh :: "upsert_spec \<Rightarrow> row \<Rightarrow> row \<Rightarrow> row" where
  "refresh spec r existing = foldl (\<lambda>e c. store e c (row_value r c)) existing (us_update_columns spec)"

definition upsert_row :: "upsert_spec \<Rightarrow> row list \<Rightarrow> row \<Rightarrow> row list \<times> bool option" where
  "upsert_row spec table r =
     (let key = key_of (us_conflict_columns spec)
      in case find (\<lambda>e. key e = key r) table of
           None \<Rightarrow> (table @ [r], Some True)
         | Some existing \<Rightarrow>
             if changed spec existing r
             then (map (\<lambda>e. if key e = key r then refresh spec r e else e) table, Some False)
             else (table, None))"

fun upsert_rows :: "upsert_spec \<Rightarrow> row list \<Rightarrow> row list \<Rightarrow> row list \<times> bool list" where
  "upsert_rows spec table [] = (table, [])"
| "upsert_rows spec table (r # rs) =
     (let (table', flag) = upsert_row spec table r;
          (table'', flags) = upsert_rows spec table' rs
      in (table'', somes [flag] @ flags))"

definition observation_upsert :: "upsert_spec \<Rightarrow> row list \<Rightarrow> row list \<Rightarrow> (row list \<times> bool list) result" where
  "observation_upsert spec table rows =
     (if \<not> distinct (map (key_of (us_conflict_columns spec)) rows)
      then Inl (AppError ''CardinalityViolationError'' ''ON CONFLICT DO UPDATE command cannot affect row a second time'')
      else let (table', flags) = upsert_rows spec table rows
           in if list_all (row_ok (us_model spec)) rows then Inr (table', flags)
              else Inl (IntegrityError ''check constraint''))"

record write_counts =
  wc_inserted :: int
  wc_updated :: int
  wc_unchanged :: int

fun upsert_batches :: "upsert_spec \<Rightarrow> row list \<Rightarrow> write_counts \<Rightarrow> row list list \<Rightarrow> (row list \<times> write_counts) result" where
  "upsert_batches spec table counts [] = Inr (table, counts)"
| "upsert_batches spec table counts (write_rows # rest) =
     rbind (observation_upsert spec table write_rows) (\<lambda>(table', flags).
       upsert_batches spec table'
         (counts\<lparr>wc_inserted := wc_inserted counts + int (length (filter (\<lambda>f. f) flags)),
                 wc_updated := wc_updated counts + int (length (filter Not flags)),
                 wc_unchanged := wc_unchanged counts + (int (length write_rows) - int (length flags))\<rparr>)
         rest)"

text \<open>What the transaction does with the rows of one specification.\<close>

definition write_spec ::
  "upsert_spec \<Rightarrow> row list \<Rightarrow> row list \<Rightarrow> write_counts \<Rightarrow> (row list \<times> write_counts) result" where
  "write_spec spec table rows counts =
     (let (unique_rows, duplicate_count) =
            deduplicate_rows rows (if us_identity_columns spec \<noteq> [] then us_identity_columns spec
                                   else us_conflict_columns spec);
          counts' = counts\<lparr>wc_unchanged := wc_unchanged counts + duplicate_count\<rparr>
      in if unique_rows = [] then Inr (table, counts')
         else if immutable_revisioned spec
         then
           let latest = load_latest_revisions spec table unique_rows;
               prepared = prepare_immutable_revisions spec unique_rows latest
           in rbind (if pr_rows prepared \<noteq> [] then insert_immutable_revisions spec table (pr_rows prepared)
                     else Inr table) (\<lambda>table'.
              Inr (table', counts'\<lparr>wc_inserted := wc_inserted counts' + pr_inserted prepared,
                                   wc_updated := wc_updated counts' + pr_corrected prepared,
                                   wc_unchanged := wc_unchanged counts' + pr_unchanged prepared\<rparr>))
         else upsert_batches spec table counts' (normalized_write_batches unique_rows))"

section \<open>Chunks and selections\<close>

lemma concat_chunks: "0 < n \<Longrightarrow> concat (chunks n xs) = xs"
proof (induction n xs rule: chunks.induct)
  case (1 n xs)
  then show ?case by (subst chunks.simps) simp
qed

lemma chunks_nonempty: "ys \<in> set (chunks n xs) \<Longrightarrow> ys \<noteq> [] \<and> length ys \<le> n"
proof (induction n xs rule: chunks.induct)
  case (1 n xs)
  then show ?case by (subst (asm) (2) chunks.simps) (auto split: if_splits)
qed

lemma keep_latest_filter:
  "lookup (keep_latest ident rank (filter (\<lambda>r. P (ident r)) xs)) k
     = (if P k then lookup (keep_latest ident rank xs) k else None)"
proof (induction xs arbitrary: k rule: rev_induct)
  case (snoc x xs)
  show ?case
    by (auto simp: keep_latest_snoc keep_latest_step_def snoc.IH split: option.split)
qed (simp add: keep_latest_def)

lemma lookup_foldl_store:
  "distinct (map fst items) \<Longrightarrow>
    lookup (foldl (\<lambda>d (k, v). store d k v) d items) k
      = (case lookup items k of None \<Rightarrow> lookup d k | Some v \<Rightarrow> Some v)"
proof (induction items arbitrary: d)
  case (Cons kv items)
  obtain k' v where kv: "kv = (k', v)" by (cases kv)
  with Cons.prems have "k = k' \<Longrightarrow> lookup items k = None" by (simp add: map_of_eq_None_iff)
  with Cons kv show ?case by (auto split: option.split)
qed simp

lemma load_latest_revisions_lookup:
  "lookup (load_latest_revisions spec table rows) k
     = (if k \<in> identity_key spec ` set rows
        then lookup (keep_latest (identity_key spec) revision_of table) k else None)"
proof -
  let ?L = "lookup (keep_latest (identity_key spec) revision_of table)"
  have one: "lookup (latest_revision_rows spec table batch) k = (if k \<in> set batch then ?L k else None)" for batch
    unfolding latest_revision_rows_def by (rule keep_latest_filter [where P = "\<lambda>k. k \<in> set batch"])
  have "lookup (foldl (\<lambda>latest batch. foldl (\<lambda>d (k, existing). store d k existing) latest
            (latest_revision_rows spec table batch)) d batches) k
      = (if k \<in> set (concat batches) \<and> ?L k \<noteq> None then ?L k else lookup d k)" for d batches
  proof (induction batches arbitrary: d)
    case (Cons b bs)
    have "lookup (foldl (\<lambda>d (k, existing). store d k existing) d (latest_revision_rows spec table b)) k
        = (case (if k \<in> set b then ?L k else None) of None \<Rightarrow> lookup d k | Some v \<Rightarrow> Some v)"
      by (subst lookup_foldl_store) (simp_all add: one latest_revision_rows_def [symmetric], simp add: latest_revision_rows_def keep_latest_distinct)
    with Cons show ?case by (auto split: option.split)
  qed simp
  then show ?thesis
    unfolding load_latest_revisions_def
    by (simp add: concat_chunks REVISION_LOOKUP_BATCH_SIZE_def del: set_concat)
qed

section \<open>Revisions\<close>

lemma row_value_store: "row_value (store r c v) c' = (if c' = c then v else row_value r c')"
  by (simp add: row_value_def)

lemma key_of_store: "c \<notin> set columns \<Longrightarrow> key_of columns (store r c v) = key_of columns r"
  by (auto simp: key_of_def row_value_store)

definition with_revision :: "row \<Rightarrow> int \<Rightarrow> row" where
  "with_revision r n = store r ''revision'' (CInt n)"

lemma revision_with_revision [simp]: "revision_of (with_revision r n) = n"
  by (simp add: revision_of_def with_revision_def row_value_store)

interpretation revisions_of: ledger "key_of columns" revision_of "key_of (columns @ [''revision''])" for columns
  by unfold_locales (simp add: key_of_def revision_of_def)

definition revision_plan :: "upsert_spec \<Rightarrow> (cell list, row) dict \<Rightarrow> row \<Rightarrow> row option" where
  "revision_plan spec latest =
     planned latest revision_of (factual_signature spec) (identity_key spec) (factual_signature spec) with_revision"

lemma prepare_is_planned:
  "pr_rows (prepare_immutable_revisions spec rows latest) = somes (map (revision_plan spec latest) rows)"
  by (induction rows)
    (auto simp: revision_plan_def planned_def Let_def next_revision_def with_revision_def split: option.split)

lemma prepare_counts:
  "pr_inserted (prepare_immutable_revisions spec rows latest)
     + pr_corrected (prepare_immutable_revisions spec rows latest)
     = int (length (pr_rows (prepare_immutable_revisions spec rows latest)))"
  "int (length (pr_rows (prepare_immutable_revisions spec rows latest)))
     + pr_unchanged (prepare_immutable_revisions spec rows latest) = int (length rows)"
  "0 \<le> pr_inserted (prepare_immutable_revisions spec rows latest)"
  "0 \<le> pr_corrected (prepare_immutable_revisions spec rows latest)"
  "0 \<le> pr_unchanged (prepare_immutable_revisions spec rows latest)"
  by (induction rows) (auto simp: Let_def split: option.split)

lemma revision_plan_cong:
  "lookup latest (identity_key spec r) = lookup latest' (identity_key spec r) \<Longrightarrow>
     revision_plan spec latest r = revision_plan spec latest' r"
  by (simp add: revision_plan_def planned_def)

text \<open>A table of an immutable specification: distinct unique keys, revisions counted from zero.\<close>

definition revision_table :: "upsert_spec \<Rightarrow> row list \<Rightarrow> bool" where
  "revision_table spec table \<longleftrightarrow> distinct (map (key_of (us_conflict_columns spec)) table)
     \<and> (\<forall>r \<in> set table. \<exists>n. row_value r ''revision'' = CInt n \<and> 0 \<le> n)"

definition proper_spec :: "upsert_spec \<Rightarrow> bool" where
  "proper_spec spec \<longleftrightarrow> us_identity_columns spec \<noteq> []
     \<and> us_conflict_columns spec = us_identity_columns spec @ [''revision'']
     \<and> ''revision'' \<notin> set (us_identity_columns spec) \<and> ''revision'' \<notin> set (us_factual_columns spec)"

definition in_scope :: "upsert_spec \<Rightarrow> row list \<Rightarrow> row \<Rightarrow> bool" where
  "in_scope spec rows r \<longleftrightarrow> identity_key spec r \<in> identity_key spec ` set rows
     \<and> (\<exists>n. row_value r ''revision'' = CInt n)"

lemma rows_offered:
  assumes "proper_spec spec" and "distinct (map (identity_key spec) rows)"
  shows "offers (identity_key spec) revision_of (key_of (us_conflict_columns spec)) (in_scope spec rows)
    (filter (in_scope spec rows)) (factual_signature spec) (identity_key spec) (factual_signature spec) with_revision rows"
proof -
  have id: "identity_key spec (with_revision x n) = identity_key spec x"
    and fact: "factual_signature spec (with_revision x n) = factual_signature spec x" for x n
    using assms(1) by (auto simp: proper_spec_def identity_key_def key_of_def factual_signature_def
        with_revision_def row_value_store)
  have key: "key_of (us_conflict_columns spec) r = identity_key spec r @ [row_value r ''revision'']" for r
    using assms(1) by (simp add: proper_spec_def key_of_def identity_key_def)
  have rev: "row_value (with_revision x n) ''revision'' = CInt n" for x n
    by (simp add: with_revision_def row_value_store)
  show ?thesis
    unfolding offers_def using assms(2)
    by (auto simp: id fact key rev in_scope_def revision_of_def)
qed

lemma scoped_latest:
  assumes "revision_table spec table" and "r \<in> set rows"
  shows "lookup (load_latest_revisions spec table rows) (identity_key spec r)
    = lookup (keep_latest (identity_key spec) revision_of (filter (in_scope spec rows) table)) (identity_key spec r)"
proof -
  have "filter (in_scope spec rows) table
      = filter (\<lambda>q. identity_key spec q \<in> identity_key spec ` set rows) table"
    using assms(1) by (intro filter_cong refl) (auto simp: in_scope_def revision_table_def)
  then show ?thesis
    using assms(2) keep_latest_filter [where P = "\<lambda>k. k \<in> identity_key spec ` set rows"
        and ident = "identity_key spec" and rank = revision_of and xs = table and k = "identity_key spec r"]
    by (simp only: load_latest_revisions_lookup if_True imageI)
qed

definition new_revisions :: "upsert_spec \<Rightarrow> row list \<Rightarrow> row list \<Rightarrow> row list" where
  "new_revisions spec table rows = pr_rows (prepare_immutable_revisions spec rows (load_latest_revisions spec table rows))"

lemma new_revisions_planned:
  assumes "revision_table spec table"
  shows "new_revisions spec table rows = somes (map (revision_plan spec
    (keep_latest (identity_key spec) revision_of (filter (in_scope spec rows) table))) rows)"
  unfolding new_revisions_def prepare_is_planned
  by (intro arg_cong [of _ _ somes] map_cong refl revision_plan_cong scoped_latest [OF assms])

lemma revision_table_nonneg: "revision_table spec table \<Longrightarrow> r \<in> set table \<Longrightarrow> 0 \<le> revision_of r"
  by (auto simp: revision_table_def revision_of_def)

lemma identity_ledger:
  assumes "proper_spec spec"
  shows "ledger (identity_key spec) revision_of (key_of (us_conflict_columns spec))"
  using revisions_of.ledger_axioms [of "us_identity_columns spec"] assms
  by (simp add: identity_key_def proper_spec_def)

lemma new_revisions_fresh:
  assumes "proper_spec spec" and "revision_table spec table" and "distinct (map (identity_key spec) rows)"
  shows "revision_table spec (table @ new_revisions spec table rows)"
    and "\<And>r. r \<in> set rows \<Longrightarrow> map_option (factual_signature spec)
        (lookup (keep_latest (identity_key spec) revision_of (table @ new_revisions spec table rows)) (identity_key spec r))
        = Some (factual_signature spec r)"
    and "new_revisions spec (table @ new_revisions spec table rows) rows = []"
proof -
  note o = rows_offered [OF assms(1,3)]
  note nn = revision_table_nonneg [OF assms(2)]
  have d: "distinct (map (key_of (us_conflict_columns spec)) table)" using assms(2) by (simp add: revision_table_def)
  note new = new_revisions_planned [OF assms(2), of rows, unfolded revision_plan_def]
  note l = identity_ledger [OF assms(1)]
  have rev: "\<exists>n. row_value r ''revision'' = CInt n \<and> 0 \<le> n" if "r \<in> set (new_revisions spec table rows)" for r
  proof -
    from that obtain x where x: "x \<in> set rows" "planned (keep_latest (identity_key spec) revision_of (filter (in_scope spec rows) table))
        revision_of (factual_signature spec) (identity_key spec) (factual_signature spec) with_revision x = Some r"
      by (auto simp: new somes_def)
    from ledger.planned_from(6,7) [OF l o nn x] show ?thesis
      by (metis row_value_store with_revision_def)
  qed
  show t: "revision_table spec (table @ new_revisions spec table rows)"
    using ledger.plan_fresh(2) [OF l o nn d new] rev assms(2) by (auto simp: revision_table_def)
  show "new_revisions spec (table @ new_revisions spec table rows) rows = []"
    unfolding new_revisions_planned [OF t] unfolding revision_plan_def
    by (rule ledger.plan_again [OF l o nn d new])
  show "map_option (factual_signature spec)
        (lookup (keep_latest (identity_key spec) revision_of (table @ new_revisions spec table rows)) (identity_key spec r))
        = Some (factual_signature spec r)" if r: "r \<in> set rows" for r
    using ledger.plan_latest [OF l o nn d new r] scoped_latest [OF t r] r
    by (simp add: load_latest_revisions_lookup)
qed

section \<open>Deduplication\<close>

definition keyed :: "str list \<Rightarrow> row list \<Rightarrow> (cell list, row) dict" where
  "keyed cols rows = foldl (\<lambda>d r. store d (key_of cols r) r) [] rows"

lemma keyed_snoc: "keyed cols (rows @ [r]) = store (keyed cols rows) (key_of cols r) r"
  by (simp add: keyed_def)

lemma keyed_distinct: "distinct (map fst (keyed cols rows))"
  by (induction rows rule: rev_induct) (simp_all add: keyed_def distinct_update)

lemma keyed_lookup:
  "lookup (keyed cols rows) k =
    (if filter (\<lambda>r. key_of cols r = k) rows = [] then None else Some (last (filter (\<lambda>r. key_of cols r = k) rows)))"
proof (induction rows rule: rev_induct)
  case (snoc r rows)
  then show ?case by (simp add: keyed_snoc)
qed (simp add: keyed_def)

lemma length_store_le: "length (store d k v) \<le> Suc (length d)"
  by (induction d) auto

lemma keyed_length: "length (keyed cols rows) \<le> length rows"
proof (induction rows rule: rev_induct)
  case (snoc r rows)
  have "length (keyed cols (rows @ [r])) \<le> Suc (length (keyed cols rows))"
    unfolding keyed_snoc by (rule length_store_le)
  with snoc show ?case by simp
qed (simp add: keyed_def)

text \<open>The rows that survive: for every key the last row that has it.\<close>

definition last_of_key :: "str list \<Rightarrow> row list \<Rightarrow> row \<Rightarrow> bool" where
  "last_of_key cols rows r \<longleftrightarrow> r \<in> set rows \<and> last (filter (\<lambda>q. key_of cols q = key_of cols r) rows) = r"

lemma deduplicate_rows_unique:
  assumes "deduplicate_rows rows cols = (unique_rows, duplicates)"
  shows "distinct (map (key_of cols) unique_rows)"
    and "r \<in> set unique_rows \<longleftrightarrow> last_of_key cols rows r"
    and "key_of cols ` set unique_rows = key_of cols ` set rows"
    and "duplicates = int (length rows) - int (length unique_rows)" and "0 \<le> duplicates"
proof -
  have u: "unique_rows = map snd (keyed cols rows)"
    and n: "duplicates = int (length rows) - int (length (keyed cols rows))"
    using assms by (simp_all add: deduplicate_rows_def Let_def keyed_def)
  have entry: "(k, r) \<in> set (keyed cols rows) \<longleftrightarrow> key_of cols r = k \<and> last_of_key cols rows r" for k r
  proof -
    have "(k, r) \<in> set (keyed cols rows) \<longleftrightarrow> lookup (keyed cols rows) k = Some r"
      using keyed_distinct [of cols rows] by simp
    also have "\<dots> \<longleftrightarrow> key_of cols r = k \<and> last_of_key cols rows r"
    proof (cases "filter (\<lambda>q. key_of cols q = k) rows = []")
      case True
      then show ?thesis unfolding keyed_lookup if_P [OF True] last_of_key_def by (auto simp: filter_empty_conv)
    next
      case False
      then have "last (filter (\<lambda>q. key_of cols q = k) rows) \<in> set (filter (\<lambda>q. key_of cols q = k) rows)"
        by (rule last_in_set)
      then have "key_of cols (last (filter (\<lambda>q. key_of cols q = k) rows)) = k
          \<and> last (filter (\<lambda>q. key_of cols q = k) rows) \<in> set rows"
        by simp
      then show ?thesis unfolding keyed_lookup if_not_P [OF False] last_of_key_def option.inject by metis
    qed
    finally show ?thesis .
  qed
  have fst_key: "map fst (keyed cols rows) = map (key_of cols) unique_rows"
    unfolding u map_map by (rule map_cong [OF refl]) (use entry in force)
  show "distinct (map (key_of cols) unique_rows)" using keyed_distinct [of cols rows] by (simp add: fst_key)
  have "r \<in> set unique_rows \<longleftrightarrow> (\<exists>k. (k, r) \<in> set (keyed cols rows))" by (force simp: u)
  then show "r \<in> set unique_rows \<longleftrightarrow> last_of_key cols rows r" unfolding entry by simp
  have "fst ` set (keyed cols rows) = key_of cols ` set rows"
    by (induction rows rule: rev_induct) (auto simp: keyed_snoc keys_store, auto simp: keyed_def)
  then show "key_of cols ` set unique_rows = key_of cols ` set rows"
    using arg_cong [OF fst_key, of set] by simp
  show "duplicates = int (length rows) - int (length unique_rows)" by (simp add: n u)
  show "0 \<le> duplicates" using keyed_length [of cols rows] by (simp add: n)
qed

section \<open>Immutable tables\<close>

lemma insert_immutable_fresh:
  assumes "distinct (map (key_of (us_conflict_columns spec)) (table @ concat batches))"
  shows "insert_immutable_batches spec table batches =
    (if list_all (row_ok (us_model spec)) (concat batches) then Inr (table @ concat batches)
     else Inl (IntegrityError ''check constraint''))"
  using assms
proof (induction batches arbitrary: table)
  case (Cons b bs)
  have d: "distinct (map (key_of (us_conflict_columns spec)) (table @ b))"
    and d': "distinct (map (key_of (us_conflict_columns spec)) ((table @ b) @ concat bs))"
    using Cons.prems by (simp_all add: Int_Un_distrib)
  show ?case
  proof (cases "list_all (row_ok (us_model spec)) b")
    case True
    with insert_rows_fresh [OF d True] Cons.IH [OF d'] show ?thesis by simp
  next
    case False
    then show ?thesis by (simp add: insert_rows_def)
  qed
qed simp

lemma insert_immutable_revisions_fresh:
  assumes "distinct (map (key_of (us_conflict_columns spec)) (table @ rows))"
  shows "insert_immutable_revisions spec table rows =
    (if list_all (row_ok (us_model spec)) rows then Inr (table @ rows)
     else Inl (IntegrityError ''check constraint''))"
  using insert_immutable_fresh [of spec table "normalized_write_batches rows"] assms
  by (simp add: insert_immutable_revisions_def normalized_write_batches_def concat_chunks NORMALIZED_WRITE_BATCH_SIZE_def
      del: map_append)

definition counts_total :: "write_counts \<Rightarrow> int" where
  "counts_total c = wc_inserted c + wc_updated c + wc_unchanged c"

text \<open>The rows of one immutable specification: what the transaction appends, in full.\<close>

lemma write_spec_immutable:
  assumes "proper_spec spec" and "revision_table spec table"
    and "deduplicate_rows rows (us_identity_columns spec) = (unique_rows, duplicates)"
    and "list_all (row_ok (us_model spec)) (new_revisions spec table unique_rows)"
  shows "\<exists>counts'. write_spec spec table rows counts = Inr (table @ new_revisions spec table unique_rows, counts')
     \<and> counts_total counts' = counts_total counts + int (length rows)
     \<and> wc_inserted counts' + wc_updated counts'
         = wc_inserted counts + wc_updated counts + int (length (new_revisions spec table unique_rows))
     \<and> wc_inserted counts \<le> wc_inserted counts' \<and> wc_updated counts \<le> wc_updated counts'"
proof -
  have imm: "immutable_revisioned spec" "us_identity_columns spec \<noteq> []"
    using assms(1) by (simp_all add: proper_spec_def immutable_revisioned_def)
  note u = deduplicate_rows_unique [OF assms(3)]
  have du: "distinct (map (identity_key spec) unique_rows)" using u(1) by (simp add: identity_key_def)
  have "distinct (map (key_of (us_conflict_columns spec)) (table @ new_revisions spec table unique_rows))"
    using new_revisions_fresh(1) [OF assms(1,2) du] by (simp add: revision_table_def)
  from insert_immutable_revisions_fresh [OF this] assms(4)
  have ins: "insert_immutable_revisions spec table (new_revisions spec table unique_rows)
      = Inr (table @ new_revisions spec table unique_rows)" by simp
  note cnt = prepare_counts [of spec unique_rows "load_latest_revisions spec table unique_rows", folded new_revisions_def]
  show ?thesis
  proof (cases "unique_rows = []")
    case True
    then have "new_revisions spec table unique_rows = []" by (simp add: new_revisions_def)
    with True imm assms(3) u(4) show ?thesis by (simp add: write_spec_def counts_total_def)
  next
    case False
    with imm assms(3) ins cnt u(4) show ?thesis
      by (auto simp: write_spec_def counts_total_def Let_def new_revisions_def [symmetric])
  qed
qed

section \<open>Current-state tables\<close>

definition compared_columns :: "upsert_spec \<Rightarrow> str list" where
  "compared_columns spec = (if us_change_columns spec \<noteq> [] then us_change_columns spec else us_update_columns spec)"

definition agrees :: "upsert_spec \<Rightarrow> row \<Rightarrow> row \<Rightarrow> bool" where
  "agrees spec e r \<longleftrightarrow> (\<forall>c \<in> set (compared_columns spec). \<not> distinct_from (row_value e c) (row_value r c))"

definition current_shape :: "upsert_spec \<Rightarrow> bool" where
  "current_shape spec \<longleftrightarrow> us_identity_columns spec = [] \<and> us_conflict_columns spec \<noteq> []
     \<and> set (us_update_columns spec) \<inter> set (us_conflict_columns spec) = {}
     \<and> set (us_change_columns spec) \<subseteq> set (us_update_columns spec)"

abbreviation unique_key :: "upsert_spec \<Rightarrow> row \<Rightarrow> cell list" where
  "unique_key spec \<equiv> key_of (us_conflict_columns spec)"

definition current_table :: "upsert_spec \<Rightarrow> row list \<Rightarrow> bool" where
  "current_table spec table \<longleftrightarrow> distinct (map (unique_key spec) table)"

lemma changed_iff: "changed spec e r \<longleftrightarrow> \<not> agrees spec e r"
  by (auto simp: changed_def agrees_def compared_columns_def)

lemma distinct_from_refl [simp]: "\<not> distinct_from c c"
  by (simp add: distinct_from_def)

lemma agrees_refl [simp]: "agrees spec r r"
  by (simp add: agrees_def)

lemma row_value_refresh:
  "row_value (refresh spec r e) c = (if c \<in> set (us_update_columns spec) then row_value r c else row_value e c)"
proof -
  have "row_value (foldl (\<lambda>e c. store e c (row_value r c)) e cs) c = (if c \<in> set cs then row_value r c else row_value e c)" for cs
    by (induction cs arbitrary: e) (auto simp: row_value_store)
  then show ?thesis by (simp add: refresh_def)
qed

lemma refresh_key:
  assumes "current_shape spec" shows "unique_key spec (refresh spec r e) = unique_key spec e"
proof -
  have "row_value (refresh spec r e) c = row_value e c" if "c \<in> set (us_conflict_columns spec)" for c
    using assms that by (auto simp: row_value_refresh current_shape_def)
  then show ?thesis by (simp add: key_of_def)
qed

lemma refresh_agrees: "current_shape spec \<Longrightarrow> agrees spec (refresh spec r e) r"
  by (auto simp: agrees_def row_value_refresh compared_columns_def current_shape_def)

lemma current_table_unique:
  "current_table spec table \<Longrightarrow> e \<in> set table \<Longrightarrow> e' \<in> set table \<Longrightarrow> unique_key spec e = unique_key spec e' \<Longrightarrow> e = e'"
  by (auto simp: current_table_def distinct_map dest: inj_onD)

lemma upsert_row_effect:
  assumes "current_shape spec" and "current_table spec table" and "upsert_row spec table r = (table', flag)"
  shows "current_table spec table'"
    and "unique_key spec ` set table' = insert (unique_key spec r) (unique_key spec ` set table)"
    and "\<exists>e \<in> set table'. unique_key spec e = unique_key spec r \<and> agrees spec e r"
    and "unique_key spec e \<noteq> unique_key spec r \<Longrightarrow> e \<in> set table' \<longleftrightarrow> e \<in> set table"
proof -
  let ?k = "unique_key spec"
  have "current_table spec table' \<and> ?k ` set table' = insert (?k r) (?k ` set table)
      \<and> (\<exists>e \<in> set table'. ?k e = ?k r \<and> agrees spec e r)
      \<and> (?k e \<noteq> ?k r \<longrightarrow> (e \<in> set table' \<longleftrightarrow> e \<in> set table))"
  proof (cases "find (\<lambda>e. ?k e = ?k r) table")
    case None
    then have "?k r \<notin> ?k ` set table" by (auto simp: find_None_iff)
    moreover from None assms(3) have "table' = table @ [r]" by (simp add: upsert_row_def)
    ultimately show ?thesis using assms(2) by (auto simp: current_table_def)
  next
    case (Some x)
    then have x: "x \<in> set table" "?k x = ?k r" by (auto simp: find_Some_iff)
    show ?thesis
    proof (cases "changed spec x r")
      case False
      with Some assms(3) have "table' = table" by (simp add: upsert_row_def)
      moreover have "?k r \<in> ?k ` set table" using x by (metis imageI)
      ultimately show ?thesis using False x assms(2) by (auto simp: changed_iff)
    next
      case True
      define f where "f e = (if ?k e = ?k r then refresh spec r e else e)" for e
      have f: "f = (\<lambda>e. if ?k e = ?k r then refresh spec r e else e)" by (simp add: f_def fun_eq_iff)
      have t: "table' = map f table" using True Some assms(3) by (simp add: upsert_row_def Let_def f)
      have kf: "?k (f e) = ?k e" for e by (simp add: f_def refresh_key [OF assms(1)])
      have keys: "map ?k table' = map ?k table" unfolding t map_map by (simp add: o_def kf)
      have "f x \<in> set table'" "?k (f x) = ?k r" "agrees spec (f x) r"
        using x by (auto simp: t kf) (simp add: f_def refresh_agrees [OF assms(1)])
      moreover have "e \<in> set table' \<longleftrightarrow> e \<in> set table" if "?k e \<noteq> ?k r"
        using that by (auto simp: t f_def refresh_key [OF assms(1)] image_iff)
      moreover have "?k ` set table' = insert (?k r) (?k ` set table)"
        using arg_cong [OF keys, of set] imageI [OF x(1), of ?k] unfolding x(2) by (simp add: insert_absorb)
      ultimately show ?thesis using assms(2) keys by (auto simp: current_table_def)
    qed
  qed
  then show "current_table spec table'" "?k ` set table' = insert (?k r) (?k ` set table)"
    "\<exists>e \<in> set table'. ?k e = ?k r \<and> agrees spec e r" "?k e \<noteq> ?k r \<Longrightarrow> e \<in> set table' \<longleftrightarrow> e \<in> set table"
    by blast+
qed

lemma upsert_row_agreeing:
  assumes "current_table spec table" and "e \<in> set table" and "unique_key spec e = unique_key spec r" and "agrees spec e r"
  shows "upsert_row spec table r = (table, None)"
proof -
  have "find (\<lambda>e. unique_key spec e = unique_key spec r) table \<noteq> None"
    using assms(2,3) by (auto simp: find_None_iff)
  then obtain x where x: "find (\<lambda>e. unique_key spec e = unique_key spec r) table = Some x" by blast
  then have "x \<in> set table" "unique_key spec x = unique_key spec r" by (auto simp: find_Some_iff)
  with assms have "x = e" by (intro current_table_unique [OF assms(1)]) auto
  with x assms(4) show ?thesis by (simp add: upsert_row_def changed_iff)
qed

text \<open>What a statement leaves behind: the same rows elsewhere, an agreeing row for each of its keys.\<close>

definition upserted :: "upsert_spec \<Rightarrow> row list \<Rightarrow> row list \<Rightarrow> row list \<Rightarrow> bool" where
  "upserted spec rows table table' \<longleftrightarrow> current_table spec table'
     \<and> unique_key spec ` set table' = unique_key spec ` set rows \<union> unique_key spec ` set table
     \<and> (\<forall>r \<in> set rows. \<exists>e \<in> set table'. unique_key spec e = unique_key spec r \<and> agrees spec e r)
     \<and> (\<forall>e. unique_key spec e \<notin> unique_key spec ` set rows \<longrightarrow> (e \<in> set table' \<longleftrightarrow> e \<in> set table))"

lemma upserted_Nil: "current_table spec table \<Longrightarrow> upserted spec [] table table"
  by (simp add: upserted_def)

lemma upserted_trans:
  assumes "upserted spec rows table t" and "upserted spec rows' t table'"
    and "unique_key spec ` set rows \<inter> unique_key spec ` set rows' = {}"
  shows "upserted spec (rows @ rows') table table'"
proof -
  have "\<exists>e \<in> set table'. unique_key spec e = unique_key spec r \<and> agrees spec e r" if r: "r \<in> set rows" for r
  proof -
    from assms(1) r obtain e where e: "e \<in> set t" "unique_key spec e = unique_key spec r" "agrees spec e r"
      by (auto simp: upserted_def)
    moreover have "unique_key spec e \<notin> unique_key spec ` set rows'" using assms(3) r e(2) by auto
    ultimately show ?thesis using assms(2) by (auto simp: upserted_def)
  qed
  then show ?thesis using assms(1,2) by (auto simp: upserted_def image_Un)
qed

lemma upserted_row:
  assumes "current_shape spec" and "current_table spec table" and "upsert_row spec table r = (table', flag)"
  shows "upserted spec [r] table table'"
  using upsert_row_effect [OF assms] by (simp add: upserted_def)

lemma upsert_rows_effect:
  assumes "current_shape spec" and "current_table spec table" and "distinct (map (unique_key spec) rows)"
    and "upsert_rows spec table rows = (table', flags)"
  shows "upserted spec rows table table' \<and> length flags \<le> length rows"
  using assms(2-4)
proof (induction rows arbitrary: table flags)
  case (Cons r rs)
  obtain t f where tf: "upsert_row spec table r = (t, f)" by (cases "upsert_row spec table r")
  obtain fs where fs: "upsert_rows spec t rs = (table', fs)" "flags = somes [f] @ fs"
    using Cons.prems(3) tf by (auto split: prod.splits)
  note row = upserted_row [OF assms(1) Cons.prems(1) tf]
  have "current_table spec t" using row by (simp add: upserted_def)
  from Cons.IH [OF this _ fs(1)] Cons.prems(2)
  have rest: "upserted spec rs t table'" "length fs \<le> length rs" by simp_all
  have "unique_key spec ` set [r] \<inter> unique_key spec ` set rs = {}" using Cons.prems(2) by auto
  from upserted_trans [OF row rest(1) this] rest(2) fs(2) show ?case by (cases f) auto
qed (simp add: upserted_Nil)

lemma upsert_rows_again:
  assumes "current_table spec table"
    and "\<forall>r \<in> set rows. \<exists>e \<in> set table. unique_key spec e = unique_key spec r \<and> agrees spec e r"
  shows "upsert_rows spec table rows = (table, [])"
  using assms(2)
proof (induction rows)
  case (Cons r rs)
  then have "upsert_row spec table r = (table, None)" using upsert_row_agreeing [OF assms(1)] by auto
  with Cons show ?case by simp
qed simp

lemma flags_split: "int (length (filter (\<lambda>f. f) flags)) + int (length (filter Not flags)) = int (length flags)"
  by (induction flags) auto

lemma upsert_batches_effect:
  assumes "current_shape spec" and "current_table spec table" and "distinct (map (unique_key spec) (concat batches))"
    and "upsert_batches spec table counts batches = Inr (table', counts')"
  shows "upserted spec (concat batches) table table'
    \<and> counts_total counts' = counts_total counts + int (length (concat batches))
    \<and> wc_inserted counts \<le> wc_inserted counts' \<and> wc_updated counts \<le> wc_updated counts'"
  using assms(2-4)
proof (induction batches arbitrary: table counts)
  case (Cons b bs)
  from Cons.prems(3) obtain t flags where up: "observation_upsert spec table b = Inr (t, flags)"
    and rest: "upsert_batches spec t
         (counts\<lparr>wc_inserted := wc_inserted counts + int (length (filter (\<lambda>f. f) flags)),
                 wc_updated := wc_updated counts + int (length (filter Not flags)),
                 wc_unchanged := wc_unchanged counts + (int (length b) - int (length flags))\<rparr>) bs = Inr (table', counts')"
    by (auto simp: res_simps)
  have d: "distinct (map (unique_key spec) b)" "distinct (map (unique_key spec) (concat bs))"
    "unique_key spec ` set b \<inter> unique_key spec ` set (concat bs) = {}"
    using Cons.prems(2) by simp_all
  from up have "upsert_rows spec table b = (t, flags)"
    by (auto simp: observation_upsert_def Let_def split: if_splits prod.splits)
  from upsert_rows_effect [OF assms(1) Cons.prems(1) d(1) this]
  have b: "upserted spec b table t" "length flags \<le> length b" by simp_all
  then have "current_table spec t" by (simp add: upserted_def)
  from Cons.IH [OF this d(2) rest] have ih: "upserted spec (concat bs) t table'"
    "counts_total counts' = counts_total counts + int (length b) + int (length (concat bs))"
    "wc_inserted counts \<le> wc_inserted counts'" "wc_updated counts \<le> wc_updated counts'"
    using flags_split [of flags] by (auto simp: counts_total_def)
  from upserted_trans [OF b(1) ih(1) d(3)] ih(2-4) show ?case by simp
qed (simp add: upserted_Nil)

text \<open>The rows of one current-state specification.\<close>

lemma write_spec_current:
  assumes "current_shape spec" and "current_table spec table"
    and "deduplicate_rows rows (us_conflict_columns spec) = (unique_rows, duplicates)"
    and "write_spec spec table rows counts = Inr (table', counts')"
  shows "upserted spec unique_rows table table'
     \<and> counts_total counts' = counts_total counts + int (length rows)
     \<and> wc_inserted counts \<le> wc_inserted counts' \<and> wc_updated counts \<le> wc_updated counts'"
proof -
  have shape: "us_identity_columns spec = []" "\<not> immutable_revisioned spec"
    using assms(1) by (simp_all add: current_shape_def immutable_revisioned_def)
  note u = deduplicate_rows_unique [OF assms(3)]
  show ?thesis
  proof (cases "unique_rows = []")
    case True
    with assms(2,3,4) shape u(4) show ?thesis by (auto simp: write_spec_def counts_total_def upserted_Nil)
  next
    case False
    with assms(3,4) shape have up: "upsert_batches spec table (counts\<lparr>wc_unchanged := wc_unchanged counts + duplicates\<rparr>)
        (normalized_write_batches unique_rows) = Inr (table', counts')"
      by (simp add: write_spec_def)
    have c: "concat (normalized_write_batches unique_rows) = unique_rows"
      by (simp add: normalized_write_batches_def concat_chunks NORMALIZED_WRITE_BATCH_SIZE_def)
    from upsert_batches_effect [OF assms(1,2) _ up] u(1,4) show ?thesis
      unfolding c by (auto simp: counts_total_def)
  qed
qed

text \<open>When every row satisfies the constraints of its table, the statements cannot fail: their rows
  were deduplicated.\<close>

lemma upsert_batches_total:
  assumes "distinct (map (unique_key spec) (concat batches))" and "list_all (row_ok (us_model spec)) (concat batches)"
  shows "\<exists>table' counts'. upsert_batches spec table counts batches = Inr (table', counts')"
  using assms
proof (induction batches arbitrary: table counts)
  case (Cons b bs)
  then have "distinct (map (unique_key spec) b)" "list_all (row_ok (us_model spec)) b" by simp_all
  then obtain t flags where "observation_upsert spec table b = Inr (t, flags)"
    by (cases "upsert_rows spec table b") (simp add: observation_upsert_def)
  with Cons show ?case by simp
qed simp

end
