(* ===== verification/Ingestion_Records.thy ===== *)
theory Ingestion_Records
  imports Ingestion_Rows Json
begin

text \<open>
  The normalized source records (\<open>app/sources/types.py\<close>, the asset contracts of
  \<open>app/assets/models.py\<close> and the REPD site of \<open>app/geography/repd.py\<close>) and their translation into
  the rows of the tables (\<open>app/persistence/records.py\<close>, \<open>app/geography/records.py\<close>), with the
  source metadata.  A name-based UUID is kept as its namespace and name: \<open>uuid5\<close> is taken to be
  free of collisions.  Numbers are finite; aware datetimes are their UTC instants, so a source's
  own offset is not printed.
\<close>

section \<open>Text\<close>

function collapse :: "(char \<Rightarrow> bool) \<Rightarrow> str \<Rightarrow> str" where
  "collapse keep [] = []"
| "collapse keep (c # cs) =
     (if keep c then c # collapse keep cs else CHR ''-'' # collapse keep (dropWhile (\<lambda>x. \<not> keep x) cs))"
  by pat_completeness auto
termination
  by (relation "measure (\<lambda>(keep, s). length s)") (auto simp: less_Suc_eq_le length_dropWhile_le)

definition strip_dashes :: "str \<Rightarrow> str" where
  "strip_dashes s = rev (dropWhile (\<lambda>c. c = CHR ''-'') (rev (dropWhile (\<lambda>c. c = CHR ''-'') s)))"

definition is_lower_alnum :: "char \<Rightarrow> bool" where
  "is_lower_alnum c \<longleftrightarrow> (CHR ''a'' \<le> c \<and> c \<le> CHR ''z'') \<or> is_digit c"

definition slug :: "str \<Rightarrow> str result" where
  "slug value =
     (let s = strip_dashes (collapse is_lower_alnum (lower (strip value)))
      in if s = [] then Inl (ValueError ''source provider and dataset cannot be blank'') else Inr s)"

fun title_from :: "bool \<Rightarrow> str \<Rightarrow> str" where
  "title_from inside [] = []"
| "title_from inside (c # cs) =
     (let letter = (lower_char c \<noteq> upper_char c)
      in (if letter \<and> inside then lower_char c else if letter then upper_char c else c) # title_from letter cs)"

text \<open>The em dash of the display names, as its UTF-8 bytes.\<close>

definition em_dash :: str where
  "em_dash = [CHR 0xE2, CHR 0x80, CHR 0x94]"

definition uuid5 :: "str \<Rightarrow> str \<Rightarrow> uuid" where
  "uuid5 namespace name = namespace @ '':'' @ name"

text \<open>Scheme and authority of \<open>urlsplit\<close>, in the request URLs of the adapters.\<close>

definition scheme_char :: "char \<Rightarrow> bool" where
  "scheme_char c \<longleftrightarrow> is_lower_alnum (lower_char c) \<or> c \<in> set ''+-.''"

definition url_base :: "str \<Rightarrow> str" where
  "url_base url =
     (let scheme = takeWhile (\<lambda>c. c \<noteq> CHR '':'') url; rest = drop (length scheme + 1) url;
          netloc = takeWhile (\<lambda>c. c \<notin> set ''/?#'') (drop 2 rest)
      in if scheme \<noteq> [] \<and> length scheme < length url \<and> \<not> is_digit (hd scheme) \<and> hd scheme \<notin> set ''+-.''
            \<and> list_all scheme_char scheme \<and> take 2 rest = ''//'' \<and> netloc \<noteq> []
         then lower scheme @ ''://'' @ netloc else url)"

definition as_utc :: "datetime \<Rightarrow> str \<Rightarrow> instant result" where
  "as_utc value field_name = aware_utc (field_name @ '' must be timezone-aware'') value"

definition optional_utc :: "datetime option \<Rightarrow> str \<Rightarrow> cell result" where
  "optional_utc value field_name =
     (case value of None \<Rightarrow> Inr CNone | Some t \<Rightarrow> rbind (as_utc t field_name) (\<lambda>i. Inr (CTime i)))"

abbreviation opt_str :: "str option \<Rightarrow> cell" where
  "opt_str v \<equiv> (case v of None \<Rightarrow> CNone | Some s \<Rightarrow> CStr s)"

abbreviation opt_num :: "rat option \<Rightarrow> cell" where
  "opt_num v \<equiv> (case v of None \<Rightarrow> CNone | Some x \<Rightarrow> CFloat x)"

abbreviation opt_int :: "int option \<Rightarrow> cell" where
  "opt_int v \<equiv> (case v of None \<Rightarrow> CNone | Some n \<Rightarrow> CInt n)"

abbreviation opt_bool :: "bool option \<Rightarrow> cell" where
  "opt_bool v \<equiv> (case v of None \<Rightarrow> CNone | Some b \<Rightarrow> CBool b)"

abbreviation opt_date :: "date option \<Rightarrow> cell" where
  "opt_date v \<equiv> (case v of None \<Rightarrow> CNone | Some d \<Rightarrow> CDate d)"

text \<open>\<open>a or b\<close> on optional text: an empty string is false.\<close>

definition or_else :: "str option \<Rightarrow> str \<Rightarrow> str" where
  "or_else a b = (case a of Some s \<Rightarrow> if s = [] then b else s | None \<Rightarrow> b)"

definition truthy :: "str option \<Rightarrow> bool" where
  "truthy a \<longleftrightarrow> (case a of Some s \<Rightarrow> s \<noteq> [] | None \<Rightarrow> False)"

section \<open>Source metadata\<close>

record source_profile =
  spf_display_name :: str
  spf_documentation_url :: "str option"
  spf_licence_name :: "str option"
  spf_licence_url :: "str option"
  spf_attribution :: "str option"

definition REPD_PUBLICATION_URL :: str where
  "REPD_PUBLICATION_URL = ''https://www.gov.uk/government/publications/renewable-energy-planning-database-quarterly-extract''"
definition REPD_DATASET_NAME :: str where "REPD_DATASET_NAME = ''Renewable Energy Planning Database (REPD)''"
definition REPD_PUBLISHER :: str where "REPD_PUBLISHER = ''Department for Energy Security and Net Zero''"
definition REPD_LICENCE_NAME :: str where "REPD_LICENCE_NAME = ''Open Government Licence v3.0''"
definition REPD_LICENCE_URL :: str where
  "REPD_LICENCE_URL = ''https://www.nationalarchives.gov.uk/doc/open-government-licence/version/3/''"
definition REPD_SOURCE_ID :: str where "REPD_SOURCE_ID = ''desnz.repd''"
definition REPD_ASSET_TYPE :: str where "REPD_ASSET_TYPE = ''repd_site''"
definition REPD_EXPECTED_CADENCE_SECONDS :: int where "REPD_EXPECTED_CADENCE_SECONDS = 91 * 24 * 60 * 60"
definition REPD_SOURCE_ATTRIBUTION :: str where
  "REPD_SOURCE_ATTRIBUTION = ''Renewable Energy Planning Database data supplied by the Department for Energy Security and Net Zero under the Open Government Licence v3.0.''"

definition SOURCE_PROFILES :: "(str, source_profile) dict" where
  "SOURCE_PROFILES =
     [(''desnz'', \<lparr>spf_display_name = ''DESNZ Renewable Energy Planning Database'',
        spf_documentation_url = Some REPD_PUBLICATION_URL, spf_licence_name = Some REPD_LICENCE_NAME,
        spf_licence_url = Some REPD_LICENCE_URL, spf_attribution = Some REPD_SOURCE_ATTRIBUTION\<rparr>),
      (''elexon'', \<lparr>spf_display_name = ''Elexon Insights'',
        spf_documentation_url = Some ''https://bmrs.elexon.co.uk/api-documentation'',
        spf_licence_name = Some ''Elexon data terms'',
        spf_licence_url = Some ''https://www.elexon.co.uk/about/copyright/'',
        spf_attribution = Some ''Data supplied by Elexon Limited.''\<rparr>),
      (''neso'', \<lparr>spf_display_name = ''NESO Carbon Intensity'',
        spf_documentation_url = Some ''https://carbonintensity.org.uk/'',
        spf_licence_name = None, spf_licence_url = None,
        spf_attribution = Some ''Carbon-intensity data supplied by NESO.''\<rparr>),
      (''ukpn'', \<lparr>spf_display_name = ''UK Power Networks'',
        spf_documentation_url = Some ''https://ukpowernetworks.opendatasoft.com/explore/dataset/ukpn-live-faults/'',
        spf_licence_name = Some ''CC BY 4.0'',
        spf_licence_url = Some ''https://creativecommons.org/licenses/by/4.0/'',
        spf_attribution = Some ''Live Faults data supplied by UK Power Networks.''\<rparr>)]"

definition PUBLIC_SOURCE_IDS :: "str list" where
  "PUBLIC_SOURCE_IDS =
     [''desnz.repd'', ''elexon.b1610'', ''elexon.bm-unit-reference'', ''elexon.freq'', ''elexon.fuelinst'',
      ''elexon.indo'', ''elexon.ndf'', ''elexon.pn'', ''elexon.remit'', ''elexon.syswarn'', ''elexon.windfor'',
      ''neso.carbon-intensity-national'', ''neso.carbon-intensity-regional'', ''ukpn.live-faults'']"

definition DATASET_CADENCE_SECONDS :: "(str \<times> str, int) dict" where
  "DATASET_CADENCE_SECONDS =
     [((''desnz'', ''REPD''), REPD_EXPECTED_CADENCE_SECONDS), ((''elexon'', ''B1610''), 86400),
      ((''elexon'', ''BM_UNIT_REFERENCE''), 86400), ((''elexon'', ''FREQ''), 60),
      ((''elexon'', ''FUELINST''), 300), ((''elexon'', ''INDO''), 1800), ((''elexon'', ''NDF''), 1800),
      ((''elexon'', ''PN''), 600), ((''elexon'', ''WINDFOR''), 1800), ((''elexon'', ''REMIT''), 300),
      ((''elexon'', ''SYSWARN''), 300), ((''neso'', ''CARBON_INTENSITY''), 1800),
      ((''neso'', ''CARBON_INTENSITY_NATIONAL''), 1800), ((''neso'', ''CARBON_INTENSITY_REGIONAL''), 1800),
      ((''ukpn'', ''LIVE_FAULTS''), 300)]"

definition INTERCONNECTOR_COUNTERPARTIES :: "(str, str) dict" where
  "INTERCONNECTOR_COUNTERPARTIES =
     [(''INTELEC'', ''France''), (''INTEW'', ''Ireland''), (''INTFR'', ''France''), (''INTGRNL'', ''Ireland''),
      (''INTIFA2'', ''France''), (''INTIRL'', ''Northern Ireland''), (''INTNED'', ''Netherlands''),
      (''INTNEM'', ''Belgium''), (''INTNSL'', ''Norway''), (''INTVKL'', ''Denmark'')]"

definition BM_UNIT_REFERENCE_SOURCE_ID :: str where "BM_UNIT_REFERENCE_SOURCE_ID = ''elexon.bm-unit-reference''"
definition BM_UNIT_REFERENCE_REQUEST_URL :: str where
  "BM_UNIT_REFERENCE_REQUEST_URL = ''https://data.elexon.co.uk/bmrs/api/v1/reference/bmunits/all''"

definition canonical_source_id :: "str \<Rightarrow> str \<Rightarrow> str result" where
  "canonical_source_id provider dataset =
     rbind (slug provider) (\<lambda>provider_slug. rbind (slug dataset) (\<lambda>dataset_slug.
       let candidate = provider_slug @ ''.'' @ dataset_slug
       in if length candidate \<le> 64 then Inr candidate
          else Inr (take 51 candidate @ ''.'' @ take 12 (sha256_hex candidate))))"

definition source_metadata_values :: "str \<Rightarrow> str \<Rightarrow> str \<Rightarrow> int option \<Rightarrow> row result" where
  "source_metadata_values provider dataset request_url expected_cadence_seconds =
     (let key = lower (strip provider);
          root = takeWhile (\<lambda>c. c \<notin> set ''.:/'') key;
          provider_key = (if lookup SOURCE_PROFILES key = None \<and> lookup SOURCE_PROFILES root \<noteq> None then root else key);
          dataset_key = upper (strip dataset);
          profile = lookup SOURCE_PROFILES provider_key;
          opt = (\<lambda>f. case profile of None \<Rightarrow> CNone | Some p \<Rightarrow> opt_str (f p));
          display_name = (case profile of Some p \<Rightarrow> spf_display_name p | None \<Rightarrow> title_from False (strip provider));
          cadence = (case expected_cadence_seconds of
                       Some n \<Rightarrow> if n = 0 then get_or DATASET_CADENCE_SECONDS (provider_key, dataset_key) 300 else n
                     | None \<Rightarrow> get_or DATASET_CADENCE_SECONDS (provider_key, dataset_key) 300)
      in if cadence \<le> 0 then Inl (ValueError ''expected source cadence must be positive'')
         else rbind (canonical_source_id provider_key dataset_key) (\<lambda>source_id.
           Inr [(''id'', CStr source_id), (''provider'', CStr provider_key), (''dataset'', CStr dataset_key),
             (''display_name'', CStr (display_name @ '' '' @ em_dash @ '' '' @ dataset_key)),
             (''base_url'', CStr (url_base request_url)),
             (''documentation_url'', opt spf_documentation_url), (''licence_name'', opt spf_licence_name),
             (''licence_url'', opt spf_licence_url), (''attribution'', opt spf_attribution),
             (''expected_cadence_seconds'', CInt cadence), (''active'', CBool True)]))"

text \<open>\<open>partition\<close> at the first dot; without one the job is the worker's own.\<close>

definition removesuffix :: "str \<Rightarrow> str \<Rightarrow> str" where
  "removesuffix s suffix = (if ends_with s suffix then take (length s - length suffix) s else s)"

definition job_source_metadata_values :: "str \<Rightarrow> row result" where
  "job_source_metadata_values job_id =
     (let base_job = removesuffix job_id ''.reconcile'';
          before_dot = takeWhile (\<lambda>c. c \<noteq> CHR ''.'') base_job;
          (provider, dataset) =
            (if before_dot = base_job then (''worker'', base_job)
             else (before_dot, drop (length before_dot + 1) base_job));
          base_url = get_or
            [(''desnz'', ''https://www.gov.uk''), (''elexon'', ''https://data.elexon.co.uk''),
             (''neso'', ''https://api.carbonintensity.org.uk''),
             (''ukpn'', ''https://ukpowernetworks.opendatasoft.com'')] (lower provider) ''https://50hz.app''
      in rbind (source_metadata_values provider dataset base_url None) (\<lambda>values.
           if row_value values ''id'' \<notin> CStr ` set PUBLIC_SOURCE_IDS
           then Inr (store (store values ''display_name'' (CStr (''50Hz worker '' @ em_dash @ '' '' @ upper dataset)))
                       ''active'' (CBool False))
           else Inr values))"

definition bm_unit_reference_source_metadata_values :: "row result" where
  "bm_unit_reference_source_metadata_values =
     source_metadata_values ''elexon.bm-unit-reference'' ''BM_UNIT_REFERENCE'' BM_UNIT_REFERENCE_REQUEST_URL None"

definition repd_source_metadata_values :: row where
  "repd_source_metadata_values =
     [(''id'', CStr REPD_SOURCE_ID), (''provider'', CStr ''desnz''), (''dataset'', CStr ''REPD''),
      (''display_name'', CStr (''DESNZ '' @ em_dash @ '' Renewable Energy Planning Database'')),
      (''base_url'', CStr ''https://www.gov.uk''), (''documentation_url'', CStr REPD_PUBLICATION_URL),
      (''licence_name'', CStr REPD_LICENCE_NAME), (''licence_url'', CStr REPD_LICENCE_URL),
      (''attribution'', CStr REPD_SOURCE_ATTRIBUTION),
      (''expected_cadence_seconds'', CInt REPD_EXPECTED_CADENCE_SECONDS), (''active'', CBool True)]"

section \<open>Normalized records\<close>

datatype source_classification = Src_Observed | Src_Estimated | Src_Forecast | Src_Reported

fun classification_value :: "source_classification \<Rightarrow> str" where
  "classification_value Src_Observed = ''observed''"
| "classification_value Src_Estimated = ''estimated''"
| "classification_value Src_Forecast = ''forecast''"
| "classification_value Src_Reported = ''reported''"

record generation_record =
  gnr_source_key :: str
  gnr_observed_at :: datetime
  gnr_published_at :: datetime
  gnr_retrieved_at :: datetime
  gnr_fuel_code :: str
  gnr_fuel_type :: str
  gnr_generation_mw :: rat
  gnr_settlement_date :: "date option"
  gnr_settlement_period :: "int option"
  gnr_source :: str
  gnr_dataset :: str

record demand_record =
  dmr_source_key :: str
  dmr_observed_at :: datetime
  dmr_published_at :: datetime
  dmr_retrieved_at :: datetime
  dmr_demand_mw :: rat
  dmr_settlement_date :: "date option"
  dmr_settlement_period :: "int option"
  dmr_source :: str
  dmr_dataset :: str

record frequency_record =
  frr_source_key :: str
  frr_observed_at :: datetime
  frr_retrieved_at :: datetime
  frr_frequency_hz :: rat
  frr_published_at :: "datetime option"
  frr_source :: str
  frr_dataset :: str

record interconnector_flow_record =
  icr_source_key :: str
  icr_observed_at :: datetime
  icr_published_at :: datetime
  icr_retrieved_at :: datetime
  icr_interconnector_id :: str
  icr_interconnector_name :: str
  icr_flow_mw :: rat
  icr_source :: str
  icr_dataset :: str

record demand_forecast_record =
  dfr_source_key :: str
  dfr_forecast_for :: datetime
  dfr_published_at :: datetime
  dfr_retrieved_at :: datetime
  dfr_demand_mw :: rat
  dfr_boundary :: "str option"
  dfr_settlement_date :: "date option"
  dfr_settlement_period :: "int option"
  dfr_source :: str
  dfr_dataset :: str

record wind_forecast_record =
  wfr_source_key :: str
  wfr_forecast_for :: datetime
  wfr_published_at :: datetime
  wfr_retrieved_at :: datetime
  wfr_generation_mw :: rat
  wfr_source :: str
  wfr_dataset :: str

record carbon_intensity_record =
  cir_source_key :: str
  cir_period_start :: datetime
  cir_period_end :: datetime
  cir_retrieved_at :: datetime
  cir_intensity :: int
  cir_classification :: source_classification
  cir_index :: "str option"
  cir_region_id :: "int option"
  cir_region_name :: "str option"
  cir_dno_region :: "str option"
  cir_postcode :: "str option"
  cir_generation_mix :: "(str \<times> rat) list"
  cir_source :: str
  cir_dataset :: str

record outage_profile_point =
  opp_start :: datetime
  opp_end :: datetime
  opp_available_capacity_mw :: rat

record remit_record =
  rur_source_key :: str
  rur_mrid :: str
  rur_revision_number :: int
  rur_message_id :: int
  rur_published_at :: datetime
  rur_created_at :: datetime
  rur_retrieved_at :: datetime
  rur_event_start :: datetime
  rur_event_end :: "datetime option"
  rur_message_heading :: "str option"
  rur_event_type :: "str option"
  rur_unavailability_type :: "str option"
  rur_event_status :: "str option"
  rur_participant_id :: "str option"
  rur_asset_id :: "str option"
  rur_asset_type :: "str option"
  rur_affected_unit :: "str option"
  rur_affected_unit_eic :: "str option"
  rur_affected_area :: "str option"
  rur_bidding_zone :: "str option"
  rur_fuel_type :: "str option"
  rur_normal_capacity_mw :: "rat option"
  rur_available_capacity_mw :: "rat option"
  rur_unavailable_capacity_mw :: "rat option"
  rur_duration_uncertainty :: "str option"
  rur_reported_cause :: "str option"
  rur_reported_related_information :: "str option"
  rur_outage_profile :: "outage_profile_point list"
  rur_classification :: source_classification
  rur_source :: str
  rur_dataset :: str

record system_warning_record =
  swr_source_key :: str
  swr_published_at :: datetime
  swr_retrieved_at :: datetime
  swr_warning_type :: str
  swr_warning_text :: str
  swr_content_sha256 :: str
  swr_revision_number :: "int option"

record distribution_incident_record =
  dir_source_key :: str
  dir_incident_reference :: str
  dir_status :: str
  dir_observed_at :: datetime
  dir_retrieved_at :: datetime
  dir_content_sha256 :: str
  dir_source_created_at :: "datetime option"
  dir_incident_start :: "datetime option"
  dir_restored_at :: "datetime option"
  dir_estimated_restoration_at :: "datetime option"
  dir_status_id :: "int option"
  dir_customers_affected :: int
  dir_calls_reported :: int
  dir_postcode_sectors :: "str list"
  dir_outward_codes :: "str list"
  dir_latitude :: "rat option"
  dir_longitude :: "rat option"
  dir_geography_precision :: str
  dir_operating_zone :: "str option"
  dir_official_summary :: "str option"
  dir_official_details :: "str option"
  dir_restoration_window_text :: "str option"
  dir_incident_category :: "str option"
  dir_classification :: source_classification
  dir_source :: str
  dir_dataset :: str

datatype evidence_kind = Ev_Reference | Ev_Reported_Plan | Ev_Settled_Metered

fun evidence_value :: "evidence_kind \<Rightarrow> str" where
  "evidence_value Ev_Reference = ''reference''"
| "evidence_value Ev_Reported_Plan = ''reported_plan''"
| "evidence_value Ev_Settled_Metered = ''settled_metered''"

text \<open>The asset contracts: their constructors have made the times UTC already.\<close>

record asset_provenance =
  apv_source_id :: str
  apv_dataset :: str
  apv_endpoint :: str
  apv_retrieved_at :: instant
  apv_evidence_kind :: evidence_kind
  apv_published_at :: "instant option"

record asset_reference =
  arr_asset_id :: str
  arr_source_asset_id :: "str option"
  arr_display_name :: "str option"
  arr_fuel_type :: "str option"
  arr_lead_party_name :: "str option"
  arr_lead_party_id :: "str option"
  arr_asset_type :: "str option"
  arr_production_or_consumption :: "str option"
  arr_submits_physical_notifications :: "bool option"
  arr_generation_capacity_mw :: "rat option"
  arr_demand_capacity_mw :: "rat option"
  arr_gsp_group_id :: "str option"
  arr_gsp_group_name :: "str option"
  arr_interconnector_id :: "str option"
  arr_eic :: "str option"
  arr_provenance :: asset_provenance
  arr_transmission_loss_factor :: "rat option"
  arr_wd_import_mw :: "rat option"
  arr_nwd_import_mw :: "rat option"
  arr_wd_export_mw :: "rat option"
  arr_nwd_export_mw :: "rat option"
  arr_credit_qualifying_status :: "bool option"
  arr_demand_in_production :: "bool option"

record planned_profile_segment =
  pps_asset_id :: str
  pps_source_asset_id :: "str option"
  pps_settlement_date :: date
  pps_settlement_period :: int
  pps_start :: instant
  pps_end :: instant
  pps_level_from_mw :: rat
  pps_level_to_mw :: rat
  pps_provenance :: asset_provenance

record settled_metered_energy =
  sme_asset_id :: str
  sme_source_asset_id :: "str option"
  sme_settlement_date :: date
  sme_settlement_period :: int
  sme_interval_start :: instant
  sme_interval_end :: instant
  sme_energy_mwh :: rat
  sme_psr_type :: "str option"
  sme_provenance :: asset_provenance
  sme_national_grid_bm_unit :: "str option"

definition average_mw :: "settled_metered_energy \<Rightarrow> rat" where
  "average_mw r =
     (let duration_hours = fdiv (int_div (sme_interval_end r - sme_interval_start r) 1000000) 3600
      in fdiv (sme_energy_mwh r) duration_hours)"

datatype repd_status = Repd_Operational | Repd_Under_Construction | Repd_Planned

fun repd_status_value :: "repd_status \<Rightarrow> str" where
  "repd_status_value Repd_Operational = ''operational''"
| "repd_status_value Repd_Under_Construction = ''under_construction''"
| "repd_status_value Repd_Planned = ''planned''"

record repd_provenance =
  rpv_publisher :: str
  rpv_dataset :: str
  rpv_source_url :: str
  rpv_licence_name :: str
  rpv_licence_url :: str
  rpv_retrieved_at :: instant

record repd_coordinates =
  rco_easting_m :: rat
  rco_northing_m :: rat
  rco_latitude :: rat
  rco_longitude :: rat
  rco_source_fields :: "str \<times> str"
  rco_source_crs :: str
  rco_output_crs :: str
  rco_transform :: str

record repd_site =
  rps_source_id :: str
  rps_project_name :: str
  rps_operator_name :: "str option"
  rps_technology :: str
  rps_capacity_mw :: "rat option"
  rps_status :: repd_status
  rps_source_status :: str
  rps_storage_type :: "str option"
  rps_is_storage :: bool
  rps_region :: "str option"
  rps_country :: "str option"
  rps_planning_authority :: "str option"
  rps_record_last_updated :: "str option"
  rps_coordinates :: "repd_coordinates option"
  rps_provenance :: repd_provenance

datatype source_record =
    Rec_Asset asset_reference
  | Rec_Repd repd_site
  | Rec_Plan planned_profile_segment
  | Rec_Settled settled_metered_energy
  | Rec_Generation generation_record
  | Rec_Demand demand_record
  | Rec_Frequency frequency_record
  | Rec_Interconnector interconnector_flow_record
  | Rec_Carbon carbon_intensity_record
  | Rec_Demand_Forecast demand_forecast_record
  | Rec_Wind_Forecast wind_forecast_record
  | Rec_Remit remit_record
  | Rec_Warning system_warning_record
  | Rec_Incident distribution_incident_record
  | Rec_Other str

section \<open>Full postcodes\<close>

text \<open>
  The pattern of a full postcode at the head of a text: an outward code (one or two letters, a
  digit and perhaps one more letter or digit), spaces, a digit and two letters, not followed by a
  letter or digit.  The alternatives are tried as the regular expression tries them; the result is
  the outward code, the sector digit and the rest of the text.
\<close>

definition is_alpha :: "char \<Rightarrow> bool" where
  "is_alpha c \<longleftrightarrow> (CHR ''a'' \<le> c \<and> c \<le> CHR ''z'') \<or> (CHR ''A'' \<le> c \<and> c \<le> CHR ''Z'')"

definition is_alnum :: "char \<Rightarrow> bool" where
  "is_alnum c \<longleftrightarrow> is_alpha c \<or> is_digit c"

definition match_inward :: "str \<Rightarrow> str \<Rightarrow> (str \<times> char \<times> str) option" where
  "match_inward outward s =
     (case dropWhile is_space s of
        d # a # b # rest \<Rightarrow>
          if is_digit d \<and> is_alpha a \<and> is_alpha b \<and> (rest = [] \<or> \<not> is_alnum (hd rest))
          then Some (outward, d, rest) else None
      | _ \<Rightarrow> None)"

definition match_district :: "str \<Rightarrow> str \<Rightarrow> (str \<times> char \<times> str) option" where
  "match_district area s =
     (case s of
        d # c # rest \<Rightarrow>
          if \<not> is_digit d then None
          else (case (if is_alnum c then match_inward (area @ [d, c]) rest else None) of
                  Some m \<Rightarrow> Some m | None \<Rightarrow> match_inward (area @ [d]) (c # rest))
      | _ \<Rightarrow> None)"

definition match_postcode :: "str \<Rightarrow> (str \<times> char \<times> str) option" where
  "match_postcode s =
     (case s of
        a # b # rest \<Rightarrow>
          if \<not> is_alpha a then None
          else (case (if is_alpha b then match_district [a, b] rest else None) of
                  Some m \<Rightarrow> Some m | None \<Rightarrow> match_district [a] (b # rest))
      | _ \<Rightarrow> None)"

fun search_postcode :: "bool \<Rightarrow> str \<Rightarrow> bool" where
  "search_postcode after_alnum [] = False"
| "search_postcode after_alnum (c # cs) =
     ((\<not> after_alnum \<and> match_postcode (c # cs) \<noteq> None) \<or> search_postcode (is_alnum c) cs)"

definition text_has_postcode :: "str \<Rightarrow> bool" where
  "text_has_postcode s = search_postcode False s"

fun contains_full_postcode :: "json \<Rightarrow> bool" where
  "contains_full_postcode (JObj kvs) =
     ((\<exists>k \<in> set (map fst kvs). text_has_postcode k) \<or> (\<exists>b \<in> set (map (\<lambda>(k, v). contains_full_postcode v) kvs). b))"
| "contains_full_postcode (JList vs) = (\<exists>b \<in> set (map contains_full_postcode vs). b)"
| "contains_full_postcode (JStr s) = text_has_postcode s"
| "contains_full_postcode _ = False"

text \<open>\<open>re.sub\<close> with the sector of each match; a match is never empty.\<close>

lemma match_inward_shorter: "match_inward o' s = Some (w, d, rest) \<Longrightarrow> length rest < length s"
  using length_dropWhile_le [of is_space s]
  by (auto simp: match_inward_def split: list.splits if_splits)

lemma match_district_shorter: "match_district a s = Some (w, d, rest) \<Longrightarrow> length rest < length s"
  by (auto simp: match_district_def split: list.splits if_splits option.splits dest!: match_inward_shorter)

lemma match_postcode_shorter: "match_postcode s = Some (w, d, rest) \<Longrightarrow> length rest < length s"
  by (auto simp: match_postcode_def split: list.splits if_splits option.splits dest!: match_district_shorter)

function reduce_postcodes :: "bool \<Rightarrow> str \<Rightarrow> str" where
  "reduce_postcodes after_alnum [] = []"
| "reduce_postcodes after_alnum (c # cs) =
     (case (if after_alnum then None else match_postcode (c # cs)) of
        Some (outward, sector, rest) \<Rightarrow> upper outward @ '' '' @ [sector] @ reduce_postcodes True rest
      | None \<Rightarrow> c # reduce_postcodes (is_alnum c) cs)"
  by pat_completeness auto
termination
  by (relation "measure (\<lambda>(b, s). length s)") (auto dest: match_postcode_shorter split: if_splits)

definition PRIVATE_FIELD_MARKERS :: "str list" where
  "PRIVATE_FIELD_MARKERS = [''fullpostcode'', ''fullpostcodedata'', ''postcodefull'', ''postcodedetail'']"

fun has_infix :: "str \<Rightarrow> str \<Rightarrow> bool" where
  "has_infix needle [] = (needle = [])"
| "has_infix needle (c # cs) = (starts_with (c # cs) needle \<or> has_infix needle cs)"

definition private_key :: "str \<Rightarrow> bool" where
  "private_key key =
     (let normalized_key = filter is_lower_alnum (lower key)
      in \<exists>marker \<in> set PRIVATE_FIELD_MARKERS. has_infix marker normalized_key)"

fun sanitize_ukpn_payload :: "json \<Rightarrow> json" where
  "sanitize_ukpn_payload (JObj kvs) =
     JObj (filter (\<lambda>(k, v). \<not> private_key k) (map (\<lambda>(k, v). (k, sanitize_ukpn_payload v)) kvs))"
| "sanitize_ukpn_payload (JList vs) = JList (map sanitize_ukpn_payload vs)"
| "sanitize_ukpn_payload (JStr s) = JStr (reduce_postcodes False s)"
| "sanitize_ukpn_payload v = v"


section \<open>The reducer leaves no full postcode\<close>

lemma char_classes [simp]:
  "is_alpha c \<Longrightarrow> is_alnum c" "is_digit c \<Longrightarrow> is_alnum c" "is_digit c \<Longrightarrow> \<not> is_alpha c"
  "is_alnum c \<Longrightarrow> \<not> is_space c"
  by (auto simp: is_alnum_def is_alpha_def is_digit_def is_space_def less_eq_char_def)

lemma other_classes: "is_alpha c \<Longrightarrow> \<not> is_digit c" "is_space c \<Longrightarrow> \<not> is_alnum c"
  by (auto simp: is_alnum_def is_alpha_def is_digit_def is_space_def less_eq_char_def)

lemma upper_char_class [simp]: "is_alpha (upper_char c) = is_alpha c" "is_digit (upper_char c) = is_digit c"
proof -
  show a: "is_alpha (upper_char c) = is_alpha c"
    by (auto simp: is_alpha_def upper_char_def Let_def less_eq_char_def of_char_of)
  show "is_digit (upper_char c) = is_digit c"
    by (auto simp: is_digit_def upper_char_def Let_def of_char_of)
qed

lemma upper_char_alnum [simp]: "is_alnum (upper_char c) = is_alnum c"
  by (simp add: is_alnum_def)

lemma space_class [simp]: "is_space CHR '' ''" "\<not> is_alnum CHR '' ''" "\<not> is_alpha CHR '' ''" "\<not> is_digit CHR '' ''"
  by (simp_all add: is_space_def is_alnum_def is_alpha_def is_digit_def less_eq_char_def)

lemma postcode_starts: "match_postcode (c # cs) \<noteq> None \<Longrightarrow> is_alpha c"
  by (auto simp: match_postcode_def split: list.splits if_splits)

text \<open>The shape of a match: the outward code, and what follows it.\<close>

definition outward_shape :: "str \<Rightarrow> bool" where
  "outward_shape w \<longleftrightarrow> (\<exists>area d tail. w = area @ [d] @ tail \<and> is_digit d \<and> list_all is_alpha area
     \<and> length area \<in> {1, 2} \<and> list_all is_alnum tail \<and> length tail \<le> 1)"

lemma match_inward_ends: "match_inward w s = Some (w', d, rest) \<Longrightarrow>
    w' = w \<and> is_digit d \<and> (rest = [] \<or> \<not> is_alnum (hd rest))"
  by (auto simp: match_inward_def split: list.splits if_splits)

lemma match_district_ends:
  assumes "match_district a s = Some (w, d, rest)"
  shows "(\<exists>k tail. w = a @ [k] @ tail \<and> is_digit k \<and> list_all is_alnum tail \<and> length tail \<le> 1)
    \<and> is_digit d \<and> (rest = [] \<or> \<not> is_alnum (hd rest))"
proof -
  obtain k c t where s: "s = k # c # t" "is_digit k"
    using assms by (auto simp: match_district_def split: list.splits if_splits)
  consider "is_alnum c" "match_inward (a @ [k, c]) t = Some (w, d, rest)" | "match_inward (a @ [k]) (c # t) = Some (w, d, rest)"
    using assms s by (auto simp: match_district_def split: if_splits option.splits)
  then show ?thesis
  proof cases
    case 1
    then show ?thesis using match_inward_ends [OF 1(2)] s(2) by (auto intro!: exI [of _ k] exI [of _ "[c]"])
  next
    case 2
    then show ?thesis using match_inward_ends [OF 2] s(2) by (auto intro!: exI [of _ k] exI [of _ "[]"])
  qed
qed

lemma match_postcode_ends: "match_postcode s = Some (w, d, rest) \<Longrightarrow>
    outward_shape w \<and> is_digit d \<and> (rest = [] \<or> \<not> is_alnum (hd rest))"
proof -
  assume m: "match_postcode s = Some (w, d, rest)"
  obtain a b t where s: "s = a # b # t" "is_alpha a"
    using m by (auto simp: match_postcode_def split: list.splits if_splits)
  consider "is_alpha b" "match_district [a, b] t = Some (w, d, rest)" | "match_district [a] (b # t) = Some (w, d, rest)"
    using m s by (auto simp: match_postcode_def split: if_splits option.splits)
  then show ?thesis
  proof cases
    case 1
    then show ?thesis
      using match_district_ends [OF 1(2)] s(2) unfolding outward_shape_def
      by (auto intro!: exI [of _ "[a, b]"])
  next
    case 2
    then show ?thesis
      using match_district_ends [OF 2] s(2) unfolding outward_shape_def
      by (auto intro!: exI [of _ "[a]"])
  qed
qed

text \<open>The reducer keeps everything the pattern looks at before its own replacements.\<close>

declare reduce_postcodes.simps(2) [simp del]

lemma reduce_kept:
  "(if b then None else match_postcode (c # cs)) = None \<Longrightarrow>
     reduce_postcodes b (c # cs) = c # reduce_postcodes (is_alnum c) cs"
  by (simp add: reduce_postcodes.simps(2))

lemma reduce_replaced:
  "\<not> b \<Longrightarrow> match_postcode (c # cs) = Some (w, d, rest) \<Longrightarrow>
     reduce_postcodes b (c # cs) = upper w @ '' '' @ [d] @ reduce_postcodes True rest"
  by (simp add: reduce_postcodes.simps(2))

lemma reduce_cases:
  obtains "reduce_postcodes b (c # cs) = c # reduce_postcodes (is_alnum c) cs"
    "(if b then None else match_postcode (c # cs)) = None"
  | w d rest where "\<not> b" "match_postcode (c # cs) = Some (w, d, rest)"
    "reduce_postcodes b (c # cs) = upper w @ '' '' @ [d] @ reduce_postcodes True rest"
proof (cases "if b then None else match_postcode (c # cs)")
  case None
  then show ?thesis using that(1) reduce_kept by blast
next
  case (Some m)
  obtain w d rest where "m = (w, d, rest)" by (cases m)
  with Some have "\<not> b" "match_postcode (c # cs) = Some (w, d, rest)" by (auto split: if_splits)
  then show ?thesis using that(2) reduce_replaced by blast
qed

lemma reduce_after_alnum [simp]: "reduce_postcodes True (c # cs) = c # reduce_postcodes (is_alnum c) cs"
  by (simp add: reduce_kept)

lemma reduce_not_alpha: "\<not> is_alpha c \<Longrightarrow> reduce_postcodes b (c # cs) = c # reduce_postcodes (is_alnum c) cs"
  using postcode_starts [of c cs] by (cases "match_postcode (c # cs)") (simp_all add: reduce_kept)

lemma outward_head:
  assumes "outward_shape w"
  obtains a u where "w = a # u" "is_alpha a" "list_all is_alnum u"
proof -
  obtain area d tail where w: "w = area @ [d] @ tail" "is_digit d" "list_all is_alpha area"
    "length area \<in> {1, 2}" "list_all is_alnum tail"
    using assms by (auto simp: outward_shape_def)
  then obtain a area' where "area = a # area'" by (cases area) auto
  moreover from w calculation have "list_all is_alnum (area' @ [d] @ tail)" by (auto simp: list_all_iff)
  ultimately show ?thesis using w that [of a "area' @ [d] @ tail"] by simp
qed

lemma reduce_head:
  assumes "reduce_postcodes b (c # cs) = x # xs"
  shows "is_alpha x = is_alpha c \<and> (\<not> is_alpha c \<longrightarrow> x = c)"
proof (cases b c cs rule: reduce_cases)
  case 1
  with assms show ?thesis by simp
next
  case (2 w d rest)
  from 2(2) have s: "outward_shape w" "is_alpha c" using match_postcode_ends postcode_starts by blast+
  from s(1) obtain a u where "w = a # u" "is_alpha a" by (rule outward_head)
  with assms 2(3) s(2) show ?thesis by (auto simp: upper_def)
qed

lemma reduce_empty [simp]: "reduce_postcodes b s = [] \<longleftrightarrow> s = []"
proof (cases s)
  case (Cons c cs)
  show ?thesis unfolding Cons by (cases b c cs rule: reduce_cases) simp_all
qed simp

lemma reduce_spaces:
  "dropWhile is_space (reduce_postcodes b s) = reduce_postcodes (b \<and> (s = [] \<or> \<not> is_space (hd s))) (dropWhile is_space s)"
proof (induction s arbitrary: b)
  case (Cons c cs)
  show ?case
  proof (cases "is_space c")
    case True
    then have "\<not> is_alpha c" "\<not> is_alnum c" using other_classes(2) [of c] by auto
    then show ?thesis
      using True Cons.IH [of False] by (simp add: reduce_not_alpha)
  next
    case False
    obtain x xs where x: "reduce_postcodes b (c # cs) = x # xs"
      by (cases "reduce_postcodes b (c # cs)") auto
    from reduce_head [OF x] False have "\<not> is_space x" by (cases "is_alpha c") auto
    with False x show ?thesis by simp
  qed
qed simp

lemma reduce_inward:
  assumes "match_inward w (reduce_postcodes b s) \<noteq> None"
  shows "match_inward w s \<noteq> None"
proof -
  obtain d a e rest where r: "dropWhile is_space (reduce_postcodes b s) = d # a # e # rest"
    and c: "is_digit d" "is_alpha a" "is_alpha e" "rest = [] \<or> \<not> is_alnum (hd rest)"
    using assms by (auto simp: match_inward_def split: list.splits if_splits)
  let ?b = "b \<and> (s = [] \<or> \<not> is_space (hd s))"
  from r have r': "reduce_postcodes ?b (dropWhile is_space s) = d # a # e # rest" by (simp only: reduce_spaces)
  then have "dropWhile is_space s \<noteq> []" using reduce_empty by fastforce
  then obtain d' t where t: "dropWhile is_space s = d' # t" by (cases "dropWhile is_space s") simp_all
  with r' c(1) have d: "d' = d" using reduce_head [of ?b d' t] by auto
  from r' [unfolded t] d c(1) have t1: "reduce_postcodes True t = a # e # rest"
    by (simp add: reduce_not_alpha)
  then obtain t2 where t2: "t = a # t2" by (cases t) auto
  with t1 c(2) have "reduce_postcodes True t2 = e # rest" by simp
  then obtain t3 where t3: "t2 = e # t3" "reduce_postcodes True t3 = rest" using c(3) by (cases t2) auto
  have "t3 = [] \<or> \<not> is_alnum (hd t3)"
    using c(4) t3(2) by (cases t3) auto
  with c t d t2 t3 show ?thesis by (simp add: match_inward_def)
qed

lemma reduce_district:
  assumes "match_district w (reduce_postcodes True s) \<noteq> None"
  shows "match_district w s \<noteq> None"
proof -
  obtain d c rest where r: "reduce_postcodes True s = d # c # rest" and d: "is_digit d"
    using assms by (auto simp: match_district_def split: list.splits if_splits)
  then obtain t where s: "s = d # t" and t: "reduce_postcodes True t = c # rest" by (cases s) auto
  then obtain t' where t': "t = c # t'" "rest = reduce_postcodes (is_alnum c) t'" by (cases t) auto
  from assms r d consider "is_alnum c" "match_inward (w @ [d, c]) rest \<noteq> None" | "match_inward (w @ [d]) (c # rest) \<noteq> None"
    by (auto simp: match_district_def split: if_splits option.splits)
  then show ?thesis
  proof cases
    case 1
    with t' have "match_inward (w @ [d, c]) t' \<noteq> None" by (simp add: reduce_inward)
    with 1 s t' d show ?thesis by (auto simp: match_district_def split: option.split)
  next
    case 2
    with t have "match_inward (w @ [d]) t \<noteq> None" using reduce_inward [of "w @ [d]" True t] by simp
    with s t' d show ?thesis by (auto simp: match_district_def split: option.split)
  qed
qed

lemma reduce_postcode_head:
  assumes "is_alpha c" and "match_postcode (c # reduce_postcodes True cs) \<noteq> None"
  shows "match_postcode (c # cs) \<noteq> None"
proof -
  obtain e rest where r: "reduce_postcodes True cs = e # rest"
    using assms by (auto simp: match_postcode_def split: list.splits)
  then obtain t where cs: "cs = e # t" "rest = reduce_postcodes (is_alnum e) t" by (cases cs) auto
  from assms r consider "is_alpha e" "match_district [c, e] rest \<noteq> None" | "match_district [c] (e # rest) \<noteq> None"
    by (auto simp: match_postcode_def split: if_splits option.splits)
  then show ?thesis
  proof cases
    case 1
    with cs have "match_district [c, e] t \<noteq> None" by (simp add: reduce_district)
    with 1 cs assms show ?thesis by (auto simp: match_postcode_def split: option.split)
  next
    case 2
    with r have "match_district [c] cs \<noteq> None" using reduce_district [of "[c]" cs] by simp
    with cs assms show ?thesis by (auto simp: match_postcode_def split: option.split)
  qed
qed

text \<open>A sector that is not followed by a letter or digit is not a postcode.\<close>

lemma no_inward_sector:
  "is_digit d \<Longrightarrow> t = [] \<or> \<not> is_alnum (hd t) \<Longrightarrow> match_inward w (CHR '' '' # d # t) = None"
  by (cases t) (auto simp: match_inward_def split: list.splits)

lemma no_inward_space: "\<not> is_space c \<Longrightarrow> match_inward w (c # CHR '' '' # t) = None"
  by (auto simp: match_inward_def split: list.splits)

lemma sector_no_match:
  assumes "outward_shape w" and "is_digit d" and "t = [] \<or> \<not> is_alnum (hd t)"
  shows "match_postcode (upper w @ CHR '' '' # d # t) = None"
proof -
  obtain area k tail where w: "w = area @ [k] @ tail" "is_digit k" "list_all is_alpha area" "length area \<in> {1, 2}"
    "list_all is_alnum tail" "length tail \<le> 1"
    using assms(1) by (auto simp: outward_shape_def)
  then consider x where "tail = [x]" "is_alnum x" | "tail = []" by (cases tail) auto
  then have one: "match_district v (map upper_char ([k] @ tail) @ CHR '' '' # d # t) = None" for v
  proof cases
    case 1
    then show ?thesis using w(2) assms(2,3)
      by (simp add: match_district_def no_inward_sector no_inward_space)
  next
    case 2
    then show ?thesis using w(2) assms(2,3)
      by (simp add: match_district_def no_inward_sector)
  qed
  from w(3,4) consider a where "area = [a]" "is_alpha a" | a b where "area = [a, b]" "is_alpha a" "is_alpha b"
    by (cases area rule: list.exhaust; cases "tl area") auto
  then show ?thesis
  proof cases
    case 1
    then show ?thesis using w(1,2) one [of "[upper_char a]"]
      by (simp add: match_postcode_def upper_def split: option.splits)
  next
    case 2
    have "match_district [upper_char a] (upper_char b # u) = None" for u
      using 2 by (auto simp: match_district_def other_classes split: list.splits)
    with 2 show ?thesis using w(1,2) one [of "[upper_char a, upper_char b]"]
      by (simp add: match_postcode_def upper_def)
  qed
qed

lemma search_outward:
  "list_all is_alnum w \<Longrightarrow> search_postcode True (upper w @ u) = search_postcode True u"
  by (induction w) (simp_all add: upper_def)

lemma search_skips: "\<not> search_postcode True u \<Longrightarrow> is_digit d \<Longrightarrow> \<not> search_postcode True (CHR '' '' # d # u)"
  using postcode_starts [of d u] by auto

lemma reduced_text_has_no_postcode: "\<not> search_postcode b (reduce_postcodes b s)"
proof (induction b s rule: reduce_postcodes.induct)
  case (2 b c cs)
  show ?case
  proof (cases b c cs rule: reduce_cases)
    case 1
    then have ih: "\<not> search_postcode (is_alnum c) (reduce_postcodes (is_alnum c) cs)" using 2(1) by blast
    have "\<not> b \<Longrightarrow> match_postcode (c # reduce_postcodes (is_alnum c) cs) = None"
      using 1(2) reduce_postcode_head [of c cs] postcode_starts [of c "reduce_postcodes (is_alnum c) cs"]
      by (cases "is_alpha c") (simp_all only: char_classes if_False, blast+)
    with 1(1) ih show ?thesis by (cases b) simp_all
  next
    case r: (2 w d rest)
    from match_postcode_ends [OF r(2)] have e: "outward_shape w" "is_digit d" "rest = [] \<or> \<not> is_alnum (hd rest)"
      by simp_all
    have "(if b then None else match_postcode (c # cs)) = Some (w, d, rest)" using r by simp
    then have ih: "\<not> search_postcode True (reduce_postcodes True rest)" using 2(2) by blast
    have hd: "reduce_postcodes True rest = [] \<or> \<not> is_alnum (hd (reduce_postcodes True rest))"
      using e(3) by (cases rest) auto
    from e(1) obtain x w' where w: "w = x # w'" "is_alpha x" "list_all is_alnum w'" by (rule outward_head)
    have "search_postcode b (reduce_postcodes b (c # cs))
        \<longleftrightarrow> match_postcode (upper w @ CHR '' '' # d # reduce_postcodes True rest) \<noteq> None
          \<or> search_postcode True (upper w' @ CHR '' '' # d # reduce_postcodes True rest)"
      using r(1,3) w(1,2) by (simp add: upper_def)
    with sector_no_match [OF e(1,2) hd] search_outward [OF w(3)] search_skips [OF ih e(2)] show ?thesis by simp
  qed
qed simp

lemma reduce_nothing: "\<not> search_postcode b s \<Longrightarrow> reduce_postcodes b s = s"
proof (induction b s rule: reduce_postcodes.induct)
  case (2 b c cs)
  then have n: "(if b then None else match_postcode (c # cs)) = None"
    by (cases "match_postcode (c # cs)") (cases b, simp_all)
  from 2(3) have "\<not> search_postcode (is_alnum c) cs" by simp
  with 2(1) n show ?case by (simp add: reduce_kept)
qed simp

text \<open>The keys of a payload are kept as they are.\<close>

fun keys_clean :: "json \<Rightarrow> bool" where
  "keys_clean (JObj kvs) =
     ((\<forall>k \<in> set (map fst kvs). \<not> text_has_postcode k) \<and> (\<forall>b \<in> set (map (\<lambda>(k, v). keys_clean v) kvs). b))"
| "keys_clean (JList vs) = (\<forall>b \<in> set (map keys_clean vs). b)"
| "keys_clean _ = True"

lemma sanitized_has_no_postcode: "keys_clean j \<Longrightarrow> \<not> contains_full_postcode (sanitize_ukpn_payload j)"
proof (induction j rule: sanitize_ukpn_payload.induct)
  case (1 kvs)
  then have "\<not> text_has_postcode k \<and> \<not> contains_full_postcode (sanitize_ukpn_payload v)" if "(k, v) \<in> set kvs" for k v
    using that by (force simp: image_iff)
  then show ?case by (fastforce simp: image_iff)
qed (auto simp: text_has_postcode_def reduced_text_has_no_postcode)

lemma sanitize_again: "sanitize_ukpn_payload (sanitize_ukpn_payload j) = sanitize_ukpn_payload j"
proof (induction j rule: sanitize_ukpn_payload.induct)
  case (1 kvs)
  have "filter (\<lambda>(k, v). \<not> private_key k) (map (\<lambda>(k, v). (k, sanitize_ukpn_payload v))
           (filter (\<lambda>(k, v). \<not> private_key k) (map (\<lambda>(k, v). (k, sanitize_ukpn_payload v)) kvs)))
      = filter (\<lambda>(k, v). \<not> private_key k) (map (\<lambda>(k, v). (k, sanitize_ukpn_payload v)) kvs)"
    using 1 by (induction kvs) auto
  then show ?case by simp
qed (simp_all add: reduce_nothing reduced_text_has_no_postcode)

section \<open>Asset rows\<close>

definition asset_provenance_values :: "asset_provenance \<Rightarrow> cell" where
  "asset_provenance_values p =
     CMap [(''sourceId'', CStr (apv_source_id p)), (''dataset'', CStr (apv_dataset p)),
       (''endpoint'', CStr (apv_endpoint p)), (''retrievedAt'', CStr (iso_instant (apv_retrieved_at p))),
       (''publishedAt'', opt_str (map_option iso_instant (apv_published_at p))),
       (''evidenceKind'', CStr (evidence_value (apv_evidence_kind p)))]"

definition map_asset_reference :: "asset_reference \<Rightarrow> str \<Rightarrow> row result" where
  "map_asset_reference r source_id =
     (if apv_evidence_kind (arr_provenance r) \<noteq> Ev_Reference
      then Inl (ValueError ''BM-unit asset rows require reference evidence'')
      else if holds_for (\<lambda>mw. mw < 0) (arr_generation_capacity_mw r)
      then Inl (ValueError ''generation capacity cannot be negative'')
      else
        let display_name = or_else (arr_display_name r) (or_else (arr_source_asset_id r) (arr_asset_id r))
        in Inr [(''source_id'', CStr source_id), (''external_id'', CStr (arr_asset_id r)),
          (''asset_type'', CStr ''bm_unit''), (''display_name'', CStr (take 160 display_name)),
          (''fuel_type'', if truthy (arr_fuel_type r) then CStr (lower (the (arr_fuel_type r))) else CNone),
          (''region_code'', opt_str (arr_gsp_group_id r)),
          (''counterparty'', if truthy (arr_lead_party_name r) then CStr (take 120 (the (arr_lead_party_name r))) else CNone),
          (''capacity_mw'', opt_num (arr_generation_capacity_mw r)),
          (''latitude'', CNone), (''longitude'', CNone), (''map_x'', CNone), (''map_y'', CNone),
          (''active'', CBool True),
          (''attributes'', CMap
            [(''classification'', CStr (evidence_value Ev_Reference)), (''nationalGridBmUnit'', CStr (arr_asset_id r)),
             (''elexonBmUnit'', opt_str (arr_source_asset_id r)), (''bmUnitName'', opt_str (arr_display_name r)),
             (''fuelType'', opt_str (arr_fuel_type r)), (''leadPartyName'', opt_str (arr_lead_party_name r)),
             (''leadPartyId'', opt_str (arr_lead_party_id r)), (''bmUnitType'', opt_str (arr_asset_type r)),
             (''productionOrConsumptionFlag'', opt_str (arr_production_or_consumption r)),
             (''fpnFlag'', opt_bool (arr_submits_physical_notifications r)),
             (''generationCapacityMW'', opt_num (arr_generation_capacity_mw r)),
             (''demandCapacityMW'', opt_num (arr_demand_capacity_mw r)),
             (''transmissionLossFactor'', opt_num (arr_transmission_loss_factor r)),
             (''workingDayCreditAssessmentImportCapabilityMW'', opt_num (arr_wd_import_mw r)),
             (''nonWorkingDayCreditAssessmentImportCapabilityMW'', opt_num (arr_nwd_import_mw r)),
             (''workingDayCreditAssessmentExportCapabilityMW'', opt_num (arr_wd_export_mw r)),
             (''nonWorkingDayCreditAssessmentExportCapabilityMW'', opt_num (arr_nwd_export_mw r)),
             (''creditQualifyingStatus'', opt_bool (arr_credit_qualifying_status r)),
             (''demandInProductionFlag'', opt_bool (arr_demand_in_production r)),
             (''gspGroupId'', opt_str (arr_gsp_group_id r)), (''gspGroupName'', opt_str (arr_gsp_group_name r)),
             (''interconnectorId'', opt_str (arr_interconnector_id r)), (''eic'', opt_str (arr_eic r)),
             (''locationStatus'', CStr ''not_provided_by_elexon''),
             (''provenance'', asset_provenance_values (arr_provenance r))])])"

definition map_physical_notification_segment ::
  "planned_profile_segment \<Rightarrow> str \<Rightarrow> uuid \<Rightarrow> uuid \<Rightarrow> row result" where
  "map_physical_notification_segment r source_id raw_payload_id asset_id =
     (if apv_evidence_kind (pps_provenance r) \<noteq> Ev_Reported_Plan
      then Inl (ValueError ''PN segments must remain reported plans'')
      else Inr [(''source_id'', CStr source_id), (''raw_payload_id'', CUuid raw_payload_id),
        (''asset_id'', CUuid asset_id), (''national_grid_bm_unit'', CStr (pps_asset_id r)),
        (''elexon_bm_unit'', opt_str (pps_source_asset_id r)),
        (''settlement_date'', CDate (pps_settlement_date r)), (''settlement_period'', CInt (pps_settlement_period r)),
        (''segment_start'', CTime (pps_start r)), (''segment_end'', CTime (pps_end r)),
        (''level_from_mw'', CFloat (pps_level_from_mw r)), (''level_to_mw'', CFloat (pps_level_to_mw r)),
        (''classification'', CStr (evidence_value Ev_Reported_Plan)),
        (''retrieved_at'', CTime (apv_retrieved_at (pps_provenance r))),
        (''attributes'', CMap
          [(''semantics'', CStr ''participant_submitted_planned_profile''), (''isActualOutput'', CBool False),
           (''signConvention'', CStr ''positive_export_negative_import''),
           (''provenance'', asset_provenance_values (pps_provenance r))])])"

definition map_b1610_settled_energy ::
  "settled_metered_energy \<Rightarrow> str \<Rightarrow> uuid \<Rightarrow> uuid \<Rightarrow> row result" where
  "map_b1610_settled_energy r source_id raw_payload_id asset_id =
     (if apv_evidence_kind (sme_provenance r) \<noteq> Ev_Settled_Metered
      then Inl (ValueError ''B1610 rows must remain settled-metered evidence'')
      else Inr [(''source_id'', CStr source_id), (''raw_payload_id'', CUuid raw_payload_id),
        (''asset_id'', CUuid asset_id), (''national_grid_bm_unit'', opt_str (sme_national_grid_bm_unit r)),
        (''elexon_bm_unit'', opt_str (sme_source_asset_id r)),
        (''settlement_date'', CDate (sme_settlement_date r)), (''settlement_period'', CInt (sme_settlement_period r)),
        (''interval_start'', CTime (sme_interval_start r)), (''interval_end'', CTime (sme_interval_end r)),
        (''energy_mwh'', CFloat (sme_energy_mwh r)), (''average_mw'', CFloat (average_mw r)),
        (''psr_type'', opt_str (sme_psr_type r)), (''classification'', CStr (evidence_value Ev_Settled_Metered)),
        (''retrieved_at'', CTime (apv_retrieved_at (sme_provenance r))), (''revision'', CInt 0),
        (''attributes'', CMap
          [(''semantics'', CStr ''delayed_settled_half_hour_energy''), (''assetExternalID'', CStr (sme_asset_id r)),
           (''nationalGridBmUnit'', opt_str (sme_national_grid_bm_unit r)),
           (''elexonBmUnit'', opt_str (sme_source_asset_id r)), (''isInstantaneousPower'', CBool False),
           (''averageMWMethod'', CStr ''energy_mwh_divided_by_0.5_hours''),
           (''signConvention'', CStr ''positive_export_negative_import''),
           (''provenance'', asset_provenance_values (sme_provenance r))])])"

section \<open>Observation rows\<close>

definition common_observation_values ::
  "str \<Rightarrow> datetime \<Rightarrow> datetime option \<Rightarrow> datetime \<Rightarrow> str \<Rightarrow> uuid \<Rightarrow> row result" where
  "common_observation_values source_key observed_at published_at retrieved_at source_id raw_payload_id =
     rbind (as_utc observed_at ''observed_at'') (\<lambda>observed.
     rbind (optional_utc published_at ''published_at'') (\<lambda>published.
     rbind (as_utc retrieved_at ''retrieved_at'') (\<lambda>retrieved.
       Inr [(''source_id'', CStr source_id), (''raw_payload_id'', CUuid raw_payload_id),
            (''source_record_id'', CStr source_key), (''observed_at'', CTime observed),
            (''published_at'', published), (''retrieved_at'', CTime retrieved),
            (''revision'', CInt 0), (''quality'', CEnum ''validated'')])))"

definition map_generation_record :: "generation_record \<Rightarrow> str \<Rightarrow> uuid \<Rightarrow> row result" where
  "map_generation_record r source_id raw_payload_id =
     rbind (common_observation_values (gnr_source_key r) (gnr_observed_at r) (Some (gnr_published_at r))
              (gnr_retrieved_at r) source_id raw_payload_id) (\<lambda>common.
       Inr (common @
         [(''series_key'', CStr (upper (gnr_fuel_code r))), (''fuel_type'', CStr (gnr_fuel_type r)),
          (''asset_id'', CNone), (''generation_mw'', CFloat (gnr_generation_mw r)),
          (''settlement_date'', opt_date (gnr_settlement_date r)),
          (''settlement_period'', opt_int (gnr_settlement_period r)),
          (''attributes'', CMap [(''source'', CStr (gnr_source r)), (''dataset'', CStr (gnr_dataset r)),
             (''fuelCode'', CStr (gnr_fuel_code r))])]))"

definition map_demand_record :: "demand_record \<Rightarrow> str \<Rightarrow> uuid \<Rightarrow> row result" where
  "map_demand_record r source_id raw_payload_id =
     rbind (common_observation_values (dmr_source_key r) (dmr_observed_at r) (Some (dmr_published_at r))
              (dmr_retrieved_at r) source_id raw_payload_id) (\<lambda>common.
       Inr (common @
         [(''series_key'', CStr ''gb''), (''demand_type'', CStr (lower (dmr_dataset r))),
          (''demand_mw'', CFloat (dmr_demand_mw r)),
          (''settlement_date'', opt_date (dmr_settlement_date r)),
          (''settlement_period'', opt_int (dmr_settlement_period r)),
          (''attributes'', CMap [(''source'', CStr (dmr_source r)), (''dataset'', CStr (dmr_dataset r))])]))"

definition map_frequency_record :: "frequency_record \<Rightarrow> str \<Rightarrow> uuid \<Rightarrow> row result" where
  "map_frequency_record r source_id raw_payload_id =
     rbind (common_observation_values (frr_source_key r) (frr_observed_at r) (frr_published_at r)
              (frr_retrieved_at r) source_id raw_payload_id) (\<lambda>common.
       Inr (common @
         [(''series_key'', CStr ''gb''), (''frequency_hz'', CFloat (frr_frequency_hz r)),
          (''attributes'', CMap [(''source'', CStr (frr_source r)), (''dataset'', CStr (frr_dataset r))])]))"

definition map_interconnector_record :: "interconnector_flow_record \<Rightarrow> str \<Rightarrow> uuid \<Rightarrow> row result" where
  "map_interconnector_record r source_id raw_payload_id =
     (let connector_code = upper (icr_interconnector_id r) in
      rbind (common_observation_values (icr_source_key r) (icr_observed_at r) (Some (icr_published_at r))
               (icr_retrieved_at r) source_id raw_payload_id) (\<lambda>common.
        Inr (common @
          [(''connector_code'', CStr connector_code), (''asset_id'', CNone),
           (''counterparty'', CStr (get_or INTERCONNECTOR_COUNTERPARTIES connector_code (icr_interconnector_name r))),
           (''flow_mw'', CFloat (icr_flow_mw r)),
           (''attributes'', CMap [(''source'', CStr (icr_source r)), (''dataset'', CStr (icr_dataset r)),
              (''displayName'', CStr (icr_interconnector_name r)),
              (''signConvention'', CStr ''positive_import_into_gb'')])])))"

section \<open>Incidents, carbon intensity and forecasts\<close>

text \<open>\<open>asdict\<close> of an incident, as far as \<open>contains_full_postcode\<close> looks at it: its keys and its
  strings (a datetime or a number is not a string).\<close>

definition jopt :: "str option \<Rightarrow> json" where
  "jopt v = (case v of None \<Rightarrow> JNull | Some s \<Rightarrow> JStr s)"

definition incident_dict :: "distribution_incident_record \<Rightarrow> json" where
  "incident_dict r = JObj
     [(''source_key'', JStr (dir_source_key r)), (''incident_reference'', JStr (dir_incident_reference r)),
      (''status'', JStr (dir_status r)), (''observed_at'', JNull), (''retrieved_at'', JNull),
      (''content_sha256'', JStr (dir_content_sha256 r)), (''source_created_at'', JNull),
      (''incident_start'', JNull), (''restored_at'', JNull), (''estimated_restoration_at'', JNull),
      (''status_id'', JNull), (''customers_affected'', JInt (dir_customers_affected r)),
      (''calls_reported'', JInt (dir_calls_reported r)),
      (''postcode_sectors'', JList (map JStr (dir_postcode_sectors r))),
      (''outward_codes'', JList (map JStr (dir_outward_codes r))),
      (''latitude'', JNull), (''longitude'', JNull),
      (''geography_precision'', JStr (dir_geography_precision r)),
      (''operating_zone'', jopt (dir_operating_zone r)), (''official_summary'', jopt (dir_official_summary r)),
      (''official_details'', jopt (dir_official_details r)),
      (''restoration_window_text'', jopt (dir_restoration_window_text r)),
      (''incident_category'', jopt (dir_incident_category r)),
      (''classification'', JStr (classification_value (dir_classification r))),
      (''source'', JStr (dir_source r)), (''dataset'', JStr (dir_dataset r))]"

definition map_distribution_incident_record :: "distribution_incident_record \<Rightarrow> str \<Rightarrow> uuid \<Rightarrow> row result" where
  "map_distribution_incident_record r source_id raw_payload_id =
     (if contains_full_postcode (incident_dict r)
      then Inl (ValueError ''distribution incident record contains a full postcode'')
      else if dir_classification r \<noteq> Src_Reported
      then Inl (ValueError ''distribution incidents must be source-reported facts'')
      else if dir_status r \<notin> {''planned'', ''unplanned'', ''restored''}
      then Inl (ValueError ''distribution incident status is unsupported'')
      else
        rbind (optional_utc (dir_source_created_at r) ''source_created_at'') (\<lambda>source_created.
        rbind (as_utc (dir_observed_at r) ''observed_at'') (\<lambda>observed.
        rbind (as_utc (dir_retrieved_at r) ''retrieved_at'') (\<lambda>retrieved.
        rbind (optional_utc (dir_incident_start r) ''incident_start'') (\<lambda>incident_start.
        rbind (optional_utc (dir_restored_at r) ''restored_at'') (\<lambda>restored.
        rbind (optional_utc (dir_estimated_restoration_at r) ''estimated_restoration_at'') (\<lambda>estimated.
          Inr [(''source_id'', CStr source_id), (''raw_payload_id'', CUuid raw_payload_id),
            (''incident_reference'', CStr (dir_incident_reference r)), (''revision'', CInt 0),
            (''content_sha256'', CStr (dir_content_sha256 r)),
            (''classification'', CStr (classification_value (dir_classification r))),
            (''status'', CStr (dir_status r)), (''status_id'', opt_int (dir_status_id r)),
            (''source_created_at'', source_created), (''observed_at'', CTime observed),
            (''retrieved_at'', CTime retrieved), (''incident_start'', incident_start),
            (''restored_at'', restored), (''estimated_restoration_at'', estimated),
            (''customers_affected'', CInt (dir_customers_affected r)),
            (''calls_reported'', CInt (dir_calls_reported r)),
            (''postcode_sectors'', CList (map CStr (dir_postcode_sectors r))),
            (''outward_codes'', CList (map CStr (dir_outward_codes r))),
            (''latitude'', opt_num (dir_latitude r)), (''longitude'', opt_num (dir_longitude r)),
            (''geography_precision'', CStr (dir_geography_precision r)),
            (''operating_zone'', opt_str (dir_operating_zone r)),
            (''official_summary'', opt_str (dir_official_summary r)),
            (''official_details'', opt_str (dir_official_details r)),
            (''restoration_window_text'', opt_str (dir_restoration_window_text r)),
            (''incident_category'', opt_str (dir_incident_category r))])))))))"

definition carbon_region_code :: "carbon_intensity_record \<Rightarrow> str" where
  "carbon_region_code r =
     (if truthy (cir_postcode r) then upper (the (cir_postcode r))
      else case cir_region_id r of Some n \<Rightarrow> ''region-'' @ str_of_int n | None \<Rightarrow> ''GB'')"

definition carbon_attributes :: "carbon_intensity_record \<Rightarrow> ((str \<times> cell) list) result" where
  "carbon_attributes r =
     rbind (as_utc (cir_period_end r) ''period_end'') (\<lambda>period_end.
       Inr [(''source'', CStr (cir_source r)), (''dataset'', CStr (cir_dataset r)),
            (''classification'', CStr (classification_value (cir_classification r))),
            (''periodEnd'', CStr (iso_instant period_end)), (''regionId'', opt_int (cir_region_id r)),
            (''regionName'', opt_str (cir_region_name r)), (''dnoRegion'', opt_str (cir_dno_region r)),
            (''postcode'', opt_str (cir_postcode r))])"

definition map_carbon_actual_record :: "carbon_intensity_record \<Rightarrow> str \<Rightarrow> uuid \<Rightarrow> row result" where
  "map_carbon_actual_record r source_id raw_payload_id =
     (if cir_classification r \<noteq> Src_Estimated
      then Inl (ValueError ''only estimated carbon actuals belong in carbon_observations'')
      else
        rbind (as_utc (cir_period_start r) ''period_start'') (\<lambda>observed.
        rbind (as_utc (cir_retrieved_at r) ''retrieved_at'') (\<lambda>retrieved.
        rbind (carbon_attributes r) (\<lambda>attributes.
          Inr [(''source_id'', CStr source_id), (''raw_payload_id'', CUuid raw_payload_id),
            (''source_record_id'', CStr (cir_source_key r)), (''observed_at'', CTime observed),
            (''published_at'', CNone), (''retrieved_at'', CTime retrieved), (''revision'', CInt 0),
            (''quality'', CEnum ''estimated''), (''region_code'', CStr (carbon_region_code r)),
            (''intensity_gco2_kwh'', CFloat (of_int (cir_intensity r))), (''index_label'', opt_str (cir_index r)),
            (''generation_mix'', CList (map (\<lambda>(fuel, percent).
               CMap [(''fuel'', CStr fuel), (''percent'', CFloat percent)]) (cir_generation_mix r))),
            (''attributes'', CMap attributes)]))))"

definition map_carbon_forecast_record :: "carbon_intensity_record \<Rightarrow> str \<Rightarrow> uuid \<Rightarrow> row result" where
  "map_carbon_forecast_record r source_id raw_payload_id =
     (if cir_classification r \<noteq> Src_Forecast
      then Inl (ValueError ''only forecast carbon records belong in forecast_observations'')
      else
        rbind (as_utc (cir_retrieved_at r) ''retrieved_at'') (\<lambda>retrieved.
        rbind (as_utc (cir_period_start r) ''period_start'') (\<lambda>valid_from.
        rbind (as_utc (cir_period_end r) ''period_end'') (\<lambda>valid_to.
        rbind (carbon_attributes r) (\<lambda>attributes.
          Inr [(''source_id'', CStr source_id), (''raw_payload_id'', CUuid raw_payload_id),
            (''source_record_id'', CStr (cir_source_key r)), (''metric_type'', CStr ''carbon_intensity''),
            (''series_key'', CStr (carbon_region_code r)), (''variant'', CStr ''point''),
            (''value'', CFloat (of_int (cir_intensity r))), (''unit'', CStr ''gCO2/kWh''),
            (''value_low'', CNone), (''value_high'', CNone), (''valid_from'', CTime valid_from),
            (''valid_to'', CTime valid_to), (''issued_at'', CTime retrieved), (''published_at'', CNone),
            (''retrieved_at'', CTime retrieved), (''revision'', CInt 0),
            (''model_name'', CStr ''neso_carbon_intensity''), (''settlement_date'', CNone),
            (''settlement_period'', CNone),
            (''attributes'', CMap (store (store attributes ''classification'' (CStr ''forecast''))
               ''issueTimeBasis'' (CStr ''retrieved_at'')))])))))"

definition map_demand_forecast_record :: "demand_forecast_record \<Rightarrow> str \<Rightarrow> uuid \<Rightarrow> row result" where
  "map_demand_forecast_record r source_id raw_payload_id =
     rbind (as_utc (dfr_forecast_for r) ''forecast_for'') (\<lambda>valid_from.
     rbind (as_utc (dfr_published_at r) ''published_at'') (\<lambda>published.
     rbind (as_utc (dfr_retrieved_at r) ''retrieved_at'') (\<lambda>retrieved.
       Inr [(''source_id'', CStr source_id), (''raw_payload_id'', CUuid raw_payload_id),
         (''source_record_id'', CStr (dfr_source_key r)), (''metric_type'', CStr ''demand''),
         (''series_key'', CStr (lower (strip (or_else (dfr_boundary r) ''gb'')))), (''variant'', CStr ''point''),
         (''value'', CFloat (dfr_demand_mw r)), (''unit'', CStr ''MW''), (''value_low'', CNone),
         (''value_high'', CNone), (''valid_from'', CTime valid_from), (''valid_to'', CNone),
         (''issued_at'', CTime published), (''published_at'', CTime published),
         (''retrieved_at'', CTime retrieved), (''revision'', CInt 0), (''model_name'', CStr (dfr_dataset r)),
         (''settlement_date'', opt_date (dfr_settlement_date r)),
         (''settlement_period'', opt_int (dfr_settlement_period r)),
         (''attributes'', CMap [(''source'', CStr (dfr_source r)), (''dataset'', CStr (dfr_dataset r)),
            (''classification'', CStr ''forecast''), (''boundary'', opt_str (dfr_boundary r))])])))"

definition map_wind_forecast_record :: "wind_forecast_record \<Rightarrow> str \<Rightarrow> uuid \<Rightarrow> row result" where
  "map_wind_forecast_record r source_id raw_payload_id =
     rbind (as_utc (wfr_forecast_for r) ''forecast_for'') (\<lambda>valid_from.
     rbind (as_utc (wfr_published_at r) ''published_at'') (\<lambda>published.
     rbind (as_utc (wfr_retrieved_at r) ''retrieved_at'') (\<lambda>retrieved.
       Inr [(''source_id'', CStr source_id), (''raw_payload_id'', CUuid raw_payload_id),
         (''source_record_id'', CStr (wfr_source_key r)), (''metric_type'', CStr ''generation''),
         (''series_key'', CStr ''wind''), (''variant'', CStr ''point''),
         (''value'', CFloat (wfr_generation_mw r)), (''unit'', CStr ''MW''), (''value_low'', CNone),
         (''value_high'', CNone), (''valid_from'', CTime valid_from), (''valid_to'', CNone),
         (''issued_at'', CTime published), (''published_at'', CTime published),
         (''retrieved_at'', CTime retrieved), (''revision'', CInt 0), (''model_name'', CStr (wfr_dataset r)),
         (''settlement_date'', CNone), (''settlement_period'', CNone),
         (''attributes'', CMap [(''source'', CStr (wfr_source r)), (''dataset'', CStr (wfr_dataset r)),
            (''classification'', CStr ''forecast''), (''fuelType'', CStr ''wind'')])])))"

section \<open>Reported notices\<close>

text \<open>\<open>str\<close> of a datetime, which \<open>json.dumps\<close> falls back on.\<close>

fun str_datetime :: "datetime \<Rightarrow> str" where
  "str_datetime (Aware t) = map (\<lambda>c. if c = CHR ''T'' then CHR '' '' else c) (iso_instant t)"
| "str_datetime (Naive t) =
     (let s = map (\<lambda>c. if c = CHR ''T'' then CHR '' '' else c) (iso_instant t) in take (length s - 6) s)"

definition jnum :: "rat option \<Rightarrow> json" where
  "jnum v = (case v of None \<Rightarrow> JNull | Some x \<Rightarrow> JFloat x)"

text \<open>\<open>asdict\<close> of a REMIT record without its retrieval time.\<close>

definition remit_source_content :: "remit_record \<Rightarrow> json" where
  "remit_source_content r = JObj
     [(''source_key'', JStr (rur_source_key r)), (''mrid'', JStr (rur_mrid r)),
      (''revision_number'', JInt (rur_revision_number r)), (''message_id'', JInt (rur_message_id r)),
      (''published_at'', JStr (str_datetime (rur_published_at r))),
      (''created_at'', JStr (str_datetime (rur_created_at r))),
      (''event_start'', JStr (str_datetime (rur_event_start r))),
      (''event_end'', jopt (map_option str_datetime (rur_event_end r))),
      (''message_heading'', jopt (rur_message_heading r)), (''event_type'', jopt (rur_event_type r)),
      (''unavailability_type'', jopt (rur_unavailability_type r)), (''event_status'', jopt (rur_event_status r)),
      (''participant_id'', jopt (rur_participant_id r)), (''asset_id'', jopt (rur_asset_id r)),
      (''asset_type'', jopt (rur_asset_type r)), (''affected_unit'', jopt (rur_affected_unit r)),
      (''affected_unit_eic'', jopt (rur_affected_unit_eic r)), (''affected_area'', jopt (rur_affected_area r)),
      (''bidding_zone'', jopt (rur_bidding_zone r)), (''fuel_type'', jopt (rur_fuel_type r)),
      (''normal_capacity_mw'', jnum (rur_normal_capacity_mw r)),
      (''available_capacity_mw'', jnum (rur_available_capacity_mw r)),
      (''unavailable_capacity_mw'', jnum (rur_unavailable_capacity_mw r)),
      (''duration_uncertainty'', jopt (rur_duration_uncertainty r)),
      (''reported_cause'', jopt (rur_reported_cause r)),
      (''reported_related_information'', jopt (rur_reported_related_information r)),
      (''outage_profile'', JList (map (\<lambda>p. JObj [(''start'', JStr (str_datetime (opp_start p))),
          (''end'', JStr (str_datetime (opp_end p))),
          (''available_capacity_mw'', JFloat (opp_available_capacity_mw p))]) (rur_outage_profile r))),
      (''classification'', JStr (classification_value (rur_classification r))),
      (''source'', JStr (rur_source r)), (''dataset'', JStr (rur_dataset r))]"

definition outage_profile_entry :: "outage_profile_point \<Rightarrow> cell result" where
  "outage_profile_entry p =
     rbind (as_utc (opp_start p) ''outage_profile.start'') (\<lambda>from.
     rbind (as_utc (opp_end p) ''outage_profile.end'') (\<lambda>until.
       Inr (CMap [(''start'', CStr (iso_instant from)), (''end'', CStr (iso_instant until)),
                  (''availableCapacityMW'', CFloat (opp_available_capacity_mw p))])))"

definition map_remit_notice_record :: "remit_record \<Rightarrow> str \<Rightarrow> uuid \<Rightarrow> row result" where
  "map_remit_notice_record r source_id raw_payload_id =
     rbind (traverse outage_profile_entry (rur_outage_profile r)) (\<lambda>outage_profile.
     rbind (as_utc (rur_published_at r) ''published_at'') (\<lambda>published.
     rbind (as_utc (rur_created_at r) ''created_at'') (\<lambda>created.
     rbind (as_utc (rur_retrieved_at r) ''retrieved_at'') (\<lambda>retrieved.
     rbind (as_utc (rur_event_start r) ''event_start'') (\<lambda>event_start.
     rbind (optional_utc (rur_event_end r) ''event_end'') (\<lambda>event_end.
       Inr [(''source_id'', CStr source_id), (''raw_payload_id'', CUuid raw_payload_id),
         (''notice_kind'', CStr ''remit_unavailability''), (''external_id'', CStr (rur_mrid r)),
         (''revision_key'', CStr (''r'' @ str_of_int (rur_revision_number r))),
         (''revision_number'', CInt (rur_revision_number r)), (''source_record_id'', CStr (rur_source_key r)),
         (''content_sha256'', CStr (json_checksum (remit_source_content r))),
         (''classification'', CStr ''reported''), (''published_at'', CTime published),
         (''source_created_at'', CTime created), (''retrieved_at'', CTime retrieved),
         (''event_start'', CTime event_start), (''event_end'', event_end),
         (''heading'', opt_str (rur_message_heading r)), (''event_type'', opt_str (rur_event_type r)),
         (''unavailability_type'', opt_str (rur_unavailability_type r)),
         (''event_status'', opt_str (rur_event_status r)), (''participant_id'', opt_str (rur_participant_id r)),
         (''asset_id'', opt_str (rur_asset_id r)), (''asset_type'', opt_str (rur_asset_type r)),
         (''affected_unit'', opt_str (rur_affected_unit r)),
         (''affected_unit_eic'', opt_str (rur_affected_unit_eic r)),
         (''affected_area'', opt_str (rur_affected_area r)), (''bidding_zone'', opt_str (rur_bidding_zone r)),
         (''fuel_type'', opt_str (rur_fuel_type r)),
         (''normal_capacity_mw'', opt_num (rur_normal_capacity_mw r)),
         (''available_capacity_mw'', opt_num (rur_available_capacity_mw r)),
         (''unavailable_capacity_mw'', opt_num (rur_unavailable_capacity_mw r)),
         (''duration_uncertainty'', opt_str (rur_duration_uncertainty r)),
         (''reported_cause'', opt_str (rur_reported_cause r)),
         (''reported_related_information'', opt_str (rur_reported_related_information r)),
         (''warning_type'', CNone), (''warning_text'', CNone),
         (''evidence'', CMap [(''classification'', CStr ''reported''), (''messageId'', CInt (rur_message_id r)),
            (''mRID'', CStr (rur_mrid r)), (''revisionNumber'', CInt (rur_revision_number r)),
            (''outageProfile'', CList outage_profile)])]))))))"

definition map_system_warning_record :: "system_warning_record \<Rightarrow> str \<Rightarrow> uuid \<Rightarrow> row result" where
  "map_system_warning_record r source_id raw_payload_id =
     rbind (as_utc (swr_published_at r) ''published_at'') (\<lambda>published.
     let identity = swr_warning_type r @ [CHR 0x00] @ iso_instant published;
         external_id = ''syswarn:'' @ take 32 (sha256_hex identity);
         content_sha256 = lower (swr_content_sha256 r);
         revision_key = (case swr_revision_number r of Some n \<Rightarrow> ''r'' @ str_of_int n | None \<Rightarrow> content_sha256)
     in rbind (as_utc (swr_retrieved_at r) ''retrieved_at'') (\<lambda>retrieved.
       Inr [(''source_id'', CStr source_id), (''raw_payload_id'', CUuid raw_payload_id),
         (''notice_kind'', CStr ''system_warning''), (''external_id'', CStr external_id),
         (''revision_key'', CStr revision_key), (''revision_number'', opt_int (swr_revision_number r)),
         (''source_record_id'', CStr (swr_source_key r)), (''content_sha256'', CStr content_sha256),
         (''classification'', CStr ''reported''), (''published_at'', CTime published),
         (''source_created_at'', CNone), (''retrieved_at'', CTime retrieved), (''event_start'', CNone),
         (''event_end'', CNone), (''heading'', CNone), (''event_type'', CNone), (''unavailability_type'', CNone),
         (''event_status'', CNone), (''participant_id'', CNone), (''asset_id'', CNone), (''asset_type'', CNone),
         (''affected_unit'', CNone), (''affected_unit_eic'', CNone), (''affected_area'', CNone),
         (''bidding_zone'', CNone), (''fuel_type'', CNone), (''normal_capacity_mw'', CNone),
         (''available_capacity_mw'', CNone), (''unavailable_capacity_mw'', CNone),
         (''duration_uncertainty'', CNone), (''reported_cause'', CNone),
         (''reported_related_information'', CNone),
         (''warning_type'', CStr (swr_warning_type r)), (''warning_text'', CStr (swr_warning_text r)),
         (''evidence'', CMap [(''classification'', CStr ''reported''), (''warningType'', CStr (swr_warning_type r)),
            (''warningTextSha256'', CStr content_sha256)])]))"

section \<open>REPD sites\<close>

definition external_id_of :: "str \<Rightarrow> str result" where
  "external_id_of value =
     (let external_id = strip value
      in if external_id = [] then Inl (ValueError ''REPD source record ID cannot be empty'') else Inr external_id)"

definition authoritative_external_id :: "repd_site \<Rightarrow> str result" where
  "authoritative_external_id site =
     (if rpv_publisher (rps_provenance site) \<noteq> REPD_PUBLISHER
      then Inl (ValueError ''REPD site publisher provenance is not DESNZ'')
      else if rpv_dataset (rps_provenance site) \<noteq> REPD_DATASET_NAME
      then Inl (ValueError ''REPD site dataset provenance is not REPD'')
      else rbind (external_id_of (rps_source_id site)) (\<lambda>external_id.
        if 120 < length external_id
        then Inl (ValueError ''REPD source record ID exceeds Asset.external_id capacity'')
        else Inr external_id))"

definition PUBLIC_SITE_ID_NAMESPACE :: str where
  "PUBLIC_SITE_ID_NAMESPACE = ''6e9484c3-857c-58fd-b4bb-49337e9e23ad''"

definition public_repd_site_id :: "str \<Rightarrow> str result" where
  "public_repd_site_id source_record_id =
     rbind (external_id_of source_record_id) (\<lambda>external_id.
       Inr (''repd_'' @ uuid5 PUBLIC_SITE_ID_NAMESPACE (REPD_SOURCE_ID @ ''|'' @ external_id)))"

function runs :: "(char \<Rightarrow> bool) \<Rightarrow> str \<Rightarrow> str list" where
  "runs keep [] = []"
| "runs keep (c # cs) =
     (if keep c then (c # takeWhile keep cs) # runs keep (dropWhile keep cs) else runs keep cs)"
  by pat_completeness auto
termination
  by (relation "measure (\<lambda>(keep, s). length s)") (auto simp: less_Suc_eq_le length_dropWhile_le)

definition words :: "str \<Rightarrow> str list" where
  "words value = runs is_lower_alnum (lower value)"

definition normalized_repd_fuel :: "repd_site \<Rightarrow> str option" where
  "normalized_repd_fuel site =
     (if rps_is_storage site then Some ''storage''
      else
        let ws = words (rps_technology site); technology = join '' '' ws
        in if technology = [] \<or> technology = ''unknown'' then None
           else if ''wind'' \<in> set ws then Some ''wind''
           else if technology = ''solar photovoltaics'' \<or> ''solar'' \<in> set ws then Some ''solar''
           else if technology \<in> {''anaerobic digestion'', ''biomass co firing'', ''biomass dedicated'',
                                  ''landfill gas'', ''sewage sludge digestion''} then Some ''biomass''
           else if ''hydro'' \<in> set ws \<or> technology = ''hydroelectricity'' then Some ''hydro''
           else Some ''other'')"

definition repd_coordinate_attributes :: "repd_coordinates \<Rightarrow> cell" where
  "repd_coordinate_attributes c =
     CMap [(''eastingM'', CFloat (rco_easting_m c)), (''northingM'', CFloat (rco_northing_m c)),
       (''latitude'', CFloat (rco_latitude c)), (''longitude'', CFloat (rco_longitude c)),
       (''sourceFields'', CList [CStr (fst (rco_source_fields c)), CStr (snd (rco_source_fields c))]),
       (''sourceCRS'', CStr (rco_source_crs c)), (''outputCRS'', CStr (rco_output_crs c)),
       (''transform'', CStr (rco_transform c))]"

definition map_repd_site :: "repd_site \<Rightarrow> str \<Rightarrow> row result" where
  "map_repd_site site source_id =
     (if source_id \<noteq> REPD_SOURCE_ID
      then Inl (ValueError ''REPD assets must use the canonical DESNZ source ID'')
      else rbind (authoritative_external_id site) (\<lambda>external_id.
        if holds_for (\<lambda>mw. mw < 0) (rps_capacity_mw site)
        then Inl (ValueError ''REPD capacity must be finite and non-negative'')
        else rbind (public_repd_site_id external_id) (\<lambda>public_id.
          let broad_fuel = normalized_repd_fuel site;
              coordinates = rps_coordinates site;
              p = rps_provenance site
          in Inr [(''source_id'', CStr source_id), (''external_id'', CStr external_id),
            (''asset_type'', CStr REPD_ASSET_TYPE), (''display_name'', CStr (take 160 (rps_project_name site))),
            (''fuel_type'', opt_str broad_fuel),
            (''region_code'', if truthy (rps_region site) then CStr (take 64 (the (rps_region site))) else CNone),
            (''counterparty'', if truthy (rps_operator_name site)
                               then CStr (take 120 (the (rps_operator_name site))) else CNone),
            (''capacity_mw'', opt_num (rps_capacity_mw site)),
            (''latitude'', opt_num (map_option rco_latitude coordinates)),
            (''longitude'', opt_num (map_option rco_longitude coordinates)),
            (''map_x'', CNone), (''map_y'', CNone), (''active'', CBool True),
            (''attributes'', CMap
              [(''classification'', CStr ''reference''), (''snapshotKind'', CStr ''complete_reference''),
               (''activeSemantics'', CStr ''present_in_latest_complete_repd_snapshot''),
               (''publicId'', CStr public_id), (''sourceRecordId'', CStr external_id),
               (''projectName'', CStr (rps_project_name site)), (''operatorName'', opt_str (rps_operator_name site)),
               (''technology'', CStr (rps_technology site)), (''normalizedFuel'', opt_str broad_fuel),
               (''fuelTypeDerivation'', CStr ''broad_ui_mapping_from_repd_technology''),
               (''capacityMW'', opt_num (rps_capacity_mw site)),
               (''lifecycleStatus'', CStr (repd_status_value (rps_status site))),
               (''sourceLifecycleStatus'', CStr (rps_source_status site)),
               (''storageType'', opt_str (rps_storage_type site)), (''isStorage'', CBool (rps_is_storage site)),
               (''region'', opt_str (rps_region site)), (''country'', opt_str (rps_country site)),
               (''planningAuthority'', opt_str (rps_planning_authority site)),
               (''recordLastUpdated'', opt_str (rps_record_last_updated site)),
               (''locationStatus'', CStr (if coordinates \<noteq> None then ''source_coordinate_transformed''
                                        else ''not_available_from_source'')),
               (''coordinates'', case coordinates of None \<Rightarrow> CNone | Some c \<Rightarrow> repd_coordinate_attributes c),
               (''provenance'', CMap
                 [(''publisher'', CStr (rpv_publisher p)), (''dataset'', CStr (rpv_dataset p)),
                  (''sourceUrl'', CStr (rpv_source_url p)), (''licenceName'', CStr (rpv_licence_name p)),
                  (''licenceUrl'', CStr (rpv_licence_url p)),
                  (''retrievedAt'', CStr (iso_instant (rpv_retrieved_at p)))])])])))"

record repd_snapshot_membership =
  rsm_source_id :: str
  rsm_asset_type :: str
  rsm_active_external_ids :: "str list"

text \<open>The constructor's own test; the keys it is given are stripped already, so it passes.\<close>

definition mk_repd_snapshot_membership :: "str \<Rightarrow> str \<Rightarrow> str list \<Rightarrow> repd_snapshot_membership result" where
  "mk_repd_snapshot_membership source_id asset_type ids =
     (if source_id \<noteq> REPD_SOURCE_ID \<or> asset_type \<noteq> REPD_ASSET_TYPE
      then Inl (ValueError ''REPD snapshot membership has an invalid scope'')
      else rbind (traverse external_id_of ids) (\<lambda>stripped.
        if sorted_set stripped \<noteq> ids
        then Inl (ValueError ''REPD snapshot membership keys must be sorted and unique'')
        else Inr \<lparr>rsm_source_id = source_id, rsm_asset_type = asset_type, rsm_active_external_ids = ids\<rparr>))"

definition repd_snapshot_membership_of :: "repd_site list \<Rightarrow> str \<Rightarrow> repd_snapshot_membership result" where
  "repd_snapshot_membership_of sites source_id =
     (if source_id \<noteq> REPD_SOURCE_ID
      then Inl (ValueError ''REPD snapshots must use the canonical DESNZ source ID'')
      else rbind (traverse authoritative_external_id sites) (\<lambda>ids.
        mk_repd_snapshot_membership source_id REPD_ASSET_TYPE (sorted_set ids)))"


section \<open>Every column is there\<close>

text \<open>Reading a column of a row the mapping functions build never fails: each of them fills all
  the columns its specification names.\<close>

definition spec_columns :: "upsert_spec \<Rightarrow> str list" where
  "spec_columns spec = us_conflict_columns spec @ us_update_columns spec @ us_change_columns spec
     @ us_identity_columns spec @ us_factual_columns spec"

definition covered :: "upsert_spec \<Rightarrow> str list \<Rightarrow> bool" where
  "covered spec names = list_all (\<lambda>c. c \<in> set names) (spec_columns spec)"

definition mapped_for :: "upsert_spec \<Rightarrow> str \<Rightarrow> row \<Rightarrow> bool" where
  "mapped_for spec source_id r \<longleftrightarrow> covered spec (map fst r) \<and> row_value r ''source_id'' = CStr source_id"

lemma mapped_row:
  "r = (''source_id'', CStr s) # t \<Longrightarrow> covered spec (''source_id'' # map fst t) \<Longrightarrow> mapped_for spec s r"
  by (simp add: mapped_for_def row_value_def)

lemma mapped_lookup: "mapped_for spec s r \<Longrightarrow> c \<in> set (spec_columns spec) \<Longrightarrow> \<exists>v. lookup r c = Some v"
  by (auto simp: mapped_for_def covered_def list_all_iff map_of_eq_None_iff
      simp flip: not_None_eq)

named_theorems spec_defs \<open>the specifications of the tables\<close>

lemmas all_specs [spec_defs] = GENERATION_SPEC_def DEMAND_SPEC_def FREQUENCY_SPEC_def INTERCONNECTOR_SPEC_def
  CARBON_ACTUAL_SPEC_def FORECAST_SPEC_def REPORTED_NOTICE_SPEC_def DISTRIBUTION_INCIDENT_SPEC_def
  ASSET_REFERENCE_SPEC_def PHYSICAL_NOTIFICATION_SPEC_def B1610_SETTLED_ENERGY_SPEC_def
  immutable_spec_def current_spec_def

lemma guard_eq_Inr: "(if b then Inl e else x) = Inr y \<longleftrightarrow> \<not> b \<and> x = Inr y"
  by simp

lemmas mapping_inversion = res_simps guard_eq_Inr common_observation_values_def carbon_attributes_def

lemma asset_reference_columns: "map_asset_reference r s = Inr row \<Longrightarrow> mapped_for ASSET_REFERENCE_SPEC s row"
  unfolding map_asset_reference_def Let_def
  by (clarsimp simp: mapping_inversion split del: if_split) (rule mapped_row, (assumption | rule refl), simp only: list.map fst_conv, (thin_tac "_")+, code_simp)

lemma segment_columns: "map_physical_notification_segment r s raw a = Inr row \<Longrightarrow> mapped_for PHYSICAL_NOTIFICATION_SPEC s row"
  unfolding map_physical_notification_segment_def Let_def
  by (clarsimp simp: mapping_inversion split del: if_split) (rule mapped_row, (assumption | rule refl), simp only: list.map fst_conv, code_simp)

lemma settled_columns: "map_b1610_settled_energy r s raw a = Inr row \<Longrightarrow> mapped_for B1610_SETTLED_ENERGY_SPEC s row"
  unfolding map_b1610_settled_energy_def Let_def
  by (clarsimp simp: mapping_inversion split del: if_split) (rule mapped_row, (assumption | rule refl), simp only: list.map fst_conv, code_simp)

lemma generation_columns: "map_generation_record r s raw = Inr row \<Longrightarrow> mapped_for GENERATION_SPEC s row"
  unfolding map_generation_record_def Let_def
  by (clarsimp simp: mapping_inversion split del: if_split) (rule mapped_row, (assumption | rule refl), simp only: list.map fst_conv, code_simp)

lemma demand_columns: "map_demand_record r s raw = Inr row \<Longrightarrow> mapped_for DEMAND_SPEC s row"
  unfolding map_demand_record_def Let_def
  by (clarsimp simp: mapping_inversion split del: if_split) (rule mapped_row, (assumption | rule refl), simp only: list.map fst_conv, code_simp)

lemma frequency_columns: "map_frequency_record r s raw = Inr row \<Longrightarrow> mapped_for FREQUENCY_SPEC s row"
  unfolding map_frequency_record_def Let_def
  by (clarsimp simp: mapping_inversion split del: if_split) (rule mapped_row, (assumption | rule refl), simp only: list.map fst_conv, code_simp)

lemma interconnector_columns: "map_interconnector_record r s raw = Inr row \<Longrightarrow> mapped_for INTERCONNECTOR_SPEC s row"
  unfolding map_interconnector_record_def Let_def
  by (clarsimp simp: mapping_inversion split del: if_split) (rule mapped_row, (assumption | rule refl), simp only: list.map fst_conv, code_simp)

lemma incident_columns: "map_distribution_incident_record r s raw = Inr row \<Longrightarrow> mapped_for DISTRIBUTION_INCIDENT_SPEC s row"
  unfolding map_distribution_incident_record_def Let_def
  by (clarsimp simp: mapping_inversion split del: if_split) (rule mapped_row, (assumption | rule refl), simp only: list.map fst_conv, code_simp)

lemma carbon_actual_columns: "map_carbon_actual_record r s raw = Inr row \<Longrightarrow> mapped_for CARBON_ACTUAL_SPEC s row"
  unfolding map_carbon_actual_record_def Let_def
  by (clarsimp simp: mapping_inversion split del: if_split) (rule mapped_row, (assumption | rule refl), simp only: list.map fst_conv, code_simp)

lemma carbon_forecast_columns: "map_carbon_forecast_record r s raw = Inr row \<Longrightarrow> mapped_for FORECAST_SPEC s row"
  unfolding map_carbon_forecast_record_def Let_def
  by (clarsimp simp: mapping_inversion split del: if_split) (rule mapped_row, (assumption | rule refl), simp only: list.map fst_conv, code_simp)

lemma demand_forecast_columns: "map_demand_forecast_record r s raw = Inr row \<Longrightarrow> mapped_for FORECAST_SPEC s row"
  unfolding map_demand_forecast_record_def Let_def
  by (clarsimp simp: mapping_inversion split del: if_split) (rule mapped_row, (assumption | rule refl), simp only: list.map fst_conv, code_simp)

lemma wind_forecast_columns: "map_wind_forecast_record r s raw = Inr row \<Longrightarrow> mapped_for FORECAST_SPEC s row"
  unfolding map_wind_forecast_record_def Let_def
  by (clarsimp simp: mapping_inversion split del: if_split) (rule mapped_row, (assumption | rule refl), simp only: list.map fst_conv, code_simp)

lemma remit_columns: "map_remit_notice_record r s raw = Inr row \<Longrightarrow> mapped_for REPORTED_NOTICE_SPEC s row"
  unfolding map_remit_notice_record_def Let_def
  by (clarsimp simp: mapping_inversion split del: if_split) (rule mapped_row, (assumption | rule refl), simp only: list.map fst_conv, code_simp)

lemma warning_columns: "map_system_warning_record r s raw = Inr row \<Longrightarrow> mapped_for REPORTED_NOTICE_SPEC s row"
  unfolding map_system_warning_record_def Let_def
  by (clarsimp simp: mapping_inversion split del: if_split) (rule mapped_row, (assumption | rule refl), simp only: list.map fst_conv, code_simp)

lemma repd_columns: "map_repd_site r s = Inr row \<Longrightarrow> mapped_for ASSET_REFERENCE_SPEC s row"
  unfolding map_repd_site_def Let_def
  by (clarsimp simp: mapping_inversion split del: if_split) (rule mapped_row, (assumption | rule refl), simp only: list.map fst_conv, (thin_tac "_")+, code_simp)

lemmas mapped_columns = asset_reference_columns segment_columns settled_columns generation_columns demand_columns
  frequency_columns interconnector_columns incident_columns carbon_actual_columns carbon_forecast_columns
  demand_forecast_columns wind_forecast_columns remit_columns warning_columns repd_columns

section \<open>Property\<close>

lemma clean_keys_needed: "\<not> keys_clean j \<Longrightarrow> contains_full_postcode j"
proof (induction j rule: keys_clean.induct)
  case (1 kvs)
  then show ?case by (fastforce simp: image_iff)
next
  case (2 vs)
  then show ?case by (auto simp: image_iff)
qed simp_all

text \<open>C39: no value of a sanitized payload holds a full postcode, so the gate before the database refuses
  it exactly when one of the keys does, which the sanitizer keeps; sanitizing once is enough.\<close>

theorem sanitized_payload_passes_gate:
  "(contains_full_postcode (sanitize_ukpn_payload j) \<longleftrightarrow> \<not> keys_clean (sanitize_ukpn_payload j))
    \<and> sanitize_ukpn_payload (sanitize_ukpn_payload j) = sanitize_ukpn_payload j"
  using sanitized_has_no_postcode [of "sanitize_ukpn_payload j"] clean_keys_needed [of "sanitize_ukpn_payload j"]
  by (auto simp: sanitize_again)

end
