(* ===== verification/Ingestion_Snapshots.thy ===== *)
theory Ingestion_Snapshots
  imports Ingestion_Records
begin

text \<open>
  The snapshots of the ingestion repository (\<open>app/persistence/ingestion.py\<close>): the tables that hold the
  latest membership of a complete publication, namely the reference assets with the BM-unit
  placeholders, the physical notifications of a declared scope, and the current distribution
  incidents.  A table is the list of its rows.
\<close>

section \<open>Rows under a key\<close>

text \<open>\<open>ON CONFLICT (key) DO UPDATE\<close> without a condition: the row of the key takes the new values, or
  the row is new.\<close>

definition put_row :: "('r \<Rightarrow> 'k) \<Rightarrow> ('r \<Rightarrow> 'r \<Rightarrow> 'r) \<Rightarrow> 'r list \<Rightarrow> 'r \<Rightarrow> 'r list" where
  "put_row key update table r =
     (if key r \<in> key ` set table then map (\<lambda>e. if key e = key r then update r e else e) table else table @ [r])"

definition put_rows :: "('r \<Rightarrow> 'k) \<Rightarrow> ('r \<Rightarrow> 'r \<Rightarrow> 'r) \<Rightarrow> 'r list \<Rightarrow> 'r list \<Rightarrow> 'r list" where
  "put_rows key update = foldl (put_row key update)"

locale keyed_rows =
  fixes key :: "'r \<Rightarrow> 'k" and update :: "'r \<Rightarrow> 'r \<Rightarrow> 'r"
  assumes update_keeps_key: "key e = key r \<Longrightarrow> key (update r e) = key e"
begin

lemma put_row_keys: "map key (put_row key update table r)
    = (if key r \<in> key ` set table then map key table else map key table @ [key r])"
  by (simp add: put_row_def comp_def update_keeps_key)

lemma put_row_distinct: "distinct (map key table) \<Longrightarrow> distinct (map key (put_row key update table r))"
  by (auto simp: put_row_keys)

lemma put_row_key_set: "key ` set (put_row key update table r) = insert (key r) (key ` set table)"
  using put_row_keys [of table r] by (metis (no_types, lifting) image_set insert_absorb list.set_map set_append
      sup_commute list.simps(15) insert_is_Un empty_set)

lemma put_row_other: "key e \<noteq> key r \<Longrightarrow> e \<in> set (put_row key update table r) \<longleftrightarrow> e \<in> set table"
  by (auto simp: put_row_def image_iff update_keeps_key)

lemma put_row_hit:
  assumes "distinct (map key table)"
  shows "e0 \<in> set table \<Longrightarrow> key e0 = key r \<Longrightarrow> update r e0 \<in> set (put_row key update table r)"
    and "key r \<notin> key ` set table \<Longrightarrow> r \<in> set (put_row key update table r)"
  by (auto simp: put_row_def image_iff)

lemma put_rows_distinct: "distinct (map key table) \<Longrightarrow> distinct (map key (put_rows key update table rs))"
  unfolding put_rows_def by (induction rs arbitrary: table) (simp_all add: put_row_distinct)

lemma put_rows_key_set: "key ` set (put_rows key update table rs) = key ` set table \<union> key ` set rs"
  unfolding put_rows_def by (induction rs arbitrary: table) (simp_all add: put_row_key_set)

lemma put_rows_other:
  "key e \<notin> key ` set rs \<Longrightarrow> e \<in> set (put_rows key update table rs) \<longleftrightarrow> e \<in> set table"
  unfolding put_rows_def by (induction rs arbitrary: table) (simp_all add: put_row_other)

lemma put_rows_hit:
  assumes "distinct (map key table)" and "distinct (map key rs)" and "r \<in> set rs"
  shows "e0 \<in> set table \<Longrightarrow> key e0 = key r \<Longrightarrow> update r e0 \<in> set (put_rows key update table rs)"
    and "key r \<notin> key ` set table \<Longrightarrow> r \<in> set (put_rows key update table rs)"
proof -
  have "(e0 \<in> set table \<and> key e0 = key r \<longrightarrow> update r e0 \<in> set (put_rows key update table rs))
      \<and> (key r \<notin> key ` set table \<longrightarrow> r \<in> set (put_rows key update table rs))"
    using assms
  proof (induction rs arbitrary: table)
    case (Cons x rs)
    let ?t = "put_row key update table x"
    have t: "put_rows key update table (x # rs) = put_rows key update ?t rs" by (simp add: put_rows_def)
    show ?case
    proof (cases "r = x")
      case True
      then have out: "key r \<notin> key ` set rs" using Cons.prems(2) by simp
      have "update r e0 \<in> set (put_rows key update ?t rs)" if "e0 \<in> set table" "key e0 = key r"
        using put_row_hit(1) [OF Cons.prems(1) that(1)] that(2) out True
        by (subst put_rows_other) (simp_all add: update_keeps_key)
      moreover have "r \<in> set (put_rows key update ?t rs)" if "key r \<notin> key ` set table"
        using put_row_hit(2) [OF Cons.prems(1)] that out True by (subst put_rows_other) simp_all
      ultimately show ?thesis by (simp add: t)
    next
      case False
      with Cons.prems have r: "r \<in> set rs" "key x \<noteq> key r" by auto
      from Cons.IH [OF put_row_distinct [OF Cons.prems(1)] _ r(1)] Cons.prems(2)
      have ih: "(e0 \<in> set ?t \<and> key e0 = key r \<longrightarrow> update r e0 \<in> set (put_rows key update ?t rs))
        \<and> (key r \<notin> key ` set ?t \<longrightarrow> r \<in> set (put_rows key update ?t rs))" by simp
      have "e0 \<in> set ?t" if "e0 \<in> set table" "key e0 = key r"
        using that r(2) put_row_other [of e0 x table] by auto
      moreover have "key r \<notin> key ` set ?t" if "key r \<notin> key ` set table"
        using that r(2) by (simp add: put_row_key_set)
      ultimately show ?thesis using ih by (auto simp: t)
    qed
  qed simp
  then show "e0 \<in> set table \<Longrightarrow> key e0 = key r \<Longrightarrow> update r e0 \<in> set (put_rows key update table rs)"
    "key r \<notin> key ` set table \<Longrightarrow> r \<in> set (put_rows key update table rs)" by blast+
qed

lemma in_put_rows:
  assumes "distinct (map key table)" and "distinct (map key rs)" and "e \<in> set (put_rows key update table rs)"
  obtains "e \<in> set table" "key e \<notin> key ` set rs"
  | r e0 where "r \<in> set rs" "e0 \<in> set table" "key e0 = key r" "e = update r e0"
  | "e \<in> set rs" "key e \<notin> key ` set table"
proof (cases "key e \<in> key ` set rs")
  case False
  then show ?thesis using assms(3) put_rows_other [OF False, of table] that(1) by blast
next
  case True
  then obtain r where r: "r \<in> set rs" "key r = key e" by force
  have same: "x = e" if "x \<in> set (put_rows key update table rs)" "key x = key e" for x
    using put_rows_distinct [OF assms(1), of rs] that assms(3) by (auto simp: distinct_map dest: inj_onD)
  show ?thesis
  proof (cases "key r \<in> key ` set table")
    case True
    then obtain e0 where e0: "e0 \<in> set table" "key e0 = key r" by force
    then have "update r e0 = e" using put_rows_hit(1) [OF assms(1,2) r(1) e0] r(2)
      by (intro same) (simp_all add: update_keeps_key)
    with that(2) [OF r(1) e0] show ?thesis by simp
  next
    case False
    then have "r = e" using put_rows_hit(2) [OF assms(1,2) r(1) False] r(2) by (intro same) simp_all
    with that(3) r(1) False show ?thesis by simp
  qed
qed

end

definition DISTRIBUTION_CURRENT_NAMESPACE :: str where
  "DISTRIBUTION_CURRENT_NAMESPACE = ''d9b24b44-6241-5089-b0f2-91f64325b921''"
definition BM_UNIT_ASSET_NAMESPACE :: str where "BM_UNIT_ASSET_NAMESPACE = ''5834312d-f415-51a7-acb7-cc5dff551b73''"
definition REPD_ASSET_NAMESPACE :: str where "REPD_ASSET_NAMESPACE = ''b946b36d-248e-5e25-9213-49cd56bcd1aa''"


section \<open>Reference assets\<close>

definition asset_key :: "row \<Rightarrow> cell list" where
  "asset_key = key_of [''source_id'', ''external_id'']"

fun attributes_of :: "row \<Rightarrow> (str \<times> cell) list" where
  "attributes_of r = (case row_value r ''attributes'' of CMap kvs \<Rightarrow> kvs | _ \<Rightarrow> [])"

text \<open>Python's equality of two cells: a mapping is compared without regard to order.\<close>

definition same_cell :: "cell \<Rightarrow> cell \<Rightarrow> bool" where
  "same_cell a b \<longleftrightarrow> canonical_fact a = canonical_fact b"

definition reference_variant :: "(str \<times> cell) list \<Rightarrow> cell" where
  "reference_variant attributes =
     CMap (filter (\<lambda>(k, v). k \<notin> {''classification'', ''locationStatus'', ''provenance'', ''referenceVariants''})
             attributes)"

definition merge_step :: "(cell list, row) dict \<times> int \<Rightarrow> row \<Rightarrow> (cell list, row) dict \<times> int" where
  "merge_step state candidate =
     (case state of (by_key, duplicates) \<Rightarrow>
        let key = asset_key candidate in
        case lookup by_key key of
          None \<Rightarrow> (store by_key key candidate, duplicates)
        | Some existing \<Rightarrow>
            let kept = (case lookup (attributes_of existing) ''referenceVariants'' of
                          Some (CList vs) \<Rightarrow> vs | _ \<Rightarrow> []);
                variants = (if kept = [] then [reference_variant (attributes_of existing)] else kept);
                next_variant = reference_variant (attributes_of candidate);
                variants' = (if \<exists>v \<in> set variants. same_cell v next_variant then variants else variants @ [next_variant]);
                merged = store candidate ''attributes''
                           (CMap (store (attributes_of candidate) ''referenceVariants'' (CList variants')))
            in (store by_key key merged, duplicates + 1))"

definition merge_asset_reference_rows :: "row list \<Rightarrow> row list \<times> int" where
  "merge_asset_reference_rows rows =
     (case foldl merge_step ([], 0) rows of (by_key, duplicates) \<Rightarrow> (map snd by_key, duplicates))"

definition cell_text :: "cell \<Rightarrow> str" where
  "cell_text c = (case c of CStr s \<Rightarrow> s | _ \<Rightarrow> [])"

definition with_id :: "str \<Rightarrow> str \<Rightarrow> row \<Rightarrow> row" where
  "with_id namespace source_id r =
     store r ''id'' (CUuid (uuid5 namespace (source_id @ ''|'' @ cell_text (row_value r ''external_id''))))"

text \<open>\<open>UPDATE assets SET active = false WHERE ... RETURNING id\<close>.\<close>

definition retire :: "(row \<Rightarrow> bool) \<Rightarrow> row list \<Rightarrow> row list \<times> int" where
  "retire selected table =
     (map (\<lambda>r. if selected r then store r ''active'' (CBool False) else r) table,
      int (length (filter selected table)))"

definition bm_unit_absent :: "str \<Rightarrow> cell list \<Rightarrow> row \<Rightarrow> bool" where
  "bm_unit_absent source_id external_ids r \<longleftrightarrow>
     row_value r ''source_id'' = CStr source_id \<and> row_value r ''asset_type'' = CStr ''bm_unit''
     \<and> row_value r ''active'' = CBool True
     \<and> lookup (attributes_of r) ''classification'' = Some (CStr ''reference'')
     \<and> row_value r ''external_id'' \<notin> set external_ids"

definition no_counts :: write_counts where
  "no_counts = \<lparr>wc_inserted = 0, wc_updated = 0, wc_unchanged = 0\<rparr>"

definition persist_asset_reference_snapshot ::
  "row list \<Rightarrow> str \<Rightarrow> asset_reference list \<Rightarrow> (row list \<times> write_counts) result" where
  "persist_asset_reference_snapshot assets source_id records =
     (if source_id \<noteq> BM_UNIT_REFERENCE_SOURCE_ID
      then Inl (ValueError ''BM-unit references must use their canonical source ID'')
      else rbind (traverse (\<lambda>r. map_asset_reference r source_id) records) (\<lambda>mapped.
        let (merged, duplicate_count) = merge_asset_reference_rows mapped;
            rows = map (with_id BM_UNIT_ASSET_NAMESPACE source_id) merged
        in rbind (upsert_batches ASSET_REFERENCE_SPEC assets (no_counts\<lparr>wc_unchanged := duplicate_count\<rparr>)
                    (normalized_write_batches rows)) (\<lambda>(assets', counts).
          let external_ids = map (\<lambda>r. row_value r ''external_id'') rows
          in if external_ids = [] then Inr (assets', counts)
             else
               let (assets'', deactivated) = retire (bm_unit_absent source_id external_ids) assets'
               in Inr (assets'', counts\<lparr>wc_updated := wc_updated counts + deactivated\<rparr>))))"

definition repd_absent :: "str \<Rightarrow> str list \<Rightarrow> row \<Rightarrow> bool" where
  "repd_absent source_id external_ids r \<longleftrightarrow>
     row_value r ''source_id'' = CStr source_id \<and> row_value r ''asset_type'' = CStr REPD_ASSET_TYPE
     \<and> row_value r ''active'' = CBool True \<and> row_value r ''external_id'' \<notin> CStr ` set external_ids"

definition persist_repd_snapshot :: "row list \<Rightarrow> str \<Rightarrow> repd_site list \<Rightarrow> (row list \<times> write_counts) result" where
  "persist_repd_snapshot assets source_id records =
     (if source_id \<noteq> REPD_SOURCE_ID then Inl (ValueError ''REPD sites must use their canonical source ID'')
      else if records = [] then Inl (ValueError ''refusing to persist an empty REPD complete snapshot'')
      else rbind (traverse (\<lambda>r. map_repd_site r source_id) records) (\<lambda>mapped.
        rbind (repd_snapshot_membership_of records source_id) (\<lambda>membership.
        let external_ids = rsm_active_external_ids membership
        in if length external_ids \<noteq> length mapped
           then Inl (ValueError ''REPD complete snapshot contains duplicate external IDs'')
           else
             let rows = map (with_id REPD_ASSET_NAMESPACE source_id) mapped
             in rbind (upsert_batches ASSET_REFERENCE_SPEC assets no_counts (normalized_write_batches rows))
                  (\<lambda>(assets', counts).
               let (assets'', deactivated) = retire (repd_absent source_id external_ids) assets'
               in Inr (assets'', counts\<lparr>wc_updated := wc_updated counts + deactivated\<rparr>)))))"

text \<open>Placeholders for the BM units that dependent records name; the unit's first mention counts.\<close>

definition placeholder_row :: "str \<Rightarrow> str option \<Rightarrow> str option \<Rightarrow> row" where
  "placeholder_row external_id national_grid_bm_unit source_asset_id =
     [(''id'', CUuid (uuid5 BM_UNIT_ASSET_NAMESPACE (BM_UNIT_REFERENCE_SOURCE_ID @ ''|'' @ external_id))),
      (''source_id'', CStr BM_UNIT_REFERENCE_SOURCE_ID), (''external_id'', CStr external_id),
      (''asset_type'', CStr ''bm_unit''),
      (''display_name'', CStr (take 160 (or_else source_asset_id (or_else national_grid_bm_unit external_id)))),
      (''fuel_type'', CNone), (''region_code'', CNone), (''counterparty'', CNone), (''capacity_mw'', CNone),
      (''latitude'', CNone), (''longitude'', CNone), (''map_x'', CNone), (''map_y'', CNone),
      (''active'', CBool True),
      (''attributes'', CMap [(''classification'', CStr ''reference_placeholder''),
         (''nationalGridBmUnit'', opt_str national_grid_bm_unit), (''elexonBmUnit'', opt_str source_asset_id),
         (''locationStatus'', CStr ''not_provided_by_elexon'')])]"

definition upsert_placeholders :: "row list \<Rightarrow> row list \<Rightarrow> row list" where
  "upsert_placeholders = put_rows asset_key (\<lambda>r a. store a ''active'' (CBool True))"

definition resolve_assets :: "row list \<Rightarrow> str list \<Rightarrow> (str, uuid) dict" where
  "resolve_assets assets identifiers =
     somes (map (\<lambda>a. case (row_value a ''external_id'', row_value a ''id'') of
         (CStr external_id, CUuid i) \<Rightarrow>
           if row_value a ''source_id'' = CStr BM_UNIT_REFERENCE_SOURCE_ID \<and> external_id \<in> set identifiers
           then Some (external_id, i) else None
       | _ \<Rightarrow> None) assets)"

section \<open>The declared scope of a physical notification snapshot\<close>

text \<open>\<open>date.fromisoformat\<close> on the calendar forms YYYY-MM-DD and YYYYMMDD; a week date, which no adapter
  writes, is refused here.\<close>

definition digits_value :: "str \<Rightarrow> int option" where
  "digits_value s = (if s \<noteq> [] \<and> list_all is_digit s then Some (foldl (\<lambda>n c. 10 * n + (of_char c - 48)) 0 s) else None)"

definition days_of_civil :: "int \<Rightarrow> int \<Rightarrow> int \<Rightarrow> date" where
  "days_of_civil y m d =
     (let y' = (if m \<le> 2 then y - 1 else y);
          era = y' div 400;
          yoe = y' mod 400;
          doy = (153 * (if 2 < m then m - 3 else m + 9) + 2) div 5 + d - 1;
          doe = yoe * 365 + yoe div 4 - yoe div 100 + doy
      in era * 146097 + doe - 719468)"

definition date_fromisoformat :: "str \<Rightarrow> date option" where
  "date_fromisoformat s =
     (let s' = (if length s = 10 \<and> s ! 4 = CHR ''-'' \<and> s ! 7 = CHR ''-''
                then take 4 s @ take 2 (drop 5 s) @ drop 8 s else s)
      in if length s' \<noteq> 8 then None
         else case (digits_value (take 4 s'), digits_value (take 2 (drop 4 s')), digits_value (drop 6 s')) of
           (Some y, Some m, Some d) \<Rightarrow>
             let n = days_of_civil y m d
             in if 1 \<le> y \<and> 1 \<le> m \<and> m \<le> 12 \<and> civil n = (y, m, d) then Some n else None
         | _ \<Rightarrow> None)"

record pn_scope =
  pn_date :: date
  pn_period :: int
  pn_all_units :: bool
  pn_bm_units :: "str list"

definition bm_unit_names :: "json list \<Rightarrow> str list result" where
  "bm_unit_names units =
     traverse (\<lambda>u. case u of
         JStr s \<Rightarrow> if strip s = [] then Inl (ValueError ''PN snapshot BM-unit scope is invalid'') else Inr s
       | _ \<Rightarrow> Inl (ValueError ''PN snapshot BM-unit scope is invalid'')) units"

definition pn_scope_of :: "(str, json) dict \<Rightarrow> pn_scope result" where
  "pn_scope_of metadata =
     (case lookup metadata ''settlementDate'' of
        Some (JStr raw_date) \<Rightarrow>
          (case date_fromisoformat raw_date of
             None \<Rightarrow> Inl (ValueError ''PN snapshot settlementDate is invalid'')
           | Some settlement_date \<Rightarrow>
               (case lookup metadata ''settlementPeriod'' of
                  Some (JInt raw_period) \<Rightarrow>
                    if \<not> (1 \<le> raw_period \<and> raw_period \<le> 50)
                    then Inl (ValueError ''PN snapshot settlementPeriod is invalid'')
                    else
                      (case (lookup metadata ''allUnits'', lookup metadata ''bmUnits'') of
                         (Some (JBool all_units), Some (JList units)) \<Rightarrow>
                           rbind (bm_unit_names units) (\<lambda>bm_units.
                             if all_units \<and> bm_units \<noteq> []
                             then Inl (ValueError ''all-unit PN scope cannot also list BM units'')
                             else if \<not> all_units \<and> bm_units = []
                             then Inl (ValueError ''bounded PN scope must list at least one BM unit'')
                             else Inr \<lparr>pn_date = settlement_date, pn_period = raw_period,
                                       pn_all_units = all_units, pn_bm_units = bm_units\<rparr>)
                       | _ \<Rightarrow> Inl (ValueError ''PN snapshot unit scope is invalid''))
                | _ \<Rightarrow> Inl (ValueError ''PN snapshot settlementPeriod is invalid'')))
      | _ \<Rightarrow> Inl (ValueError ''PN snapshot metadata is missing settlementDate''))"

definition pn_in_period :: "pn_scope \<Rightarrow> row \<Rightarrow> bool" where
  "pn_in_period scope r \<longleftrightarrow> row_value r ''settlement_date'' = CDate (pn_date scope)
     \<and> row_value r ''settlement_period'' = CInt (pn_period scope)"

definition pn_in_units :: "pn_scope \<Rightarrow> row \<Rightarrow> bool" where
  "pn_in_units scope r \<longleftrightarrow> pn_all_units scope \<or> row_value r ''elexon_bm_unit'' \<in> CStr ` set (pn_bm_units scope)"

definition segment_key :: "row \<Rightarrow> cell list" where
  "segment_key = key_of [''national_grid_bm_unit'', ''segment_start'', ''segment_end'']"

text \<open>The rows are checked in their order, the period of a row before its unit.\<close>

fun rows_in_scope :: "pn_scope \<Rightarrow> row list \<Rightarrow> unit result" where
  "rows_in_scope scope [] = Inr ()"
| "rows_in_scope scope (r # rs) =
     (if \<not> pn_in_period scope r then Inl (ValueError ''PN row escaped declared settlement scope'')
      else if \<not> pn_in_units scope r then Inl (ValueError ''PN row escaped declared BM-unit scope'')
      else rows_in_scope scope rs)"

definition prune_physical_notification_scope ::
  "row list \<Rightarrow> str \<Rightarrow> (str, json) dict \<Rightarrow> row list \<Rightarrow> row list result" where
  "prune_physical_notification_scope table source_id metadata rows =
     rbind (pn_scope_of metadata) (\<lambda>scope.
     rbind (rows_in_scope scope rows) (\<lambda>_.
       let of_source = (\<lambda>r. row_value r ''source_id'' = CStr source_id);
           stale = (\<lambda>r. of_source r \<and> \<not> pn_in_period scope r \<and> pn_in_units scope r);
           absent = (\<lambda>r. of_source r \<and> pn_in_period scope r \<and> pn_in_units scope r
                       \<and> segment_key r \<notin> segment_key ` set rows)
       in Inr (filter (\<lambda>r. \<not> absent r) (filter (\<lambda>r. \<not> stale r) table))))"

section \<open>Current incidents\<close>

definition incident_key :: "row \<Rightarrow> cell list" where
  "incident_key = key_of [''source_id'', ''incident_reference'']"

definition incident_row :: "str \<Rightarrow> instant \<Rightarrow> distribution_incident_record \<Rightarrow> row" where
  "incident_row source_id seen_at r =
     [(''id'', CUuid (uuid5 DISTRIBUTION_CURRENT_NAMESPACE (source_id @ ''|'' @ dir_incident_reference r))),
      (''source_id'', CStr source_id), (''incident_reference'', CStr (dir_incident_reference r)),
      (''status'', CStr (dir_status r)), (''present'', CBool True), (''first_seen_at'', CTime seen_at),
      (''last_seen_at'', CTime seen_at), (''updated_at'', CTime seen_at)]"

definition see_incident :: "row \<Rightarrow> row \<Rightarrow> row" where
  "see_incident excluded existing =
     store (store (store (store existing ''status'' (row_value excluded ''status'')) ''present'' (CBool True))
       ''last_seen_at'' (row_value excluded ''last_seen_at'')) ''updated_at'' (row_value excluded ''updated_at'')"

text \<open>The constraints are checked on the row that is offered and on the row that is stored.\<close>

fun upsert_incidents :: "row list \<Rightarrow> row list \<Rightarrow> row list result" where
  "upsert_incidents table [] = Inr table"
| "upsert_incidents table (r # rs) =
     (let table' = put_row incident_key see_incident table r
      in if current_incident_row_ok r
            \<and> list_all (\<lambda>e. incident_key e = incident_key r \<longrightarrow> current_incident_row_ok e) table'
         then upsert_incidents table' rs
         else Inl (IntegrityError ''check constraint''))"

definition refresh_distribution_incident_current ::
  "row list \<Rightarrow> str \<Rightarrow> distribution_incident_record list \<Rightarrow> instant \<Rightarrow> row list result" where
  "refresh_distribution_incident_current table source_id records seen_at =
     (let gone = map (\<lambda>r. if row_value r ''source_id'' = CStr source_id \<and> row_value r ''present'' = CBool True
                          then store (store r ''present'' (CBool False)) ''updated_at'' (CTime seen_at) else r) table;
          by_reference = foldl (\<lambda>d r. store d (dir_incident_reference r) r) [] records
      in upsert_incidents gone (map (\<lambda>(reference, r). incident_row source_id seen_at r) by_reference))"

section \<open>Providers of the keyed tables\<close>

lemma key_of_stores: "c \<notin> set columns \<Longrightarrow> key_of columns (store r c v) = key_of columns r"
  by (rule key_of_store)

interpretation incidents: keyed_rows incident_key see_incident
  by unfold_locales (simp add: incident_key_def see_incident_def key_of_store)

interpretation placeholders: keyed_rows asset_key "\<lambda>r a. store a ''active'' (CBool True)"
  by unfold_locales (simp add: asset_key_def key_of_store)

interpretation sources: keyed_rows "\<lambda>r. row_value r ''id''" "\<lambda>new old. new"
  by unfold_locales simp

section \<open>Current incidents: the snapshot\<close>

lemma upsert_incidents_rows:
  "upsert_incidents table rs = Inr table' \<Longrightarrow> table' = put_rows incident_key see_incident table rs
     \<and> list_all (current_incident_row_ok) rs"
  by (induction rs arbitrary: table) (auto simp: put_rows_def Let_def split: if_splits)

definition incident_table :: "row list \<Rightarrow> bool" where
  "incident_table table \<longleftrightarrow> distinct (map incident_key table)
     \<and> (\<forall>r \<in> set table. current_incident_row_ok r
          \<and> (\<exists>b. row_value r ''present'' = CBool b) \<and> (\<exists>t. row_value r ''first_seen_at'' = CTime t))"

text \<open>The references of a source that are present, and when an incident was first seen.\<close>

definition present_references :: "row list \<Rightarrow> str \<Rightarrow> cell set" where
  "present_references table source_id = (\<lambda>r. row_value r ''incident_reference'') `
     {r \<in> set table. row_value r ''source_id'' = CStr source_id \<and> row_value r ''present'' = CBool True}"

definition first_seen :: "row list \<Rightarrow> str \<Rightarrow> str \<Rightarrow> cell option" where
  "first_seen table source_id reference =
     map_option (\<lambda>r. row_value r ''first_seen_at'') (find (\<lambda>r. incident_key r = [CStr source_id, CStr reference]) table)"

definition mark_gone :: "str \<Rightarrow> instant \<Rightarrow> row \<Rightarrow> row" where
  "mark_gone source_id seen_at r =
     (if row_value r ''source_id'' = CStr source_id \<and> row_value r ''present'' = CBool True
      then store (store r ''present'' (CBool False)) ''updated_at'' (CTime seen_at) else r)"

lemma mark_gone_values:
  "c \<noteq> ''present'' \<Longrightarrow> c \<noteq> ''updated_at'' \<Longrightarrow> row_value (mark_gone s t r) c = row_value r c"
  by (simp add: mark_gone_def row_value_store)

lemma mark_gone_key [simp]: "incident_key (mark_gone s t r) = incident_key r"
  by (simp add: incident_key_def key_of_def mark_gone_values)

lemma mark_gone_present:
  "row_value r ''source_id'' = CStr s \<Longrightarrow> row_value (mark_gone s t r) ''present'' \<noteq> CBool True"
  by (auto simp: mark_gone_def row_value_store)

lemma see_incident_values:
  "row_value (see_incident x e) c =
     (if c = ''present'' then CBool True
      else if c \<in> {''status'', ''last_seen_at'', ''updated_at''} then row_value x c else row_value e c)"
  by (auto simp: see_incident_def row_value_store)

lemma incident_row_values:
  "row_value (incident_row s t r) ''source_id'' = CStr s"
  "row_value (incident_row s t r) ''incident_reference'' = CStr (dir_incident_reference r)"
  "row_value (incident_row s t r) ''present'' = CBool True"
  "row_value (incident_row s t r) ''status'' = CStr (dir_status r)"
  "row_value (incident_row s t r) ''first_seen_at'' = CTime t"
  "row_value (incident_row s t r) ''last_seen_at'' = CTime t"
  by (simp_all add: incident_row_def row_value_def)

lemma incident_row_key: "incident_key (incident_row s t r) = [CStr s, CStr (dir_incident_reference r)]"
  by (simp add: incident_key_def key_of_def incident_row_values)

definition latest_records :: "distribution_incident_record list \<Rightarrow> (str, distribution_incident_record) dict" where
  "latest_records records = foldl (\<lambda>d r. store d (dir_incident_reference r) r) [] records"

lemma latest_records_keys:
  "fst ` set (latest_records records) = dir_incident_reference ` set records"
  "distinct (map fst (latest_records records))"
  "(k, r) \<in> set (latest_records records) \<Longrightarrow> dir_incident_reference r = k \<and> r \<in> set records"
proof -
  have "fst ` set (latest_records rs) = dir_incident_reference ` set rs \<and> distinct (map fst (latest_records rs))
      \<and> (\<forall>k r. (k, r) \<in> set (latest_records rs) \<longrightarrow> dir_incident_reference r = k \<and> r \<in> set rs)" for rs
  proof (induction rs rule: rev_induct)
    case (snoc x rs)
    have s: "latest_records (rs @ [x]) = store (latest_records rs) (dir_incident_reference x) x"
      by (simp add: latest_records_def)
    have "dir_incident_reference r = k \<and> r \<in> set (rs @ [x])"
      if "(k, r) \<in> set (store (latest_records rs) (dir_incident_reference x) x)" for k r
    proof -
      have "distinct (map fst (store (latest_records rs) (dir_incident_reference x) x))"
        using snoc by (simp add: distinct_update)
      from map_of_is_SomeI [OF this that]
      have "lookup (store (latest_records rs) (dir_incident_reference x) x) k = Some r" .
      then have "(k = dir_incident_reference x \<and> r = x) \<or> lookup (latest_records rs) k = Some r"
        by (auto split: if_splits)
      with snoc show ?thesis using map_of_SomeD by fastforce
    qed
    with snoc show ?case by (simp add: s keys_store distinct_update)
  qed (simp add: latest_records_def)
  then show "fst ` set (latest_records records) = dir_incident_reference ` set records"
    "distinct (map fst (latest_records records))"
    "(k, r) \<in> set (latest_records records) \<Longrightarrow> dir_incident_reference r = k \<and> r \<in> set records" by blast+
qed

text \<open>The rows of the snapshot, and the table they are put into.\<close>

lemma refresh_rows:
  "refresh_distribution_incident_current table s records t =
     upsert_incidents (map (mark_gone s t) table) (map (\<lambda>(k, r). incident_row s t r) (latest_records records))"
  by (simp add: refresh_distribution_incident_current_def mark_gone_def [abs_def] latest_records_def)

lemma snapshot_keys:
  "map incident_key (map (\<lambda>(k, r). incident_row s t r) (latest_records records))
     = map (\<lambda>k. [CStr s, CStr k]) (map fst (latest_records records))"
  using latest_records_keys(3) [of _ _ records] by (auto simp: incident_row_key)

lemma snapshot_keys_distinct:
  "distinct (map incident_key (map (\<lambda>(k, r). incident_row s t r) (latest_records records)))"
  unfolding snapshot_keys using latest_records_keys(2) [of records]
  by (subst distinct_map) (auto simp: inj_on_def)


lemma incident_key_fields:
  "incident_key e = [CStr s, CStr k] \<longleftrightarrow>
     row_value e ''source_id'' = CStr s \<and> row_value e ''incident_reference'' = CStr k"
  by (simp add: incident_key_def key_of_def)

lemma upsert_incidents_checked:
  "upsert_incidents table rs = Inr table' \<Longrightarrow> \<forall>e \<in> set table. current_incident_row_ok e \<Longrightarrow>
     \<forall>e \<in> set table'. current_incident_row_ok e"
proof (induction rs arbitrary: table)
  case (Cons r rs)
  let ?t = "put_row incident_key see_incident table r"
  from Cons.prems(1) have ok: "list_all (\<lambda>e. incident_key e = incident_key r \<longrightarrow> current_incident_row_ok e) ?t"
    and rest: "upsert_incidents ?t rs = Inr table'" by (auto simp: Let_def split: if_splits)
  have "current_incident_row_ok e" if "e \<in> set ?t" for e
    using that ok Cons.prems(2) incidents.put_row_other [of e r table]
    by (cases "incident_key e = incident_key r") (auto simp: list_all_iff)
  with Cons.IH [OF rest] show ?case by blast
qed simp

lemma mark_gone_ok: "current_incident_row_ok r \<Longrightarrow> current_incident_row_ok (mark_gone s t r)"
  by (simp add: current_incident_row_ok_def mark_gone_values)

text \<open>Where a row of the refreshed table comes from.\<close>

lemma refreshed_row:
  assumes "distinct (map incident_key table)" and "refresh_distribution_incident_current table s records t = Inr table'"
    and "e \<in> set table'"
  obtains e0 where "e0 \<in> set table" "e = mark_gone s t e0" "incident_key e \<notin> (\<lambda>r. [CStr s, CStr (dir_incident_reference r)]) ` set records"
  | r e0 where "r \<in> set records" "e0 \<in> set table" "incident_key e0 = [CStr s, CStr (dir_incident_reference r)]"
      "e = see_incident (incident_row s t r) (mark_gone s t e0)"
  | r where "r \<in> set records" "e = incident_row s t r"
proof -
  let ?g = "map (mark_gone s t) table" and ?rs = "map (\<lambda>(k, r). incident_row s t r) (latest_records records)"
  have g: "distinct (map incident_key ?g)" using assms(1) by (simp add: comp_def)
  from upsert_incidents_rows [OF assms(2) [unfolded refresh_rows]]
  have "e \<in> set (put_rows incident_key see_incident ?g ?rs)" using assms(3) by simp
  from this show ?thesis
  proof (cases rule: incidents.in_put_rows [OF g snapshot_keys_distinct, consumes 1])
    case 1
    have "incident_key ` set ?rs = (\<lambda>k. [CStr s, CStr k]) ` dir_incident_reference ` set records"
      unfolding latest_records_keys(1) [symmetric]
      using arg_cong [OF snapshot_keys, of set] by (simp add: image_image)
    with 1 that(1) show ?thesis by (auto simp: image_image)
  next
    case (2 r e0)
    then obtain k q where "(k, q) \<in> set (latest_records records)" "r = incident_row s t q" by auto
    with latest_records_keys(3) [of k q records] 2 that(2) show ?thesis by (auto simp: incident_row_key)
  next
    case 3
    then obtain k q where "(k, q) \<in> set (latest_records records)" "e = incident_row s t q" by auto
    with latest_records_keys(3) [of k q records] that(3) show ?thesis by blast
  qed
qed

lemma incident_table_kept:
  assumes "incident_table table" and "refresh_distribution_incident_current table s records t = Inr table'"
  shows "incident_table table'"
proof -
  let ?g = "map (mark_gone s t) table"
  have d: "distinct (map incident_key table)" using assms(1) by (simp add: incident_table_def)
  then have "distinct (map incident_key ?g)" by (simp add: comp_def)
  then have "distinct (map incident_key table')"
    using incidents.put_rows_distinct upsert_incidents_rows [OF assms(2) [unfolded refresh_rows]] by simp
  moreover have "\<forall>e \<in> set table'. current_incident_row_ok e"
    using upsert_incidents_checked [OF assms(2) [unfolded refresh_rows]] assms(1)
    by (auto simp: incident_table_def mark_gone_ok)
  moreover have "(\<exists>b. row_value e ''present'' = CBool b) \<and> (\<exists>t. row_value e ''first_seen_at'' = CTime t)"
    if "e \<in> set table'" for e
    using refreshed_row [OF d assms(2) that]
  proof cases
    case (1 e0)
    with assms(1) show ?thesis
      by (auto simp: incident_table_def mark_gone_def row_value_store)
  next
    case (2 r e0)
    with assms(1) show ?thesis by (auto simp: incident_table_def see_incident_values mark_gone_values)
  qed (auto simp: incident_row_values)
  ultimately show ?thesis by (simp add: incident_table_def)
qed

lemma snapshot_row:
  assumes "distinct (map incident_key table)" and "refresh_distribution_incident_current table s records t = Inr table'"
    and "r \<in> set records"
  shows "\<exists>e \<in> set table'. incident_key e = [CStr s, CStr (dir_incident_reference r)]
    \<and> row_value e ''present'' = CBool True \<and> row_value e ''last_seen_at'' = CTime t"
proof -
  let ?g = "map (mark_gone s t) table" and ?rs = "map (\<lambda>(k, r). incident_row s t r) (latest_records records)"
  have g: "distinct (map incident_key ?g)" using assms(1) by (simp add: comp_def)
  have t': "table' = put_rows incident_key see_incident ?g ?rs"
    using upsert_incidents_rows [OF assms(2) [unfolded refresh_rows]] by simp
  from assms(3) latest_records_keys(1) [of records] obtain q where
    "(dir_incident_reference r, q) \<in> set (latest_records records)" by force
  with latest_records_keys(3) [OF this] obtain x where x: "x \<in> set ?rs" "x = incident_row s t q"
    "dir_incident_reference q = dir_incident_reference r" by force
  note hit = incidents.put_rows_hit [OF g snapshot_keys_distinct x(1)]
  show ?thesis
  proof (cases "incident_key x \<in> incident_key ` set ?g")
    case True
    then obtain e0 where e0: "e0 \<in> set ?g" "incident_key e0 = incident_key x" by force
    from hit(1) [OF e0] e0(2) x(2,3) show ?thesis
      unfolding t' by (intro bexI) (auto simp: incidents.update_keeps_key incident_row_key see_incident_values incident_row_values)
  next
    case False
    from hit(2) [OF this] x(2,3) show ?thesis
      unfolding t' by (intro bexI) (auto simp: incident_row_key incident_row_values)
  qed
qed

lemma incidents_present:
  assumes "distinct (map incident_key table)" and "refresh_distribution_incident_current table s records t = Inr table'"
  shows "present_references table' s = CStr ` dir_incident_reference ` set records"
proof -
  have "row_value e ''incident_reference'' \<in> CStr ` dir_incident_reference ` set records"
    if "e \<in> set table'" "row_value e ''source_id'' = CStr s" "row_value e ''present'' = CBool True" for e
    using refreshed_row [OF assms that(1)]
  proof cases
    case (1 e0)
    with that(2,3) mark_gone_present [of e0 s t] show ?thesis by (simp add: mark_gone_values)
  next
    case (2 r e0)
    then show ?thesis by (simp add: see_incident_values mark_gone_values incident_key_fields)
  qed (simp add: incident_row_values)
  moreover have "CStr (dir_incident_reference r) \<in> present_references table' s" if "r \<in> set records" for r
    using snapshot_row [OF assms that] by (auto simp: present_references_def incident_key_fields intro!: image_eqI)
  ultimately show ?thesis by (auto simp: present_references_def)
qed

lemma incidents_of_others:
  assumes "distinct (map incident_key table)" and "refresh_distribution_incident_current table s records t = Inr table'"
    and "row_value e ''source_id'' \<noteq> CStr s"
  shows "e \<in> set table' \<longleftrightarrow> e \<in> set table"
proof
  assume "e \<in> set table'"
  from refreshed_row [OF assms(1,2) this] show "e \<in> set table"
  proof cases
    case (1 e0)
    with assms(3) show ?thesis by (auto simp: mark_gone_def row_value_store split: if_splits)
  next
    case (2 r e0)
    with assms(3) show ?thesis by (simp add: see_incident_values mark_gone_values incident_key_fields)
  qed (use assms(3) in \<open>simp add: incident_row_values\<close>)
next
  let ?g = "map (mark_gone s t) table" and ?rs = "map (\<lambda>(k, r). incident_row s t r) (latest_records records)"
  assume "e \<in> set table"
  moreover have "mark_gone s t e = e" using assms(3) by (simp add: mark_gone_def)
  ultimately have e: "e \<in> set ?g" by force
  have "incident_key e \<noteq> [CStr s, x]" for x using assms(3) by (simp add: incident_key_def key_of_def)
  then have "incident_key e \<notin> incident_key ` set ?rs"
    using arg_cong [OF snapshot_keys, of set] by (auto simp: image_image)
  with e incidents.put_rows_other [of e ?rs ?g] upsert_incidents_rows [OF assms(2) [unfolded refresh_rows]]
  show "e \<in> set table'" by simp
qed

lemma first_seen_iff:
  assumes "distinct (map incident_key table)"
  shows "first_seen table s k = Some v \<longleftrightarrow>
    (\<exists>e \<in> set table. incident_key e = [CStr s, CStr k] \<and> row_value e ''first_seen_at'' = v)"
proof -
  let ?P = "\<lambda>e. incident_key e = [CStr s, CStr k]"
  have "find ?P table = Some e \<longleftrightarrow> e \<in> set table \<and> ?P e" for e
  proof
    assume e: "e \<in> set table \<and> ?P e"
    then obtain x where x: "find ?P table = Some x" by (cases "find ?P table") (auto simp: find_None_iff)
    then have "x \<in> set table" "?P x" by (auto simp: find_Some_iff)
    with e assms have "x = e" by (auto simp: distinct_map dest!: inj_onD [of _ _ x e])
    with x show "find ?P table = Some e" by simp
  qed (auto simp: find_Some_iff)
  then show ?thesis by (auto simp: first_seen_def)
qed

lemma first_seen_kept:
  assumes "incident_table table" and "refresh_distribution_incident_current table s records t = Inr table'"
    and "first_seen table s k = Some v"
  shows "first_seen table' s k = Some v"
proof -
  let ?g = "map (mark_gone s t) table" and ?rs = "map (\<lambda>(k, r). incident_row s t r) (latest_records records)"
  have d: "distinct (map incident_key table)" using assms(1) by (simp add: incident_table_def)
  have d': "distinct (map incident_key table')"
    using incident_table_kept [OF assms(1,2)] by (simp add: incident_table_def)
  have g: "distinct (map incident_key ?g)" using d by (simp add: comp_def)
  have t': "table' = put_rows incident_key see_incident ?g ?rs"
    using upsert_incidents_rows [OF assms(2) [unfolded refresh_rows]] by simp
  from assms(3) obtain e where e: "e \<in> set table" "incident_key e = [CStr s, CStr k]" "row_value e ''first_seen_at'' = v"
    unfolding first_seen_iff [OF d] by blast
  have m: "mark_gone s t e \<in> set ?g" "incident_key (mark_gone s t e) = [CStr s, CStr k]"
    "row_value (mark_gone s t e) ''first_seen_at'' = v"
    using e by (auto simp: mark_gone_values)
  show ?thesis
    unfolding first_seen_iff [OF d']
  proof (cases "incident_key (mark_gone s t e) \<in> incident_key ` set ?rs")
    case False
    with m show "\<exists>x \<in> set table'. incident_key x = [CStr s, CStr k] \<and> row_value x ''first_seen_at'' = v"
      using incidents.put_rows_other [of "mark_gone s t e" ?rs ?g] unfolding t' by blast
  next
    case True
    then obtain r where r: "r \<in> set ?rs" "incident_key (mark_gone s t e) = incident_key r" by force
    from incidents.put_rows_hit(1) [OF g snapshot_keys_distinct r(1) m(1) r(2)]
    have "see_incident r (mark_gone s t e) \<in> set table'" by (simp add: t')
    moreover have "incident_key (see_incident r (mark_gone s t e)) = [CStr s, CStr k]"
      using incidents.update_keeps_key [OF r(2)] m(2) by simp
    moreover have "row_value (see_incident r (mark_gone s t e)) ''first_seen_at'' = v"
      using m(3) by (simp add: see_incident_values)
    ultimately show "\<exists>x \<in> set table'. incident_key x = [CStr s, CStr k] \<and> row_value x ''first_seen_at'' = v" by blast
  qed
qed

text \<open>C11: after a snapshot of the current incidents the references of its source that are present are
  exactly those of its records, also when records repeat or the snapshot is empty; an incident keeps
  the time it was first seen at, whether it stays, disappears or comes back; the rows of other
  sources are untouched; and the table keeps its constraints.\<close>

theorem incident_snapshot_is_current:
  assumes "incident_table table" and "refresh_distribution_incident_current table s records t = Inr table'"
  shows "incident_table table' \<and> present_references table' s = CStr ` dir_incident_reference ` set records
    \<and> (\<forall>k v. first_seen table s k = Some v \<longrightarrow> first_seen table' s k = Some v)
    \<and> (\<forall>e. row_value e ''source_id'' \<noteq> CStr s \<longrightarrow> (e \<in> set table' \<longleftrightarrow> e \<in> set table))"
proof -
  from assms(1) have d: "distinct (map incident_key table)" by (simp add: incident_table_def)
  from incident_table_kept [OF assms] incidents_present [OF d assms(2)] first_seen_kept [OF assms]
    incidents_of_others [OF d assms(2)]
  show ?thesis by blast
qed

definition example_incident :: "str \<Rightarrow> str \<Rightarrow> distribution_incident_record" where
  "example_incident reference status =
     \<lparr>dir_source_key = reference, dir_incident_reference = reference, dir_status = status,
      dir_observed_at = Aware 0, dir_retrieved_at = Aware 0, dir_content_sha256 = replicate 64 CHR ''a'',
      dir_source_created_at = None, dir_incident_start = None, dir_restored_at = None,
      dir_estimated_restoration_at = None, dir_status_id = None, dir_customers_affected = 0,
      dir_calls_reported = 0, dir_postcode_sectors = [], dir_outward_codes = [], dir_latitude = None,
      dir_longitude = None, dir_geography_precision = ''sector'', dir_operating_zone = None,
      dir_official_summary = None, dir_official_details = None, dir_restoration_window_text = None,
      dir_incident_category = None, dir_classification = Src_Reported, dir_source = ''ukpn'',
      dir_dataset = ''LIVE_FAULTS''\<rparr>"

theorem incident_snapshot_is_current_witness:
  "\<exists>table'. refresh_distribution_incident_current [] ''u'' [example_incident ''A'' ''planned'', example_incident ''A'' ''restored''] 5
       = Inr table' \<and> present_references table' ''u'' = {CStr ''A''}"
proof -
  let ?rs = "[example_incident ''A'' ''planned'', example_incident ''A'' ''restored'']"
  have "\<not> Option.is_none (case refresh_distribution_incident_current [] ''u'' ?rs 5 of Inr x \<Rightarrow> Some x | Inl e \<Rightarrow> None)"
    by code_simp
  then obtain table' where r: "refresh_distribution_incident_current [] ''u'' ?rs 5 = Inr table'"
    by (cases "refresh_distribution_incident_current [] ''u'' ?rs 5") auto
  have "incident_table []" by (simp add: incident_table_def)
  from incident_snapshot_is_current [OF this r] r show ?thesis by (auto simp: example_incident_def)
qed

section \<open>The declared scope: what pruning and writing leave\<close>

text \<open>Every cell of an upserted table is a cell of the table or of the rows.\<close>

definition cells_from :: "row list \<Rightarrow> row list \<Rightarrow> bool" where
  "cells_from rows table' \<longleftrightarrow> (\<forall>e \<in> set table'. \<forall>c. \<exists>x \<in> set rows. row_value e c = row_value x c)"

lemma cells_from_same: "set table' \<subseteq> set rows \<Longrightarrow> cells_from rows table'"
  by (auto simp: cells_from_def)

lemma cells_from_trans:
  "cells_from (rows @ table) t \<Longrightarrow> cells_from (rows' @ t) table' \<Longrightarrow> cells_from ((rows @ rows') @ table) table'"
  by (simp add: cells_from_def) (metis UnE UnI1 UnI2)

lemma upsert_row_cells: "upsert_row spec table r = (table', f) \<Longrightarrow> cells_from ([r] @ table) table'"
  by (auto simp: upsert_row_def Let_def cells_from_def row_value_refresh split: option.splits if_splits) blast+

lemma upsert_rows_cells: "upsert_rows spec table rows = (table', fs) \<Longrightarrow> cells_from (rows @ table) table'"
proof (induction rows arbitrary: table fs)
  case (Cons r rs)
  obtain t f where tf: "upsert_row spec table r = (t, f)" by (cases "upsert_row spec table r")
  obtain gs where gs: "upsert_rows spec t rs = (table', gs)"
    using Cons.prems tf by (auto split: prod.splits)
  from cells_from_trans [OF upsert_row_cells [OF tf] Cons.IH [OF gs]] show ?case by simp
qed (simp add: cells_from_same)

lemma upsert_batches_cells:
  "upsert_batches spec table counts batches = Inr (table', counts') \<Longrightarrow> cells_from (concat batches @ table) table'"
proof (induction batches arbitrary: table counts)
  case (Cons b bs)
  from Cons.prems obtain t flags c where up: "observation_upsert spec table b = Inr (t, flags)"
    and rest: "upsert_batches spec t c bs = Inr (table', counts')" by (auto simp: res_simps)
  from up have "upsert_rows spec table b = (t, flags)"
    by (auto simp: observation_upsert_def Let_def split: if_splits prod.splits)
  from cells_from_trans [OF upsert_rows_cells [OF this] Cons.IH [OF rest]] show ?case by simp
qed (simp add: cells_from_same)

lemma write_spec_cells:
  assumes "current_shape spec" and "write_spec spec table rows counts = Inr (table', counts')"
  shows "cells_from (rows @ table) table'"
proof -
  have shape: "us_identity_columns spec = []" "\<not> immutable_revisioned spec"
    using assms(1) by (simp_all add: current_shape_def immutable_revisioned_def)
  obtain unique_rows duplicates where d: "deduplicate_rows rows (us_conflict_columns spec) = (unique_rows, duplicates)"
    by force
  from deduplicate_rows_unique(2) [OF d] have sub: "set unique_rows \<subseteq> set rows" by (auto simp: last_of_key_def)
  have c: "concat (normalized_write_batches unique_rows) = unique_rows"
    by (simp add: normalized_write_batches_def concat_chunks NORMALIZED_WRITE_BATCH_SIZE_def)
  from assms(2) d shape have "table' = table \<or> (\<exists>c. upsert_batches spec table c (normalized_write_batches unique_rows)
      = Inr (table', counts'))"
    by (auto simp: write_spec_def Let_def split: if_splits)
  then have "cells_from (unique_rows @ table) table'"
    using upsert_batches_cells [where spec = spec and table = table and batches = "normalized_write_batches unique_rows", unfolded c]
    by (auto simp: cells_from_same)
  with sub show ?thesis by (simp add: cells_from_def) blast
qed

text \<open>A table of segments, and the rows a snapshot of one source brings.\<close>

definition unit_typed :: "row \<Rightarrow> bool" where
  "unit_typed r \<longleftrightarrow> (case row_value r ''elexon_bm_unit'' of CNone \<Rightarrow> True | CStr u \<Rightarrow> True | _ \<Rightarrow> False)"

lemma unit_typed_iff:
  "unit_typed r \<longleftrightarrow> row_value r ''elexon_bm_unit'' = CNone \<or> (\<exists>u. row_value r ''elexon_bm_unit'' = CStr u)"
  by (auto simp: unit_typed_def split: cell.splits)

definition segment_table :: "row list \<Rightarrow> bool" where
  "segment_table table \<longleftrightarrow> current_table PHYSICAL_NOTIFICATION_SPEC table \<and> list_all unit_typed table"

definition segments_in_scope :: "row list \<Rightarrow> str \<Rightarrow> pn_scope \<Rightarrow> cell list set" where
  "segments_in_scope table s scope = segment_key `
     {r \<in> set table. row_value r ''source_id'' = CStr s \<and> pn_in_period scope r \<and> pn_in_units scope r}"

lemma segment_shape: "current_shape PHYSICAL_NOTIFICATION_SPEC"
  by (simp add: current_shape_def spec_defs current_spec_def)

lemma segment_conflict:
  "unique_key PHYSICAL_NOTIFICATION_SPEC r = unique_key PHYSICAL_NOTIFICATION_SPEC e \<longleftrightarrow>
     row_value r ''source_id'' = row_value e ''source_id''
     \<and> row_value r ''settlement_date'' = row_value e ''settlement_date''
     \<and> row_value r ''settlement_period'' = row_value e ''settlement_period''
     \<and> segment_key r = segment_key e"
  by (auto simp: spec_defs current_spec_def key_of_def segment_key_def)

lemma rows_in_scope_iff: "rows_in_scope scope rows = Inr u \<longleftrightarrow> (\<forall>r \<in> set rows. pn_in_period scope r \<and> pn_in_units scope r)"
  by (induction rows) auto

lemma same_unit:
  "unit_typed a \<Longrightarrow> unit_typed b \<Longrightarrow> \<not> distinct_from (row_value a ''elexon_bm_unit'') (row_value b ''elexon_bm_unit'')
     \<Longrightarrow> row_value a ''elexon_bm_unit'' = row_value b ''elexon_bm_unit''"
  by (auto simp: unit_typed_iff distinct_from_def)

lemma agreeing_unit:
  "agrees PHYSICAL_NOTIFICATION_SPEC e r \<Longrightarrow> unit_typed e \<Longrightarrow> unit_typed r \<Longrightarrow> pn_in_units scope e = pn_in_units scope r"
  using same_unit [of e r]
  by (simp add: agrees_def compared_columns_def spec_defs current_spec_def pn_in_units_def)

text \<open>What the two deletions keep.\<close>

lemma pruned_rows:
  assumes "prune_physical_notification_scope table s metadata rows = Inr pruned" and "pn_scope_of metadata = Inr scope"
  shows "\<forall>r \<in> set rows. pn_in_period scope r \<and> pn_in_units scope r"
    and "e \<in> set pruned \<longleftrightarrow> e \<in> set table \<and>
      (row_value e ''source_id'' = CStr s \<and> pn_in_units scope e \<longrightarrow> pn_in_period scope e \<and> segment_key e \<in> segment_key ` set rows)"
    and "segment_table table \<Longrightarrow> segment_table pruned"
proof -
  from assms obtain u where "rows_in_scope scope rows = Inr u"
    and p: "pruned = filter (\<lambda>r. \<not> (row_value r ''source_id'' = CStr s \<and> pn_in_period scope r \<and> pn_in_units scope r
                       \<and> segment_key r \<notin> segment_key ` set rows))
        (filter (\<lambda>r. \<not> (row_value r ''source_id'' = CStr s \<and> \<not> pn_in_period scope r \<and> pn_in_units scope r)) table)"
    by (auto simp: prune_physical_notification_scope_def res_simps)
  then show "\<forall>r \<in> set rows. pn_in_period scope r \<and> pn_in_units scope r" by (simp add: rows_in_scope_iff)
  show "e \<in> set pruned \<longleftrightarrow> e \<in> set table \<and>
      (row_value e ''source_id'' = CStr s \<and> pn_in_units scope e \<longrightarrow> pn_in_period scope e \<and> segment_key e \<in> segment_key ` set rows)"
    unfolding p by auto
  show "segment_table table \<Longrightarrow> segment_table pruned"
    unfolding p by (auto simp: segment_table_def current_table_def list_all_iff distinct_map_filter)
qed

lemma written_segments:
  assumes "segment_table table" and "write_spec PHYSICAL_NOTIFICATION_SPEC table rows counts = Inr (table', counts')"
    and "list_all unit_typed rows"
  shows "segment_table table'"
    and "r \<in> set rows \<Longrightarrow> \<exists>q \<in> set rows. \<exists>e \<in> set table'. unique_key PHYSICAL_NOTIFICATION_SPEC q = unique_key PHYSICAL_NOTIFICATION_SPEC r
        \<and> unique_key PHYSICAL_NOTIFICATION_SPEC e = unique_key PHYSICAL_NOTIFICATION_SPEC r \<and> pn_in_units scope e = pn_in_units scope q"
    and "unique_key PHYSICAL_NOTIFICATION_SPEC e \<notin> unique_key PHYSICAL_NOTIFICATION_SPEC ` set rows \<Longrightarrow> e \<in> set table' \<longleftrightarrow> e \<in> set table"
proof -
  let ?k = "unique_key PHYSICAL_NOTIFICATION_SPEC"
  obtain us d where dd: "deduplicate_rows rows (us_conflict_columns PHYSICAL_NOTIFICATION_SPEC) = (us, d)" by force
  note u = deduplicate_rows_unique [OF dd]
  have "current_table PHYSICAL_NOTIFICATION_SPEC table" using assms(1) by (simp add: segment_table_def)
  from write_spec_current [OF segment_shape this dd assms(2)]
  have up: "upserted PHYSICAL_NOTIFICATION_SPEC us table table'" by simp
  have typed: "unit_typed e" if "e \<in> set table'" for e
  proof -
    from write_spec_cells [OF segment_shape assms(2)] that obtain x where
      "x \<in> set (rows @ table)" "row_value e ''elexon_bm_unit'' = row_value x ''elexon_bm_unit''"
      by (auto simp: cells_from_def)
    with assms(1,3) show ?thesis by (auto simp: segment_table_def list_all_iff unit_typed_iff)
  qed
  with up show "segment_table table'" by (simp add: segment_table_def upserted_def list_all_iff)
  show "\<exists>q \<in> set rows. \<exists>e \<in> set table'. ?k q = ?k r \<and> ?k e = ?k r \<and> pn_in_units scope e = pn_in_units scope q" if r: "r \<in> set rows"
  proof -
    from r u(3) obtain q where q: "q \<in> set us" "?k q = ?k r" by (metis imageE imageI)
    then have q': "q \<in> set rows" using u(2) by (simp add: last_of_key_def)
    from up q obtain e where e: "e \<in> set table'" "?k e = ?k q" "agrees PHYSICAL_NOTIFICATION_SPEC e q"
      by (auto simp: upserted_def)
    have "unit_typed q" using assms(3) q' by (simp add: list_all_iff)
    with agreeing_unit [OF e(3) typed [OF e(1)]] e q q' show ?thesis by metis
  qed
  show "e \<in> set table' \<longleftrightarrow> e \<in> set table" if "?k e \<notin> ?k ` set rows" for e
    using up that u(3) by (simp add: upserted_def)
qed


definition example_segment :: "int \<Rightarrow> int \<Rightarrow> row" where
  "example_segment period start =
     [(''source_id'', CStr ''elexon.pn''), (''national_grid_bm_unit'', CStr ''U''), (''elexon_bm_unit'', CStr ''T_U''),
      (''settlement_date'', CDate 0), (''settlement_period'', CInt period), (''segment_start'', CTime start),
      (''segment_end'', CTime (start + 1)), (''asset_id'', CUuid ''a''), (''level_from_mw'', CFloat 1),
      (''level_to_mw'', CFloat 2), (''classification'', CStr ''reported_plan'')]"

definition example_scope :: "(str, json) dict" where
  "example_scope = [(''settlementDate'', JStr ''1970-01-01''), (''settlementPeriod'', JInt 2), (''allUnits'', JBool False),
     (''bmUnits'', JList [JStr ''T_U''])]"


section \<open>The REPD sites: what a complete extract leaves\<close>

definition asset_typed :: "row \<Rightarrow> bool" where
  "asset_typed r \<longleftrightarrow> (case row_value r ''asset_type'' of CStr t \<Rightarrow> True | _ \<Rightarrow> False)
     \<and> (case row_value r ''active'' of CBool b \<Rightarrow> True | _ \<Rightarrow> False)"

lemma asset_typed_iff:
  "asset_typed r \<longleftrightarrow> (\<exists>t. row_value r ''asset_type'' = CStr t) \<and> (\<exists>b. row_value r ''active'' = CBool b)"
  by (auto simp: asset_typed_def split: cell.splits)

definition asset_table :: "row list \<Rightarrow> bool" where
  "asset_table table \<longleftrightarrow> current_table ASSET_REFERENCE_SPEC table \<and> list_all asset_typed table"

definition active_members :: "row list \<Rightarrow> str \<Rightarrow> str \<Rightarrow> cell set" where
  "active_members table s kind = (\<lambda>r. row_value r ''external_id'') `
     {r \<in> set table. row_value r ''source_id'' = CStr s \<and> row_value r ''asset_type'' = CStr kind
        \<and> row_value r ''active'' = CBool True}"

lemma asset_shape: "current_shape ASSET_REFERENCE_SPEC"
  by (simp add: current_shape_def spec_defs current_spec_def)

lemma asset_conflict: "unique_key ASSET_REFERENCE_SPEC = asset_key"
  by (simp add: spec_defs current_spec_def asset_key_def)

lemma asset_key_iff: "asset_key r = [a, b] \<longleftrightarrow> row_value r ''source_id'' = a \<and> row_value r ''external_id'' = b"
  by (auto simp: asset_key_def key_of_def)

lemma agreeing_asset:
  assumes "agrees ASSET_REFERENCE_SPEC e r" and "asset_typed e" and "asset_typed r"
  shows "row_value e ''asset_type'' = row_value r ''asset_type''" and "row_value e ''active'' = row_value r ''active''"
proof -
  have "\<not> distinct_from (row_value e ''asset_type'') (row_value r ''asset_type'')"
    "\<not> distinct_from (row_value e ''active'') (row_value r ''active'')"
    using assms(1) by (simp_all add: agrees_def compared_columns_def spec_defs current_spec_def)
  with assms(2,3) show "row_value e ''asset_type'' = row_value r ''asset_type''" "row_value e ''active'' = row_value r ''active''"
    by (auto simp: asset_typed_iff distinct_from_def)
qed

lemma retire_row: "e \<in> set (fst (retire P table)) \<longleftrightarrow>
    (\<exists>r \<in> set table. e = (if P r then store r ''active'' (CBool False) else r))"
  by (auto simp: retire_def)

lemma retire_keys: "map asset_key (fst (retire P table)) = map asset_key table"
  by (simp add: retire_def comp_def asset_key_def key_of_store)

lemma retire_elsewhere:
  assumes "\<And>r. P r \<Longrightarrow> row_value r ''source_id'' = x" and "row_value e ''source_id'' \<noteq> x"
  shows "e \<in> set (fst (retire P table)) \<longleftrightarrow> e \<in> set table"
proof
  assume "e \<in> set (fst (retire P table))"
  then obtain r where r: "r \<in> set table" "e = (if P r then store r ''active'' (CBool False) else r)"
    unfolding retire_row by blast
  then have "row_value e ''source_id'' = row_value r ''source_id''" by (simp add: row_value_store)
  with assms have "\<not> P r" by auto
  with r show "e \<in> set table" by simp
next
  assume "e \<in> set table"
  moreover have "\<not> P e" using assms by blast
  ultimately show "e \<in> set (fst (retire P table))" unfolding retire_row by force
qed

lemma typed_after_retire: "asset_typed r \<Longrightarrow> asset_typed (store r ''active'' (CBool b))"
  by (simp add: asset_typed_iff row_value_store)

lemma retire_table: "asset_table table \<Longrightarrow> asset_table (fst (retire P table))"
  using typed_after_retire
  by (auto simp: asset_table_def current_table_def asset_conflict retire_keys list_all_iff retire_row)

lemma repd_row:
  assumes "map_repd_site site s = Inr r"
  shows "authoritative_external_id site = Inr (strip (rps_source_id site))"
    and "asset_key r = [CStr s, CStr (strip (rps_source_id site))]"
    and "row_value r ''asset_type'' = CStr REPD_ASSET_TYPE" and "row_value r ''active'' = CBool True"
proof -
  from assms obtain external_id public_id where
    a: "authoritative_external_id site = Inr external_id"
    and r: "\<exists>rest. r = [(''source_id'', CStr s), (''external_id'', CStr external_id), (''asset_type'', CStr REPD_ASSET_TYPE)] @ rest
       \<and> lookup rest ''active'' = Some (CBool True)"
    unfolding map_repd_site_def Let_def by (clarsimp simp: mapping_inversion split del: if_split)
  from a have e: "external_id = strip (rps_source_id site)"
    by (auto simp: authoritative_external_id_def external_id_of_def Let_def res_simps split: if_splits)
  show "authoritative_external_id site = Inr (strip (rps_source_id site))" using a e by simp
  from r show "asset_key r = [CStr s, CStr (strip (rps_source_id site))]" "row_value r ''asset_type'' = CStr REPD_ASSET_TYPE"
    "row_value r ''active'' = CBool True"
    by (auto simp: asset_key_def key_of_def row_value_def e)
qed

text \<open>Writing the rows of a snapshot, whose keys are distinct, before anything is retired.\<close>

lemma written_assets:
  assumes "asset_table table" and "list_all asset_typed rows" and "distinct (map asset_key rows)"
    and "upsert_batches ASSET_REFERENCE_SPEC table counts (normalized_write_batches rows) = Inr (table', counts')"
  shows "asset_table table'" and "asset_key ` set table' = asset_key ` set rows \<union> asset_key ` set table"
    and "asset_key e \<notin> asset_key ` set rows \<Longrightarrow> e \<in> set table' \<longleftrightarrow> e \<in> set table"
    and "r \<in> set rows \<Longrightarrow> \<exists>e \<in> set table'. asset_key e = asset_key r
        \<and> row_value e ''asset_type'' = row_value r ''asset_type'' \<and> row_value e ''active'' = row_value r ''active''"
    and "counts_total counts' = counts_total counts + int (length rows)
      \<and> wc_inserted counts \<le> wc_inserted counts' \<and> wc_updated counts \<le> wc_updated counts'"
proof -
  have c: "concat (normalized_write_batches rows) = rows"
    by (simp add: normalized_write_batches_def concat_chunks NORMALIZED_WRITE_BATCH_SIZE_def)
  have "current_table ASSET_REFERENCE_SPEC table" using assms(1) by (simp add: asset_table_def)
  from upsert_batches_effect [OF asset_shape this _ assms(4)] assms(3)
  have up: "upserted ASSET_REFERENCE_SPEC rows table table'"
    and n: "counts_total counts' = counts_total counts + int (length rows)
      \<and> wc_inserted counts \<le> wc_inserted counts' \<and> wc_updated counts \<le> wc_updated counts'"
    unfolding c asset_conflict by simp_all
  have typed: "asset_typed e" if "e \<in> set table'" for e
  proof -
    have "\<exists>x \<in> set (rows @ table). row_value e k = row_value x k" for k
      using upsert_batches_cells [OF assms(4)] that unfolding c cells_from_def by blast
    moreover have "asset_typed x" if "x \<in> set (rows @ table)" for x
      using that assms(1,2) by (auto simp: asset_table_def list_all_iff)
    ultimately show ?thesis unfolding asset_typed_iff by metis
  qed
  from up typed show "asset_table table'" by (simp add: asset_table_def upserted_def list_all_iff)
  from up show "asset_key ` set table' = asset_key ` set rows \<union> asset_key ` set table"
    and "asset_key e \<notin> asset_key ` set rows \<Longrightarrow> e \<in> set table' \<longleftrightarrow> e \<in> set table" for e
    by (simp_all add: upserted_def asset_conflict)
  show "\<exists>e \<in> set table'. asset_key e = asset_key r \<and> row_value e ''asset_type'' = row_value r ''asset_type''
      \<and> row_value e ''active'' = row_value r ''active''" if r: "r \<in> set rows" for r
  proof -
    from up r obtain e where e: "e \<in> set table'" "asset_key e = asset_key r" "agrees ASSET_REFERENCE_SPEC e r"
      by (auto simp: upserted_def asset_conflict)
    moreover have "asset_typed r" using assms(2) r by (simp add: list_all_iff)
    ultimately show ?thesis using agreeing_asset [OF e(3) typed [OF e(1)]] by blast
  qed
  show "counts_total counts' = counts_total counts + int (length rows)
      \<and> wc_inserted counts \<le> wc_inserted counts' \<and> wc_updated counts \<le> wc_updated counts'" by (rule n)
qed

lemma with_id_values: "c \<noteq> ''id'' \<Longrightarrow> row_value (with_id ns s r) c = row_value r c"
  by (simp add: with_id_def row_value_store)

lemma with_id_key [simp]: "asset_key (with_id ns s r) = asset_key r"
  by (simp add: asset_key_def key_of_def with_id_values)

lemma sorted_set_length: "length (sorted_set xs) = length xs \<longleftrightarrow> distinct xs"
  by (simp add: sorted_set_def length_remdups_eq)

lemma sorted_set_set [simp]: "set (sorted_set xs) = set xs"
  by (simp add: sorted_set_def)

definition site_id :: "repd_site \<Rightarrow> str" where
  "site_id site = strip (rps_source_id site)"

text \<open>The steps of a snapshot that is accepted.\<close>

lemma repd_snapshot_steps:
  assumes "persist_repd_snapshot assets s records = Inr (assets', counts)"
  obtains mapped rows mid c where "rows = map (with_id REPD_ASSET_NAMESPACE s) mapped"
    "list_all2 (\<lambda>site r. map_repd_site site s = Inr r) records mapped"
    "distinct (map site_id records)"
    "upsert_batches ASSET_REFERENCE_SPEC assets no_counts (normalized_write_batches rows) = Inr (mid, c)"
    "assets' = fst (retire (repd_absent s (sorted_set (map site_id records))) mid)"
    "counts = c\<lparr>wc_updated := wc_updated c + snd (retire (repd_absent s (sorted_set (map site_id records))) mid)\<rparr>"
proof -
  from assms obtain mapped membership mid c where
    m: "traverse (\<lambda>r. map_repd_site r s) records = Inr mapped"
    and mem: "repd_snapshot_membership_of records s = Inr membership"
    and len: "length (rsm_active_external_ids membership) = length mapped"
    and up: "upsert_batches ASSET_REFERENCE_SPEC assets no_counts
        (normalized_write_batches (map (with_id REPD_ASSET_NAMESPACE s) mapped)) = Inr (mid, c)"
    and out: "assets' = fst (retire (repd_absent s (rsm_active_external_ids membership)) mid)"
      "counts = c\<lparr>wc_updated := wc_updated c + snd (retire (repd_absent s (rsm_active_external_ids membership)) mid)\<rparr>"
    unfolding persist_repd_snapshot_def Let_def
    by (auto simp: res_simps case_prod_beta split: if_splits)
  from mem obtain ids where ids: "traverse authoritative_external_id records = Inr ids"
    and e: "rsm_active_external_ids membership = sorted_set ids"
    by (auto simp: repd_snapshot_membership_of_def mk_repd_snapshot_membership_def res_simps split: if_splits)
  have a2: "list_all2 (\<lambda>site r. map_repd_site site s = Inr r) records mapped" using m by (simp add: traverse_eq_Inr)
  have "ids = map site_id records"
  proof (rule nth_equalityI)
    show n: "length ids = length (map site_id records)" using traverse_length [OF ids] by simp
    fix i assume i: "i < length ids"
    then have "authoritative_external_id (records ! i) = Inr (ids ! i)" "map_repd_site (records ! i) s = Inr (mapped ! i)"
      using ids a2 n by (auto simp: traverse_eq_Inr list_all2_conv_all_nth)
    with repd_row(1) show "ids ! i = map site_id records ! i" using i n by (fastforce simp: site_id_def)
  qed
  with e len traverse_length [OF m] have "distinct (map site_id records)"
    "rsm_active_external_ids membership = sorted_set (map site_id records)"
    using sorted_set_length [of "map site_id records"] by simp_all
  with that [OF refl a2 _ up] out show ?thesis by simp
qed

lemma repd_rows:
  assumes "list_all2 (\<lambda>site r. map_repd_site site s = Inr r) records mapped"
  shows "map asset_key (map (with_id ns s) mapped) = map (\<lambda>site. [CStr s, CStr (site_id site)]) records"
    and "list_all asset_typed (map (with_id ns s) mapped)"
    and "r \<in> set (map (with_id ns s) mapped) \<Longrightarrow>
      row_value r ''asset_type'' = CStr REPD_ASSET_TYPE \<and> row_value r ''active'' = CBool True"
proof -
  have len: "length mapped = length records" using assms by (simp add: list_all2_lengthD)
  have row: "asset_key (mapped ! i) = [CStr s, CStr (site_id (records ! i))]"
    "row_value (mapped ! i) ''asset_type'' = CStr REPD_ASSET_TYPE" "row_value (mapped ! i) ''active'' = CBool True"
    if "i < length records" for i
    using repd_row [OF list_all2_nthD [OF assms that]] by (simp_all add: site_id_def)
  show "map asset_key (map (with_id ns s) mapped) = map (\<lambda>site. [CStr s, CStr (site_id site)]) records"
    by (rule nth_equalityI) (simp_all add: len row)
  have vals: "asset_typed r \<and> row_value r ''asset_type'' = CStr REPD_ASSET_TYPE \<and> row_value r ''active'' = CBool True"
    if r: "r \<in> set (map (with_id ns s) mapped)" for r
  proof -
    from r obtain i where "i < length records" "r = with_id ns s (mapped ! i)"
      by (auto simp: in_set_conv_nth len)
    with row show ?thesis by (auto simp: asset_typed_iff with_id_values)
  qed
  then show "list_all asset_typed (map (with_id ns s) mapped)" by (simp add: list_all_iff)
  show "r \<in> set (map (with_id ns s) mapped) \<Longrightarrow>
      row_value r ''asset_type'' = CStr REPD_ASSET_TYPE \<and> row_value r ''active'' = CBool True" using vals by blast
qed

text \<open>C12: after a complete REPD extract is persisted the active sites are exactly those of the extract;
  no asset row is ever deleted, the assets of other sources are untouched, and every record of the
  extract is counted.\<close>

theorem repd_extract_is_active:
  assumes "asset_table assets" and "persist_repd_snapshot assets s records = Inr (assets', counts)"
  shows "asset_table assets' \<and> active_members assets' s REPD_ASSET_TYPE = (\<lambda>site. CStr (site_id site)) ` set records
    \<and> asset_key ` set assets' = (\<lambda>site. [CStr s, CStr (site_id site)]) ` set records \<union> asset_key ` set assets
    \<and> (\<forall>e. row_value e ''source_id'' \<noteq> CStr s \<longrightarrow> (e \<in> set assets' \<longleftrightarrow> e \<in> set assets))
    \<and> int (length records) \<le> counts_total counts"
proof -
  obtain mapped rows mid c where
    rows: "rows = map (with_id REPD_ASSET_NAMESPACE s) mapped"
    and m: "list_all2 (\<lambda>site r. map_repd_site site s = Inr r) records mapped"
    and d: "distinct (map site_id records)"
    and up: "upsert_batches ASSET_REFERENCE_SPEC assets no_counts (normalized_write_batches rows) = Inr (mid, c)"
    and out: "assets' = fst (retire (repd_absent s (sorted_set (map site_id records))) mid)"
      "counts = c\<lparr>wc_updated := wc_updated c + snd (retire (repd_absent s (sorted_set (map site_id records))) mid)\<rparr>"
    by (rule repd_snapshot_steps [OF assms(2)])
  let ?gone = "repd_absent s (sorted_set (map site_id records))"
  note rr = repd_rows [OF m, where ns = REPD_ASSET_NAMESPACE, folded rows]
  note keys = rr(1) and vals = rr(3)
  have len: "length rows = length records" using arg_cong [OF keys, of length] by simp
  have "distinct (map asset_key rows)"
    unfolding keys using d by (simp add: distinct_map inj_on_def)
  note w = written_assets [OF assms(1) rr(2) this up]
  have key_set: "asset_key ` set rows = (\<lambda>site. [CStr s, CStr (site_id site)]) ` set records"
    using arg_cong [OF keys, of set] by simp
  have e_in: "e \<in> set assets' \<longleftrightarrow> (\<exists>r \<in> set mid. e = (if ?gone r then store r ''active'' (CBool False) else r))" for e
    unfolding out(1) by (rule retire_row)
  have present: "CStr (site_id site) \<in> active_members assets' s REPD_ASSET_TYPE" if site: "site \<in> set records" for site
  proof -
    have "[CStr s, CStr (site_id site)] \<in> asset_key ` set rows" unfolding key_set using site by blast
    then obtain r where r: "r \<in> set rows" "asset_key r = [CStr s, CStr (site_id site)]" by (elim imageE) simp
    from w(4) [OF r(1)] obtain e where e: "e \<in> set mid" "asset_key e = asset_key r"
      "row_value e ''asset_type'' = row_value r ''asset_type''" "row_value e ''active'' = row_value r ''active''" by blast
    have key: "row_value e ''source_id'' = CStr s" "row_value e ''external_id'' = CStr (site_id site)"
      using e(2) r(2) by (simp_all add: asset_key_iff)
    then have "\<not> ?gone e" using site by (simp add: repd_absent_def)
    then have "e \<in> set assets'" using e(1) by (auto simp: e_in)
    with e(3,4) vals [OF r(1)] key show ?thesis
      by (auto simp: active_members_def intro!: image_eqI [of _ _ e])
  qed
  have absent: "row_value e ''external_id'' \<in> (\<lambda>site. CStr (site_id site)) ` set records"
    if "e \<in> set assets'" "row_value e ''source_id'' = CStr s" "row_value e ''asset_type'' = CStr REPD_ASSET_TYPE"
      "row_value e ''active'' = CBool True" for e
  proof -
    from that(1) obtain r where r: "r \<in> set mid" "e = (if ?gone r then store r ''active'' (CBool False) else r)"
      by (auto simp: e_in)
    have "\<not> ?gone r" using that(4) r(2) by (auto simp: row_value_store)
    with r(2) that(2-4) show ?thesis by (auto simp: repd_absent_def image_image)
  qed
  have others: "e \<in> set assets' \<longleftrightarrow> e \<in> set assets" if "row_value e ''source_id'' \<noteq> CStr s" for e
  proof -
    have "asset_key e \<notin> asset_key ` set rows" using that key_set by (auto simp: asset_key_iff)
    then have "e \<in> set assets \<longleftrightarrow> e \<in> set mid" using w(3) by blast
    also have "\<dots> \<longleftrightarrow> e \<in> set assets'" unfolding out(1)
      by (rule retire_elsewhere [OF _ that, symmetric]) (simp add: repd_absent_def)
    finally show ?thesis by simp
  qed
  have all_keys: "asset_key ` set assets' = (\<lambda>site. [CStr s, CStr (site_id site)]) ` set records \<union> asset_key ` set assets"
    unfolding out(1) using arg_cong [OF retire_keys [of ?gone mid], of set] by (simp only: set_map w(2) key_set)
  have counted: "int (length records) \<le> counts_total counts"
    using w(5) len by (simp add: out(2) counts_total_def no_counts_def retire_def)
  have kept: "asset_table assets'" unfolding out(1) by (rule retire_table [OF w(1)])
  have members: "active_members assets' s REPD_ASSET_TYPE = (\<lambda>site. CStr (site_id site)) ` set records"
    using present absent by (auto simp: active_members_def)
  show ?thesis by (intro conjI allI impI kept members all_keys counted others)
qed

definition example_site :: "str \<Rightarrow> repd_site" where
  "example_site i =
     \<lparr>rps_source_id = i, rps_project_name = ''Farm'', rps_operator_name = None, rps_technology = ''Wind Onshore'',
      rps_capacity_mw = Some 10, rps_status = Repd_Operational, rps_source_status = ''Operational'',
      rps_storage_type = None, rps_is_storage = False, rps_region = None, rps_country = None,
      rps_planning_authority = None, rps_record_last_updated = None, rps_coordinates = None,
      rps_provenance = \<lparr>rpv_publisher = REPD_PUBLISHER, rpv_dataset = REPD_DATASET_NAME,
        rpv_source_url = REPD_PUBLICATION_URL, rpv_licence_name = REPD_LICENCE_NAME,
        rpv_licence_url = REPD_LICENCE_URL, rpv_retrieved_at = 0\<rparr>\<rparr>"

definition old_site :: row where
  "old_site = [(''source_id'', CStr REPD_SOURCE_ID), (''external_id'', CStr ''9''), (''asset_type'', CStr REPD_ASSET_TYPE),
     (''active'', CBool True)]"

theorem repd_extract_is_active_witness:
  "\<exists>assets' counts. persist_repd_snapshot [old_site] REPD_SOURCE_ID [example_site ''1'', example_site '' 2 ''] = Inr (assets', counts)
     \<and> active_members assets' REPD_SOURCE_ID REPD_ASSET_TYPE = {CStr ''1'', CStr ''2''}"
proof -
  let ?rs = "[example_site ''1'', example_site '' 2 '']"
  have "\<not> Option.is_none (case persist_repd_snapshot [old_site] REPD_SOURCE_ID ?rs of Inr x \<Rightarrow> Some x | Inl e \<Rightarrow> None)" by code_simp
  then obtain assets' counts where p: "persist_repd_snapshot [old_site] REPD_SOURCE_ID ?rs = Inr (assets', counts)"
    by (cases "persist_repd_snapshot [old_site] REPD_SOURCE_ID ?rs") auto
  have t: "asset_table [old_site]" by code_simp
  have "map (\<lambda>site. CStr (site_id site)) ?rs = [CStr ''1'', CStr ''2'']" by code_simp
  then have "(\<lambda>site. CStr (site_id site)) ` set ?rs = {CStr ''1'', CStr ''2''}" by simp
  with repd_extract_is_active [OF t p] p show ?thesis by auto
qed

end
