(* ===== verification/Event_Lifecycle_Store.thy ===== *)
theory Event_Lifecycle_Store
  imports Event_Revisions Ingestion_Records
begin

text \<open>
  The lifecycle of reported notices (\<open>app/persistence/event_lifecycle.py\<close>): each normalized notice
  row is projected into a revision of its event, and the revision and its delta are appended to two
  tables inside the ingestion transaction.  A table is the list of its rows; a stored revision keeps
  the revision of its payload and the source notice beside it, with the times that the payload
  prints as ISO text kept as instants.
\<close>

section \<open>Reading a notice\<close>

text \<open>\<open>str(value).strip() or None\<close>; no field that is read this way holds a list or a mapping.\<close>

fun text_of :: "cell \<Rightarrow> str option" where
  "text_of CNone = None"
| "text_of (CList cs) = None"
| "text_of (CMap kvs) = None"
| "text_of c =
     (let s = strip (case c of CStr s \<Rightarrow> s | CEnum s \<Rightarrow> s | CUuid u \<Rightarrow> u | CInt n \<Rightarrow> str_of_int n
                     | CFloat x \<Rightarrow> float_repr x | CBool b \<Rightarrow> if b then ''True'' else ''False''
                     | CTime t \<Rightarrow> str_datetime (Aware t) | CDate d \<Rightarrow> iso_date d | _ \<Rightarrow> [])
      in if s = [] then None else Some s)"

definition required_text :: "row \<Rightarrow> str \<Rightarrow> str result" where
  "required_text notice field =
     (case text_of (row_value notice field) of
        None \<Rightarrow> Inl (ValueError (field @ '' cannot be blank'')) | Some s \<Rightarrow> Inr s)"

definition aware_time :: "row \<Rightarrow> str \<Rightarrow> instant result" where
  "aware_time notice field =
     (case row_value notice field of CTime t \<Rightarrow> Inr t | _ \<Rightarrow> Inl (ValueError (field @ '' must be a datetime'')))"

definition optional_aware_time :: "row \<Rightarrow> str \<Rightarrow> instant option result" where
  "optional_aware_time notice field =
     (if row_value notice field = CNone then Inr None else rbind (aware_time notice field) (\<lambda>t. Inr (Some t)))"

text \<open>\<open>float(value)\<close> of a number; text is refused, as no number column holds text.\<close>

fun float_of_cell :: "cell \<Rightarrow> rat result" where
  "float_of_cell (CFloat x) = Inr x"
| "float_of_cell (CInt n) = Inr (fl (of_int n))"
| "float_of_cell (CBool b) = Inr (if b then 1 else 0)"
| "float_of_cell c = Inl (ValueError ''could not convert to float'')"

definition optional_number :: "(rat \<Rightarrow> bool) \<Rightarrow> str \<Rightarrow> row \<Rightarrow> str \<Rightarrow> pyfloat option result" where
  "optional_number refused complaint notice field =
     (if row_value notice field = CNone then Inr None
      else rbind (float_of_cell (row_value notice field)) (\<lambda>number.
        if refused number then Inl (ValueError (field @ complaint)) else Inr (Some (Finite number))))"

definition optional_nonnegative_number :: "row \<Rightarrow> str \<Rightarrow> pyfloat option result" where
  "optional_nonnegative_number = optional_number (\<lambda>x. x < 0) '' cannot be negative''"

definition optional_positive_number :: "row \<Rightarrow> str \<Rightarrow> pyfloat option result" where
  "optional_positive_number = optional_number (\<lambda>x. x \<le> 0) '' must be positive''"

definition normalized_status :: "cell \<Rightarrow> str" where
  "normalized_status value =
     (case text_of value of
        None \<Rightarrow> []
      | Some s \<Rightarrow> join ''_'' (runs (\<lambda>c. \<not> is_space c) (map (\<lambda>c. if c = CHR ''-'' then CHR '' '' else c) (lower s))))"

definition reported_planning_state :: "cell \<Rightarrow> bool option" where
  "reported_planning_state value =
     (let normalized = normalized_status value
      in if normalized = ''planned'' then Some True
         else if normalized = ''unplanned'' then Some False else None)"

definition checksum_of :: "row \<Rightarrow> str result" where
  "checksum_of notice =
     rbind (required_text notice ''content_sha256'') (\<lambda>s.
       let value = lower s
       in if length value = 64 \<and> list_all is_hex_char value then Inr value
          else Inl (ValueError ''content_sha256 must be a SHA-256 hex digest''))"

definition event_id_of_notice :: "row \<Rightarrow> str result" where
  "event_id_of_notice notice =
     rbind (required_text notice ''source_id'') (\<lambda>source_id.
     rbind (required_text notice ''notice_kind'') (\<lambda>notice_kind.
     rbind (required_text notice ''external_id'') (\<lambda>external_id.
       Inr (reported_notice_event_id source_id notice_kind external_id))))"

text \<open>The order of the publications of one event; a publication with a revision number comes before
  one without.\<close>

type_synonym source_order = "int \<times> int \<times> instant \<times> instant \<times> str \<times> str"

fun order_prefix :: "cell \<Rightarrow> int \<times> int" where
  "order_prefix (CInt n) = (0, n)"
| "order_prefix (CBool b) = (0, if b then 1 else 0)"
| "order_prefix c = (1, 0)"

definition source_order_of :: "row \<Rightarrow> source_order result" where
  "source_order_of notice =
     rbind (aware_time notice ''published_at'') (\<lambda>published_at.
     rbind (aware_time notice ''retrieved_at'') (\<lambda>retrieved_at.
     rbind (required_text notice ''revision_key'') (\<lambda>revision_key.
     rbind (checksum_of notice) (\<lambda>checksum.
       case order_prefix (row_value notice ''revision_number'') of (a, b) \<Rightarrow>
         Inr (a, b, published_at, retrieved_at, revision_key, checksum)))))"

section \<open>Building a revision\<close>

definition WITHDRAWN_SOURCE_STATUSES :: "str list" where
  "WITHDRAWN_SOURCE_STATUSES = [''cancelled'', ''canceled'', ''dismissed'', ''inactive'', ''withdrawn'']"
definition RESOLVED_SOURCE_STATUSES :: "str list" where
  "RESOLVED_SOURCE_STATUSES = [''closed'', ''complete'', ''completed'', ''ended'', ''resolved'']"
definition SUPERSEDED_SOURCE_STATUSES :: "str list" where
  "SUPERSEDED_SOURCE_STATUSES = [''replaced'', ''superseded'']"

definition evidence_text :: "(str \<times> cell) list \<Rightarrow> str \<Rightarrow> str option" where
  "evidence_text evidence name = text_of (get_or evidence name CNone)"

definition reported_replacement_event_id :: "row \<Rightarrow> str option result" where
  "reported_replacement_event_id notice =
     (case row_value notice ''evidence'' of
        CMap evidence \<Rightarrow>
          (case evidence_text evidence ''supersededByEventId'' of
             Some explicit_event_id \<Rightarrow> Inr (Some explicit_event_id)
           | None \<Rightarrow>
               (case evidence_text evidence ''supersededByExternalId'' of
                  None \<Rightarrow> Inr None
                | Some replacement \<Rightarrow>
                    rbind (required_text notice ''source_id'') (\<lambda>source_id.
                    rbind (required_text notice ''notice_kind'') (\<lambda>notice_kind.
                      Inr (Some (reported_notice_event_id source_id notice_kind replacement))))))
      | _ \<Rightarrow> Inr None)"

definition lifecycle_status :: "row \<Rightarrow> bool \<Rightarrow> (event_status \<times> str option) result" where
  "lifecycle_status notice has_previous =
     (let normalized = normalized_status (row_value notice ''event_status'')
      in if normalized \<in> set WITHDRAWN_SOURCE_STATUSES then Inr (Withdrawn, None)
         else if normalized \<in> set RESOLVED_SOURCE_STATUSES then Inr (Resolved, None)
         else if normalized \<in> set SUPERSEDED_SOURCE_STATUSES
         then rbind (reported_replacement_event_id notice) (\<lambda>replacement.
                case replacement of
                  None \<Rightarrow> Inl (ValueError ''superseded notice requires a reported replacement'')
                | Some r \<Rightarrow> Inr (Superseded, Some r))
         else Inr (if has_previous then Updated else Open, None))"

text \<open>\<open>before != after\<close> for the number, time, text and truth columns of a revision.\<close>

fun same_number :: "pyfloat option \<Rightarrow> cell \<Rightarrow> bool" where
  "same_number None c = (c = CNone)"
| "same_number (Some (Finite x)) c =
     (case c of CFloat y \<Rightarrow> x = y | CInt n \<Rightarrow> x = of_int n | CBool b \<Rightarrow> x = (if b then 1 else 0) | _ \<Rightarrow> False)"
| "same_number (Some f) c = False"

fun same_time :: "instant option \<Rightarrow> cell \<Rightarrow> bool" where
  "same_time None c = (c = CNone)"
| "same_time (Some t) c = (c = CTime t)"

definition material_reason :: "reported_revision \<Rightarrow> row \<Rightarrow> event_status \<Rightarrow> str" where
  "material_reason previous notice status =
     (if terminal status then ''Source marked the notice '' @ status_name status
      else
        let v = row_value notice;
            changed = map snd (filter (\<lambda>(same, label). \<not> same)
              [(same_number (rv_unavailable_mw previous) (v ''unavailable_capacity_mw''), ''capacity''),
               (same_number (rv_normal_capacity_mw previous) (v ''normal_capacity_mw''), ''normal capacity''),
               (same_time (rv_effective_start previous) (v ''event_start''), ''start time''),
               (same_time (rv_effective_end previous) (v ''event_end''), ''end time''),
               (rv_reported_cause previous = text_of (v ''reported_cause''), ''reported cause''),
               (rv_planned previous = reported_planning_state (v ''unavailability_type''),
                ''planning classification'')])
        in if changed = [] then ''Source published a corrected notice revision''
           else ''Source revised '' @ join '', '' changed)"

definition build_reported_notice_revision ::
  "row \<Rightarrow> int \<Rightarrow> reported_revision option \<Rightarrow> reported_revision result" where
  "build_reported_notice_revision notice revision_number previous =
     (if revision_number < 1 then Inl (ValueError ''revision_number must be positive'')
      else if (previous = None) \<noteq> (revision_number = 1)
      then Inl (ValueError ''revision_number must continue the supplied lifecycle'')
      else rbind (event_id_of_notice notice) (\<lambda>event_id.
        if holds_for (\<lambda>p. rv_event_id p \<noteq> event_id) previous
        then Inl (ValueError ''notice does not belong to the supplied lifecycle'')
        else if holds_for (\<lambda>p. rv_revision p + 1 \<noteq> revision_number) previous
        then Inl (ValueError ''revision_number must be sequential'')
        else
          rbind (lifecycle_status notice (previous \<noteq> None)) (\<lambda>(status, superseded_by).
          if previous = None \<and> status \<noteq> Open
          then Inl (ValueError ''a terminal notice requires an earlier open publication'')
          else
            rbind (required_text notice ''notice_kind'') (\<lambda>notice_kind.
            let asset_id = (case text_of (row_value notice ''asset_id'') of
                              Some a \<Rightarrow> Some a | None \<Rightarrow> text_of (row_value notice ''affected_unit_eic''))
            in
            rbind (aware_time notice ''published_at'') (\<lambda>published_at.
            rbind (optional_aware_time notice ''event_start'') (\<lambda>event_start.
            rbind (optional_aware_time notice ''event_end'') (\<lambda>event_end.
            rbind (optional_nonnegative_number notice ''unavailable_capacity_mw'') (\<lambda>unavailable.
            rbind (optional_positive_number notice ''normal_capacity_mw'') (\<lambda>normal.
            rbind (checksum_of notice) (\<lambda>checksum.
            rbind (required_text notice ''source_record_id'') (\<lambda>source_record_id.
              validate_revision
                \<lparr>rv_event_id = event_id, rv_revision = revision_number, rv_status = status,
                 rv_published_at = published_at, rv_effective_start = event_start, rv_effective_end = event_end,
                 rv_authority = (if notice_kind = ''system_warning'' then System_Warning else Authoritative_Notice),
                 rv_asset_id = asset_id, rv_asset_name = text_of (row_value notice ''affected_unit''),
                 rv_asset_identity_reliable = (asset_id \<noteq> None),
                 rv_unavailable_mw = unavailable, rv_normal_capacity_mw = normal,
                 rv_planned = reported_planning_state (row_value notice ''unavailability_type''),
                 rv_reported_cause = text_of (row_value notice ''reported_cause''),
                 rv_evidence_checksum = checksum,
                 rv_material_reason = map_option (\<lambda>p. material_reason p notice status) previous,
                 rv_superseded_by_event_id = superseded_by,
                 rv_source_record_ids = [source_record_id]\<rparr>)))))))))))"

section \<open>The two tables\<close>

record source_notice =
  sn_source_id :: str
  sn_source_record_id :: str
  sn_notice_kind :: str
  sn_external_id :: str
  sn_revision_key :: str
  sn_source_revision_number :: cell
  sn_source_event_status :: "str option"
  sn_source_retrieved_at :: instant
  sn_unavailability_type :: "str option"
  sn_affected_unit_eic :: "str option"
  sn_available_capacity_mw :: cell
  sn_heading :: "str option"
  sn_warning_type :: "str option"
  sn_warning_text :: "str option"
  sn_reported_evidence :: cell

record lifecycle_row =
  lr_id :: uuid
  lr_revision :: reported_revision
  lr_source_ids :: "str list"
  lr_source_notice :: source_notice

record delta_row =
  dr_id :: uuid
  dr_event_revision_id :: uuid
  dr_delta :: revision_delta

record lifecycle_db =
  ld_revisions :: "lifecycle_row list"
  ld_deltas :: "delta_row list"

definition REVISION_NAMESPACE :: str where "REVISION_NAMESPACE = ''fa64dc38-c711-5aba-8e96-e437637101ba''"
definition DELTA_NAMESPACE :: str where "DELTA_NAMESPACE = ''73f4e9f4-f423-5f2b-9445-f18c47ce5940''"

definition revision_id_of :: "str \<Rightarrow> int \<Rightarrow> uuid" where
  "revision_id_of event_id revision_number =
     uuid5 REVISION_NAMESPACE (event_id @ '':'' @ str_of_int revision_number)"

definition source_notice_payload :: "row \<Rightarrow> source_notice result" where
  "source_notice_payload notice =
     (let v = row_value notice in
      rbind (required_text notice ''source_id'') (\<lambda>source_id.
      rbind (required_text notice ''source_record_id'') (\<lambda>source_record_id.
      rbind (required_text notice ''notice_kind'') (\<lambda>notice_kind.
      rbind (required_text notice ''external_id'') (\<lambda>external_id.
      rbind (required_text notice ''revision_key'') (\<lambda>revision_key.
      rbind (aware_time notice ''retrieved_at'') (\<lambda>retrieved_at.
        Inr \<lparr>sn_source_id = source_id, sn_source_record_id = source_record_id, sn_notice_kind = notice_kind,
             sn_external_id = external_id, sn_revision_key = revision_key,
             sn_source_revision_number = v ''revision_number'',
             sn_source_event_status = text_of (v ''event_status''), sn_source_retrieved_at = retrieved_at,
             sn_unavailability_type = text_of (v ''unavailability_type''),
             sn_affected_unit_eic = text_of (v ''affected_unit_eic''),
             sn_available_capacity_mw = v ''available_capacity_mw'', sn_heading = text_of (v ''heading''),
             sn_warning_type = text_of (v ''warning_type''), sn_warning_text = text_of (v ''warning_text''),
             sn_reported_evidence = v ''evidence''\<rparr>)))))))"

definition lifecycle_row_ok :: "lifecycle_row \<Rightarrow> bool" where
  "lifecycle_row_ok row =
     (let r = lr_revision row in
      0 < rv_revision r
      \<and> (case (rv_effective_start r, rv_effective_end r) of (Some s, Some e) \<Rightarrow> s \<le> e | _ \<Rightarrow> True)
      \<and> float_where (\<lambda>x. 0 \<le> x) (rv_unavailable_mw r) \<and> float_where (\<lambda>x. 0 < x) (rv_normal_capacity_mw r)
      \<and> (rv_asset_identity_reliable r \<longrightarrow> rv_asset_id r \<noteq> None)
      \<and> (rv_status r = Superseded \<longleftrightarrow> rv_superseded_by_event_id r \<noteq> None))"

definition lifecycle_identity :: "lifecycle_row \<Rightarrow> str \<times> int" where
  "lifecycle_identity row = (rv_event_id (lr_revision row), rv_revision (lr_revision row))"

definition delta_row_ok :: "delta_row \<Rightarrow> bool" where
  "delta_row_ok row \<longleftrightarrow> 0 < rd_from_revision (dr_delta row)
     \<and> rd_to_revision (dr_delta row) = rd_from_revision (dr_delta row) + 1"

definition delta_identity :: "delta_row \<Rightarrow> str \<times> int \<times> int" where
  "delta_identity row = (rd_event_id (dr_delta row), rd_from_revision (dr_delta row), rd_to_revision (dr_delta row))"

definition revision_insert ::
  "lifecycle_db \<Rightarrow> uuid \<Rightarrow> reported_revision \<Rightarrow> row \<Rightarrow> lifecycle_db result" where
  "revision_insert db revision_id revision notice =
     rbind (required_text notice ''source_id'') (\<lambda>source_id.
     rbind (source_notice_payload notice) (\<lambda>payload.
     rbind (insert_rows lifecycle_row_ok lifecycle_identity (ld_revisions db)
              [\<lparr>lr_id = revision_id, lr_revision = revision, lr_source_ids = [source_id],
                lr_source_notice = payload\<rparr>]) (\<lambda>(table, written).
       Inr (db\<lparr>ld_revisions := table\<rparr>))))"

definition delta_insert :: "lifecycle_db \<Rightarrow> uuid \<Rightarrow> revision_delta \<Rightarrow> lifecycle_db result" where
  "delta_insert db revision_id d =
     rbind (insert_rows delta_row_ok delta_identity (ld_deltas db)
              [\<lparr>dr_id = uuid5 DELTA_NAMESPACE (rd_event_id d @ '':'' @ str_of_int (rd_from_revision d) @ '':''
                          @ str_of_int (rd_to_revision d)),
                dr_event_revision_id = revision_id, dr_delta = d\<rparr>]) (\<lambda>(table, written).
       Inr (db\<lparr>ld_deltas := table\<rparr>))"

section \<open>Materializing the notices of a transaction\<close>

record lifecycle_outcome =
  lo_revisions :: int
  lo_deltas :: int
  lo_unchanged :: int
  lo_skipped :: int

definition no_outcome :: lifecycle_outcome where
  "no_outcome = \<lparr>lo_revisions = 0, lo_deltas = 0, lo_unchanged = 0, lo_skipped = 0\<rparr>"

definition stored_source_order :: "lifecycle_row \<Rightarrow> source_order" where
  "stored_source_order row =
     (case order_prefix (sn_source_revision_number (lr_source_notice row)) of (a, b) \<Rightarrow>
        (a, b, rv_published_at (lr_revision row), sn_source_retrieved_at (lr_source_notice row),
         sn_revision_key (lr_source_notice row), rv_evidence_checksum (lr_revision row)))"

text \<open>What is known of one event: its history, the checksums seen and the latest source order.\<close>

record event_state =
  es_history :: "reported_revision list"
  es_seen :: "str list"
  es_latest :: "source_order option"

definition load_event :: "lifecycle_row list \<Rightarrow> str \<Rightarrow> event_state" where
  "load_event table event_id =
     (let stored = sort_key (\<lambda>row. rv_revision (lr_revision row))
                     (filter (\<lambda>row. rv_event_id (lr_revision row) = event_id) table)
      in \<lparr>es_history = map lr_revision stored,
          es_seen = map (\<lambda>row. rv_evidence_checksum (lr_revision row)) stored,
          es_latest = (if stored = [] then None else Some (Max (set (map stored_source_order stored))))\<rparr>)"

datatype notice_decision = Unchanged | Skipped | Append reported_revision "revision_delta option"

type_synonym offered_notice = "source_order \<times> str \<times> row"

definition previous_revision :: "event_state \<Rightarrow> reported_revision option" where
  "previous_revision st = (if es_history st = [] then None else Some (last (es_history st)))"

definition published_before :: "row \<Rightarrow> reported_revision \<Rightarrow> bool" where
  "published_before notice p =
     (case aware_time notice ''published_at'' of Inl e \<Rightarrow> False | Inr t \<Rightarrow> t < rv_published_at p)"

lemma published_before_iff [simp]:
  "published_before notice p \<longleftrightarrow> (\<exists>t. aware_time notice ''published_at'' = Inr t \<and> t < rv_published_at p)"
  by (simp add: published_before_def split: sum.splits)

definition decide :: "event_state \<Rightarrow> offered_notice \<Rightarrow> notice_decision" where
  "decide st offered =
     (case offered of (order, checksum, notice) \<Rightarrow>
        let previous = previous_revision st in
        if checksum \<in> set (es_seen st) then Unchanged
        else if holds_for (\<lambda>latest. order < latest) (es_latest st) then Skipped
        else if holds_for (\<lambda>p. terminal (rv_status p)) previous then Skipped
        else if holds_for (published_before notice) previous
        then Skipped
        else
          case rbind (build_reported_notice_revision notice (int (length (es_history st)) + 1) previous)
                 (\<lambda>revision. case previous of
                    None \<Rightarrow> Inr (Append revision None)
                  | Some p \<Rightarrow> rbind (diff_revisions p revision) (\<lambda>d. Inr (Append revision (Some d))))
          of Inl e \<Rightarrow> Skipped | Inr decision \<Rightarrow> decision)"

fun materialize_event ::
  "str \<Rightarrow> offered_notice list \<Rightarrow> event_state \<Rightarrow> lifecycle_db \<Rightarrow> lifecycle_outcome
     \<Rightarrow> (lifecycle_db \<times> lifecycle_outcome) result" where
  "materialize_event event_id [] st db out = Inr (db, out)"
| "materialize_event event_id ((order, checksum, notice) # rest) st db out =
     (case decide st (order, checksum, notice) of
        Unchanged \<Rightarrow> materialize_event event_id rest st db (out\<lparr>lo_unchanged := lo_unchanged out + 1\<rparr>)
      | Skipped \<Rightarrow> materialize_event event_id rest st db (out\<lparr>lo_skipped := lo_skipped out + 1\<rparr>)
      | Append revision delta \<Rightarrow>
          let revision_id = revision_id_of event_id (rv_revision revision) in
          rbind (revision_insert db revision_id revision notice) (\<lambda>db1.
          rbind (case delta of None \<Rightarrow> Inr db1 | Some d \<Rightarrow> delta_insert db1 revision_id d) (\<lambda>db2.
            materialize_event event_id rest
              \<lparr>es_history = es_history st @ [revision], es_seen = checksum # es_seen st, es_latest = Some order\<rparr>
              db2
              (out\<lparr>lo_revisions := lo_revisions out + 1,
                   lo_deltas := lo_deltas out + (if delta = None then 0 else 1)\<rparr>))))"

definition offer_of :: "row \<Rightarrow> (str \<times> offered_notice) result" where
  "offer_of notice =
     rbind (event_id_of_notice notice) (\<lambda>event_id.
     rbind (checksum_of notice) (\<lambda>checksum.
     rbind (source_order_of notice) (\<lambda>order. Inr (event_id, order, checksum, notice))))"

text \<open>The events of the batch in the order of their identifiers, each from the rows that were stored
  when the batch began.\<close>

fun materialize_groups ::
  "lifecycle_row list \<Rightarrow> (str, offered_notice list) dict \<Rightarrow> str list \<Rightarrow> lifecycle_db \<Rightarrow> lifecycle_outcome
     \<Rightarrow> (lifecycle_db \<times> lifecycle_outcome) result" where
  "materialize_groups stored grouped [] db out = Inr (db, out)"
| "materialize_groups stored grouped (event_id # ids) db out =
     rbind (materialize_event event_id (sort_key fst (get_or grouped event_id [])) (load_event stored event_id) db out)
       (\<lambda>(db', out'). materialize_groups stored grouped ids db' out')"

definition materialize_reported_notice_rows ::
  "lifecycle_db \<Rightarrow> row list \<Rightarrow> (lifecycle_db \<times> lifecycle_outcome) result" where
  "materialize_reported_notice_rows db rows =
     (let offered = map offer_of rows;
          accepted = somes (map (\<lambda>r. case r of Inr x \<Rightarrow> Some x | Inl e \<Rightarrow> None) offered);
          skipped = int (length rows) - int (length accepted);
          grouped = foldl (\<lambda>d (event_id, n). push d event_id n) [] accepted
      in materialize_groups (ld_revisions db) grouped (sorted_set (map fst grouped)) db
           (no_outcome\<lparr>lo_skipped := skipped\<rparr>))"

section \<open>What the tables promise\<close>

definition rows_of :: "lifecycle_row list \<Rightarrow> str \<Rightarrow> lifecycle_row list" where
  "rows_of table e = filter (\<lambda>row. rv_event_id (lr_revision row) = e) table"

definition history_of :: "lifecycle_db \<Rightarrow> str \<Rightarrow> reported_revision list" where
  "history_of db e = map lr_revision (rows_of (ld_revisions db) e)"

definition deltas_of :: "lifecycle_db \<Rightarrow> str \<Rightarrow> revision_delta list" where
  "deltas_of db e = filter (\<lambda>d. rd_event_id d = e) (map dr_delta (ld_deltas db))"

text \<open>The revisions of an event are a history: numbered from one, each valid, and the delta table
  holds the difference of every two neighbours, in order.\<close>

definition history_kept :: "str \<Rightarrow> reported_revision list \<Rightarrow> bool" where
  "history_kept e h \<longleftrightarrow> h = [] \<or> history_valid \<lparr>lh_event_id = e, lh_revisions = h\<rparr>
     \<and> list_all (\<lambda>r. validate_revision r = Inr r) h"

definition lifecycle_tables :: "lifecycle_db \<Rightarrow> bool" where
  "lifecycle_tables db \<longleftrightarrow>
     (\<forall>e. history_kept e (history_of db e) \<and> diff_chain (history_of db e) = Inr (deltas_of db e))"

definition tracks :: "str \<Rightarrow> event_state \<Rightarrow> lifecycle_db \<Rightarrow> bool" where
  "tracks e st db \<longleftrightarrow> es_history st = history_of db e
     \<and> set (es_seen st) = rv_evidence_checksum ` set (history_of db e)
     \<and> es_latest st = (if rows_of (ld_revisions db) e = [] then None
                       else Some (Max (stored_source_order ` set (rows_of (ld_revisions db) e))))"

lemma history_numbers:
  assumes "history_kept e h"
  shows "map rv_revision h = [1 .. int (length h)]" "\<And>r. r \<in> set h \<Longrightarrow> rv_event_id r = e"
proof -
  show "map rv_revision h = [1 .. int (length h)]"
  proof (cases h)
    case (Cons r rs)
    with assms obtain ds where "rv_revision r = 1" "diff_chain (r # rs) = Inr ds"
      by (auto simp: history_kept_def history_valid_def validate_history_def res_simps split: if_splits)
    with diff_chain_shape [OF this(2)] Cons show ?thesis by simp
  qed simp
  show "rv_event_id r = e" if "r \<in> set h" for r
    using assms that
    by (auto simp: history_kept_def history_valid_def validate_history_def res_simps split: list.splits if_splits)
qed

lemma loaded_in_order:
  assumes "history_kept e (map lr_revision (rows_of table e))"
  shows "sort_key (\<lambda>row. rv_revision (lr_revision row)) (rows_of table e) = rows_of table e"
proof (rule sort_key_id_if_sorted)
  have "map (\<lambda>row. rv_revision (lr_revision row)) (rows_of table e) = [1 .. int (length (rows_of table e))]"
    using history_numbers(1) [OF assms] by (simp add: comp_def)
  then show "sorted (map (\<lambda>row. rv_revision (lr_revision row)) (rows_of table e))" by simp
qed

lemma load_tracks:
  assumes "history_kept e (history_of db e)"
  shows "tracks e (load_event (ld_revisions db) e) db"
  using loaded_in_order assms
  by (auto simp: tracks_def load_event_def Let_def history_of_def rows_of_def image_image)

section \<open>One notice\<close>

lemma offer_facts:
  assumes "offer_of n = Inr (e, order, checksum, n')"
  shows "n' = n" "event_id_of_notice n = Inr e" "checksum_of n = Inr checksum" "source_order_of n = Inr order"
  using assms by (auto simp: offer_of_def res_simps)

lemma built_facts:
  assumes "build_reported_notice_revision n k p = Inr r" and "event_id_of_notice n = Inr e" and "checksum_of n = Inr c"
  shows "validate_revision r = Inr r" "rv_event_id r = e" "rv_revision r = k" "rv_evidence_checksum r = c"
    "aware_time n ''published_at'' = Inr (rv_published_at r)"
    "\<exists>s. required_text n ''source_record_id'' = Inr s"
proof -
  have "\<exists>x. validate_revision x = Inr r \<and> rv_event_id x = e \<and> rv_revision x = k \<and> rv_evidence_checksum x = c
      \<and> aware_time n ''published_at'' = Inr (rv_published_at x) \<and> (\<exists>s. required_text n ''source_record_id'' = Inr s)"
    using assms unfolding build_reported_notice_revision_def Let_def
    by (clarsimp simp: res_simps guard_eq_Inr split: prod.splits) (intro exI conjI, assumption, simp_all)
  then obtain x where x: "validate_revision x = Inr r" "rv_event_id x = e" "rv_revision x = k" "rv_evidence_checksum x = c"
    "aware_time n ''published_at'' = Inr (rv_published_at x)" "\<exists>s. required_text n ''source_record_id'' = Inr s" by blast
  from x(1) have "r = x" by (auto simp: validate_revision_def res_simps guard_eq_Inr split: if_splits)
  with x show "validate_revision r = Inr r" "rv_event_id r = e" "rv_revision r = k" "rv_evidence_checksum r = c"
    "aware_time n ''published_at'' = Inr (rv_published_at r)"
    "\<exists>s. required_text n ''source_record_id'' = Inr s" by simp_all
qed

lemma valid_row_ok: "validate_revision r = Inr r \<Longrightarrow> lr_revision row = r \<Longrightarrow> lifecycle_row_ok row"
  by (auto simp: validate_revision_def lifecycle_row_ok_def Let_def res_simps split: if_splits option.splits)

text \<open>The insert of a revision that no row has yet: nothing it reads can be missing any more.\<close>

lemma revision_insert_new:
  assumes "event_id_of_notice n = Inr e" and "source_order_of n = Inr order" and "checksum_of n = Inr (rv_evidence_checksum r)"
    and "aware_time n ''published_at'' = Inr (rv_published_at r)" and "required_text n ''source_record_id'' = Inr s"
    and "validate_revision r = Inr r" and "(rv_event_id r, rv_revision r) \<notin> lifecycle_identity ` set (ld_revisions db)"
  shows "\<exists>row. revision_insert db i r n = Inr (db\<lparr>ld_revisions := ld_revisions db @ [row]\<rparr>)
    \<and> lr_revision row = r \<and> stored_source_order row = order"
proof -
  obtain p source_id where p: "source_notice_payload n = Inr p" "required_text n ''source_id'' = Inr source_id"
    using assms(1,2,5) by (auto simp: event_id_of_notice_def source_order_of_def source_notice_payload_def Let_def res_simps)
  let ?row = "\<lparr>lr_id = i, lr_revision = r, lr_source_ids = [source_id], lr_source_notice = p\<rparr>"
  have ok: "lifecycle_row_ok ?row" using valid_row_ok [OF assms(6)] by simp
  have "lifecycle_identity ?row \<notin> lifecycle_identity ` set (ld_revisions db)"
    using assms(7) by (simp add: lifecycle_identity_def)
  with ok p have ins: "revision_insert db i r n = Inr (db\<lparr>ld_revisions := ld_revisions db @ [?row]\<rparr>)"
    by (simp add: revision_insert_def insert_rows_def)
  have order: "stored_source_order ?row = order"
    using assms(2,3,4) p(1)
    by (auto simp: stored_source_order_def source_order_of_def source_notice_payload_def Let_def res_simps
        split: prod.splits)
  from ins order show ?thesis by (intro exI [of _ ?row]) simp
qed

lemma delta_ids:
  "diff_revisions p c = Inr d \<Longrightarrow>
     rd_event_id d = rv_event_id c \<and> rd_from_revision d = rv_revision p \<and> rd_to_revision d = rv_revision c
     \<and> 1 \<le> rd_from_revision d"
  by (auto simp: diff_revisions_def validate_delta_def res_simps split: if_splits)

lemma diff_chain_snoc:
  "rs \<noteq> [] \<Longrightarrow> diff_chain rs = Inr ds \<Longrightarrow> diff_revisions (last rs) r = Inr d \<Longrightarrow>
     diff_chain (rs @ [r]) = Inr (ds @ [d])"
  by (induction rs arbitrary: ds rule: diff_chain.induct) (auto simp: res_simps)

lemma diff_chain_targets:
  "diff_chain (x # rs) = Inr ds \<Longrightarrow> d \<in> set ds \<Longrightarrow> \<exists>c \<in> set rs. rd_to_revision d = rv_revision c"
  by (induction rs arbitrary: x ds) (auto simp: res_simps dest!: delta_ids, metis+)

lemma delta_insert_new:
  assumes "diff_revisions p r = Inr d"
    and "\<And>x. x \<in> set (deltas_of db (rd_event_id d)) \<Longrightarrow> rd_to_revision x \<noteq> rd_to_revision d"
  shows "\<exists>row. delta_insert db i d = Inr (db\<lparr>ld_deltas := ld_deltas db @ [row]\<rparr>) \<and> dr_delta row = d"
proof -
  let ?row = "\<lparr>dr_id = uuid5 DELTA_NAMESPACE (rd_event_id d @ '':'' @ str_of_int (rd_from_revision d) @ '':''
      @ str_of_int (rd_to_revision d)), dr_event_revision_id = i, dr_delta = d\<rparr>"
  have "delta_row_ok ?row"
    using delta_ids [OF assms(1)] assms(1) by (auto simp: delta_row_ok_def dest: diff_revisions_Inr(2))
  moreover have "delta_identity ?row \<notin> delta_identity ` set (ld_deltas db)"
  proof
    assume "delta_identity ?row \<in> delta_identity ` set (ld_deltas db)"
    then obtain q where "q \<in> set (ld_deltas db)" "rd_event_id (dr_delta q) = rd_event_id d"
      "rd_to_revision (dr_delta q) = rd_to_revision d"
      by (auto simp: delta_identity_def)
    then have "dr_delta q \<in> set (deltas_of db (rd_event_id d))" by (simp add: deltas_of_def)
    with assms(2) \<open>rd_to_revision (dr_delta q) = rd_to_revision d\<close> show False by blast
  qed
  ultimately show ?thesis
    by (intro exI [of _ ?row]) (simp add: delta_insert_def insert_rows_def)
qed

lemma decide_append:
  assumes "decide st (order, checksum, n) = Append r delta"
  shows "checksum \<notin> set (es_seen st)" "\<And>latest. es_latest st = Some latest \<Longrightarrow> latest \<le> order"
    "build_reported_notice_revision n (int (length (es_history st)) + 1) (previous_revision st) = Inr r"
    "\<And>p. previous_revision st = Some p \<Longrightarrow> \<not> terminal (rv_status p)"
    "case previous_revision st of None \<Rightarrow> delta = None | Some p \<Rightarrow> (\<exists>d. delta = Some d \<and> diff_revisions p r = Inr d)"
proof -
  have g: "\<not> checksum \<in> set (es_seen st)" "\<not> (\<exists>latest. es_latest st = Some latest \<and> order < latest)"
    "\<not> (\<exists>p. previous_revision st = Some p \<and> terminal (rv_status p))"
    "rbind (build_reported_notice_revision n (int (length (es_history st)) + 1) (previous_revision st))
       (\<lambda>revision. case previous_revision st of None \<Rightarrow> Inr (Append revision None)
          | Some p \<Rightarrow> rbind (diff_revisions p revision) (\<lambda>d. Inr (Append revision (Some d)))) = Inr (Append r delta)"
    using assms unfolding decide_def Let_def prod.case by (auto split: if_split_asm sum.split_asm)
  show "checksum \<notin> set (es_seen st)" using g(1) .
  show "latest \<le> order" if "es_latest st = Some latest" for latest using g(2) that by auto
  show "\<not> terminal (rv_status p)" if "previous_revision st = Some p" for p using g(3) that by auto
  show "build_reported_notice_revision n (int (length (es_history st)) + 1) (previous_revision st) = Inr r"
    "case previous_revision st of None \<Rightarrow> delta = None | Some p \<Rightarrow> (\<exists>d. delta = Some d \<and> diff_revisions p r = Inr d)"
    using g(4) by (auto simp: res_simps split: option.split_asm)
qed

lemma history_grows:
  assumes "history_kept e h" and "diff_chain h = Inr ds" and "validate_revision r = Inr r" and "rv_event_id r = e"
    and "rv_revision r = int (length h) + 1"
    and "case (if h = [] then None else Some (last h)) of None \<Rightarrow> delta = None
         | Some p \<Rightarrow> (\<exists>d. delta = Some d \<and> diff_revisions p r = Inr d)"
  shows "history_kept e (h @ [r])" "diff_chain (h @ [r]) = Inr (ds @ somes [delta])"
proof -
  have e: "e \<noteq> []" using assms(3,4) by (auto simp: validate_revision_def res_simps)
  show chain: "diff_chain (h @ [r]) = Inr (ds @ somes [delta])"
  proof (cases "h = []")
    case False
    with assms(6) obtain d where "delta = Some d" "diff_revisions (last h) r = Inr d" by auto
    with diff_chain_snoc [OF False assms(2)] show ?thesis by simp
  qed (use assms(2,6) in simp)
  have "history_valid \<lparr>lh_event_id = e, lh_revisions = h @ [r]\<rparr>"
  proof (cases h)
    case Nil
    then show ?thesis using assms(4,5) e by (simp add: history_valid_def validate_history_def)
  next
    case (Cons x xs)
    with assms(1) have "rv_revision x = 1" "\<forall>y \<in> set h. rv_event_id y = e"
      using history_numbers(2) by (auto simp: history_kept_def history_valid_def validate_history_def res_simps split: if_splits)
    with Cons chain assms(4) e show ?thesis by (auto simp: history_valid_def validate_history_def res_simps)
  qed
  moreover have "list_all (\<lambda>r. validate_revision r = Inr r) (h @ [r])"
    using assms(1,3) by (auto simp: history_kept_def)
  ultimately show "history_kept e (h @ [r])" by (simp add: history_kept_def)
qed

definition grown :: "event_state \<Rightarrow> reported_revision \<Rightarrow> str \<Rightarrow> source_order \<Rightarrow> event_state" where
  "grown st r checksum order =
     \<lparr>es_history = es_history st @ [r], es_seen = checksum # es_seen st, es_latest = Some order\<rparr>"

lemma rows_of_append: "rows_of (table @ new) e = rows_of table e @ rows_of new e"
  by (simp add: rows_of_def)

lemma rows_of_single: "rows_of [row] e = (if rv_event_id (lr_revision row) = e then [row] else [])"
  by (simp add: rows_of_def)

lemma append_step:
  assumes tables: "lifecycle_tables db" and "tracks e st db" and "offer_of n = Inr (e, order, checksum, n)"
    and "decide st (order, checksum, n) = Append r delta"
  shows "\<exists>row db2.
      rbind (revision_insert db i r n) (\<lambda>db1. case delta of None \<Rightarrow> Inr db1 | Some d \<Rightarrow> delta_insert db1 i d) = Inr db2
      \<and> ld_revisions db2 = ld_revisions db @ [row] \<and> lr_revision row = r \<and> rv_event_id r = e
      \<and> lifecycle_tables db2 \<and> tracks e (grown st r checksum order) db2
      \<and> (\<exists>dnew. ld_deltas db2 = ld_deltas db @ dnew)"
proof -
  note o = offer_facts [OF assms(3)] and a = decide_append [OF assms(4)]
  note b = built_facts [OF a(3) o(2,3)]
  from b(6) obtain s where s: "required_text n ''source_record_id'' = Inr s" by blast
  let ?h = "history_of db e"
  have h: "es_history st = ?h" and kept: "history_kept e ?h" and chain: "diff_chain ?h = Inr (deltas_of db e)"
    using assms(2) tables by (simp_all add: tracks_def lifecycle_tables_def)
  have k: "rv_revision r = int (length ?h) + 1" using b(3) h by simp
  have prev: "previous_revision st = (if ?h = [] then None else Some (last ?h))"
    by (simp add: previous_revision_def h)
  note g = history_grows [OF kept chain b(1,2) k a(5) [unfolded prev]]
  have upper: "rv_revision x \<le> int (length ?h)" if "x \<in> set ?h" for x
  proof -
    from that have "rv_revision x \<in> set (map rv_revision ?h)" by simp
    then show ?thesis by (simp add: history_numbers(1) [OF kept])
  qed
  have fresh: "(rv_event_id r, rv_revision r) \<notin> lifecycle_identity ` set (ld_revisions db)"
  proof
    assume "(rv_event_id r, rv_revision r) \<in> lifecycle_identity ` set (ld_revisions db)"
    then obtain q where q: "q \<in> set (ld_revisions db)" "rv_event_id (lr_revision q) = e"
      "rv_revision (lr_revision q) = rv_revision r"
      by (auto simp: lifecycle_identity_def b(2))
    then have "lr_revision q \<in> set ?h" by (simp add: history_of_def rows_of_def)
    from upper [OF this] q(3) k show False by simp
  qed
  obtain row where row: "revision_insert db i r n = Inr (db\<lparr>ld_revisions := ld_revisions db @ [row]\<rparr>)"
    "lr_revision row = r" "stored_source_order row = order"
    using revision_insert_new [OF o(2,4) _ b(5) s b(1) fresh] o(3) b(4) by auto
  let ?db1 = "db\<lparr>ld_revisions := ld_revisions db @ [row]\<rparr>"
  have "\<exists>db2. (case delta of None \<Rightarrow> Inr ?db1 | Some d \<Rightarrow> delta_insert ?db1 i d) = Inr db2
      \<and> ld_revisions db2 = ld_revisions db @ [row] \<and> map dr_delta (ld_deltas db2) = map dr_delta (ld_deltas db) @ somes [delta]
      \<and> (\<exists>dnew. ld_deltas db2 = ld_deltas db @ dnew) \<and> (\<forall>d. delta = Some d \<longrightarrow> rd_event_id d = e)"
  proof (cases delta)
    case None
    then show ?thesis by (intro exI [of _ ?db1]) simp
  next
    case (Some d)
    with a(5) prev obtain p where p: "diff_revisions p r = Inr d" "?h \<noteq> []"
      by (auto split: option.splits if_splits)
    note ids = delta_ids [OF p(1)]
    have "rd_to_revision x \<noteq> rd_to_revision d" if "x \<in> set (deltas_of ?db1 (rd_event_id d))" for x
    proof -
      from that ids b(2) have "x \<in> set (deltas_of db e)" by (simp add: deltas_of_def)
      moreover obtain y ys where ys: "?h = y # ys" using p(2) by (cases ?h) auto
      ultimately obtain c where "c \<in> set ys" "rd_to_revision x = rv_revision c"
        using diff_chain_targets chain by metis
      with upper [of c] ys ids k show ?thesis by auto
    qed
    from delta_insert_new [OF p(1) this, where i = i] obtain q where
      "delta_insert ?db1 i d = Inr (?db1\<lparr>ld_deltas := ld_deltas ?db1 @ [q]\<rparr>)" "dr_delta q = d" by blast
    with Some ids b(2) show ?thesis by simp
  qed
  then obtain db2 where db2: "(case delta of None \<Rightarrow> Inr ?db1 | Some d \<Rightarrow> delta_insert ?db1 i d) = Inr db2"
    "ld_revisions db2 = ld_revisions db @ [row]"
    "map dr_delta (ld_deltas db2) = map dr_delta (ld_deltas db) @ somes [delta]"
    "\<exists>dnew. ld_deltas db2 = ld_deltas db @ dnew" "\<forall>d. delta = Some d \<longrightarrow> rd_event_id d = e" by blast
  have rows: "rows_of (ld_revisions db2) e' = rows_of (ld_revisions db) e' @ (if e' = e then [row] else [])" for e'
    using db2(2) row(2) b(2) by (auto simp: rows_of_append rows_of_single)
  then have hist: "history_of db2 e' = history_of db e' @ (if e' = e then [r] else [])" for e'
    using row(2) by (simp add: history_of_def)
  have del: "deltas_of db2 e' = deltas_of db e' @ (if e' = e then somes [delta] else [])" for e'
    using db2(3,5) by (cases delta) (auto simp: deltas_of_def)
  have "lifecycle_tables db2"
    unfolding lifecycle_tables_def
  proof
    fix e'
    show "history_kept e' (history_of db2 e') \<and> diff_chain (history_of db2 e') = Inr (deltas_of db2 e')"
      using g tables by (cases "e' = e") (simp_all add: hist del lifecycle_tables_def)
  qed
  moreover have "tracks e (grown st r checksum order) db2"
  proof -
    let ?R = "rows_of (ld_revisions db) e"
    have "x \<le> order" if "x \<in> stored_source_order ` set (?R @ [row])" for x
    proof (cases "?R = []")
      case False
      with assms(2) have "es_latest st = Some (Max (stored_source_order ` set ?R))" by (simp add: tracks_def)
      from a(2) [OF this] have "Max (stored_source_order ` set ?R) \<le> order" .
      with False row(3) that show ?thesis by auto
    qed (use row(3) that in simp)
    then have "Max (stored_source_order ` set (?R @ [row])) = order"
      using row(3) by (intro Max_eqI) auto
    moreover have "checksum = rv_evidence_checksum r" using b(4) by simp
    ultimately show ?thesis
      using assms(2) by (simp add: tracks_def grown_def rows hist)
  qed
  ultimately show ?thesis using row(1,2) b(2) db2(1,2,4) by (intro exI [of _ row] exI [of _ db2]) simp
qed

section \<open>All the notices of an event\<close>

definition offers_for :: "str \<Rightarrow> offered_notice list \<Rightarrow> bool" where
  "offers_for e notices \<longleftrightarrow> (\<forall>x \<in> set notices. offer_of (snd (snd x)) = Inr (e, x))"

lemma offers_for_Cons:
  "offers_for e ((order, checksum, n) # rest) \<longleftrightarrow> offer_of n = Inr (e, order, checksum, n) \<and> offers_for e rest"
  by (simp add: offers_for_def)

definition counted :: "lifecycle_outcome \<Rightarrow> int" where
  "counted out = lo_revisions out + lo_unchanged out + lo_skipped out"

text \<open>The tables only grow, and only with rows of the event.\<close>

definition grows_for :: "(str \<Rightarrow> bool) \<Rightarrow> lifecycle_db \<Rightarrow> lifecycle_db \<Rightarrow> int \<Rightarrow> bool" where
  "grows_for P db db' n \<longleftrightarrow> (\<exists>new. ld_revisions db' = ld_revisions db @ new \<and> int (length new) = n
      \<and> (\<forall>row \<in> set new. P (rv_event_id (lr_revision row))))
     \<and> (\<exists>dnew. ld_deltas db' = ld_deltas db @ dnew)"

lemma grows_for_refl: "grows_for P db db 0"
  by (simp add: grows_for_def)

lemma grows_for_trans:
  "grows_for P db db1 n \<Longrightarrow> grows_for Q db1 db2 m \<Longrightarrow> (\<And>e. P e \<or> Q e \<Longrightarrow> R e) \<Longrightarrow> grows_for R db db2 (n + m)"
  by (auto simp: grows_for_def)

lemma grows_for_others: "grows_for P db db' n \<Longrightarrow> \<not> P e \<Longrightarrow> rows_of (ld_revisions db') e = rows_of (ld_revisions db) e"
  by (auto simp: grows_for_def rows_of_def filter_empty_conv)

text \<open>No notice of a list would be appended in a state; then the state says so for ever.\<close>

definition settled :: "event_state \<Rightarrow> offered_notice list \<Rightarrow> bool" where
  "settled st notices \<longleftrightarrow> (\<forall>offered \<in> set notices. decide st offered = Unchanged \<or> decide st offered = Skipped)"

lemma settled_Append: "settled st notices \<longleftrightarrow> (\<forall>offered \<in> set notices. \<forall>r d. decide st offered \<noteq> Append r d)"
  unfolding settled_def by (intro ball_cong refl) (metis notice_decision.distinct(3,5) notice_decision.exhaust)

lemma order_has_checksum:
  "offer_of n = Inr (e, order, checksum, n') \<Longrightarrow> checksum = snd (snd (snd (snd (snd order))))"
  by (cases "order_prefix (row_value n ''revision_number'')") (auto simp: offer_of_def source_order_of_def res_simps)

lemma decide_settled_step:
  assumes "decide st x = Unchanged \<or> decide st x = Skipped" and "fst x \<le> order"
    and "offer_of n = Inr (e, order, checksum, n)" and "decide st (order, checksum, n) = Append r delta"
    and "offer_of (snd (snd x)) = Inr (e, x)"
  shows "decide (grown st r checksum order) x = Unchanged \<or> decide (grown st r checksum order) x = Skipped"
proof -
  obtain o1 c1 n1 where x: "x = (o1, c1, n1)" by (cases x)
  let ?st = "grown st r checksum order"
  note a = decide_append [OF assms(4)]
  have same: "c1 = checksum" if "o1 = order"
    using order_has_checksum [OF assms(3)] order_has_checksum [of n1 e o1 c1 n1] assms(5) that x by simp
  have "decide ?st x = Skipped" if "c1 \<notin> set (es_seen ?st)" "o1 < order"
    using that x by (simp add: decide_def grown_def)
  moreover have "decide ?st x = Unchanged" if "c1 \<in> set (es_seen ?st)"
    using that x by (simp add: decide_def)
  moreover have "o1 < order \<or> o1 = order" using assms(2) x by auto
  ultimately show ?thesis using same by (auto simp: grown_def)
qed

lemma materialize_event_runs:
  assumes "lifecycle_tables db" and "tracks e st db" and "offers_for e (past @ notices)" and "sorted (map fst (past @ notices))"
    and "settled st past"
  shows "\<exists>db' out' st'. materialize_event e notices st db out = Inr (db', out') \<and> lifecycle_tables db'
    \<and> tracks e st' db' \<and> settled st' (past @ notices)
    \<and> grows_for (\<lambda>x. x = e) db db' (lo_revisions out' - lo_revisions out)
    \<and> counted out' = counted out + int (length notices)"
  using assms
proof (induction notices arbitrary: past st db out)
  case Nil
  then show ?case using grows_for_refl [of "\<lambda>x. x = e" db] by auto
next
  case (Cons x notices)
  obtain order checksum n where x: "x = (order, checksum, n)" by (cases x)
  have offer: "offer_of n = Inr (e, order, checksum, n)" using Cons.prems(3) x by (simp add: offers_for_def)
  have split: "past @ x # notices = (past @ [x]) @ notices" by simp
  show ?case
  proof (cases "decide st x")
    case Unchanged
    then have "settled st (past @ [x])" using Cons.prems(5) by (auto simp: settled_def)
    from Cons.IH [OF Cons.prems(1,2) Cons.prems(3,4) [unfolded split] this,
        of "out\<lparr>lo_unchanged := lo_unchanged out + 1\<rparr>"] Unchanged x
    show ?thesis by (auto simp: counted_def)
  next
    case Skipped
    then have "settled st (past @ [x])" using Cons.prems(5) by (auto simp: settled_def)
    from Cons.IH [OF Cons.prems(1,2) Cons.prems(3,4) [unfolded split] this,
        of "out\<lparr>lo_skipped := lo_skipped out + 1\<rparr>"] Skipped x
    show ?thesis by (auto simp: counted_def)
  next
    case (Append r delta)
    let ?i = "revision_id_of e (rv_revision r)" and ?st = "grown st r checksum order"
    from append_step [OF Cons.prems(1,2) offer Append [unfolded x], of ?i] obtain row db2 where
      s: "rbind (revision_insert db ?i r n) (\<lambda>db1. case delta of None \<Rightarrow> Inr db1 | Some d \<Rightarrow> delta_insert db1 ?i d) = Inr db2"
      "ld_revisions db2 = ld_revisions db @ [row]" "lr_revision row = r" "rv_event_id r = e"
      "lifecycle_tables db2" "tracks e ?st db2" "\<exists>dnew. ld_deltas db2 = ld_deltas db @ dnew" by blast
    then obtain db1 where db1: "revision_insert db ?i r n = Inr db1"
      "(case delta of None \<Rightarrow> Inr db1 | Some d \<Rightarrow> delta_insert db1 ?i d) = Inr db2" by (auto simp: res_simps)
    let ?out = "out\<lparr>lo_revisions := lo_revisions out + 1, lo_deltas := lo_deltas out + (if delta = None then 0 else 1)\<rparr>"
    have step: "materialize_event e (x # notices) st db out = materialize_event e notices ?st db2 ?out"
      using Append x db1 by (simp add: Let_def grown_def)
    have one: "grows_for (\<lambda>x. x = e) db db2 1"
      using s(2-4,7) by (simp add: grows_for_def)
    have "settled ?st (past @ [x])"
    proof -
      have "decide ?st y = Unchanged \<or> decide ?st y = Skipped" if y: "y \<in> set past" for y
      proof (rule decide_settled_step [OF _ _ offer Append [unfolded x]])
        show "decide st y = Unchanged \<or> decide st y = Skipped" using Cons.prems(5) y by (simp add: settled_def)
        show "fst y \<le> order" using Cons.prems(4) y x by (auto simp: sorted_append)
        show "offer_of (snd (snd y)) = Inr (e, y)"
          using Cons.prems(3) y by (simp add: offers_for_def)
      qed
      moreover have "decide ?st x = Unchanged" using x by (simp add: decide_def grown_def)
      ultimately show ?thesis by (auto simp: settled_def)
    qed
    from Cons.IH [OF s(5,6) Cons.prems(3,4) [unfolded split] this, of ?out]
    obtain db' out' st' where r: "materialize_event e notices ?st db2 ?out = Inr (db', out')"
      "lifecycle_tables db'" "tracks e st' db'" "settled st' ((past @ [x]) @ notices)"
      "grows_for (\<lambda>x. x = e) db2 db' (lo_revisions out' - lo_revisions ?out)"
      "counted out' = counted ?out + int (length notices)" by blast
    from grows_for_trans [OF one r(5), of "\<lambda>x. x = e"] have "grows_for (\<lambda>x. x = e) db db' (lo_revisions out' - lo_revisions out)"
      by simp
    with r step show ?thesis by (auto simp: counted_def)
  qed
qed

text \<open>What is decided depends on the history, the set of checksums and the latest order only.\<close>

lemma decide_tracks:
  assumes "tracks e st db" and "tracks e st' db"
  shows "decide st x = decide st' x"
proof -
  obtain order checksum n where x: "x = (order, checksum, n)" by (cases x)
  have "es_history st = es_history st'" "set (es_seen st) = set (es_seen st')" "es_latest st = es_latest st'"
    using assms by (simp_all add: tracks_def)
  then show ?thesis by (simp add: decide_def previous_revision_def x Let_def cong: if_cong)
qed

lemma settled_nothing:
  "settled st notices \<Longrightarrow> \<exists>out'. materialize_event e notices st db out = Inr (db, out')
     \<and> lo_revisions out' = lo_revisions out \<and> lo_deltas out' = lo_deltas out"
proof (induction notices arbitrary: out)
  case (Cons x notices)
  obtain order checksum n where x: "x = (order, checksum, n)" by (cases x)
  from Cons.prems have "settled st notices" "decide st x = Unchanged \<or> decide st x = Skipped" by (auto simp: settled_def)
  with Cons.IH [of "out\<lparr>lo_unchanged := lo_unchanged out + 1\<rparr>"] Cons.IH [of "out\<lparr>lo_skipped := lo_skipped out + 1\<rparr>"] x
  show ?case by auto
qed simp

section \<open>All the events of a batch\<close>

lemma tracks_cong:
  "rows_of (ld_revisions db) e = rows_of (ld_revisions db') e \<Longrightarrow> tracks e st db = tracks e st db'"
  by (simp add: tracks_def history_of_def)

lemma load_event_cong: "rows_of table e = rows_of table' e \<Longrightarrow> load_event table e = load_event table' e"
  by (simp add: load_event_def rows_of_def)

lemma sort_key_sorted_map: "sorted (map fst (sort_key fst xs))"
  by (rule sorted_sort_key)

lemma offers_for_sort: "offers_for e (sort_key fst xs) = offers_for e xs"
  by (simp add: offers_for_def)

definition settled_in :: "lifecycle_db \<Rightarrow> (str, offered_notice list) dict \<Rightarrow> str \<Rightarrow> bool" where
  "settled_in db grouped e \<longleftrightarrow> (\<exists>st. tracks e st db \<and> settled st (sort_key fst (get_or grouped e [])))"

lemma materialize_groups_runs:
  assumes "lifecycle_tables db" and "distinct ids"
    and "\<And>e. e \<in> set ids \<Longrightarrow> rows_of stored e = rows_of (ld_revisions db) e"
    and "\<And>e. e \<in> set ids \<Longrightarrow> offers_for e (get_or grouped e [])"
  shows "\<exists>db' out'. materialize_groups stored grouped ids db out = Inr (db', out') \<and> lifecycle_tables db'
    \<and> grows_for (\<lambda>e. e \<in> set ids) db db' (lo_revisions out' - lo_revisions out)
    \<and> counted out' = counted out + int (sum_list (map (\<lambda>e. length (get_or grouped e [])) ids))
    \<and> (\<forall>e \<in> set ids. settled_in db' grouped e)"
  using assms
proof (induction ids arbitrary: db out)
  case Nil
  then show ?case using grows_for_refl [of _ db] by auto
next
  case (Cons e ids)
  let ?provided = "sort_key fst (get_or grouped e [])"
  have "load_event stored e = load_event (ld_revisions db) e"
    using Cons.prems(3) by (intro load_event_cong) simp
  moreover have "history_kept e (history_of db e)" using Cons.prems(1) by (simp add: lifecycle_tables_def)
  ultimately have tracked: "tracks e (load_event stored e) db" by (simp add: load_tracks)
  have provided: "offers_for e ([] @ ?provided)" using Cons.prems(4) [of e] by (simp add: offers_for_sort)
  from materialize_event_runs [OF Cons.prems(1) tracked provided, of out]
  obtain db1 out1 st where one: "materialize_event e ?provided (load_event stored e) db out = Inr (db1, out1)"
    "lifecycle_tables db1" "tracks e st db1" "settled st ?provided"
    "grows_for (\<lambda>x. x = e) db db1 (lo_revisions out1 - lo_revisions out)"
    "counted out1 = counted out + int (length ?provided)"
    by (auto simp: settled_def sort_key_sorted_map)
  have same: "rows_of (ld_revisions db1) e' = rows_of (ld_revisions db) e'" if "e' \<noteq> e" for e'
    using grows_for_others [OF one(5)] that by simp
  have rest: "rows_of stored e' = rows_of (ld_revisions db1) e'" if "e' \<in> set ids" for e'
    using that Cons.prems(2,3) same by (metis distinct.simps(2) list.set_intros(2))
  have "distinct ids" and more: "\<And>e'. e' \<in> set ids \<Longrightarrow> offers_for e' (get_or grouped e' [])"
    using Cons.prems(2,4) by simp_all
  from Cons.IH [OF one(2) this(1) rest more, of out1]
  obtain db2 out2 where two: "materialize_groups stored grouped ids db1 out1 = Inr (db2, out2)"
    "lifecycle_tables db2" "grows_for (\<lambda>e. e \<in> set ids) db1 db2 (lo_revisions out2 - lo_revisions out1)"
    "counted out2 = counted out1 + int (sum_list (map (\<lambda>e. length (get_or grouped e [])) ids))"
    "\<forall>e \<in> set ids. settled_in db2 grouped e" by blast
  have "tracks e st db2"
    using one(3) Cons.prems(2) tracks_cong [OF grows_for_others [OF two(3)]] by simp
  with one(4) have "settled_in db2 grouped e" by (auto simp: settled_in_def)
  moreover have "grows_for (\<lambda>x. x \<in> set (e # ids)) db db2 (lo_revisions out2 - lo_revisions out)"
    using grows_for_trans [OF one(5) two(3), of "\<lambda>x. x \<in> set (e # ids)"] by simp
  ultimately show ?case using one(1,6) two by simp
qed

lemma materialize_groups_nothing:
  assumes "\<And>e. e \<in> set ids \<Longrightarrow> settled (load_event stored e) (sort_key fst (get_or grouped e []))"
  shows "\<exists>out'. materialize_groups stored grouped ids db out = Inr (db, out')
    \<and> lo_revisions out' = lo_revisions out \<and> lo_deltas out' = lo_deltas out"
  using assms
proof (induction ids arbitrary: out)
  case (Cons e ids)
  from settled_nothing [OF Cons.prems [of e], of e db out] obtain out1 where
    one: "materialize_event e (sort_key fst (get_or grouped e [])) (load_event stored e) db out = Inr (db, out1)"
      "lo_revisions out1 = lo_revisions out" "lo_deltas out1 = lo_deltas out" by auto
  from Cons.IH [of out1] Cons.prems obtain out2 where "materialize_groups stored grouped ids db out1 = Inr (db, out2)"
    "lo_revisions out2 = lo_revisions out1" "lo_deltas out2 = lo_deltas out1" by auto
  with one show ?case by simp
qed simp

definition group_offers :: "(str \<times> offered_notice) list \<Rightarrow> (str, offered_notice list) dict" where
  "group_offers accepted = foldl (\<lambda>d (event_id, n). push d event_id n) [] accepted"

lemma group_offers_get: "get_or (group_offers accepted) e [] = map snd (filter (\<lambda>x. fst x = e) accepted)"
proof -
  have "get_or (foldl (\<lambda>d (event_id, n). push d event_id n) d accepted) e []
      = get_or d e [] @ map snd (filter (\<lambda>x. fst x = e) accepted)" for d
    by (induction accepted arbitrary: d) (auto simp: get_or_push split: prod.splits)
  then show ?thesis by (simp add: group_offers_def)
qed

lemma keys_push: "fst ` set (push d k v) = insert k (fst ` set d)"
  by (auto simp: push_def keys_store)

lemma group_offers_keys: "set (map fst (group_offers accepted)) = fst ` set accepted"
proof -
  have "fst ` set (foldl (\<lambda>d (event_id, n). push d event_id n) d accepted) = fst ` set d \<union> fst ` set accepted" for d
  proof (induction accepted arbitrary: d)
    case (Cons x xs)
    obtain e n where "x = (e, n)" by (cases x)
    with Cons.IH [of "push d e n"] show ?case by (simp add: keys_push)
  qed simp
  then show ?thesis by (simp add: group_offers_def)
qed

lemma group_sizes: "sum_list (map (\<lambda>e. length (get_or (group_offers accepted) e [])) (sorted_set (map fst (group_offers accepted))))
    = length accepted"
proof -
  let ?ids = "sorted_set (map fst (group_offers accepted))"
  have d: "distinct ?ids" and s: "set ?ids = fst ` set accepted"
    using group_offers_keys [of accepted] by (simp_all add: sorted_set_def)
  have count: "finite A \<Longrightarrow> fst ` set xs \<subseteq> A \<Longrightarrow> (\<Sum>e \<in> A. length (filter (\<lambda>x. fst x = e) xs)) = length xs"
    for A and xs :: "(str \<times> offered_notice) list"
  proof (induction xs)
    case (Cons x xs)
    have "(\<Sum>e \<in> A. length (filter (\<lambda>x. fst x = e) (x # xs)))
        = (\<Sum>e \<in> A. (if fst x = e then 1 else 0) + length (filter (\<lambda>x. fst x = e) xs))"
      by (intro sum.cong) auto
    also have "\<dots> = 1 + length xs" using Cons by (simp add: sum.distrib)
    finally show ?case by simp
  qed simp
  show ?thesis
    using count [of "set ?ids" accepted] d s
    by (simp add: group_offers_get sum_list_distinct_conv_sum_set)
qed

lemma accepted_offers:
  assumes "(e, x) \<in> set (somes (map (\<lambda>r. case r of Inr x \<Rightarrow> Some x | Inl e \<Rightarrow> None) (map offer_of rows)))"
  shows "offer_of (snd (snd x)) = Inr (e, x)"
proof -
  from assms obtain n where n: "offer_of n = Inr (e, x)" by (auto split: sum.splits)
  obtain order checksum n' where x: "x = (order, checksum, n')" by (cases x)
  with n offer_facts(1) [of n e order checksum n'] show ?thesis by simp
qed

lemma in_group: "x \<in> set (map snd (filter (\<lambda>p. fst p = e) ps)) \<Longrightarrow> (e, x) \<in> set ps"
  by (induction ps) (auto split: if_splits)

lemma materialize_runs:
  assumes "lifecycle_tables db"
  shows "\<exists>db' out. materialize_reported_notice_rows db rows = Inr (db', out) \<and> lifecycle_tables db'
    \<and> grows_for (\<lambda>e. True) db db' (lo_revisions out) \<and> counted out = int (length rows)
    \<and> (\<exists>out'. materialize_reported_notice_rows db' rows = Inr (db', out') \<and> lo_revisions out' = 0 \<and> lo_deltas out' = 0)"
proof -
  let ?accepted = "somes (map (\<lambda>r. case r of Inr x \<Rightarrow> Some x | Inl e \<Rightarrow> None) (map offer_of rows))"
  let ?grouped = "group_offers ?accepted"
  let ?ids = "sorted_set (map fst ?grouped)"
  let ?out = "no_outcome\<lparr>lo_skipped := int (length rows) - int (length ?accepted)\<rparr>"
  have run: "materialize_reported_notice_rows db rows = materialize_groups (ld_revisions db) ?grouped ?ids db ?out" for db
    by (simp add: materialize_reported_notice_rows_def Let_def group_offers_def)
  have provided: "offers_for e (get_or ?grouped e [])" for e
    unfolding offers_for_def
  proof
    fix x assume "x \<in> set (get_or ?grouped e [])"
    then have "(e, x) \<in> set ?accepted" unfolding group_offers_get by (rule in_group)
    then show "offer_of (snd (snd x)) = Inr (e, x)" by (rule accepted_offers)
  qed
  have "distinct ?ids" by (simp add: sorted_set_def)
  from materialize_groups_runs [OF assms this refl provided, of ?out]
  obtain db' out where r: "materialize_groups (ld_revisions db) ?grouped ?ids db ?out = Inr (db', out)"
    "lifecycle_tables db'" "grows_for (\<lambda>e. e \<in> set ?ids) db db' (lo_revisions out - lo_revisions ?out)"
    "counted out = counted ?out + int (sum_list (map (\<lambda>e. length (get_or ?grouped e [])) ?ids))"
    "\<forall>e \<in> set ?ids. settled_in db' ?grouped e" by blast
  have "grows_for (\<lambda>e. True) db db' (lo_revisions out)"
    using r(3) by (auto simp: grows_for_def no_outcome_def)
  moreover have "counted out = int (length rows)"
    using r(4) by (simp only: group_sizes) (simp add: counted_def no_outcome_def)
  moreover have "\<exists>out'. materialize_groups (ld_revisions db') ?grouped ?ids db' ?out = Inr (db', out')
      \<and> lo_revisions out' = lo_revisions ?out \<and> lo_deltas out' = lo_deltas ?out"
  proof (rule materialize_groups_nothing)
    fix e assume "e \<in> set ?ids"
    with r(5) obtain st where st: "tracks e st db'" "settled st (sort_key fst (get_or ?grouped e []))"
      by (auto simp: settled_in_def)
    have "history_kept e (history_of db' e)" using r(2) unfolding lifecycle_tables_def by blast
    from decide_tracks [OF load_tracks [OF this] st(1)] st(2)
    show "settled (load_event (ld_revisions db') e) (sort_key fst (get_or ?grouped e []))"
      unfolding settled_def by simp
  qed
  ultimately show ?thesis using r(1,2) by (auto simp: run no_outcome_def)
qed

section \<open>Properties\<close>

lemma kept_history_shape:
  assumes "history_kept e h" and "h \<noteq> []"
  shows "map rv_revision h = [1 .. int (length h)] \<and> sorted (map rv_published_at h)
    \<and> (\<exists>n s. map rv_status h = Open # replicate n Updated @ s \<and> (s = [] \<or> (\<exists>t. s = [t] \<and> terminal t)))"
proof -
  from assms have "validate_history \<lparr>lh_event_id = e, lh_revisions = h\<rparr> = Inr \<lparr>lh_event_id = e, lh_revisions = h\<rparr>"
    "list_all (\<lambda>r. validate_revision r = Inr r) h"
    by (simp_all add: history_kept_def history_valid_def)
  with accepted_history_shape [of "\<lparr>lh_event_id = e, lh_revisions = h\<rparr>"] show ?thesis by simp
qed


definition example_notice :: row where
  "example_notice = [(''source_id'', CStr ''elexon.remit''), (''notice_kind'', CStr ''remit_unavailability''),
     (''external_id'', CStr ''M1''), (''revision_key'', CStr ''r1''), (''source_record_id'', CStr ''k''),
     (''content_sha256'', CStr (replicate 64 CHR ''a'')), (''published_at'', CTime 0), (''retrieved_at'', CTime 1)]"

lemma no_rows: "lifecycle_tables \<lparr>ld_revisions = [], ld_deltas = []\<rparr>"
  by (simp add: lifecycle_tables_def history_of_def rows_of_def deltas_of_def history_kept_def)


text \<open>C38: materializing the same notices again changes nothing, whatever was appended, skipped or
  found unchanged the first time.\<close>

theorem notices_materialize_once:
  assumes "lifecycle_tables db" and "materialize_reported_notice_rows db rows = Inr (db', out)"
  shows "\<exists>out'. materialize_reported_notice_rows db' rows = Inr (db', out') \<and> lo_revisions out' = 0 \<and> lo_deltas out' = 0"
  using materialize_runs [OF assms(1), of rows] assms(2) by auto

theorem notices_materialize_once_witness:
  "\<exists>db' out out'. materialize_reported_notice_rows \<lparr>ld_revisions = [], ld_deltas = []\<rparr> [example_notice] = Inr (db', out)
    \<and> materialize_reported_notice_rows db' [example_notice] = Inr (db', out') \<and> lo_revisions out' = 0"
proof -
  from materialize_runs [OF no_rows, of "[example_notice]"] obtain db' out where
    "materialize_reported_notice_rows \<lparr>ld_revisions = [], ld_deltas = []\<rparr> [example_notice] = Inr (db', out)" by blast
  with notices_materialize_once [OF no_rows this] show ?thesis by blast
qed

end
