(* ===== verification/Ingestion.thy ===== *)
theory Ingestion
  imports Ingestion_Snapshots Event_Lifecycle_Store
begin

text \<open>
  The ingestion repository (\<open>app/persistence/ingestion.py\<close>): one transaction per adapter result.
  The database is a record of tables, a table the list of its rows; an error anywhere is the value
  of the transaction and leaves the database as it was.  Creation times and the widths of text
  columns are left out; foreign keys hold by the order of the writes.
\<close>

section \<open>The database and the result of an adapter\<close>

datatype run_status = Run_Running | Run_Succeeded | Run_Partial | Run_Failed

record ingestion_run =
  ir_id :: uuid
  ir_source_id :: str
  ir_adapter :: str
  ir_endpoint :: str
  ir_idempotency_key :: str
  ir_requested_from :: instant
  ir_requested_to :: instant
  ir_started_at :: instant
  ir_completed_at :: "instant option"
  ir_status :: run_status
  ir_records_received :: int
  ir_records_written :: int
  ir_cursor :: json
  ir_error :: "(str \<times> str) option"

record raw_payload_row =
  rw_id :: uuid
  rw_ingestion_run_id :: uuid
  rw_source_id :: str
  rw_endpoint :: str
  rw_retrieved_at :: instant
  rw_observed_window_start :: instant
  rw_observed_window_end :: instant
  rw_http_status :: int
  rw_content_type :: "str option"
  rw_etag :: "json option"
  rw_checksum_sha256 :: str
  rw_payload :: json

record ingestion_db =
  idb_sources :: "row list"
  idb_runs :: "ingestion_run list"
  idb_raw :: "raw_payload_row list"
  idb_assets :: "row list"
  idb_tables :: "(str, row list) dict"
  idb_incidents :: "row list"
  idb_lifecycle :: lifecycle_db

text \<open>An \<open>ObservationWindow\<close> has made its times UTC and is not empty.\<close>

record adapter_result =
  adr_source_id :: str
  adr_dataset :: str
  adr_endpoint :: str
  adr_window_start :: instant
  adr_window_end :: instant
  adr_retrieved_at :: datetime
  adr_request_url :: str
  adr_records :: "source_record list"
  adr_raw_payload :: json
  adr_checksum_sha256 :: str
  adr_content_type :: "str option"
  adr_metadata :: "(str, json) dict"
  adr_warnings :: "str list"

record persist_outcome =
  po_inserted :: int
  po_updated :: int
  po_unchanged :: int

definition RUN_NAMESPACE :: str where "RUN_NAMESPACE = ''b1f130e2-ec87-5a79-88a3-a3ed99a5321c''"
definition RAW_PAYLOAD_NAMESPACE :: str where "RAW_PAYLOAD_NAMESPACE = ''40321ac1-3394-58d2-9cf7-33dbb7187b6c''"
section \<open>Keys and snapshots\<close>

definition job_char :: "char \<Rightarrow> bool" where
  "job_char c \<longleftrightarrow> is_alnum c \<or> c \<in> set ''_.:-''"

definition re_safe_job_id :: "str \<Rightarrow> str" where
  "re_safe_job_id job_id =
     (let value = strip_dashes (collapse job_char job_id) in if value = [] then ''job'' else value)"

definition bounded_key :: "str \<Rightarrow> str \<Rightarrow> str" where
  "bounded_key job_id material = take 80 (re_safe_job_id job_id) @ '':'' @ sha256_hex material"

definition success_idempotency_key :: "str \<Rightarrow> adapter_result \<Rightarrow> str" where
  "success_idempotency_key job_id r =
     bounded_key job_id (join ''|'' [''success'', job_id, iso_instant (adr_window_start r),
       iso_instant (adr_window_end r), lower (adr_checksum_sha256 r)])"

definition failure_idempotency_key :: "str \<Rightarrow> instant \<Rightarrow> instant \<Rightarrow> instant \<Rightarrow> str \<Rightarrow> str" where
  "failure_idempotency_key job_id window_start window_end attempted_at error_type =
     bounded_key job_id (join ''|'' [''failure'', job_id, iso_instant window_start, iso_instant window_end,
       iso_instant attempted_at, error_type])"

definition is_distribution_snapshot :: "adapter_result \<Rightarrow> bool" where
  "is_distribution_snapshot r \<longleftrightarrow>
     adr_source_id r = ''ukpn.live_faults'' \<and> upper (adr_dataset r) = ''LIVE_FAULTS''"

definition is_physical_notification_snapshot :: "adapter_result \<Rightarrow> bool" where
  "is_physical_notification_snapshot r \<longleftrightarrow> adr_source_id r = ''elexon.pn'' \<and> upper (adr_dataset r) = ''PN''"

definition is_repd_snapshot :: "adapter_result \<Rightarrow> bool" where
  "is_repd_snapshot r \<longleftrightarrow> adr_source_id r = REPD_SOURCE_ID \<and> upper (adr_dataset r) = ''REPD''"

fun validate_record_types :: "source_record list \<Rightarrow> unit result" where
  "validate_record_types [] = Inr ()"
| "validate_record_types (r # rs) =
     (case r of Rec_Other name \<Rightarrow> Inl (TypeError (''unsupported normalized record: '' @ name))
      | _ \<Rightarrow> validate_record_types rs)"

definition asset_references :: "source_record list \<Rightarrow> asset_reference list" where
  "asset_references records = somes (map (\<lambda>r. case r of Rec_Asset a \<Rightarrow> Some a | _ \<Rightarrow> None) records)"

definition repd_sites :: "source_record list \<Rightarrow> repd_site list" where
  "repd_sites records = somes (map (\<lambda>r. case r of Rec_Repd s \<Rightarrow> Some s | _ \<Rightarrow> None) records)"

definition incident_records :: "source_record list \<Rightarrow> distribution_incident_record list" where
  "incident_records records = somes (map (\<lambda>r. case r of Rec_Incident i \<Rightarrow> Some i | _ \<Rightarrow> None) records)"

text \<open>The records that need a BM unit: its external id, the national grid unit and the Elexon unit.\<close>

definition dependent_records :: "source_record list \<Rightarrow> (str \<times> str option \<times> str option) list" where
  "dependent_records records = somes (map (\<lambda>r. case r of
       Rec_Plan p \<Rightarrow> Some (pps_asset_id p, Some (pps_asset_id p), pps_source_asset_id p)
     | Rec_Settled m \<Rightarrow> Some (sme_asset_id m, sme_national_grid_bm_unit m, sme_source_asset_id m)
     | _ \<Rightarrow> None) records)"

text \<open>Python's \<open>==\<close> between a JSON number and a count; \<open>isinstance(x, bool)\<close> is tested first.\<close>

definition json_is_count :: "json option \<Rightarrow> int \<Rightarrow> bool" where
  "json_is_count value n =
     (case value of Some (JInt k) \<Rightarrow> k = n | Some (JFloat x) \<Rightarrow> x = of_int n | _ \<Rightarrow> False)"

definition validate_repd_snapshot_contract :: "adapter_result \<Rightarrow> unit result" where
  "validate_repd_snapshot_contract r =
     (let repd_records = repd_sites (adr_records r);
          n = int (length repd_records)
      in if repd_records \<noteq> [] \<and> \<not> is_repd_snapshot r
         then Inl (ValueError ''REPD sites must use the canonical DESNZ source contract'')
         else if \<not> is_repd_snapshot r then Inr ()
         else if adr_records r = [] then Inl (ValueError ''a complete REPD snapshot cannot be empty'')
         else if n \<noteq> int (length (adr_records r))
         then Inl (ValueError ''a complete REPD snapshot cannot mix record types'')
         else if lookup (adr_metadata r) ''snapshotKind'' \<noteq> Some (JStr ''complete_reference'')
         then Inl (ValueError ''REPD result is not declared as a complete reference snapshot'')
         else if \<not> json_is_count (lookup (adr_metadata r) ''recordCount'') n
         then Inl (ValueError ''REPD snapshot metadata record count does not match records'')
         else case adr_raw_payload r of
           JObj payload \<Rightarrow>
             (case lookup payload ''parse'' of
                Some (JObj parse_summary) \<Rightarrow>
                  if \<not> json_is_count (lookup parse_summary ''retainedRows'') n
                  then Inl (ValueError ''REPD parse summary does not match snapshot membership'')
                  else
                    let source_ids = map (\<lambda>s. strip (rps_source_id s)) repd_records
                    in if [] \<in> set source_ids
                       then Inl (ValueError ''REPD snapshot contains an empty source record ID'')
                       else if \<not> distinct source_ids
                       then Inl (ValueError ''REPD complete snapshot contains duplicate source record IDs'')
                       else Inr ()
              | _ \<Rightarrow> Inl (ValueError ''REPD snapshot is missing its complete parse summary''))
         | _ \<Rightarrow> Inl (ValueError ''REPD snapshot raw payload must be a parse summary object''))"

section \<open>Sources, runs and payloads\<close>

text \<open>\<open>ON CONFLICT (id) DO UPDATE\<close> of every column; two sources may not share provider and
  dataset.\<close>

definition source_metadata_upsert :: "row list \<Rightarrow> row \<Rightarrow> row list result" where
  "source_metadata_upsert table values =
     (let id_of = (\<lambda>r. row_value r ''id'');
          pair = key_of [''provider'', ''dataset'']
      in if \<not> null_or (number_where (\<lambda>x. 0 < x)) (row_value values ''expected_cadence_seconds'')
         then Inl (IntegrityError ''check constraint'')
         else if \<exists>r \<in> set table. id_of r \<noteq> id_of values \<and> pair r = pair values
         then Inl (IntegrityError ''unique constraint'')
         else Inr (put_row id_of (\<lambda>new old. new) table values))"

definition run_insert :: "ingestion_run list \<Rightarrow> ingestion_run \<Rightarrow> (ingestion_run \<Rightarrow> ingestion_run) \<Rightarrow> ingestion_run list" where
  "run_insert table new on_conflict = put_row ir_idempotency_key (\<lambda>offered. on_conflict) table new"

definition run_with_key :: "ingestion_run list \<Rightarrow> str \<Rightarrow> ingestion_run option" where
  "run_with_key table key = find (\<lambda>r. ir_idempotency_key r = key) table"

definition raw_content :: "raw_payload_row \<Rightarrow> str \<times> str \<times> str" where
  "raw_content r = (rw_source_id r, rw_endpoint r, rw_checksum_sha256 r)"

definition raw_payload_insert :: "raw_payload_row list \<Rightarrow> raw_payload_row \<Rightarrow> raw_payload_row list \<times> uuid" where
  "raw_payload_insert table new =
     (case find (\<lambda>r. raw_content r = raw_content new) table of
        Some existing \<Rightarrow> (table, rw_id existing)
      | None \<Rightarrow> (table @ [new], rw_id new))"

section \<open>BM units of dependent records\<close>

definition ensure_bm_unit_assets ::
  "ingestion_db \<Rightarrow> (str \<times> str option \<times> str option) list \<Rightarrow> (ingestion_db \<times> (str, uuid) dict) result" where
  "ensure_bm_unit_assets db records =
     rbind bm_unit_reference_source_metadata_values (\<lambda>metadata.
     rbind (source_metadata_upsert (idb_sources db) metadata) (\<lambda>sources.
       let by_external_id = foldl (\<lambda>d (k, v). if lookup d k = None then store d k v else d) [] records;
           rows = map (\<lambda>(external_id, national, elexon). placeholder_row external_id national elexon) by_external_id;
           assets = upsert_placeholders (idb_assets db) rows;
           asset_ids = resolve_assets assets (map fst by_external_id);
           missing = filter (\<lambda>i. lookup asset_ids i = None) (map fst by_external_id)
       in if missing \<noteq> []
          then Inl (ValueError (''failed to resolve '' @ str_of_int (int (length missing)) @ '' BM-unit asset(s)''))
          else Inr (db\<lparr>idb_sources := sources, idb_assets := assets\<rparr>, asset_ids)))"

definition required_asset_id :: "(str, uuid) dict \<Rightarrow> str \<Rightarrow> uuid result" where
  "required_asset_id asset_ids external_id =
     (case lookup asset_ids external_id of
        Some i \<Rightarrow> Inr i | None \<Rightarrow> Inl (ValueError (''BM-unit asset was not resolved: '' @ external_id)))"

section \<open>Rows of a result\<close>

definition map_record ::
  "str \<Rightarrow> uuid \<Rightarrow> (str, uuid) dict \<Rightarrow> source_record \<Rightarrow> (upsert_spec \<times> row) option result" where
  "map_record source_id raw_payload_id asset_ids r =
     (let put = (\<lambda>spec mapped. rbind mapped (\<lambda>values. Inr (Some (spec, values)))) in
      case r of
        Rec_Asset a \<Rightarrow> Inr None
      | Rec_Repd s \<Rightarrow> Inr None
      | Rec_Plan p \<Rightarrow> rbind (required_asset_id asset_ids (pps_asset_id p)) (\<lambda>asset_id.
          put PHYSICAL_NOTIFICATION_SPEC (map_physical_notification_segment p source_id raw_payload_id asset_id))
      | Rec_Settled m \<Rightarrow> rbind (required_asset_id asset_ids (sme_asset_id m)) (\<lambda>asset_id.
          put B1610_SETTLED_ENERGY_SPEC (map_b1610_settled_energy m source_id raw_payload_id asset_id))
      | Rec_Generation g \<Rightarrow> put GENERATION_SPEC (map_generation_record g source_id raw_payload_id)
      | Rec_Demand d \<Rightarrow> put DEMAND_SPEC (map_demand_record d source_id raw_payload_id)
      | Rec_Frequency f \<Rightarrow> put FREQUENCY_SPEC (map_frequency_record f source_id raw_payload_id)
      | Rec_Interconnector i \<Rightarrow> put INTERCONNECTOR_SPEC (map_interconnector_record i source_id raw_payload_id)
      | Rec_Carbon c \<Rightarrow>
          if cir_classification c = Src_Estimated
          then put CARBON_ACTUAL_SPEC (map_carbon_actual_record c source_id raw_payload_id)
          else if cir_classification c = Src_Forecast
          then put FORECAST_SPEC (map_carbon_forecast_record c source_id raw_payload_id)
          else Inl (ValueError ''carbon intensity records must be estimated or forecast'')
      | Rec_Demand_Forecast d \<Rightarrow> put FORECAST_SPEC (map_demand_forecast_record d source_id raw_payload_id)
      | Rec_Wind_Forecast w \<Rightarrow> put FORECAST_SPEC (map_wind_forecast_record w source_id raw_payload_id)
      | Rec_Remit n \<Rightarrow> put REPORTED_NOTICE_SPEC (map_remit_notice_record n source_id raw_payload_id)
      | Rec_Warning w \<Rightarrow> put REPORTED_NOTICE_SPEC (map_system_warning_record w source_id raw_payload_id)
      | Rec_Incident i \<Rightarrow>
          put DISTRIBUTION_INCIDENT_SPEC (map_distribution_incident_record i source_id raw_payload_id)
      | Rec_Other name \<Rightarrow> Inl (TypeError (''unsupported normalized record: '' @ name)))"

definition ordered_specs :: "upsert_spec list" where
  "ordered_specs = [GENERATION_SPEC, DEMAND_SPEC, FREQUENCY_SPEC, INTERCONNECTOR_SPEC, CARBON_ACTUAL_SPEC,
     FORECAST_SPEC, REPORTED_NOTICE_SPEC, DISTRIBUTION_INCIDENT_SPEC, PHYSICAL_NOTIFICATION_SPEC,
     B1610_SETTLED_ENERGY_SPEC]"

definition map_record_batches ::
  "source_record list \<Rightarrow> str \<Rightarrow> uuid \<Rightarrow> (str, uuid) dict \<Rightarrow> (upsert_spec \<times> row list) list result" where
  "map_record_batches records source_id raw_payload_id asset_ids =
     rbind (traverse (map_record source_id raw_payload_id asset_ids) records) (\<lambda>mapped.
       let grouped = foldl (\<lambda>d (spec, values). push d (us_model spec) values) [] (somes mapped)
       in Inr (filter (\<lambda>(spec, values). values \<noteq> [])
                 (map (\<lambda>spec. (spec, get_or grouped (us_model spec) [])) ordered_specs)))"


section \<open>The transaction\<close>

definition table_of :: "ingestion_db \<Rightarrow> upsert_spec \<Rightarrow> row list" where
  "table_of db spec = get_or (idb_tables db) (us_model spec) []"

definition with_table :: "ingestion_db \<Rightarrow> upsert_spec \<Rightarrow> row list \<Rightarrow> ingestion_db" where
  "with_table db spec table = db\<lparr>idb_tables := store (idb_tables db) (us_model spec) table\<rparr>"

fun write_batches ::
  "ingestion_db \<Rightarrow> (upsert_spec \<times> row list) list \<Rightarrow> write_counts \<Rightarrow> (ingestion_db \<times> write_counts) result" where
  "write_batches db [] counts = Inr (db, counts)"
| "write_batches db ((spec, rows) # rest) counts =
     rbind (write_spec spec (table_of db spec) rows counts) (\<lambda>(table, counts').
       write_batches (with_table db spec table) rest counts')"

definition rows_for :: "upsert_spec \<Rightarrow> (upsert_spec \<times> row list) list \<Rightarrow> row list" where
  "rows_for spec batches = concat (map snd (filter (\<lambda>(s, rows). us_model s = us_model spec) batches))"

definition add_counts :: "write_counts \<Rightarrow> write_counts \<Rightarrow> write_counts" where
  "add_counts a b = \<lparr>wc_inserted = wc_inserted a + wc_inserted b, wc_updated = wc_updated a + wc_updated b,
     wc_unchanged = wc_unchanged a + wc_unchanged b\<rparr>"

definition persist_references :: "ingestion_db \<Rightarrow> str \<Rightarrow> source_record list \<Rightarrow> (ingestion_db \<times> write_counts) result" where
  "persist_references db source_id records =
     rbind (if asset_references records \<noteq> []
            then persist_asset_reference_snapshot (idb_assets db) source_id (asset_references records)
            else Inr (idb_assets db, no_counts)) (\<lambda>(assets, counts).
     rbind (if repd_sites records \<noteq> [] then persist_repd_snapshot assets source_id (repd_sites records)
            else Inr (assets, no_counts)) (\<lambda>(assets', counts').
       Inr (db\<lparr>idb_assets := assets'\<rparr>, add_counts counts counts')))"

text \<open>The steps around the batches, each guarded as in the transaction.\<close>

definition resolve_bm_units :: "ingestion_db \<Rightarrow> adapter_result \<Rightarrow> (ingestion_db \<times> (str, uuid) dict) result" where
  "resolve_bm_units db r =
     (let dependents = dependent_records (adr_records r)
      in if dependents \<noteq> [] then ensure_bm_unit_assets db dependents else Inr (db, []))"

definition prune_notifications ::
  "ingestion_db \<Rightarrow> str \<Rightarrow> adapter_result \<Rightarrow> (upsert_spec \<times> row list) list \<Rightarrow> ingestion_db result" where
  "prune_notifications db source_id r batches =
     (if is_physical_notification_snapshot r
      then rbind (prune_physical_notification_scope (table_of db PHYSICAL_NOTIFICATION_SPEC) source_id
                    (adr_metadata r) (rows_for PHYSICAL_NOTIFICATION_SPEC batches))
             (\<lambda>table. Inr (with_table db PHYSICAL_NOTIFICATION_SPEC table))
      else Inr db)"

definition materialize_notices :: "ingestion_db \<Rightarrow> (upsert_spec \<times> row list) list \<Rightarrow> ingestion_db result" where
  "materialize_notices db batches =
     (let reported_notice_rows = rows_for REPORTED_NOTICE_SPEC batches
      in if reported_notice_rows \<noteq> []
         then rbind (materialize_reported_notice_rows (idb_lifecycle db) reported_notice_rows)
                (\<lambda>(lifecycle, out). Inr (db\<lparr>idb_lifecycle := lifecycle\<rparr>))
         else Inr db)"

definition refresh_incidents :: "ingestion_db \<Rightarrow> str \<Rightarrow> adapter_result \<Rightarrow> ingestion_db result" where
  "refresh_incidents db source_id r =
     (if is_distribution_snapshot r
      then rbind (as_utc (adr_retrieved_at r) ''result.retrieved_at'') (\<lambda>seen_at.
           rbind (refresh_distribution_incident_current (idb_incidents db) source_id
                    (incident_records (adr_records r)) seen_at)
             (\<lambda>incidents. Inr (db\<lparr>idb_incidents := incidents\<rparr>)))
      else Inr db)"

text \<open>The normalized rows of the result: the BM units they need, the rows, the pruned scope, the
  batches, the lifecycle of the notices and the current incidents.\<close>

definition persist_normalized ::
  "ingestion_db \<Rightarrow> str \<Rightarrow> uuid \<Rightarrow> adapter_result \<Rightarrow> write_counts \<Rightarrow> (ingestion_db \<times> write_counts) result" where
  "persist_normalized db source_id raw_payload_id r counts =
     rbind (resolve_bm_units db r) (\<lambda>(db1, asset_ids).
     rbind (map_record_batches (adr_records r) source_id raw_payload_id asset_ids) (\<lambda>batches.
     rbind (prune_notifications db1 source_id r batches) (\<lambda>db2.
     rbind (write_batches db2 batches counts) (\<lambda>(db3, counts').
     rbind (materialize_notices db3 batches) (\<lambda>db4.
     rbind (refresh_incidents db4 source_id r) (\<lambda>db5. Inr (db5, counts')))))))"

definition checksum_ok :: "str \<Rightarrow> bool" where
  "checksum_ok s \<longleftrightarrow> length s = 64 \<and> list_all is_hex_char s"

definition is_container :: "json \<Rightarrow> bool" where
  "is_container j \<longleftrightarrow> (case j of JObj kvs \<Rightarrow> True | JList vs \<Rightarrow> True | _ \<Rightarrow> False)"

definition started_run :: "str \<Rightarrow> str \<Rightarrow> adapter_result \<Rightarrow> instant \<Rightarrow> ingestion_run" where
  "started_run job_id source_id r attempted =
     (let key = success_idempotency_key job_id r in
      \<lparr>ir_id = uuid5 RUN_NAMESPACE key, ir_source_id = source_id, ir_adapter = job_id,
       ir_endpoint = adr_endpoint r, ir_idempotency_key = key, ir_requested_from = adr_window_start r,
       ir_requested_to = adr_window_end r, ir_started_at = attempted, ir_completed_at = None,
       ir_status = Run_Running, ir_records_received = int (length (adr_records r)), ir_records_written = 0,
       ir_cursor = JObj [(''jobId'', JStr job_id), (''windowEnd'', JStr (iso_instant (adr_window_end r))),
         (''requestUrl'', JStr (adr_request_url r)), (''checksumSha256'', JStr (lower (adr_checksum_sha256 r))),
         (''warnings'', JList (map JStr (adr_warnings r)))],
       ir_error = None\<rparr>)"

definition raw_row :: "str \<Rightarrow> uuid \<Rightarrow> adapter_result \<Rightarrow> instant \<Rightarrow> raw_payload_row" where
  "raw_row source_id run_id r retrieved =
     (let checksum = lower (adr_checksum_sha256 r) in
      \<lparr>rw_id = uuid5 RAW_PAYLOAD_NAMESPACE (source_id @ ''|'' @ adr_endpoint r @ ''|'' @ checksum),
       rw_ingestion_run_id = run_id, rw_source_id = source_id, rw_endpoint = adr_endpoint r,
       rw_retrieved_at = retrieved, rw_observed_window_start = adr_window_start r,
       rw_observed_window_end = adr_window_end r, rw_http_status = 200, rw_content_type = adr_content_type r,
       rw_etag = lookup (adr_metadata r) ''etag'', rw_checksum_sha256 = checksum, rw_payload = adr_raw_payload r\<rparr>)"

text \<open>The checks before the session is opened, with the metadata of the source.\<close>

definition prepare_success :: "adapter_result \<Rightarrow> row result" where
  "prepare_success r =
     (if \<not> is_container (adr_raw_payload r) then Inl (TypeError ''raw payload must be a JSON object or array'')
      else if is_distribution_snapshot r \<and> (contains_full_postcode (adr_raw_payload r)
                \<or> sanitize_ukpn_payload (adr_raw_payload r) \<noteq> adr_raw_payload r)
      then Inl (ValueError ''distribution incident payload has not been privacy-reduced'')
      else if \<not> checksum_ok (lower (adr_checksum_sha256 r))
      then Inl (ValueError ''raw payload checksum must be a SHA-256 hex digest'')
      else
        rbind (validate_record_types (adr_records r)) (\<lambda>_.
        rbind (validate_repd_snapshot_contract r) (\<lambda>_.
          if is_repd_snapshot r then Inr repd_source_metadata_values
          else source_metadata_values (adr_source_id r) (adr_dataset r) (adr_request_url r) None)))"

definition success_transaction ::
  "ingestion_db \<Rightarrow> str \<Rightarrow> adapter_result \<Rightarrow> row \<Rightarrow> instant \<Rightarrow> instant \<Rightarrow> (ingestion_db \<times> persist_outcome) result" where
  "success_transaction db job_id r metadata attempted completed =
     (let source_id = cell_text (row_value metadata ''id'');
          key = success_idempotency_key job_id r
      in rbind (source_metadata_upsert (idb_sources db) metadata) (\<lambda>sources.
         let started = run_insert (idb_runs db) (started_run job_id source_id r attempted)
               (\<lambda>run. run\<lparr>ir_status := Run_Running, ir_started_at := attempted, ir_completed_at := None, ir_error := None\<rparr>);
             run_id = (case run_with_key started key of Some run \<Rightarrow> ir_id run | None \<Rightarrow> uuid5 RUN_NAMESPACE key)
         in rbind (as_utc (adr_retrieved_at r) ''result.retrieved_at'') (\<lambda>retrieved.
            let (raw, raw_payload_id) = raw_payload_insert (idb_raw db) (raw_row source_id run_id r retrieved);
                db1 = db\<lparr>idb_sources := sources, idb_runs := started, idb_raw := raw\<rparr>
            in rbind (persist_references db1 source_id (adr_records r)) (\<lambda>(db2, counts).
               rbind (persist_normalized db2 source_id raw_payload_id r counts) (\<lambda>(db3, counts').
                 Inr (db3\<lparr>idb_runs := map (\<lambda>run. if ir_id run = run_id
                        then run\<lparr>ir_completed_at := Some completed, ir_status := Run_Succeeded,
                                 ir_records_written := wc_inserted counts' + wc_updated counts'\<rparr> else run) (idb_runs db3)\<rparr>,
                      \<lparr>po_inserted = wc_inserted counts', po_updated = wc_updated counts',
                       po_unchanged = wc_unchanged counts'\<rparr>))))))"

definition persist_success ::
  "ingestion_db \<Rightarrow> str \<Rightarrow> adapter_result \<Rightarrow> datetime \<Rightarrow> datetime \<Rightarrow> (ingestion_db \<times> persist_outcome) result" where
  "persist_success db job_id r attempted_at completed_at =
     rbind (as_utc attempted_at ''attempted_at'') (\<lambda>attempted.
     rbind (as_utc completed_at ''completed_at'') (\<lambda>completed.
       if completed < attempted then Inl (ValueError ''completed_at cannot precede attempted_at'')
       else rbind (prepare_success r) (\<lambda>metadata.
         success_transaction db job_id r metadata attempted completed)))"

text \<open>\<open>async with session.begin()\<close>: what the database is afterwards.\<close>

definition committed :: "ingestion_db \<Rightarrow> (ingestion_db \<times> 'a) result \<Rightarrow> ingestion_db" where
  "committed db outcome = (case outcome of Inl e \<Rightarrow> db | Inr (db', x) \<Rightarrow> db')"

definition record_failure ::
  "ingestion_db \<Rightarrow> str \<Rightarrow> instant \<Rightarrow> instant \<Rightarrow> datetime \<Rightarrow> datetime \<Rightarrow> str \<Rightarrow> str \<Rightarrow> (ingestion_db \<times> unit) result" where
  "record_failure db job_id window_start window_end attempted_at failed_at error_type error_message =
     rbind (as_utc attempted_at ''attempted_at'') (\<lambda>attempted.
     rbind (as_utc failed_at ''failed_at'') (\<lambda>failed.
       if failed < attempted then Inl (ValueError ''failed_at cannot precede attempted_at'')
       else
         rbind (job_source_metadata_values job_id) (\<lambda>metadata.
         let key = failure_idempotency_key job_id window_start window_end attempted error_type;
             error = (take 160 error_type, take 2000 error_message);
             new = \<lparr>ir_id = uuid5 RUN_NAMESPACE key, ir_source_id = cell_text (row_value metadata ''id''),
                    ir_adapter = job_id, ir_endpoint = job_id, ir_idempotency_key = key,
                    ir_requested_from = window_start, ir_requested_to = window_end, ir_started_at = attempted,
                    ir_completed_at = Some failed, ir_status = Run_Failed, ir_records_received = 0,
                    ir_records_written = 0,
                    ir_cursor = JObj [(''jobId'', JStr job_id), (''windowEnd'', JStr (iso_instant window_end))],
                    ir_error = Some error\<rparr>
         in rbind (source_metadata_upsert (idb_sources db) metadata) (\<lambda>sources.
              Inr (db\<lparr>idb_sources := sources,
                      idb_runs := run_insert (idb_runs db) new
                        (\<lambda>run. run\<lparr>ir_completed_at := Some failed, ir_status := Run_Failed, ir_error := Some error\<rparr>)\<rparr>,
                   ())))))"

section \<open>Checkpoints\<close>

record ingestion_checkpoint =
  ick_job_id :: str
  ick_last_attempted_at :: instant
  ick_last_succeeded_at :: "instant option"
  ick_window_end :: "instant option"

text \<open>\<open>uuid_value\<close> is the number a run's identifier stands for: it decides between runs that started at
  one instant.  Successful runs that agree in both times are taken in the order of the table.\<close>

definition get_checkpoint :: "(uuid \<Rightarrow> int) \<Rightarrow> ingestion_db \<Rightarrow> str \<Rightarrow> ingestion_checkpoint option" where
  "get_checkpoint uuid_value db job_id =
     (let mine = filter (\<lambda>run. ir_adapter run = job_id) (idb_runs db) in
      case py_max (\<lambda>run. (ir_started_at run, uuid_value (ir_id run))) mine of
        None \<Rightarrow> None
      | Some latest \<Rightarrow>
          let succeeded =
                (if ir_status latest = Run_Succeeded \<and> ir_completed_at latest \<noteq> None then Some latest
                 else py_max (\<lambda>run. (case ir_completed_at run of None \<Rightarrow> (0::int, 0) | Some t \<Rightarrow> (1, t), ir_started_at run))
                        (filter (\<lambda>run. ir_status run = Run_Succeeded) mine))
          in Some \<lparr>ick_job_id = job_id, ick_last_attempted_at = ir_started_at latest,
                   ick_last_succeeded_at = (case succeeded of Some run \<Rightarrow> ir_completed_at run | None \<Rightarrow> None),
                   ick_window_end = map_option ir_requested_to succeeded\<rparr>)"

end
