(* ===== verification/Ingestion_Invariants.thy ===== *)
theory Ingestion_Invariants
  imports Ingestion
begin

text \<open>
  What the ingestion transaction keeps: the constraints of every table it writes, the immutable rows,
  the event revisions and the asset rows; what it counts; and what the checkpoints read.
\<close>

section \<open>The tables of a database\<close>

lemma ordered_shapes:
  assumes "spec \<in> set ordered_specs"
  shows "immutable_revisioned spec \<Longrightarrow> proper_spec spec" and "\<not> immutable_revisioned spec \<Longrightarrow> current_shape spec"
  using assms unfolding ordered_specs_def
  by (auto simp: proper_spec_def current_shape_def immutable_revisioned_def spec_defs immutable_spec_def current_spec_def)

lemma ordered_models: "distinct (map us_model ordered_specs)"
  by (simp add: ordered_specs_def spec_defs immutable_spec_def current_spec_def)

definition spec_table_ok :: "ingestion_db \<Rightarrow> upsert_spec \<Rightarrow> bool" where
  "spec_table_ok db spec \<longleftrightarrow>
     (if immutable_revisioned spec then revision_table spec (table_of db spec) else current_table spec (table_of db spec))"

definition ingestion_ok :: "ingestion_db \<Rightarrow> bool" where
  "ingestion_ok db \<longleftrightarrow> list_all (spec_table_ok db) ordered_specs
     \<and> segment_table (table_of db PHYSICAL_NOTIFICATION_SPEC) \<and> asset_table (idb_assets db)
     \<and> incident_table (idb_incidents db) \<and> lifecycle_tables (idb_lifecycle db)
     \<and> distinct (map ir_idempotency_key (idb_runs db))"

text \<open>What no transaction takes away: the immutable rows, the event revisions and the asset rows.\<close>

definition history_grows_to :: "ingestion_db \<Rightarrow> ingestion_db \<Rightarrow> bool" where
  "history_grows_to db db' \<longleftrightarrow>
     list_all (\<lambda>spec. immutable_revisioned spec \<longrightarrow> (\<exists>new. table_of db' spec = table_of db spec @ new)) ordered_specs
     \<and> (\<exists>new. ld_revisions (idb_lifecycle db') = ld_revisions (idb_lifecycle db) @ new)
     \<and> asset_key ` set (idb_assets db) \<subseteq> asset_key ` set (idb_assets db')"

lemma history_grows_refl [simp]: "history_grows_to db db"
  by (auto simp: history_grows_to_def list_all_iff)

lemma history_grows_trans: "history_grows_to a b \<Longrightarrow> history_grows_to b c \<Longrightarrow> history_grows_to a c"
  unfolding history_grows_to_def list_all_iff
  by (intro conjI ballI impI) (metis append.assoc, metis append.assoc, blast)

lemma table_of_with_table:
  "table_of (with_table db spec table) spec' = (if us_model spec' = us_model spec then table else table_of db spec')"
  by (simp add: table_of_def with_table_def)

lemma same_model: "spec \<in> set ordered_specs \<Longrightarrow> spec' \<in> set ordered_specs \<Longrightarrow> us_model spec = us_model spec' \<longleftrightarrow> spec = spec'"
  using ordered_models by (auto simp: distinct_map dest: inj_onD)

lemma with_table_other [simp]:
  "idb_assets (with_table db spec t) = idb_assets db" "idb_incidents (with_table db spec t) = idb_incidents db"
  "idb_lifecycle (with_table db spec t) = idb_lifecycle db" "idb_runs (with_table db spec t) = idb_runs db"
  "idb_sources (with_table db spec t) = idb_sources db" "idb_raw (with_table db spec t) = idb_raw db"
  by (simp_all add: with_table_def)

section \<open>Writing the batches\<close>

lemma write_spec_checked:
  assumes "proper_spec spec" and "revision_table spec table"
    and "deduplicate_rows rows (us_identity_columns spec) = (unique_rows, duplicates)"
    and "write_spec spec table rows counts = Inr (table', counts')"
  shows "list_all (row_ok (us_model spec)) (new_revisions spec table unique_rows)"
proof (rule ccontr)
  assume bad: "\<not> ?thesis"
  have imm: "immutable_revisioned spec" "us_identity_columns spec \<noteq> []"
    using assms(1) by (simp_all add: proper_spec_def immutable_revisioned_def)
  have du: "distinct (map (identity_key spec) unique_rows)"
    using deduplicate_rows_unique(1) [OF assms(3)] by (simp add: identity_key_def)
  have "distinct (map (key_of (us_conflict_columns spec)) (table @ new_revisions spec table unique_rows))"
    using new_revisions_fresh(1) [OF assms(1,2) du] by (simp add: revision_table_def)
  from insert_immutable_revisions_fresh [OF this] bad
  have ins: "insert_immutable_revisions spec table (new_revisions spec table unique_rows) = Inl (IntegrityError ''check constraint'')"
    by simp
  have "new_revisions spec table unique_rows \<noteq> []" using bad by auto
  moreover from this have "unique_rows \<noteq> []" by (auto simp: new_revisions_def)
  ultimately show False using assms(3,4) imm ins
    by (auto simp: write_spec_def Let_def new_revisions_def)
qed

lemma write_spec_appends:
  assumes "proper_spec spec" and "revision_table spec table" and "write_spec spec table rows counts = Inr (table', counts')"
  shows "revision_table spec table'" and "\<exists>new. table' = table @ new"
    and "counts_total counts' = counts_total counts + int (length rows)"
    and "wc_inserted counts \<le> wc_inserted counts'" and "wc_updated counts \<le> wc_updated counts'"
proof -
  obtain us d where dd: "deduplicate_rows rows (us_identity_columns spec) = (us, d)" by force
  have du: "distinct (map (identity_key spec) us)"
    using deduplicate_rows_unique(1) [OF dd] by (simp add: identity_key_def)
  from write_spec_immutable [OF assms(1,2) dd write_spec_checked [OF assms(1,2) dd assms(3)], of counts] assms(3)
  have t: "table' = table @ new_revisions spec table us"
    and c: "counts_total counts' = counts_total counts + int (length rows)"
      "wc_inserted counts \<le> wc_inserted counts'" "wc_updated counts \<le> wc_updated counts'" by auto
  show "revision_table spec table'" unfolding t by (rule new_revisions_fresh(1) [OF assms(1,2) du])
  show "\<exists>new. table' = table @ new" using t by blast
  show "counts_total counts' = counts_total counts + int (length rows)"
    "wc_inserted counts \<le> wc_inserted counts'" "wc_updated counts \<le> wc_updated counts'" by (rule c)+
qed

text \<open>One step and the whole loop over the specifications.\<close>

definition rows_total :: "(upsert_spec \<times> row list) list \<Rightarrow> int" where
  "rows_total batches = sum_list (map (\<lambda>(spec, rows). int (length rows)) batches)"

definition batches_ok :: "(upsert_spec \<times> row list) list \<Rightarrow> bool" where
  "batches_ok batches \<longleftrightarrow> (\<forall>(spec, rows) \<in> set batches. spec \<in> set ordered_specs
     \<and> (spec = PHYSICAL_NOTIFICATION_SPEC \<longrightarrow> list_all unit_typed rows))"

lemma notification_spec: "PHYSICAL_NOTIFICATION_SPEC \<in> set ordered_specs" "\<not> immutable_revisioned PHYSICAL_NOTIFICATION_SPEC"
  by (simp_all add: ordered_specs_def immutable_revisioned_def spec_defs current_spec_def)

lemma table_step:
  assumes "ingestion_ok db" and "spec \<in> set ordered_specs"
    and "if immutable_revisioned spec then revision_table spec table \<and> (\<exists>new. table = table_of db spec @ new)
         else current_table spec table"
    and "spec = PHYSICAL_NOTIFICATION_SPEC \<Longrightarrow> segment_table table"
  shows "ingestion_ok (with_table db spec table) \<and> history_grows_to db (with_table db spec table)"
proof -
  have t: "table_of (with_table db spec table) s = (if s = spec then table else table_of db s)" if "s \<in> set ordered_specs" for s
    using same_model [OF that assms(2)] by (simp add: table_of_with_table)
  have "spec_table_ok (with_table db spec table) s" if "s \<in> set ordered_specs" for s
    using that assms(1,3) by (auto simp: spec_table_ok_def t ingestion_ok_def list_all_iff)
  moreover have "segment_table (table_of (with_table db spec table) PHYSICAL_NOTIFICATION_SPEC)"
    using assms(1,4) by (simp add: t notification_spec ingestion_ok_def)
  moreover have "\<exists>new. table_of (with_table db spec table) s = table_of db s @ new"
    if "s \<in> set ordered_specs" "immutable_revisioned s" for s
    using that assms(3) by (auto simp: t)
  ultimately show ?thesis
    using assms(1) by (auto simp: ingestion_ok_def history_grows_to_def list_all_iff)
qed

lemma write_batches_ok:
  assumes "ingestion_ok db" and "batches_ok batches" and "write_batches db batches counts = Inr (db', counts')"
  shows "ingestion_ok db' \<and> history_grows_to db db' \<and> counts_total counts' = counts_total counts + rows_total batches
    \<and> wc_inserted counts \<le> wc_inserted counts' \<and> wc_updated counts \<le> wc_updated counts'"
  using assms
proof (induction batches arbitrary: db counts)
  case (Cons b bs)
  obtain spec rows where b: "b = (spec, rows)" by (cases b)
  with Cons.prems(3) obtain t c where w: "write_spec spec (table_of db spec) rows counts = Inr (t, c)"
    and rest: "write_batches (with_table db spec t) bs c = Inr (db', counts')" by (auto simp: res_simps)
  have spec: "spec \<in> set ordered_specs" "spec = PHYSICAL_NOTIFICATION_SPEC \<Longrightarrow> list_all unit_typed rows"
    and bs: "batches_ok bs" using Cons.prems(2) by (auto simp: b batches_ok_def)
  have tab: "spec_table_ok db spec" "segment_table (table_of db PHYSICAL_NOTIFICATION_SPEC)"
    using Cons.prems(1) spec(1) by (simp_all add: ingestion_ok_def list_all_iff)
  have step: "(if immutable_revisioned spec then revision_table spec t \<and> (\<exists>new. t = table_of db spec @ new) else current_table spec t)
      \<and> counts_total c = counts_total counts + int (length rows)
      \<and> wc_inserted counts \<le> wc_inserted c \<and> wc_updated counts \<le> wc_updated c"
  proof (cases "immutable_revisioned spec")
    case True
    with tab(1) have "revision_table spec (table_of db spec)" by (simp add: spec_table_ok_def)
    from write_spec_appends [OF ordered_shapes(1) [OF spec(1) True] this w] True show ?thesis by simp
  next
    case False
    with tab(1) have "current_table spec (table_of db spec)" by (simp add: spec_table_ok_def)
    moreover obtain us d where "deduplicate_rows rows (us_conflict_columns spec) = (us, d)" by force
    ultimately show ?thesis
      using write_spec_current [OF ordered_shapes(2) [OF spec(1) False] _ _ w] False by (auto simp: upserted_def)
  qed
  have seg: "spec = PHYSICAL_NOTIFICATION_SPEC \<Longrightarrow> segment_table t"
    using written_segments(1) [OF tab(2)] w spec(2) by blast
  from table_step [OF Cons.prems(1) spec(1)] step seg
  have db1: "ingestion_ok (with_table db spec t)" "history_grows_to db (with_table db spec t)" by blast+
  from Cons.IH [OF db1(1) bs rest] step history_grows_trans [OF db1(2)] show ?case
    by (auto simp: b rows_total_def)
qed (simp add: rows_total_def)


section \<open>Reference assets in a transaction\<close>

lemma put_rows_all:
  assumes "\<And>e r. P e \<Longrightarrow> P r \<Longrightarrow> P (update r e)" and "\<forall>e \<in> set table. P e" and "\<forall>r \<in> set rs. P r"
  shows "\<forall>e \<in> set (put_rows key update table rs). P e"
  using assms(2,3)
proof (induction rs arbitrary: table)
  case (Cons r rs)
  have "\<forall>e \<in> set (put_row key update table r). P e"
    using Cons.prems assms(1) by (auto simp: put_row_def)
  from Cons.IH [OF this] Cons.prems(2) show ?case by (simp add: put_rows_def)
qed (simp add: put_rows_def)

lemma upsert_placeholders_ok:
  assumes "asset_table table" and "\<forall>r \<in> set rows. asset_typed r"
  shows "asset_table (upsert_placeholders table rows)"
    and "asset_key ` set table \<subseteq> asset_key ` set (upsert_placeholders table rows)"
proof -
  have "\<forall>e \<in> set (upsert_placeholders table rows). asset_typed e"
    unfolding upsert_placeholders_def
    using assms by (intro put_rows_all) (auto simp: asset_table_def list_all_iff typed_after_retire)
  then show "asset_table (upsert_placeholders table rows)"
    using assms(1) placeholders.put_rows_distinct [of table rows]
    by (simp add: asset_table_def current_table_def asset_conflict upsert_placeholders_def list_all_iff)
  show "asset_key ` set table \<subseteq> asset_key ` set (upsert_placeholders table rows)"
    using placeholders.put_rows_key_set [of table rows] by (auto simp: upsert_placeholders_def)
qed

lemma placeholder_typed: "asset_typed (placeholder_row external_id national elexon)"
  by (auto simp: asset_typed_iff placeholder_row_def row_value_def)

lemma assets_changed:
  assumes "ingestion_ok db" and "asset_table assets" and "asset_key ` set (idb_assets db) \<subseteq> asset_key ` set assets"
  shows "ingestion_ok (db\<lparr>idb_assets := assets\<rparr>) \<and> history_grows_to db (db\<lparr>idb_assets := assets\<rparr>)"
proof -
  have t: "table_of (db\<lparr>idb_assets := assets\<rparr>) s = table_of db s" for s by (simp add: table_of_def)
  then have "spec_table_ok (db\<lparr>idb_assets := assets\<rparr>) = spec_table_ok db" by (simp add: spec_table_ok_def fun_eq_iff)
  with assms t show ?thesis by (auto simp: ingestion_ok_def history_grows_to_def list_all_iff)
qed

text \<open>Updates of the tables that carry no history.\<close>

lemma unrelated_changed:
  "ingestion_ok (db\<lparr>idb_sources := a\<rparr>) = ingestion_ok db" "history_grows_to db (db\<lparr>idb_sources := a\<rparr>)"
  "ingestion_ok (db\<lparr>idb_raw := w\<rparr>) = ingestion_ok db" "history_grows_to db (db\<lparr>idb_raw := w\<rparr>)"
  "history_grows_to db (db\<lparr>idb_runs := rs\<rparr>)"
  by (auto simp: ingestion_ok_def history_grows_to_def list_all_iff spec_table_ok_def table_of_def)

lemma runs_changed:
  "ingestion_ok db \<Longrightarrow> distinct (map ir_idempotency_key rs) \<Longrightarrow> ingestion_ok (db\<lparr>idb_runs := rs\<rparr>)"
  by (auto simp: ingestion_ok_def list_all_iff spec_table_ok_def table_of_def)

lemma ensure_assets_ok:
  assumes "ingestion_ok db" and "ensure_bm_unit_assets db records = Inr (db', ids)"
  shows "ingestion_ok db' \<and> history_grows_to db db'"
proof -
  have "\<exists>sources d. db' = (db\<lparr>idb_sources := sources\<rparr>)\<lparr>idb_assets := upsert_placeholders (idb_assets db)
      (map (\<lambda>(external_id, national, elexon). placeholder_row external_id national elexon) d)\<rparr>"
    using assms(2) unfolding ensure_bm_unit_assets_def Let_def
    by (clarsimp simp: res_simps guard_eq_Inr split del: if_split) blast
  then obtain sources d where
    db': "db' = (db\<lparr>idb_sources := sources\<rparr>)\<lparr>idb_assets := upsert_placeholders (idb_assets db)
      (map (\<lambda>(external_id, national, elexon). placeholder_row external_id national elexon) d)\<rparr>" by blast
  define rows where "rows = map (\<lambda>(external_id, national, elexon). placeholder_row external_id national elexon) d"
  have ok: "ingestion_ok (db\<lparr>idb_sources := sources\<rparr>)" using assms(1) by (simp add: unrelated_changed)
  have typed: "\<forall>r \<in> set rows. asset_typed r" using placeholder_typed by (auto simp: rows_def)
  have at: "asset_table (idb_assets db)" using assms(1) by (simp add: ingestion_ok_def)
  from assets_changed [OF ok upsert_placeholders_ok(1) [OF at typed]] upsert_placeholders_ok(2) [OF at typed]
    history_grows_trans [OF unrelated_changed(2)]
  show ?thesis unfolding db' rows_def [symmetric] by auto
qed

text \<open>Merging the duplicates of a BM-unit snapshot.\<close>

definition merged_ok :: "(cell list, row) dict \<Rightarrow> bool" where
  "merged_ok d \<longleftrightarrow> distinct (map fst d) \<and> (\<forall>(k, r) \<in> set d. asset_key r = k \<and> asset_typed r)"

lemma merged_ok_store:
  assumes "merged_ok d" and "asset_key r = k" and "asset_typed r"
  shows "merged_ok (store d k r)"
proof -
  have "(k', r') \<in> set (store d k r) \<Longrightarrow> (k', r') = (k, r) \<or> (k', r') \<in> set d" for k' r'
    by (induction d) (auto split: if_splits)
  with assms show ?thesis by (fastforce simp: merged_ok_def distinct_update)
qed

lemma merge_step_ok:
  assumes "merged_ok d" and "asset_typed c" and "merge_step (d, n) c = (d', n')"
  shows "merged_ok d' \<and> int (length d') + n' = int (length d) + n + 1"
proof -
  let ?k = "asset_key c"
  have keyed: "asset_key (store c ''attributes'' v) = ?k" "asset_typed (store c ''attributes'' v) = asset_typed c" for v
    by (simp_all add: asset_key_def key_of_store asset_typed_iff row_value_store)
  have len: "length (store d ?k r) = (if lookup d ?k = None then Suc (length d) else length d)" for r
    by (induction d) (auto split: if_splits)
  show ?thesis
  proof (cases "lookup d ?k")
    case None
    with assms(3) have "d' = store d ?k c" "n' = n" by (simp_all add: merge_step_def)
    with None merged_ok_store [OF assms(1) refl assms(2)] len show ?thesis by simp
  next
    case (Some e)
    with assms(3) obtain v where "d' = store d ?k (store c ''attributes'' v)" "n' = n + 1"
      by (auto simp: merge_step_def Let_def)
    with Some merged_ok_store [OF assms(1) keyed(1)] assms(2) keyed(2) len show ?thesis by simp
  qed
qed

lemma merged_rows:
  assumes "merge_asset_reference_rows rows = (merged, duplicates)" and "\<forall>r \<in> set rows. asset_typed r"
  shows "distinct (map asset_key merged)" and "list_all asset_typed merged"
    and "int (length merged) + duplicates = int (length rows)"
proof -
  have "merged_ok d' \<and> int (length d') + n' = int (length d) + n + int (length rs)"
    if "foldl merge_step (d, n) rs = (d', n')" "merged_ok d" "\<forall>r \<in> set rs. asset_typed r" for d n rs d' n'
    using that
  proof (induction rs arbitrary: d n)
    case (Cons r rs)
    obtain e m where s: "merge_step (d, n) r = (e, m)" by force
    from merge_step_ok [OF Cons.prems(2) _ s] Cons.prems Cons.IH [of e m] show ?case by (simp add: s)
  qed simp
  moreover obtain d where d: "foldl merge_step ([], 0) rows = (d, duplicates)" "merged = map snd d"
    using assms(1) by (auto simp: merge_asset_reference_rows_def split: prod.splits)
  ultimately have m: "merged_ok d" "int (length d) + duplicates = int (length rows)"
    using assms(2) by (fastforce simp: merged_ok_def)+
  have "map asset_key merged = map fst d"
    unfolding d(2) map_map by (rule map_cong [OF refl]) (use m(1) in \<open>force simp: merged_ok_def\<close>)
  with m show "distinct (map asset_key merged)" by (simp add: merged_ok_def)
  show "list_all asset_typed merged" using m(1) by (auto simp: merged_ok_def d(2) list_all_iff)
  show "int (length merged) + duplicates = int (length rows)" using m(2) by (simp add: d(2))
qed


lemma rbind_InrE: "rbind m f = Inr y \<Longrightarrow> (\<And>x. m = Inr x \<Longrightarrow> f x = Inr y \<Longrightarrow> P) \<Longrightarrow> P"
  by (auto simp: rbind_eq_Inr)

lemma retire_counted: "0 \<le> snd (retire P table)"
  by (simp add: retire_def)

lemma bm_units_ok:
  assumes "asset_table assets" and "persist_asset_reference_snapshot assets s records = Inr (assets', counts)"
  shows "asset_table assets' \<and> asset_key ` set assets \<subseteq> asset_key ` set assets'
    \<and> int (length records) \<le> counts_total counts \<and> 0 \<le> wc_inserted counts \<and> 0 \<le> wc_updated counts"
proof -
  let ?rows_of = "\<lambda>merged. map (with_id BM_UNIT_ASSET_NAMESPACE s) merged"
  obtain mapped where m: "traverse (\<lambda>r. map_asset_reference r s) records = Inr mapped"
    and q: "(let (merged, duplicate_count) = merge_asset_reference_rows mapped; rows = ?rows_of merged
        in rbind (upsert_batches ASSET_REFERENCE_SPEC assets (no_counts\<lparr>wc_unchanged := duplicate_count\<rparr>)
                    (normalized_write_batches rows)) (\<lambda>(assets', counts).
          let external_ids = map (\<lambda>r. row_value r ''external_id'') rows
          in if external_ids = [] then Inr (assets', counts)
             else
               let (assets'', deactivated) = retire (bm_unit_absent s external_ids) assets'
               in Inr (assets'', counts\<lparr>wc_updated := wc_updated counts + deactivated\<rparr>))) = Inr (assets', counts)"
    using assms(2) [unfolded persist_asset_reference_snapshot_def guard_eq_Inr rbind_eq_Inr] unfolding rbind_eq_Inr by blast
  obtain merged dups where mg: "merge_asset_reference_rows mapped = (merged, dups)" by force
  from q [unfolded mg Let_def prod.case] obtain x P where
    "upsert_batches ASSET_REFERENCE_SPEC assets (no_counts\<lparr>wc_unchanged := dups\<rparr>)
        (normalized_write_batches (?rows_of merged)) = Inr x"
    and "assets' = fst x \<and> counts = snd x
      \<or> assets' = fst (retire P (fst x)) \<and> counts = snd x\<lparr>wc_updated := wc_updated (snd x) + snd (retire P (fst x))\<rparr>"
    by (rule rbind_InrE) (auto simp: case_prod_beta split: if_splits)
  then obtain mid c where
    up: "upsert_batches ASSET_REFERENCE_SPEC assets (no_counts\<lparr>wc_unchanged := dups\<rparr>)
        (normalized_write_batches (?rows_of merged)) = Inr (mid, c)"
    and out: "assets' = mid \<and> counts = c
      \<or> assets' = fst (retire P mid) \<and> counts = c\<lparr>wc_updated := wc_updated c + snd (retire P mid)\<rparr>"
    by (cases x) simp
  have "asset_typed r" if "map_asset_reference a s = Inr r" for a r
    using that unfolding map_asset_reference_def Let_def
    by (clarsimp simp: mapping_inversion asset_typed_iff split del: if_split) (auto simp: row_value_def)
  with m have typed: "\<forall>r \<in> set mapped. asset_typed r"
    by (fastforce simp: traverse_eq_Inr list_all2_conv_all_nth in_set_conv_nth)
  note g = merged_rows [OF mg typed]
  let ?rows = "map (with_id BM_UNIT_ASSET_NAMESPACE s) merged"
  have rows: "list_all asset_typed ?rows" "distinct (map asset_key ?rows)"
    using g(1,2) by (auto simp: list_all_iff asset_typed_iff with_id_values comp_def)
  note w = written_assets [OF assms(1) rows up]
  have keys: "asset_key ` set (fst (retire P mid)) = asset_key ` set mid"
    using arg_cong [OF retire_keys [of P mid], of set] by (simp only: set_map)
  have n: "int (length records) \<le> counts_total c \<and> 0 \<le> wc_inserted c \<and> 0 \<le> wc_updated c"
    using w(5) g(3) traverse_length [OF m] by (simp add: counts_total_def no_counts_def)
  from out show ?thesis
  proof
    assume "assets' = mid \<and> counts = c"
    with w(1,2) n show ?thesis by simp
  next
    assume r: "assets' = fst (retire P mid) \<and> counts = c\<lparr>wc_updated := wc_updated c + snd (retire P mid)\<rparr>"
    with retire_table [OF w(1), of P] keys w(2) n retire_counted [of P mid] show ?thesis
      by (simp add: counts_total_def)
  qed
qed

lemma repd_ok:
  assumes "asset_table assets" and "persist_repd_snapshot assets s records = Inr (assets', counts)"
  shows "asset_table assets' \<and> asset_key ` set assets \<subseteq> asset_key ` set assets'
    \<and> int (length records) \<le> counts_total counts \<and> 0 \<le> wc_inserted counts \<and> 0 \<le> wc_updated counts"
proof -
  obtain mapped rows mid c where
    rows: "rows = map (with_id REPD_ASSET_NAMESPACE s) mapped"
    and m: "list_all2 (\<lambda>site r. map_repd_site site s = Inr r) records mapped"
    and d: "distinct (map site_id records)"
    and up: "upsert_batches ASSET_REFERENCE_SPEC assets no_counts (normalized_write_batches rows) = Inr (mid, c)"
    and out: "assets' = fst (retire (repd_absent s (sorted_set (map site_id records))) mid)"
      "counts = c\<lparr>wc_updated := wc_updated c + snd (retire (repd_absent s (sorted_set (map site_id records))) mid)\<rparr>"
    by (rule repd_snapshot_steps [OF assms(2)])
  let ?gone = "repd_absent s (sorted_set (map site_id records))"
  note rr = repd_rows [OF m, where ns = REPD_ASSET_NAMESPACE, folded rows]
  have "distinct (map asset_key rows)" unfolding rr(1) using d by (simp add: distinct_map inj_on_def)
  note w = written_assets [OF assms(1) rr(2) this up]
  have "asset_key ` set assets' = asset_key ` set mid"
    unfolding out(1) using arg_cong [OF retire_keys [of ?gone mid], of set] by (simp only: set_map)
  moreover have "length rows = length records" using arg_cong [OF rr(1), of length] by simp
  ultimately show ?thesis
    using w(2,5) retire_table [OF w(1), of ?gone] retire_counted [of ?gone mid]
    by (simp add: out counts_total_def no_counts_def)
qed

lemma persist_references_steps:
  assumes "persist_references db s records = Inr (db', counts)"
  obtains a1 c1 a2 c2 where
    "(if asset_references records \<noteq> [] then persist_asset_reference_snapshot (idb_assets db) s (asset_references records)
      else Inr (idb_assets db, no_counts)) = Inr (a1, c1)"
    "(if repd_sites records \<noteq> [] then persist_repd_snapshot a1 s (repd_sites records) else Inr (a1, no_counts)) = Inr (a2, c2)"
    "db' = db\<lparr>idb_assets := a2\<rparr>" "counts = add_counts c1 c2"
proof -
  from assms [unfolded persist_references_def] show thesis
  proof (elim rbind_InrE)
    fix x assume x: "(if asset_references records \<noteq> [] then persist_asset_reference_snapshot (idb_assets db) s (asset_references records)
         else Inr (idb_assets db, no_counts)) = Inr x"
      and "(case x of (assets, counts) \<Rightarrow> rbind (if repd_sites records \<noteq> [] then persist_repd_snapshot assets s (repd_sites records)
          else Inr (assets, no_counts)) (\<lambda>(assets', counts'). Inr (db\<lparr>idb_assets := assets'\<rparr>, add_counts counts counts'))) = Inr (db', counts)"
    then have "rbind (if repd_sites records \<noteq> [] then persist_repd_snapshot (fst x) s (repd_sites records)
          else Inr (fst x, no_counts)) (\<lambda>(assets', counts'). Inr (db\<lparr>idb_assets := assets'\<rparr>, add_counts (snd x) counts')) = Inr (db', counts)"
      by (simp add: case_prod_beta)
    then obtain y where "(if repd_sites records \<noteq> [] then persist_repd_snapshot (fst x) s (repd_sites records)
          else Inr (fst x, no_counts)) = Inr y" "db' = db\<lparr>idb_assets := fst y\<rparr>" "counts = add_counts (snd x) (snd y)"
      by (elim rbind_InrE) (auto simp: case_prod_beta)
    with x that [of "fst x" "snd x" "fst y" "snd y"] show thesis by simp
  qed
qed

lemma persist_references_ok:
  assumes "ingestion_ok db" and "persist_references db s records = Inr (db', counts)"
  shows "ingestion_ok db' \<and> history_grows_to db db'
    \<and> int (length (asset_references records)) + int (length (repd_sites records)) \<le> counts_total counts
    \<and> 0 \<le> wc_inserted counts \<and> 0 \<le> wc_updated counts"
proof -
  obtain a1 c1 a2 c2 where
    one: "(if asset_references records \<noteq> [] then persist_asset_reference_snapshot (idb_assets db) s (asset_references records)
           else Inr (idb_assets db, no_counts)) = Inr (a1, c1)"
    and two: "(if repd_sites records \<noteq> [] then persist_repd_snapshot a1 s (repd_sites records) else Inr (a1, no_counts)) = Inr (a2, c2)"
    and out: "db' = db\<lparr>idb_assets := a2\<rparr>" "counts = add_counts c1 c2"
    by (rule persist_references_steps [OF assms(2)])
  have "asset_table (idb_assets db)" using assms(1) by (simp add: ingestion_ok_def)
  with one bm_units_ok have s1: "asset_table a1 \<and> asset_key ` set (idb_assets db) \<subseteq> asset_key ` set a1
      \<and> int (length (asset_references records)) \<le> counts_total c1 \<and> 0 \<le> wc_inserted c1 \<and> 0 \<le> wc_updated c1"
    by (cases "asset_references records = []") (fastforce simp: no_counts_def counts_total_def)+
  with two repd_ok [of a1 s "repd_sites records"]
  have s2: "asset_table a2 \<and> asset_key ` set a1 \<subseteq> asset_key ` set a2
      \<and> int (length (repd_sites records)) \<le> counts_total c2 \<and> 0 \<le> wc_inserted c2 \<and> 0 \<le> wc_updated c2"
    by (cases "repd_sites records = []") (fastforce simp: no_counts_def counts_total_def)+
  from assets_changed [OF assms(1), of a2] s1 s2 show ?thesis
    by (auto simp: out add_counts_def counts_total_def)
qed


section \<open>The rows of a result\<close>

text \<open>A reference record has no row of its own here; any other record has one, complete for its
  specification.\<close>

definition mapped_row_ok :: "str \<Rightarrow> source_record \<Rightarrow> (upsert_spec \<times> row) option \<Rightarrow> bool" where
  "mapped_row_ok s r x \<longleftrightarrow>
     (case x of
        None \<Rightarrow> (\<exists>a. r = Rec_Asset a) \<or> (\<exists>site. r = Rec_Repd site)
      | Some (spec, values) \<Rightarrow> \<not> (\<exists>a. r = Rec_Asset a) \<and> \<not> (\<exists>site. r = Rec_Repd site)
          \<and> spec \<in> set ordered_specs \<and> mapped_for spec s values
          \<and> (spec = PHYSICAL_NOTIFICATION_SPEC \<longrightarrow> unit_typed values))"

lemma in_ordered_specs:
  "GENERATION_SPEC \<in> set ordered_specs" "DEMAND_SPEC \<in> set ordered_specs" "FREQUENCY_SPEC \<in> set ordered_specs"
  "INTERCONNECTOR_SPEC \<in> set ordered_specs" "CARBON_ACTUAL_SPEC \<in> set ordered_specs" "FORECAST_SPEC \<in> set ordered_specs"
  "REPORTED_NOTICE_SPEC \<in> set ordered_specs" "DISTRIBUTION_INCIDENT_SPEC \<in> set ordered_specs"
  "PHYSICAL_NOTIFICATION_SPEC \<in> set ordered_specs" "B1610_SETTLED_ENERGY_SPEC \<in> set ordered_specs"
  by (simp_all add: ordered_specs_def)

lemma not_notification:
  "GENERATION_SPEC \<noteq> PHYSICAL_NOTIFICATION_SPEC" "DEMAND_SPEC \<noteq> PHYSICAL_NOTIFICATION_SPEC"
  "FREQUENCY_SPEC \<noteq> PHYSICAL_NOTIFICATION_SPEC" "INTERCONNECTOR_SPEC \<noteq> PHYSICAL_NOTIFICATION_SPEC"
  "CARBON_ACTUAL_SPEC \<noteq> PHYSICAL_NOTIFICATION_SPEC" "FORECAST_SPEC \<noteq> PHYSICAL_NOTIFICATION_SPEC"
  "REPORTED_NOTICE_SPEC \<noteq> PHYSICAL_NOTIFICATION_SPEC" "DISTRIBUTION_INCIDENT_SPEC \<noteq> PHYSICAL_NOTIFICATION_SPEC"
  "B1610_SETTLED_ENERGY_SPEC \<noteq> PHYSICAL_NOTIFICATION_SPEC"
  by (simp_all add: spec_defs immutable_spec_def current_spec_def)

lemma segment_unit_typed: "map_physical_notification_segment r s raw a = Inr values \<Longrightarrow> unit_typed values"
  unfolding map_physical_notification_segment_def
  by (clarsimp simp: guard_eq_Inr unit_typed_iff split del: if_split) (auto simp: row_value_def split: option.splits)

lemma map_record_ok: "map_record s raw ids r = Inr x \<Longrightarrow> mapped_row_ok s r x"
  by (cases r)
    (auto simp: map_record_def Let_def res_simps mapped_row_ok_def in_ordered_specs not_notification
      dest: mapped_columns segment_unit_typed split: if_splits)

lemma records_counted:
  "list_all2 (mapped_row_ok s) records mapped \<Longrightarrow>
     length (asset_references records) + length (repd_sites records) + length (somes mapped) = length records"
  by (induction rule: list_all2_induct)
    (auto simp: mapped_row_ok_def asset_references_def repd_sites_def split: option.splits prod.splits source_record.splits)

definition grouped_rows :: "(upsert_spec \<times> row) list \<Rightarrow> (str, row list) dict" where
  "grouped_rows mapped = foldl (\<lambda>d (spec, values). push d (us_model spec) values) [] mapped"

lemma grouped_rows_get:
  "get_or (grouped_rows mapped) m [] = map snd (filter (\<lambda>(spec, values). us_model spec = m) mapped)"
proof (induction mapped rule: rev_induct)
  case (snoc x xs)
  obtain spec v where x: "x = (spec, v)" by (cases x)
  have "grouped_rows (xs @ [x]) = push (grouped_rows xs) (us_model spec) v" by (simp add: grouped_rows_def x)
  with snoc get_or_push [of "grouped_rows xs" "us_model spec" v m] show ?case by (auto simp: x)
qed (simp add: grouped_rows_def)

lemma one_spec: "s \<in> set ordered_specs \<Longrightarrow> sum_list (map (\<lambda>spec. if us_model s = us_model spec then 1 else (0::int)) ordered_specs) = 1"
  unfolding ordered_specs_def by (auto simp: spec_defs immutable_spec_def current_spec_def)

lemma rows_of_specs:
  assumes "\<forall>(spec, values) \<in> set mapped. spec \<in> set ordered_specs"
  shows "sum_list (map (\<lambda>spec. int (length (filter (\<lambda>(s, values). us_model s = us_model spec) mapped))) ordered_specs)
    = int (length mapped)"
  using assms
proof (induction mapped)
  case Nil
  then show ?case by simp
next
  case (Cons x xs)
  obtain s v where x: "x = (s, v)" by (cases x)
  with Cons.prems have s: "s \<in> set ordered_specs" by simp
  have eq: "map (\<lambda>spec. int (length (filter (\<lambda>(s, values). us_model s = us_model spec) (x # xs)))) ordered_specs
      = map (\<lambda>spec. (if us_model s = us_model spec then 1 else 0) + int (length (filter (\<lambda>(s, values). us_model s = us_model spec) xs))) ordered_specs"
    by (simp add: x)
  show ?case unfolding eq using Cons one_spec [OF s] by (simp add: sum_list_addf)
qed

lemma rows_total_nonempty: "rows_total (filter (\<lambda>(spec, values). values \<noteq> []) bs) = rows_total bs"
  unfolding rows_total_def by (induction bs) auto

lemma map_record_batches_ok:
  assumes "map_record_batches records s raw ids = Inr batches"
  shows "batches_ok batches"
    and "int (length (asset_references records)) + int (length (repd_sites records)) + rows_total batches = int (length records)"
    and "\<forall>(spec, rows) \<in> set batches. list_all (mapped_for spec s) rows"
proof -
  from assms obtain mapped where m: "traverse (map_record s raw ids) records = Inr mapped"
    and b: "batches = filter (\<lambda>(spec, values). values \<noteq> [])
        (map (\<lambda>spec. (spec, get_or (grouped_rows (somes mapped)) (us_model spec) [])) ordered_specs)"
    by (auto simp: map_record_batches_def Let_def res_simps grouped_rows_def)
  have ok: "list_all2 (mapped_row_ok s) records mapped"
    using m map_record_ok by (fastforce simp: traverse_eq_Inr elim: list_all2_mono)
  have each: "spec \<in> set ordered_specs \<and> mapped_for spec s v \<and> (spec = PHYSICAL_NOTIFICATION_SPEC \<longrightarrow> unit_typed v)"
    if "(spec, v) \<in> set (somes mapped)" for spec v
  proof -
    from that have "Some (spec, v) \<in> set mapped" by (simp add: somes_def image_iff)
    then obtain i where "i < length mapped" "mapped ! i = Some (spec, v)" by (auto simp: in_set_conv_nth)
    with list_all2_nthD2 [OF ok, of i] show ?thesis by (simp add: mapped_row_ok_def)
  qed
  have in_batch: "spec \<in> set ordered_specs \<and> (\<forall>v \<in> set rows. (spec, v) \<in> set (somes mapped))"
    if "(spec, rows) \<in> set batches" for spec rows
  proof -
    from that have spec: "spec \<in> set ordered_specs" and rows: "rows = map snd (filter (\<lambda>(s, v). us_model s = us_model spec) (somes mapped))"
      by (auto simp: b grouped_rows_get)
    have "(spec, v) \<in> set (somes mapped)" if v: "v \<in> set rows" for v
    proof -
      from v rows obtain s' where s': "(s', v) \<in> set (somes mapped)" "us_model s' = us_model spec" by auto
      with each [OF s'(1)] same_model [OF _ spec] show ?thesis by simp
    qed
    with spec show ?thesis by blast
  qed
  show "batches_ok batches"
    using in_batch each unfolding batches_ok_def list_all_iff by blast
  show "\<forall>(spec, rows) \<in> set batches. list_all (mapped_for spec s) rows"
    using in_batch each unfolding list_all_iff by blast
  have "rows_total batches = int (length (somes mapped))"
  proof -
    have "\<forall>(spec, values) \<in> set (somes mapped). spec \<in> set ordered_specs" using each by blast
    from rows_of_specs [OF this] show ?thesis
      unfolding b rows_total_nonempty by (simp add: rows_total_def comp_def grouped_rows_get)
  qed
  with records_counted [OF ok] show "int (length (asset_references records)) + int (length (repd_sites records)) + rows_total batches = int (length records)"
    by simp
qed


section \<open>The transaction keeps the database\<close>

text \<open>What each step keeps, in the form the steps compose.\<close>

definition kept :: "ingestion_db \<Rightarrow> ingestion_db \<Rightarrow> bool" where
  "kept db db' \<longleftrightarrow> (ingestion_ok db \<longrightarrow> ingestion_ok db' \<and> history_grows_to db db')"

lemma kept_refl [simp]: "kept db db"
  by (simp add: kept_def)

lemma kept_trans: "kept a b \<Longrightarrow> kept b c \<Longrightarrow> kept a c"
  using history_grows_trans by (auto simp: kept_def)

lemma resolve_bm_units_kept: "resolve_bm_units db r = Inr (db', ids) \<Longrightarrow> kept db db'"
  using ensure_assets_ok by (auto simp: kept_def resolve_bm_units_def Let_def split: if_splits)

lemma prune_kept:
  assumes "prune_notifications db s r batches = Inr db'"
  shows "kept db db'"
proof (cases "is_physical_notification_snapshot r")
  case False
  with assms show ?thesis by (simp add: prune_notifications_def)
next
  case True
  with assms obtain table where
    p: "prune_physical_notification_scope (table_of db PHYSICAL_NOTIFICATION_SPEC) s (adr_metadata r)
          (rows_for PHYSICAL_NOTIFICATION_SPEC batches) = Inr table"
    and db': "db' = with_table db PHYSICAL_NOTIFICATION_SPEC table"
    by (auto simp: prune_notifications_def rbind_eq_Inr)
  from p obtain scope where scope: "pn_scope_of (adr_metadata r) = Inr scope"
    unfolding prune_physical_notification_scope_def by (rule rbind_InrE)
  have "ingestion_ok (with_table db PHYSICAL_NOTIFICATION_SPEC table)
      \<and> history_grows_to db (with_table db PHYSICAL_NOTIFICATION_SPEC table)" if ok: "ingestion_ok db"
  proof -
    have "segment_table (table_of db PHYSICAL_NOTIFICATION_SPEC)" using ok by (simp add: ingestion_ok_def)
    from pruned_rows(3) [OF p scope this] have "segment_table table" .
    then show ?thesis using notification_spec
      by (intro table_step [OF ok]) (simp_all add: segment_table_def)
  qed
  then show ?thesis by (simp add: kept_def db')
qed

lemma notices_kept:
  assumes "materialize_notices db batches = Inr db'"
  shows "kept db db'"
proof (cases "rows_for REPORTED_NOTICE_SPEC batches = []")
  case True
  with assms show ?thesis by (simp add: materialize_notices_def)
next
  case False
  with assms obtain l out where
    m: "materialize_reported_notice_rows (idb_lifecycle db) (rows_for REPORTED_NOTICE_SPEC batches) = Inr (l, out)"
    and db': "db' = db\<lparr>idb_lifecycle := l\<rparr>"
    by (auto simp: materialize_notices_def rbind_eq_Inr)
  have "ingestion_ok (db\<lparr>idb_lifecycle := l\<rparr>) \<and> history_grows_to db (db\<lparr>idb_lifecycle := l\<rparr>)" if ok: "ingestion_ok db"
  proof -
    have "lifecycle_tables (idb_lifecycle db)" using ok by (simp add: ingestion_ok_def)
    from materialize_runs [OF this, of "rows_for REPORTED_NOTICE_SPEC batches"] m obtain new where
      "lifecycle_tables l" "ld_revisions l = ld_revisions (idb_lifecycle db) @ new"
      by (auto simp: grows_for_def)
    with ok show ?thesis
      by (auto simp: ingestion_ok_def history_grows_to_def list_all_iff spec_table_ok_def table_of_def)
  qed
  then show ?thesis by (simp add: kept_def db')
qed

lemma incidents_kept:
  assumes "refresh_incidents db s r = Inr db'"
  shows "kept db db'"
proof (cases "is_distribution_snapshot r")
  case False
  with assms show ?thesis by (simp add: refresh_incidents_def)
next
  case True
  with assms obtain t incidents where
    f: "refresh_distribution_incident_current (idb_incidents db) s (incident_records (adr_records r)) t = Inr incidents"
    and db': "db' = db\<lparr>idb_incidents := incidents\<rparr>"
    by (auto simp: refresh_incidents_def rbind_eq_Inr)
  have "ingestion_ok (db\<lparr>idb_incidents := incidents\<rparr>) \<and> history_grows_to db (db\<lparr>idb_incidents := incidents\<rparr>)"
    if ok: "ingestion_ok db"
  proof -
    have "incident_table (idb_incidents db)" using ok by (simp add: ingestion_ok_def)
    from incident_table_kept [OF this f] ok show ?thesis
      by (auto simp: ingestion_ok_def history_grows_to_def list_all_iff spec_table_ok_def table_of_def)
  qed
  then show ?thesis by (simp add: kept_def db')
qed

lemma persist_normalized_ok:
  assumes "ingestion_ok db" and "persist_normalized db s raw r counts = Inr (db', counts')"
  shows "ingestion_ok db' \<and> history_grows_to db db'
    \<and> counts_total counts' + int (length (asset_references (adr_records r))) + int (length (repd_sites (adr_records r)))
        = counts_total counts + int (length (adr_records r))
    \<and> wc_inserted counts \<le> wc_inserted counts' \<and> wc_updated counts \<le> wc_updated counts'"
proof -
  from assms(2) obtain db1 ids batches db2 db3 db4 where
    a: "resolve_bm_units db r = Inr (db1, ids)"
    and b: "map_record_batches (adr_records r) s raw ids = Inr batches"
    and c: "prune_notifications db1 s r batches = Inr db2"
    and d: "write_batches db2 batches counts = Inr (db3, counts')"
    and e: "materialize_notices db3 batches = Inr db4" and f: "refresh_incidents db4 s r = Inr db'"
    by (auto simp: persist_normalized_def rbind_eq_Inr)
  note m = map_record_batches_ok [OF b]
  have k2: "kept db db2" by (rule kept_trans [OF resolve_bm_units_kept [OF a] prune_kept [OF c]])
  with assms(1) have "ingestion_ok db2" by (simp add: kept_def)
  note w = write_batches_ok [OF this m(1) d]
  then have "kept db2 db3" by (simp add: kept_def)
  from kept_trans [OF kept_trans [OF k2 this] kept_trans [OF notices_kept [OF e] incidents_kept [OF f]]]
  have "ingestion_ok db' \<and> history_grows_to db db'" using assms(1) by (simp add: kept_def)
  with w m(2) show ?thesis by auto
qed


section \<open>The whole transaction\<close>

interpretation runs: keyed_rows ir_idempotency_key
  "\<lambda>offered run. run\<lparr>ir_status := Run_Running, ir_started_at := attempted, ir_completed_at := None, ir_error := None\<rparr>"
  for attempted
  by unfold_locales simp

interpretation failed_runs: keyed_rows ir_idempotency_key
  "\<lambda>offered run. run\<lparr>ir_completed_at := Some failed, ir_status := Run_Failed, ir_error := Some error\<rparr>"
  for failed error
  by unfold_locales simp

lemma write_batches_runs: "write_batches db bs c = Inr (db', c') \<Longrightarrow> idb_runs db' = idb_runs db"
  by (induction bs arbitrary: db c) (auto simp: rbind_eq_Inr)

lemma steps_runs:
  "ensure_bm_unit_assets db records = Inr (db', ids) \<Longrightarrow> idb_runs db' = idb_runs db"
  "resolve_bm_units db r = Inr (db', ids) \<Longrightarrow> idb_runs db' = idb_runs db"
  "prune_notifications db s r batches = Inr db' \<Longrightarrow> idb_runs db' = idb_runs db"
  "materialize_notices db batches = Inr db' \<Longrightarrow> idb_runs db' = idb_runs db"
  "refresh_incidents db s r = Inr db' \<Longrightarrow> idb_runs db' = idb_runs db"
proof -
  show e: "idb_runs db' = idb_runs db" if "ensure_bm_unit_assets db records = Inr (db', ids)" for db db' records ids
    using that unfolding ensure_bm_unit_assets_def Let_def
    by (elim rbind_InrE) (clarsimp simp: guard_eq_Inr)
  show "resolve_bm_units db r = Inr (db', ids) \<Longrightarrow> idb_runs db' = idb_runs db"
    using e by (auto simp: resolve_bm_units_def Let_def split: if_splits)
  show "prune_notifications db s r batches = Inr db' \<Longrightarrow> idb_runs db' = idb_runs db"
    by (auto simp: prune_notifications_def rbind_eq_Inr split: if_splits)
  show "materialize_notices db batches = Inr db' \<Longrightarrow> idb_runs db' = idb_runs db"
    by (auto simp: materialize_notices_def Let_def rbind_eq_Inr split: if_splits)
  show "refresh_incidents db s r = Inr db' \<Longrightarrow> idb_runs db' = idb_runs db"
    by (auto simp: refresh_incidents_def rbind_eq_Inr split: if_splits)
qed

lemma persist_runs:
  "persist_references db s records = Inr (db', c) \<Longrightarrow> idb_runs db' = idb_runs db"
  "persist_normalized db s raw r c = Inr (db', c') \<Longrightarrow> idb_runs db' = idb_runs db"
proof -
  show "persist_references db s records = Inr (db', c) \<Longrightarrow> idb_runs db' = idb_runs db"
    by (erule persist_references_steps) simp
  assume "persist_normalized db s raw r c = Inr (db', c')"
  then obtain db1 ids batches db2 db3 db4 where
    "resolve_bm_units db r = Inr (db1, ids)" "prune_notifications db1 s r batches = Inr db2"
    "write_batches db2 batches c = Inr (db3, c')" "materialize_notices db3 batches = Inr db4" "refresh_incidents db4 s r = Inr db'"
    by (auto simp: persist_normalized_def rbind_eq_Inr)
  from steps_runs(2) [OF this(1)] steps_runs(3) [OF this(2)] write_batches_runs [OF this(3)] steps_runs(4) [OF this(4)]
    steps_runs(5) [OF this(5)]
  show "idb_runs db' = idb_runs db" by simp
qed

definition run_completed :: "ingestion_db \<Rightarrow> str \<Rightarrow> instant \<Rightarrow> persist_outcome \<Rightarrow> bool" where
  "run_completed db key completed out \<longleftrightarrow> (\<exists>run \<in> set (idb_runs db). ir_idempotency_key run = key
     \<and> ir_status run = Run_Succeeded \<and> ir_completed_at run = Some completed
     \<and> ir_records_written run = po_inserted out + po_updated out)"

definition outcome_total :: "persist_outcome \<Rightarrow> int" where
  "outcome_total out = po_inserted out + po_updated out + po_unchanged out"

definition started_runs :: "ingestion_db \<Rightarrow> str \<Rightarrow> adapter_result \<Rightarrow> row \<Rightarrow> instant \<Rightarrow> ingestion_run list" where
  "started_runs db job_id r metadata attempted =
     run_insert (idb_runs db) (started_run job_id (cell_text (row_value metadata ''id'')) r attempted)
       (\<lambda>run. run\<lparr>ir_status := Run_Running, ir_started_at := attempted, ir_completed_at := None, ir_error := None\<rparr>)"

definition id_of_run :: "ingestion_run list \<Rightarrow> str \<Rightarrow> uuid" where
  "id_of_run table key = (case run_with_key table key of Some run \<Rightarrow> ir_id run | None \<Rightarrow> uuid5 RUN_NAMESPACE key)"

definition finish_run :: "instant \<Rightarrow> write_counts \<Rightarrow> ingestion_run \<Rightarrow> ingestion_run" where
  "finish_run completed counts run = run\<lparr>ir_completed_at := Some completed, ir_status := Run_Succeeded,
     ir_records_written := wc_inserted counts + wc_updated counts\<rparr>"

definition finish_runs :: "uuid \<Rightarrow> instant \<Rightarrow> write_counts \<Rightarrow> ingestion_run list \<Rightarrow> ingestion_run list" where
  "finish_runs i completed counts = map (\<lambda>run. if ir_id run = i then finish_run completed counts run else run)"

lemma success_transaction_steps:
  assumes "success_transaction db job_id r metadata attempted completed = Inr (db', out)"
  obtains sources raw raw_id db2 counts db3 counts' where
    "persist_references (db\<lparr>idb_sources := sources, idb_runs := started_runs db job_id r metadata attempted, idb_raw := raw\<rparr>)
        (cell_text (row_value metadata ''id'')) (adr_records r) = Inr (db2, counts)"
    "persist_normalized db2 (cell_text (row_value metadata ''id'')) raw_id r counts = Inr (db3, counts')"
    "db' = db3\<lparr>idb_runs := finish_runs (id_of_run (started_runs db job_id r metadata attempted) (success_idempotency_key job_id r))
        completed counts' (started_runs db job_id r metadata attempted)\<rparr>"
    "out = \<lparr>po_inserted = wc_inserted counts', po_updated = wc_updated counts', po_unchanged = wc_unchanged counts'\<rparr>"
proof -
  from assms obtain sources raw raw_id db2 counts db3 counts' where
    p: "persist_references (db\<lparr>idb_sources := sources, idb_runs := started_runs db job_id r metadata attempted, idb_raw := raw\<rparr>)
        (cell_text (row_value metadata ''id'')) (adr_records r) = Inr (db2, counts)"
    and n: "persist_normalized db2 (cell_text (row_value metadata ''id'')) raw_id r counts = Inr (db3, counts')"
    and db': "db' = db3\<lparr>idb_runs := finish_runs (id_of_run (started_runs db job_id r metadata attempted) (success_idempotency_key job_id r))
        completed counts' (idb_runs db3)\<rparr>"
    and out: "out = \<lparr>po_inserted = wc_inserted counts', po_updated = wc_updated counts', po_unchanged = wc_unchanged counts'\<rparr>"
    unfolding success_transaction_def Let_def
    by (auto simp: rbind_eq_Inr case_prod_beta started_runs_def id_of_run_def finish_runs_def finish_run_def)
  have "idb_runs db3 = started_runs db job_id r metadata attempted"
    using persist_runs(1) [OF p] persist_runs(2) [OF n] by simp
  with that [OF p n _ out] db' show ?thesis by simp
qed

lemma started_keys:
  "ir_idempotency_key ` set (started_runs db job_id r metadata attempted)
     = insert (success_idempotency_key job_id r) (ir_idempotency_key ` set (idb_runs db))"
  unfolding started_runs_def run_insert_def runs.put_row_key_set by (simp add: started_run_def Let_def)

lemma finish_runs_keys: "map ir_idempotency_key (finish_runs i completed counts table) = map ir_idempotency_key table"
  by (simp add: finish_runs_def finish_run_def comp_def if_distrib cong: if_cong)

lemma success_transaction_ok:
  assumes "ingestion_ok db" and "success_transaction db job_id r metadata attempted completed = Inr (db', out)"
  shows "ingestion_ok db' \<and> history_grows_to db db' \<and> run_completed db' (success_idempotency_key job_id r) completed out
    \<and> int (length (adr_records r)) \<le> outcome_total out \<and> 0 \<le> po_inserted out \<and> 0 \<le> po_updated out"
proof -
  let ?s = "cell_text (row_value metadata ''id'')" and ?key = "success_idempotency_key job_id r"
  let ?started = "started_runs db job_id r metadata attempted"
  obtain sources raw raw_id db2 counts db3 counts' where
    p: "persist_references (db\<lparr>idb_sources := sources, idb_runs := ?started, idb_raw := raw\<rparr>) ?s (adr_records r) = Inr (db2, counts)"
    and n: "persist_normalized db2 ?s raw_id r counts = Inr (db3, counts')"
    and db': "db' = db3\<lparr>idb_runs := finish_runs (id_of_run ?started ?key) completed counts' ?started\<rparr>"
    and out: "out = \<lparr>po_inserted = wc_inserted counts', po_updated = wc_updated counts', po_unchanged = wc_unchanged counts'\<rparr>"
    by (rule success_transaction_steps [OF assms(2)])
  let ?db1 = "db\<lparr>idb_sources := sources, idb_runs := ?started, idb_raw := raw\<rparr>"
  have "distinct (map ir_idempotency_key (idb_runs db))" using assms(1) by (simp add: ingestion_ok_def)
  then have d: "distinct (map ir_idempotency_key ?started)"
    unfolding started_runs_def run_insert_def by (rule runs.put_row_distinct)
  have one: "ingestion_ok ?db1 \<and> history_grows_to db ?db1"
    using assms(1) d by (auto simp: ingestion_ok_def history_grows_to_def list_all_iff spec_table_ok_def table_of_def)
  note two = persist_references_ok [OF conjunct1 [OF one] p]
  note three = persist_normalized_ok [OF conjunct1 [OF two] n]
  have "distinct (map ir_idempotency_key (idb_runs db'))" using d by (simp add: db' finish_runs_keys)
  then have "ingestion_ok db' \<and> history_grows_to db3 db'"
    using runs_changed [OF conjunct1 [OF three]] unfolding db' by (simp add: unrelated_changed)
  moreover have "history_grows_to db db3" using one two three history_grows_trans by blast
  moreover have "run_completed db' ?key completed out"
  proof -
    have "?key \<in> ir_idempotency_key ` set ?started" by (simp only: started_keys insertI1)
    then obtain run where run: "run_with_key ?started ?key = Some run"
      by (cases "run_with_key ?started ?key") (auto simp: run_with_key_def find_None_iff)
    from run have "ir_id run = id_of_run ?started ?key" by (simp add: id_of_run_def)
    moreover from run have "run \<in> set ?started" "ir_idempotency_key run = ?key"
      by (auto simp: run_with_key_def find_Some_iff)
    ultimately show ?thesis unfolding run_completed_def
      by (intro bexI [of _ "finish_run completed counts' run"])
        (auto simp: db' out finish_runs_def finish_run_def image_iff)
  qed
  moreover have "int (length (adr_records r)) \<le> outcome_total out \<and> 0 \<le> po_inserted out \<and> 0 \<le> po_updated out"
    using two three by (simp add: out outcome_total_def counts_total_def)
  ultimately show ?thesis using history_grows_trans by blast
qed



section \<open>Immutable tables capture every change once\<close>

text \<open>C5: writing the rows of an immutable specification appends rows and nothing else; afterwards the
  latest stored revision of every identity states the facts of the last row that was offered for it;
  and writing the same rows again stores nothing and counts nothing as inserted or corrected.\<close>

theorem revisions_capture_changes:
  assumes "spec \<in> set ordered_specs" and "immutable_revisioned spec" and "revision_table spec table"
    and "write_spec spec table rows counts = Inr (table', counts')"
  shows "(\<exists>new. table' = table @ new) \<and> revision_table spec table'
    \<and> (\<forall>r. last_of_key (us_identity_columns spec) rows r \<longrightarrow>
          map_option (factual_signature spec) (lookup (keep_latest (identity_key spec) revision_of table') (identity_key spec r))
            = Some (factual_signature spec r))
    \<and> (\<exists>counts''. write_spec spec table' rows counts = Inr (table', counts'')
          \<and> wc_inserted counts'' = wc_inserted counts \<and> wc_updated counts'' = wc_updated counts)"
proof -
  note proper = ordered_shapes(1) [OF assms(1,2)]
  obtain us d where dd: "deduplicate_rows rows (us_identity_columns spec) = (us, d)" by force
  note u = deduplicate_rows_unique [OF dd]
  have du: "distinct (map (identity_key spec) us)" using u(1) by (simp add: identity_key_def)
  note fresh = new_revisions_fresh [OF proper assms(3) du]
  from write_spec_immutable [OF proper assms(3) dd write_spec_checked [OF proper assms(3) dd assms(4)], of counts] assms(4)
  have t: "table' = table @ new_revisions spec table us" by auto
  have again: "\<exists>counts''. write_spec spec table' rows counts = Inr (table', counts'')
      \<and> wc_inserted counts'' = wc_inserted counts \<and> wc_updated counts'' = wc_updated counts"
    using write_spec_immutable [OF proper _ dd, of table' counts] fresh(1,3) by (auto simp: t)
  have "map_option (factual_signature spec) (lookup (keep_latest (identity_key spec) revision_of table') (identity_key spec r))
      = Some (factual_signature spec r)" if "last_of_key (us_identity_columns spec) rows r" for r
    unfolding t by (rule fresh(2)) (use u(2) that in blast)
  with again fresh(1) show ?thesis by (auto simp: t)
qed

definition example_row :: "rat \<Rightarrow> row" where
  "example_row mw = [(''source_id'', CStr ''elexon.indo''), (''series_key'', CStr ''s''), (''demand_type'', CStr ''d''),
     (''observed_at'', CTime 0), (''value_mw'', CFloat mw), (''settlement_period'', CNone), (''settlement_date'', CNone)]"

theorem revisions_capture_changes_witness:
  "\<exists>table' counts'. write_spec DEMAND_SPEC [] [example_row 1, example_row 2] no_counts = Inr (table', counts')
     \<and> map_option (factual_signature DEMAND_SPEC) (lookup (keep_latest (identity_key DEMAND_SPEC) revision_of table')
         (identity_key DEMAND_SPEC (example_row 2))) = Some (factual_signature DEMAND_SPEC (example_row 2))"
proof -
  let ?rows = "[example_row 1, example_row 2]"
  have "case write_spec DEMAND_SPEC [] ?rows no_counts of Inr x \<Rightarrow> True | Inl e \<Rightarrow> False" by code_simp
  then obtain table' counts' where w: "write_spec DEMAND_SPEC [] ?rows no_counts = Inr (table', counts')"
    by (auto split: sum.splits)
  have e: "revision_table DEMAND_SPEC []" by (simp add: revision_table_def)
  have i: "immutable_revisioned DEMAND_SPEC" "last_of_key (us_identity_columns DEMAND_SPEC) ?rows (example_row 2)"
    by code_simp+
  from revisions_capture_changes [OF in_ordered_specs(2) i(1) e w] i(2) w show ?thesis by blast
qed

section \<open>Checkpoints\<close>

lemma newest_run:
  assumes "new \<in> set table" and "ir_adapter new = job_id"
    and "\<And>run. run \<in> set table \<Longrightarrow> ir_adapter run = job_id \<Longrightarrow> run = new \<or> ir_started_at run < ir_started_at new"
  shows "py_max (\<lambda>run. (ir_started_at run, v (ir_id run) :: int)) (filter (\<lambda>run. ir_adapter run = job_id) table) = Some new"
proof -
  let ?f = "\<lambda>run. (ir_started_at run, v (ir_id run))" and ?mine = "filter (\<lambda>run. ir_adapter run = job_id) table"
  have "?mine \<noteq> []" using assms(1,2) by (auto simp: filter_empty_conv)
  then obtain x where x: "py_max ?f ?mine = Some x" by (cases "py_max ?f ?mine") simp_all
  from py_max_in [OF x] have "x \<in> set table" "ir_adapter x = job_id" by auto
  moreover have "?f new \<le> ?f x" using assms(1,2) by (intro py_max_ge [OF x]) simp
  ultimately have "x = new" using assms(3) [of x] by auto
  with x show ?thesis by simp
qed

text \<open>The most recently completed success among the runs of a job.\<close>

definition latest_success :: "ingestion_run list \<Rightarrow> str \<Rightarrow> ingestion_run option" where
  "latest_success table job_id =
     py_max (\<lambda>run. (case ir_completed_at run of None \<Rightarrow> (0::int, 0) | Some t \<Rightarrow> (1, t), ir_started_at run))
       (filter (\<lambda>run. ir_status run = Run_Succeeded) (filter (\<lambda>run. ir_adapter run = job_id) table))"

lemma checkpoint_of_newest:
  assumes "new \<in> set (idb_runs db)" and "ir_adapter new = job_id"
    and "\<And>run. run \<in> set (idb_runs db) \<Longrightarrow> ir_adapter run = job_id \<Longrightarrow> run = new \<or> ir_started_at run < ir_started_at new"
  shows "get_checkpoint v db job_id =
    (let succeeded = (if ir_status new = Run_Succeeded \<and> ir_completed_at new \<noteq> None then Some new
                      else latest_success (idb_runs db) job_id)
     in Some \<lparr>ick_job_id = job_id, ick_last_attempted_at = ir_started_at new,
          ick_last_succeeded_at = (case succeeded of Some run \<Rightarrow> ir_completed_at run | None \<Rightarrow> None),
          ick_window_end = map_option ir_requested_to succeeded\<rparr>)"
  by (auto simp add: get_checkpoint_def Let_def newest_run [OF assms, where v = v] latest_success_def simp del: filter_filter)

lemma run_with_key_append:
  "run_with_key (table @ [new]) key =
     (case run_with_key table key of Some run \<Rightarrow> Some run | None \<Rightarrow> if ir_idempotency_key new = key then Some new else None)"
  by (induction table) (simp_all add: run_with_key_def)

lemma fresh_run:
  "run_with_key table (ir_idempotency_key new) = None \<Longrightarrow> run_insert table new f = table @ [new]"
  by (auto simp: run_insert_def put_row_def run_with_key_def find_None_iff)

lemma checkpoint_after_success:
  assumes "\<And>run. run \<in> set (idb_runs db) \<Longrightarrow> ir_adapter run = job_id \<Longrightarrow> ir_started_at run < attempted"
    and "run_with_key (idb_runs db) (success_idempotency_key job_id r) = None"
    and "persist_success db job_id r (Aware attempted) (Aware completed) = Inr (db', out)"
  shows "get_checkpoint v db' job_id = Some \<lparr>ick_job_id = job_id, ick_last_attempted_at = attempted,
    ick_last_succeeded_at = Some completed, ick_window_end = Some (adr_window_end r)\<rparr>"
proof -
  from assms(3) obtain metadata where s: "success_transaction db job_id r metadata attempted completed = Inr (db', out)"
    by (auto simp: persist_success_def rbind_eq_Inr guard_eq_Inr as_utc_def)
  let ?key = "success_idempotency_key job_id r" and ?new = "started_run job_id (cell_text (row_value metadata ''id'')) r attempted"
  have k: "ir_idempotency_key ?new = ?key" by (simp add: started_run_def Let_def)
  have started: "started_runs db job_id r metadata attempted = idb_runs db @ [?new]"
    unfolding started_runs_def using assms(2) by (intro fresh_run) (simp add: k)
  have i: "id_of_run (idb_runs db @ [?new]) ?key = ir_id ?new"
    using assms(2) k by (simp add: id_of_run_def run_with_key_append)
  obtain counts' where db': "idb_runs db' = finish_runs (ir_id ?new) completed counts' (idb_runs db @ [?new])"
    by (rule success_transaction_steps [OF s]) (simp add: started i)
  have "get_checkpoint v db' job_id =
    (let succeeded = (if ir_status (finish_run completed counts' ?new) = Run_Succeeded
                       \<and> ir_completed_at (finish_run completed counts' ?new) \<noteq> None then Some (finish_run completed counts' ?new)
                      else latest_success (idb_runs db') job_id)
     in Some \<lparr>ick_job_id = job_id, ick_last_attempted_at = ir_started_at (finish_run completed counts' ?new),
          ick_last_succeeded_at = (case succeeded of Some run \<Rightarrow> ir_completed_at run | None \<Rightarrow> None),
          ick_window_end = map_option ir_requested_to succeeded\<rparr>)"
    using assms(1) by (intro checkpoint_of_newest)
      (auto simp: db' finish_runs_def finish_run_def started_run_def Let_def split: if_splits)
  then show ?thesis by (simp add: finish_run_def started_run_def Let_def)
qed

lemma checkpoint_after_failure:
  assumes "\<And>run. run \<in> set (idb_runs db) \<Longrightarrow> ir_adapter run = job_id \<Longrightarrow> ir_started_at run < attempted"
    and "run_with_key (idb_runs db) (failure_idempotency_key job_id ws we attempted error_type) = None"
    and "record_failure db job_id ws we (Aware attempted) (Aware failed) error_type message = Inr (db', u)"
  shows "get_checkpoint v db' job_id = Some \<lparr>ick_job_id = job_id, ick_last_attempted_at = attempted,
    ick_last_succeeded_at = (case latest_success (idb_runs db) job_id of Some run \<Rightarrow> ir_completed_at run | None \<Rightarrow> None),
    ick_window_end = map_option ir_requested_to (latest_success (idb_runs db) job_id)\<rparr>"
proof -
  from assms(3) obtain new f where new: "ir_adapter new = job_id" "ir_started_at new = attempted" "ir_status new = Run_Failed"
    "ir_idempotency_key new = failure_idempotency_key job_id ws we attempted error_type"
    and r: "idb_runs db' = run_insert (idb_runs db) new f"
    unfolding record_failure_def Let_def
    by (clarsimp simp: rbind_eq_Inr guard_eq_Inr as_utc_def) (metis ingestion_run.select_convs)
  have db': "idb_runs db' = idb_runs db @ [new]" unfolding r using assms(2) new(4) by (intro fresh_run) simp
  have same: "latest_success (idb_runs db') job_id = latest_success (idb_runs db) job_id"
    by (simp add: latest_success_def db' new)
  have "get_checkpoint v db' job_id =
    (let succeeded = (if ir_status new = Run_Succeeded \<and> ir_completed_at new \<noteq> None then Some new
                      else latest_success (idb_runs db') job_id)
     in Some \<lparr>ick_job_id = job_id, ick_last_attempted_at = ir_started_at new,
          ick_last_succeeded_at = (case succeeded of Some run \<Rightarrow> ir_completed_at run | None \<Rightarrow> None),
          ick_window_end = map_option ir_requested_to succeeded\<rparr>)"
    using assms(1) new by (intro checkpoint_of_newest) (auto simp: db')
  then show ?thesis by (simp add: new same Let_def)
qed

lemma success_transaction_succeeds:
  assumes "source_metadata_upsert (idb_sources db) metadata = Inr sources" and "as_utc (adr_retrieved_at r) ''result.retrieved_at'' = Inr t"
    and "\<And>rs w raw. \<exists>db2 c. persist_references (db\<lparr>idb_sources := sources, idb_runs := rs, idb_raw := w\<rparr>)
        (cell_text (row_value metadata ''id'')) (adr_records r) = Inr (db2, c)
      \<and> (\<exists>x. persist_normalized db2 (cell_text (row_value metadata ''id'')) raw r c = Inr x)"
  shows "\<exists>db' out. success_transaction db job_id r metadata attempted completed = Inr (db', out)"
proof -
  let ?s = "cell_text (row_value metadata ''id'')"
  define rs where "rs = started_runs db job_id r metadata attempted"
  obtain w raw where w: "raw_payload_insert (idb_raw db) (raw_row ?s (id_of_run rs (success_idempotency_key job_id r)) r t) = (w, raw)"
    by force
  from assms(3) [where rs = rs and w = w and raw = raw] obtain db2 c db3 c' where
    "persist_references (db\<lparr>idb_sources := sources, idb_runs := rs, idb_raw := w\<rparr>) ?s (adr_records r) = Inr (db2, c)"
    "persist_normalized db2 ?s raw r c = Inr (db3, c')" by auto
  then show ?thesis
    using assms(1,2) w unfolding success_transaction_def Let_def started_runs_def [symmetric] rs_def [symmetric] id_of_run_def [symmetric]
    by simp
qed

definition empty_db :: ingestion_db where
  "empty_db = \<lparr>idb_sources = [], idb_runs = [], idb_raw = [], idb_assets = [], idb_tables = [], idb_incidents = [],
     idb_lifecycle = \<lparr>ld_revisions = [], ld_deltas = []\<rparr>\<rparr>"

definition example_demand :: "int \<Rightarrow> rat \<Rightarrow> source_record" where
  "example_demand t mw = Rec_Demand \<lparr>dmr_source_key = ''k'', dmr_observed_at = Aware t, dmr_published_at = Aware t,
     dmr_retrieved_at = Aware t, dmr_demand_mw = mw, dmr_settlement_date = None, dmr_settlement_period = None,
     dmr_source = ''elexon'', dmr_dataset = ''INDO''\<rparr>"

definition example_result :: adapter_result where
  "example_result = \<lparr>adr_source_id = ''elexon'', adr_dataset = ''INDO'', adr_endpoint = ''indo'', adr_window_start = 0,
     adr_window_end = half_hour, adr_retrieved_at = Aware 0, adr_request_url = ''https://data.elexon.co.uk/x'',
     adr_records = [example_demand 0 30000, example_demand 0 30001, example_demand half_hour 29000],
     adr_raw_payload = JList [], adr_checksum_sha256 = replicate 64 CHR ''a'', adr_content_type = None,
     adr_metadata = [], adr_warnings = []\<rparr>"

lemma empty_db_ok: "ingestion_ok empty_db"
  by (simp add: ingestion_ok_def empty_db_def list_all_iff spec_table_ok_def table_of_def revision_table_def
      current_table_def segment_table_def asset_table_def incident_table_def no_rows)

lemma example_result_prepared:
  "case prepare_success example_result of Inl e \<Rightarrow> False
    | Inr m \<Rightarrow> (case source_metadata_upsert [] m of Inr x \<Rightarrow> row_value m ''id'' = CStr ''elexon.indo'' | Inl e \<Rightarrow> False)"
  by code_simp

lemma example_written:
  "case persist_references (empty_db\<lparr>idb_sources := a, idb_runs := rs, idb_raw := w\<rparr>) ''elexon.indo'' (adr_records example_result) of
     Inl e \<Rightarrow> False
   | Inr (db, c) \<Rightarrow> (case persist_normalized db ''elexon.indo'' raw example_result c of Inr x \<Rightarrow> True | Inl e \<Rightarrow> False)"
  by code_simp

lemma example_times: "idb_sources empty_db = []" "as_utc (adr_retrieved_at example_result) ''result.retrieved_at'' = Inr 0"
  by (simp_all add: empty_db_def example_result_def as_utc_def)

lemma example_persisted:
  "\<exists>db' out. persist_success empty_db ''elexon.indo'' example_result (Aware 1) (Aware 2) = Inr (db', out)"
proof -
  from example_result_prepared obtain m y where
    m: "prepare_success example_result = Inr m" "source_metadata_upsert [] m = Inr y" "row_value m ''id'' = CStr ''elexon.indo''"
    by (auto split: sum.splits)
  have "\<exists>db c x. persist_references (empty_db\<lparr>idb_sources := y, idb_runs := rs, idb_raw := w\<rparr>) ''elexon.indo'' (adr_records example_result)
        = Inr (db, c) \<and> persist_normalized db ''elexon.indo'' raw example_result c = Inr x" for rs w raw
    using example_written [where a = y and rs = rs and w = w and raw = raw]
    by (auto split: sum.splits prod.splits) (metis sum.exhaust prod.exhaust)
  then have "\<exists>db' out. success_transaction empty_db ''elexon.indo'' example_result m 1 2 = Inr (db', out)"
    using m(2,3) by (intro success_transaction_succeeds [where sources = y and t = 0])
      (simp_all add: cell_text_def example_times)
  with m(1) show ?thesis by (simp add: persist_success_def as_utc_def)
qed



text \<open>When a job starts later than all its runs, a success makes its checkpoint the times of that run
  and the end of the window it covered; a failure moves only the attempt and keeps the most recently
  completed success.\<close>

theorem checkpoint_follows_runs:
  assumes "\<forall>run \<in> set (idb_runs db). ir_adapter run = job_id \<longrightarrow> ir_started_at run < attempted"
    and "run_with_key (idb_runs db) (success_idempotency_key job_id r) = None"
    and "persist_success db job_id r (Aware attempted) (Aware completed) = Inr (db', out)"
    and "run_with_key (idb_runs db) (failure_idempotency_key job_id ws we attempted error_type) = None"
    and "record_failure db job_id ws we (Aware attempted) (Aware failed) error_type message = Inr (db'', u)"
  shows "get_checkpoint v db' job_id = Some \<lparr>ick_job_id = job_id, ick_last_attempted_at = attempted,
      ick_last_succeeded_at = Some completed, ick_window_end = Some (adr_window_end r)\<rparr>
    \<and> get_checkpoint v db'' job_id = Some \<lparr>ick_job_id = job_id, ick_last_attempted_at = attempted,
      ick_last_succeeded_at = (case latest_success (idb_runs db) job_id of Some run \<Rightarrow> ir_completed_at run | None \<Rightarrow> None),
      ick_window_end = map_option ir_requested_to (latest_success (idb_runs db) job_id)\<rparr>"
  using checkpoint_after_success [OF _ assms(2,3)] checkpoint_after_failure [OF _ assms(4,5)] assms(1) by blast

lemma example_failure:
  "case record_failure empty_db ''elexon.indo'' 0 half_hour (Aware 1) (Aware 2) ''Timeout'' ''slow'' of Inr x \<Rightarrow> True | Inl e \<Rightarrow> False"
proof -
  have "case job_source_metadata_values ''elexon.indo'' of Inl e \<Rightarrow> False
      | Inr m \<Rightarrow> (case source_metadata_upsert [] m of Inr x \<Rightarrow> True | Inl e \<Rightarrow> False)" by code_simp
  then obtain m y where "job_source_metadata_values ''elexon.indo'' = Inr m" "source_metadata_upsert [] m = Inr y"
    by (auto split: sum.splits)
  then show ?thesis by (simp add: record_failure_def as_utc_def Let_def example_times)
qed

theorem checkpoint_follows_runs_witness:
  "\<exists>db' out. persist_success empty_db ''elexon.indo'' example_result (Aware 1) (Aware 2) = Inr (db', out)
     \<and> get_checkpoint (\<lambda>_. 0) db' ''elexon.indo'' = Some \<lparr>ick_job_id = ''elexon.indo'', ick_last_attempted_at = 1,
         ick_last_succeeded_at = Some 2, ick_window_end = Some half_hour\<rparr>"
proof -
  obtain db' out where p: "persist_success empty_db ''elexon.indo'' example_result (Aware 1) (Aware 2) = Inr (db', out)"
    using example_persisted by blast
  obtain db'' u where f: "record_failure empty_db ''elexon.indo'' 0 half_hour (Aware 1) (Aware 2) ''Timeout'' ''slow'' = Inr (db'', u)"
    using example_failure by (auto split: sum.splits)
  have e: "idb_runs empty_db = []" by (simp add: empty_db_def)
  have "get_checkpoint (\<lambda>_. 0) db' ''elexon.indo'' = Some \<lparr>ick_job_id = ''elexon.indo'', ick_last_attempted_at = 1,
         ick_last_succeeded_at = Some 2, ick_window_end = Some (adr_window_end example_result)\<rparr>"
    using checkpoint_follows_runs [OF _ _ p _ f, where v = "\<lambda>_. 0"] by (simp add: e run_with_key_def)
  with p show ?thesis by (simp add: example_result_def)
qed

end
