(* ===== verification/Ingestion_Jobs.thy ===== *)
theory Ingestion_Jobs
  imports Ingestion_Invariants
begin

text \<open>
  What the ingestion repository promises to a scheduler: the failure of a job can always be recorded,
  a job's runs are its own, and its checkpoint follows its attempts as long as they come one after
  the other.
\<close>

section \<open>Source rows have canonical identifiers\<close>

definition canonical_source :: "row \<Rightarrow> bool" where
  "canonical_source r \<longleftrightarrow> (\<exists>p d i. row_value r ''provider'' = CStr p \<and> row_value r ''dataset'' = CStr d
     \<and> canonical_source_id p d = Inr i \<and> row_value r ''id'' = CStr i)
     \<and> null_or (number_where (\<lambda>x. 0 < x)) (row_value r ''expected_cadence_seconds'')"

lemma row_value_Cons: "row_value ((c, v) # r) k = (if c = k then v else row_value r k)"
  by (simp add: row_value_def)

lemma positive_cadence: "null_or (number_where ((<) 0)) (CInt n) \<longleftrightarrow> 0 < n"
  by (simp add: null_or_def)

lemma source_metadata_canonical:
  assumes "source_metadata_values p d u n = Inr m"
  shows "canonical_source m"
proof -
  obtain key dataset i name base doc licence licence_url attribution cadence where c: "\<not> cadence \<le> 0"
    and i: "canonical_source_id key dataset = Inr i"
    and m: "m = [(''id'', CStr i), (''provider'', CStr key), (''dataset'', CStr dataset), (''display_name'', name),
             (''base_url'', base), (''documentation_url'', doc), (''licence_name'', licence),
             (''licence_url'', licence_url), (''attribution'', attribution),
             (''expected_cadence_seconds'', CInt cadence), (''active'', CBool True)]"
    using assms unfolding source_metadata_values_def Let_def guard_eq_Inr rbind_eq_Inr
    by (elim conjE exE) (drule Inr_inject, rule that, assumption, assumption, erule sym)
  have v: "row_value m ''provider'' = CStr key" "row_value m ''dataset'' = CStr dataset" "row_value m ''id'' = CStr i"
    "row_value m ''expected_cadence_seconds'' = CInt cadence"
    by (simp_all add: m row_value_Cons)
  show ?thesis unfolding canonical_source_def v positive_cadence using c i by simp
qed

lemma canonical_source_store:
  assumes "c \<noteq> ''provider''" and "c \<noteq> ''dataset''" and "c \<noteq> ''id''" and "c \<noteq> ''expected_cadence_seconds''"
  shows "canonical_source (store r c v) = canonical_source r"
  unfolding canonical_source_def row_value_store
  by (simp only: assms [symmetric] if_False)

lemma job_metadata_canonical:
  assumes "job_source_metadata_values j = Inr m"
  shows "canonical_source m"
proof -
  obtain p d u where "rbind (source_metadata_values p d u None) (\<lambda>values.
           if row_value values ''id'' \<notin> CStr ` set PUBLIC_SOURCE_IDS
           then Inr (store (store values ''display_name'' (CStr (''50Hz worker '' @ em_dash @ '' '' @ upper d)))
                       ''active'' (CBool False))
           else Inr values) = Inr m"
    using assms unfolding job_source_metadata_values_def Let_def by (auto simp only: split_beta)
  then obtain vs where "source_metadata_values p d u None = Inr vs"
    and m: "m = vs \<or> m = store (store vs ''display_name'' (CStr (''50Hz worker '' @ em_dash @ '' '' @ upper d))) ''active'' (CBool False)"
    by (elim rbind_InrE) (simp split: if_splits)
  from source_metadata_canonical [OF this(1)] m show ?thesis by (elim disjE) (simp_all add: canonical_source_store)
qed

lemma repd_metadata_canonical: "canonical_source repd_source_metadata_values"
proof -
  have "canonical_source_id ''desnz'' ''REPD'' = Inr REPD_SOURCE_ID" by code_simp
  then show ?thesis by (auto simp: canonical_source_def repd_source_metadata_values_def row_value_Cons positive_cadence REPD_EXPECTED_CADENCE_SECONDS_def)
qed

lemma prepared_canonical: "prepare_success r = Inr m \<Longrightarrow> canonical_source m"
  using source_metadata_canonical repd_metadata_canonical
  by (auto simp: prepare_success_def rbind_eq_Inr guard_eq_Inr split: if_splits)

lemma canonical_upsert:
  assumes "canonical_source m" and "\<forall>r \<in> set table. canonical_source r"
  shows "source_metadata_upsert table m = Inr (put_row (\<lambda>r. row_value r ''id'') (\<lambda>new old. new) table m)"
    and "\<forall>r \<in> set (put_row (\<lambda>r. row_value r ''id'') (\<lambda>new old. new) table m). canonical_source r"
proof -
  have "row_value r ''id'' = row_value m ''id''" if "r \<in> set table" "key_of [''provider'', ''dataset''] r = key_of [''provider'', ''dataset''] m" for r
    using that assms by (auto simp: key_of_def canonical_source_def)
  then show "source_metadata_upsert table m = Inr (put_row (\<lambda>r. row_value r ''id'') (\<lambda>new old. new) table m)"
    using assms(1) by (auto simp: source_metadata_upsert_def Let_def canonical_source_def)
  show "\<forall>r \<in> set (put_row (\<lambda>r. row_value r ''id'') (\<lambda>new old. new) table m). canonical_source r"
    using assms by (auto simp: put_row_def)
qed


definition canonical_sources :: "ingestion_db \<Rightarrow> bool" where
  "canonical_sources db \<longleftrightarrow> (\<forall>r \<in> set (idb_sources db). canonical_source r)"

lemma steps_sources:
  "persist_references db s records = Inr (db', c) \<Longrightarrow> idb_sources db' = idb_sources db"
  "prune_notifications db s r batches = Inr db' \<Longrightarrow> idb_sources db' = idb_sources db"
  "write_batches db batches c = Inr (db', c') \<Longrightarrow> idb_sources db' = idb_sources db"
  "materialize_notices db batches = Inr db' \<Longrightarrow> idb_sources db' = idb_sources db"
  "refresh_incidents db s r = Inr db' \<Longrightarrow> idb_sources db' = idb_sources db"
proof -
  show "persist_references db s records = Inr (db', c) \<Longrightarrow> idb_sources db' = idb_sources db"
    by (erule persist_references_steps) simp
  show "prune_notifications db s r batches = Inr db' \<Longrightarrow> idb_sources db' = idb_sources db"
    by (auto simp: prune_notifications_def with_table_def rbind_eq_Inr split: if_splits)
  show "write_batches db batches c = Inr (db', c') \<Longrightarrow> idb_sources db' = idb_sources db"
    by (induction batches arbitrary: db c) (auto simp: rbind_eq_Inr with_table_def)
  show "materialize_notices db batches = Inr db' \<Longrightarrow> idb_sources db' = idb_sources db"
    by (auto simp: materialize_notices_def Let_def rbind_eq_Inr split: if_splits)
  show "refresh_incidents db s r = Inr db' \<Longrightarrow> idb_sources db' = idb_sources db"
    by (auto simp: refresh_incidents_def rbind_eq_Inr split: if_splits)
qed

lemma ensure_sources:
  assumes "ensure_bm_unit_assets db records = Inr (db', ids)" and "canonical_sources db"
  shows "canonical_sources db'"
proof -
  from assms(1) obtain m sources where m: "bm_unit_reference_source_metadata_values = Inr m"
    and s: "source_metadata_upsert (idb_sources db) m = Inr sources" and db': "idb_sources db' = sources"
    unfolding ensure_bm_unit_assets_def Let_def by (elim rbind_InrE) (clarsimp simp: guard_eq_Inr)
  from m have "canonical_source m" unfolding bm_unit_reference_source_metadata_values_def
    by (rule source_metadata_canonical)
  from canonical_upsert [OF this, of "idb_sources db"] assms(2) s db' show ?thesis by (simp add: canonical_sources_def)
qed

lemma persist_success_sources:
  assumes "persist_success db j r a c = Inr (db', out)" and "canonical_sources db"
  shows "canonical_sources db'"
proof -
  from assms(1) obtain m sources started raw raw_id db2 counts db3 counts' runs where p: "prepare_success r = Inr m"
    and s: "source_metadata_upsert (idb_sources db) m = Inr sources"
    and r: "persist_references (db\<lparr>idb_sources := sources, idb_runs := started, idb_raw := raw\<rparr>)
        (cell_text (row_value m ''id'')) (adr_records r) = Inr (db2, counts)"
    and n: "persist_normalized db2 (cell_text (row_value m ''id'')) raw_id r counts = Inr (db3, counts')"
    and db': "db' = db3\<lparr>idb_runs := runs\<rparr>"
    unfolding persist_success_def success_transaction_def Let_def
    by (auto simp: rbind_eq_Inr guard_eq_Inr case_prod_beta)
  from canonical_upsert [OF prepared_canonical [OF p], of "idb_sources db"] assms(2) s
  have "canonical_sources (db\<lparr>idb_sources := sources, idb_runs := started, idb_raw := raw\<rparr>)" by (simp add: canonical_sources_def)
  then have two: "canonical_sources db2" using steps_sources(1) [OF r] by (simp add: canonical_sources_def)
  from n obtain db1 ids batches db2' db3' db4 where
    a: "resolve_bm_units db2 r = Inr (db1, ids)" and b: "prune_notifications db1 (cell_text (row_value m ''id'')) r batches = Inr db2'"
    and c: "write_batches db2' batches counts = Inr (db3', counts')" and d: "materialize_notices db3' batches = Inr db4"
    and e: "refresh_incidents db4 (cell_text (row_value m ''id'')) r = Inr db3"
    by (auto simp: persist_normalized_def rbind_eq_Inr)
  have "canonical_sources db1" using a two ensure_sources by (auto simp: resolve_bm_units_def Let_def split: if_splits)
  then have "canonical_sources db3"
    using steps_sources(2) [OF b] steps_sources(3) [OF c] steps_sources(4) [OF d] steps_sources(5) [OF e]
    by (simp add: canonical_sources_def)
  then show ?thesis by (simp add: db' canonical_sources_def)
qed

section \<open>A failure can always be recorded\<close>

lemma record_failure_recorded:
  assumes "canonical_sources db" and "job_source_metadata_values j = Inr m" and "a \<le> f"
  shows "\<exists>db'. record_failure db j ws we (Aware a) (Aware f) name message = Inr (db', ())"
  using canonical_upsert(1) [OF job_metadata_canonical [OF assms(2)]] assms
  by (simp add: record_failure_def as_utc_def Let_def canonical_sources_def)

abbreviation failed_run :: "instant \<Rightarrow> str \<times> str \<Rightarrow> ingestion_run \<Rightarrow> ingestion_run" where
  "failed_run failed error \<equiv> (\<lambda>run. run\<lparr>ir_completed_at := Some failed, ir_status := Run_Failed, ir_error := Some error\<rparr>)"

lemma record_failure_steps:
  assumes "record_failure db j ws we a f name message = Inr (db', u)"
  obtains attempted failed m sources new error where "as_utc a ''attempted_at'' = Inr attempted"
    and "as_utc f ''failed_at'' = Inr failed" and "attempted \<le> failed"
    and "job_source_metadata_values j = Inr m" and "source_metadata_upsert (idb_sources db) m = Inr sources"
    and "db' = db\<lparr>idb_sources := sources, idb_runs := run_insert (idb_runs db) new (failed_run failed error)\<rparr>"
    and "ir_adapter new = j" and "ir_started_at new = attempted" and "ir_completed_at new = Some failed"
    and "ir_status new = Run_Failed" and "ir_requested_from new = ws" and "ir_requested_to new = we"
    and "ir_idempotency_key new = failure_idempotency_key j ws we attempted name"
    and "ir_id new = uuid5 RUN_NAMESPACE (failure_idempotency_key j ws we attempted name)"
proof -
  from assms obtain attempted failed where a: "as_utc a ''attempted_at'' = Inr attempted" "as_utc f ''failed_at'' = Inr failed"
    and r: "record_failure db j ws we (Aware attempted) (Aware failed) name message = Inr (db', u)"
    by (auto simp: record_failure_def rbind_eq_Inr as_utc_def)
  from r have le: "attempted \<le> failed" by (simp add: record_failure_def as_utc_def guard_eq_Inr)
  from r le obtain m sources where m: "job_source_metadata_values j = Inr m"
    "source_metadata_upsert (idb_sources db) m = Inr sources"
    by (auto simp: record_failure_def as_utc_def Let_def rbind_eq_Inr)
  show thesis
    by (rule that [OF a le m]) (use r le m in \<open>auto simp: record_failure_def as_utc_def Let_def\<close>)
qed

lemma record_failure_keeps:
  assumes "ingestion_ok db" and "canonical_sources db" and "record_failure db j ws we a f name message = Inr (db', u)"
  shows "ingestion_ok db' \<and> canonical_sources db' \<and> history_grows_to db db'"
proof -
  obtain attempted failed m sources new error where m: "job_source_metadata_values j = Inr m"
    and s: "source_metadata_upsert (idb_sources db) m = Inr sources"
    and db': "db' = db\<lparr>idb_sources := sources, idb_runs := run_insert (idb_runs db) new (failed_run failed error)\<rparr>"
    by (rule record_failure_steps [OF assms(3)]) blast
  have "distinct (map ir_idempotency_key (idb_runs db))" using assms(1) by (simp add: ingestion_ok_def)
  then have d: "distinct (map ir_idempotency_key (run_insert (idb_runs db) new (failed_run failed error)))"
    unfolding run_insert_def by (rule failed_runs.put_row_distinct)
  have "ingestion_ok db' \<and> history_grows_to db db'" unfolding db'
    using assms(1) d by (auto simp: ingestion_ok_def history_grows_to_def list_all_iff spec_table_ok_def table_of_def)
  moreover from canonical_upsert [OF job_metadata_canonical [OF m], of "idb_sources db"] assms(2) s
  have "canonical_sources db'" by (simp add: canonical_sources_def db')
  ultimately show ?thesis by blast
qed


section \<open>A new attempt appends one run\<close>

definition named_runs :: "ingestion_db \<Rightarrow> bool" where
  "named_runs db \<longleftrightarrow> (\<forall>run \<in> set (idb_runs db). ir_id run = uuid5 RUN_NAMESPACE (ir_idempotency_key run))"

lemma uuid5_same_namespace: "uuid5 n a = uuid5 n b \<longleftrightarrow> a = b"
  by (simp add: uuid5_def)

lemma success_appends_run:
  assumes "named_runs db" and "run_with_key (idb_runs db) (success_idempotency_key j r) = None"
    and "persist_success db j r (Aware a) (Aware c) = Inr (db', out)"
  obtains new where "idb_runs db' = idb_runs db @ [new]" and "ir_adapter new = j" and "ir_started_at new = a"
    and "ir_completed_at new = Some c" and "ir_status new = Run_Succeeded"
    and "ir_requested_from new = adr_window_start r" and "ir_requested_to new = adr_window_end r"
    and "named_runs db'" and "a \<le> c"
proof -
  from assms(3) obtain m where s: "success_transaction db j r m a c = Inr (db', out)" and le: "a \<le> c"
    by (auto simp: persist_success_def rbind_eq_Inr guard_eq_Inr as_utc_def)
  let ?key = "success_idempotency_key j r" and ?new = "started_run j (cell_text (row_value m ''id'')) r a"
  have k: "ir_idempotency_key ?new = ?key" "ir_id ?new = uuid5 RUN_NAMESPACE ?key" by (simp_all add: started_run_def Let_def)
  have started: "started_runs db j r m a = idb_runs db @ [?new]"
    unfolding started_runs_def using assms(2) by (intro fresh_run) (simp add: k)
  have i: "id_of_run (idb_runs db @ [?new]) ?key = ir_id ?new"
    using assms(2) k by (simp add: id_of_run_def run_with_key_append)
  obtain counts' where db': "idb_runs db' = finish_runs (ir_id ?new) c counts' (idb_runs db @ [?new])"
    by (rule success_transaction_steps [OF s]) (simp add: started i)
  have other: "ir_id run \<noteq> ir_id ?new" if "run \<in> set (idb_runs db)" for run
    using that assms(1,2) by (auto simp: named_runs_def k uuid5_same_namespace run_with_key_def find_None_iff)
  have runs: "idb_runs db' = idb_runs db @ [finish_run c counts' ?new]"
    using other by (simp add: db' finish_runs_def map_idI)
  show thesis
    by (rule that [OF runs])
      (use assms(1) le in \<open>auto simp: runs named_runs_def finish_run_def started_run_def Let_def\<close>)
qed

lemma failure_appends_run:
  assumes "named_runs db" and "run_with_key (idb_runs db) (failure_idempotency_key j ws we a name) = None"
    and "record_failure db j ws we (Aware a) (Aware f) name message = Inr (db', u)"
  obtains new where "idb_runs db' = idb_runs db @ [new]" and "ir_adapter new = j" and "ir_started_at new = a"
    and "ir_completed_at new = Some f" and "ir_status new = Run_Failed" and "named_runs db'" and "a \<le> f"
proof (rule record_failure_steps [OF assms(3)])
  fix attempted failed m sources new error
  assume n: "as_utc (Aware a) ''attempted_at'' = Inr attempted" "as_utc (Aware f) ''failed_at'' = Inr failed"
    and le: "attempted \<le> failed"
    and db': "db' = db\<lparr>idb_sources := sources, idb_runs := run_insert (idb_runs db) new (failed_run failed error)\<rparr>"
    and new: "ir_adapter new = j" "ir_started_at new = attempted" "ir_completed_at new = Some failed"
      "ir_status new = Run_Failed" "ir_idempotency_key new = failure_idempotency_key j ws we attempted name"
      "ir_id new = uuid5 RUN_NAMESPACE (failure_idempotency_key j ws we attempted name)"
  have t: "attempted = a" "failed = f" using n by (simp_all add: as_utc_def)
  have runs: "idb_runs db' = idb_runs db @ [new]"
    using assms(2) new(5) by (simp add: db' t fresh_run)
  show thesis
    by (rule that [OF runs]) (use assms(1) new le in \<open>auto simp: runs named_runs_def t\<close>)
qed

section \<open>The log of a job\<close>

definition job_runs :: "ingestion_db \<Rightarrow> str \<Rightarrow> ingestion_run list" where
  "job_runs db j = filter (\<lambda>run. ir_adapter run = j) (idb_runs db)"

text \<open>All attempts of a job have ended by an instant, each began after the one before it ended, and the
  successful ones cover a window.\<close>

definition before_run :: "ingestion_run \<Rightarrow> ingestion_run \<Rightarrow> bool" where
  "before_run x y \<longleftrightarrow> ir_started_at x < ir_started_at y \<and> (\<exists>c. ir_completed_at x = Some c \<and> c \<le> ir_started_at y)"

definition settled :: "ingestion_db \<Rightarrow> str \<Rightarrow> instant \<Rightarrow> bool" where
  "settled db j t \<longleftrightarrow> sorted_wrt before_run (job_runs db j)
     \<and> (\<forall>run \<in> set (job_runs db j). (\<exists>c. ir_completed_at run = Some c \<and> ir_started_at run \<le> c \<and> c \<le> t)
           \<and> (ir_status run = Run_Succeeded \<longrightarrow> ir_requested_from run \<le> ir_requested_to run))"

definition job_successes :: "ingestion_db \<Rightarrow> str \<Rightarrow> ingestion_run list" where
  "job_successes db j = filter (\<lambda>run. ir_status run = Run_Succeeded) (job_runs db j)"

lemma max_by_last:
  "sorted_wrt (\<lambda>x y. f x < f y) (x # xs) \<Longrightarrow> max_by f x xs = last (x # xs)"
  by (induction xs arbitrary: x) auto

lemma py_max_last: "sorted_wrt (\<lambda>x y. f x < f y) xs \<Longrightarrow> py_max f xs = (if xs = [] then None else Some (last xs))"
  by (cases xs) (simp_all add: py_max_def max_by_last del: max_by.simps last.simps)

lemma last_success_of_last:
  "xs \<noteq> [] \<Longrightarrow> P (last xs) \<Longrightarrow> last (filter P xs) = last xs \<and> filter P xs \<noteq> []"
  by (induction xs rule: rev_induct) auto

lemma checkpoint_of_log:
  assumes "settled db j t"
  shows "get_checkpoint v db j = (if job_runs db j = [] then None else
    Some \<lparr>ick_job_id = j, ick_last_attempted_at = ir_started_at (last (job_runs db j)),
      ick_last_succeeded_at = (if job_successes db j = [] then None else ir_completed_at (last (job_successes db j))),
      ick_window_end = (if job_successes db j = [] then None else Some (ir_requested_to (last (job_successes db j))))\<rparr>)"
proof -
  let ?runs = "job_runs db j" and ?good = "job_successes db j"
  let ?done = "\<lambda>run. (case ir_completed_at run of None \<Rightarrow> (0::int, 0) | Some t \<Rightarrow> (1, t), ir_started_at run)"
  have "sorted_wrt before_run ?runs" using assms by (simp add: settled_def)
  then have "sorted_wrt (\<lambda>x y. (ir_started_at x, v (ir_id x)) < (ir_started_at y, v (ir_id y))) ?runs"
    by (rule sorted_wrt_mono_rel [rotated]) (simp add: before_run_def)
  from py_max_last [OF this] have latest: "py_max (\<lambda>run. (ir_started_at run, v (ir_id run))) ?runs
      = (if ?runs = [] then None else Some (last ?runs))" by simp
  have "?done x < ?done y" if "x \<in> set ?good" "y \<in> set ?good" "before_run x y" for x y
  proof -
    from that(2) assms obtain c where "ir_completed_at y = Some c" "ir_started_at y \<le> c"
      by (auto simp: settled_def job_successes_def)
    with that(3) show ?thesis by (auto simp: before_run_def)
  qed
  moreover have "sorted_wrt before_run ?good" using assms by (simp add: settled_def job_successes_def sorted_wrt_filter)
  ultimately have "sorted_wrt (\<lambda>x y. ?done x < ?done y) ?good" by (blast intro: sorted_wrt_mono_rel)
  from py_max_last [OF this] have success: "py_max ?done ?good = (if ?good = [] then None else Some (last ?good))" .
  have ended: "ir_completed_at (last ?runs) \<noteq> None" if "?runs \<noteq> []"
    using assms last_in_set [OF that] by (auto simp: settled_def)
  show ?thesis
    using last_success_of_last [of ?runs "\<lambda>run. ir_status run = Run_Succeeded"] ended success
    unfolding get_checkpoint_def Let_def job_runs_def [symmetric] latest
    by (auto simp: job_successes_def py_max_def [where xs = "[]"])
qed


lemma job_runs_append:
  "idb_runs db' = idb_runs db @ [new] \<Longrightarrow> job_runs db' j = job_runs db j @ (if ir_adapter new = j then [new] else [])"
  by (simp add: job_runs_def)

text \<open>An attempt that begins after the job was settled leaves it settled at its own end, and does not
  touch the log of another job.\<close>

lemma settled_append:
  assumes "settled db j t" and "t \<le> a" and "\<forall>run \<in> set (job_runs db j). ir_started_at run < a"
    and "job_runs db' j = job_runs db j @ [new]"
    and "ir_started_at new = a" and "ir_completed_at new = Some c" and "a \<le> c"
    and "ir_status new = Run_Succeeded \<Longrightarrow> ir_requested_from new \<le> ir_requested_to new"
  shows "settled db' j c"
  unfolding settled_def assms(4) sorted_wrt_append
  using assms(1-3,5-8) by (fastforce simp: settled_def before_run_def)

lemma settled_same: "job_runs db' j = job_runs db j \<Longrightarrow> settled db j t \<Longrightarrow> settled db' j t"
  by (simp add: settled_def)

lemma checkpoint_same:
  "job_runs db' j = job_runs db j \<Longrightarrow> get_checkpoint v db' j = get_checkpoint v db j"
  by (simp add: get_checkpoint_def job_runs_def)

lemma last_attempt:
  assumes "settled db j t" and "run \<in> set (job_runs db j)"
  shows "ir_started_at run \<le> ir_started_at (last (job_runs db j))"
proof -
  from assms(2) obtain ys where ys: "job_runs db j = ys @ [last (job_runs db j)]"
    by (metis append_butlast_last_id empty_iff list.set(1))
  have "sorted_wrt before_run (ys @ [last (job_runs db j)])" using assms(1) ys by (simp add: settled_def)
  moreover have "run \<in> set (ys @ [last (job_runs db j)])" using assms(2) ys by simp
  ultimately show ?thesis by (auto simp: sorted_wrt_append before_run_def)
qed

text \<open>The instants a job has covered: those of the windows of its successful runs.\<close>

definition covered :: "ingestion_db \<Rightarrow> str \<Rightarrow> instant set" where
  "covered db j = (\<Union>run \<in> set (job_successes db j). {ir_requested_from run .. ir_requested_to run})"

text \<open>What an attempt at an instant makes of a checkpoint.\<close>

definition checkpoint_succeeded :: "str \<Rightarrow> instant \<Rightarrow> instant \<Rightarrow> instant \<Rightarrow> ingestion_checkpoint" where
  "checkpoint_succeeded j attempted completed window_end =
     \<lparr>ick_job_id = j, ick_last_attempted_at = attempted, ick_last_succeeded_at = Some completed,
      ick_window_end = Some window_end\<rparr>"

definition checkpoint_failed :: "str \<Rightarrow> instant \<Rightarrow> ingestion_checkpoint option \<Rightarrow> ingestion_checkpoint" where
  "checkpoint_failed j attempted earlier =
     \<lparr>ick_job_id = j, ick_last_attempted_at = attempted,
      ick_last_succeeded_at = Option.bind earlier ick_last_succeeded_at,
      ick_window_end = Option.bind earlier ick_window_end\<rparr>"

lemma job_successes_append:
  "job_runs db' j = job_runs db j @ [new] \<Longrightarrow>
     job_successes db' j = job_successes db j @ (if ir_status new = Run_Succeeded then [new] else [])"
  by (simp add: job_successes_def)

lemma attempt_moves_checkpoint:
  assumes "settled db j t" and "t \<le> a" and "\<forall>run \<in> set (job_runs db j). ir_started_at run < a"
    and "job_runs db' j = job_runs db j @ [new]"
    and "ir_started_at new = a" and "ir_completed_at new = Some c" and "a \<le> c"
    and "ir_status new = Run_Succeeded \<Longrightarrow> ir_requested_from new \<le> ir_requested_to new"
  shows "ir_status new = Run_Succeeded \<Longrightarrow>
      get_checkpoint v db' j = Some (checkpoint_succeeded j a c (ir_requested_to new))"
    and "ir_status new \<noteq> Run_Succeeded \<Longrightarrow>
      get_checkpoint v db' j = Some (checkpoint_failed j a (get_checkpoint v db j))"
proof -
  note s = settled_append [OF assms]
  have none: "job_runs db j = [] \<Longrightarrow> job_successes db j = []" by (simp add: job_successes_def)
  show "ir_status new = Run_Succeeded \<Longrightarrow>
      get_checkpoint v db' j = Some (checkpoint_succeeded j a c (ir_requested_to new))"
    by (simp add: checkpoint_of_log [OF s] job_successes_append [OF assms(4)] assms(4-6) checkpoint_succeeded_def)
  show "ir_status new \<noteq> Run_Succeeded \<Longrightarrow>
      get_checkpoint v db' j = Some (checkpoint_failed j a (get_checkpoint v db j))"
    by (auto simp: checkpoint_of_log [OF s] checkpoint_of_log [OF assms(1)] job_successes_append [OF assms(4)]
        assms(4,5) checkpoint_failed_def none)
qed

lemma settled_window_end:
  assumes "settled db j t"
  shows "Option.bind (get_checkpoint v db j) ick_window_end
    = (if job_successes db j = [] then None else Some (ir_requested_to (last (job_successes db j))))"
  by (auto simp: checkpoint_of_log [OF assms] job_successes_def)

end
