(* ===== verification/Worker.thy ===== *)
theory Worker
  imports Ingestion_Jobs
begin

text \<open>
  The polling scheduler of the worker (\<open>app/worker/scheduler.py\<close>, \<open>contracts.py\<close>, the schedules of
  \<open>production.py\<close>) over any \<open>IngestionRepository\<close>, and over the repository of \<open>Ingestion\<close>.  The
  outside world is a record of functions that answer the attempts of the worker by their number:
  the advisory lock, the adapter, the clock and the post-success actions.  A step returns the new
  state with its value or the exception that leaves it, because what was committed stays.
\<close>

section \<open>Ports\<close>

record 's ingestion_repository =
  rp_get_checkpoint :: "'s \<Rightarrow> str \<Rightarrow> ingestion_checkpoint option"
  rp_persist_success :: "'s \<Rightarrow> str \<Rightarrow> adapter_result \<Rightarrow> datetime \<Rightarrow> datetime \<Rightarrow> ('s \<times> persist_outcome) result"
  rp_record_failure :: "'s \<Rightarrow> str \<Rightarrow> instant \<Rightarrow> instant \<Rightarrow> datetime \<Rightarrow> datetime \<Rightarrow> str \<Rightarrow> str \<Rightarrow> ('s \<times> unit) result"

definition postgres_repository :: "(uuid \<Rightarrow> int) \<Rightarrow> ingestion_db ingestion_repository" where
  "postgres_repository uuid_value =
     \<lparr>rp_get_checkpoint = get_checkpoint uuid_value, rp_persist_success = persist_success,
      rp_record_failure = record_failure\<rparr>"

record post_ingestion_context =
  pic_job_id :: str
  pic_completed_at :: instant
  pic_persistence :: persist_outcome

section \<open>Schedules and windows\<close>

datatype run_mode = Incremental | Reconciliation

datatype job_status = Job_Succeeded | Job_Failed | Job_Not_Due | Job_Locked

record poll_schedule =
  pls_job_id :: str
  pls_source_id :: str
  pls_cadence :: duration
  pls_overlap :: duration
  pls_initial_lookback :: duration
  pls_max_incremental_lookback :: duration
  pls_reconcile_every :: "duration option"
  pls_reconcile_lookback :: duration

definition mk_poll_schedule :: "poll_schedule \<Rightarrow> poll_schedule result" where
  "mk_poll_schedule s =
     (let durations = [(''cadence'', pls_cadence s), (''overlap'', pls_overlap s),
            (''initial_lookback'', pls_initial_lookback s),
            (''max_incremental_lookback'', pls_max_incremental_lookback s),
            (''reconcile_lookback'', pls_reconcile_lookback s)]
      in case find (\<lambda>(name, duration). duration \<le> 0) durations of
           Some (name, duration) \<Rightarrow> Inl (ValueError (name @ '' must be positive''))
         | None \<Rightarrow>
             if (case pls_reconcile_every s of Some every \<Rightarrow> every \<le> 0 | None \<Rightarrow> False)
             then Inl (ValueError ''reconcile_every must be positive when enabled'')
             else if pls_max_incremental_lookback s \<le> pls_overlap s
             then Inl (ValueError ''overlap must be shorter than max_incremental_lookback'')
             else Inr s)"

definition lock_name :: "poll_schedule \<Rightarrow> str" where
  "lock_name s = ''50hz:ingest:'' @ pls_source_id s"

definition reconciliation_job_id :: "poll_schedule \<Rightarrow> str" where
  "reconciliation_job_id s = pls_job_id s @ ''.reconcile''"

definition observation_window :: "instant \<Rightarrow> instant \<Rightarrow> (instant \<times> instant) result" where
  "observation_window s e =
     (if e \<le> s then Inl (ValueError ''observation window start must be before end'') else Inr (s, e))"

definition is_due :: "ingestion_checkpoint option \<Rightarrow> instant \<Rightarrow> duration \<Rightarrow> bool" where
  "is_due checkpoint now interval =
     (case checkpoint of None \<Rightarrow> True | Some c \<Rightarrow> ick_last_attempted_at c + interval \<le> now)"

definition incremental_window ::
  "poll_schedule \<Rightarrow> ingestion_checkpoint option \<Rightarrow> instant \<Rightarrow> (instant \<times> instant) result" where
  "incremental_window schedule checkpoint now =
     (let floor = now - pls_max_incremental_lookback schedule;
          wanted = (case Option.bind checkpoint ick_window_end of
                      None \<Rightarrow> now - pls_initial_lookback schedule
                    | Some window_end \<Rightarrow> window_end - pls_overlap schedule);
          start = max wanted floor;
          start' = (if now \<le> start then now - min (pls_initial_lookback schedule) (pls_overlap schedule) else start)
      in observation_window start' now)"

definition reconciliation_window :: "poll_schedule \<Rightarrow> instant \<Rightarrow> (instant \<times> instant) result" where
  "reconciliation_window schedule now = observation_window (now - pls_reconcile_lookback schedule) now"

section \<open>The worker\<close>

record job_outcome =
  jo_job_id :: str
  jo_mode :: run_mode
  jo_status :: job_status
  jo_window :: "(instant \<times> instant) option"
  jo_record_count :: int
  jo_persistence :: "persist_outcome option"
  jo_error_type :: "str option"
  jo_error_message :: "str option"

text \<open>The functions of the outside world take the number of the attempt.  An action leaves a state and
  may raise.\<close>

record 's worker =
  wk_schedules :: "poll_schedule list"
  wk_repository :: "'s ingestion_repository"
  wk_acquire :: "nat \<Rightarrow> str \<Rightarrow> bool"
  wk_fetch :: "nat \<Rightarrow> poll_schedule \<Rightarrow> instant \<times> instant \<Rightarrow> adapter_result result"
  wk_completed_at :: "nat \<Rightarrow> datetime"
  wk_failed_at :: "nat \<Rightarrow> datetime"
  wk_actions :: "(nat \<Rightarrow> post_ingestion_context \<Rightarrow> 's \<Rightarrow> 's \<times> unit result) list"

definition mk_worker :: "'s worker \<Rightarrow> 's worker result" where
  "mk_worker w =
     (if wk_schedules w = [] then Inl (ValueError ''at least one poll schedule is required'')
      else if \<not> distinct (map pls_job_id (wk_schedules w))
      then Inl (ValueError ''poll schedule job IDs must be unique'')
      else Inr w)"

text \<open>\<open>str(exc)\<close>; a key error shows its key quoted.\<close>

fun error_text :: "py_error \<Rightarrow> str" where
  "error_text (ValueError m) = m"
| "error_text (TypeError m) = m"
| "error_text (KeyError m) = [CHR 0x27] @ m @ [CHR 0x27]"
| "error_text (IndexError m) = m"
| "error_text (BudgetExceeded m) = m"
| "error_text (RuntimeError m) = m"
| "error_text (IntegrityError m) = m"
| "error_text (AppError name m) = m"

definition plain_outcome :: "str \<Rightarrow> run_mode \<Rightarrow> job_status \<Rightarrow> (instant \<times> instant) option \<Rightarrow> job_outcome" where
  "plain_outcome job_id mode status window =
     \<lparr>jo_job_id = job_id, jo_mode = mode, jo_status = status, jo_window = window, jo_record_count = 0,
      jo_persistence = None, jo_error_type = None, jo_error_message = None\<rparr>"

type_synonym 's attempt_state = "'s \<times> nat"

text \<open>The body of the \<open>try\<close>: fetch, read the clock, persist.\<close>

definition fetch_and_persist ::
  "'s worker \<Rightarrow> poll_schedule \<Rightarrow> str \<Rightarrow> instant \<times> instant \<Rightarrow> instant \<Rightarrow> 's attempt_state
     \<Rightarrow> (adapter_result \<times> instant \<times> 's \<times> persist_outcome) result" where
  "fetch_and_persist w schedule job_id window attempted st =
     (case st of (s, k) \<Rightarrow>
        rbind (wk_fetch w k schedule window) (\<lambda>r.
        rbind (as_utc (wk_completed_at w k) ''clock'') (\<lambda>completed.
        rbind (rp_persist_success (wk_repository w) s job_id r (Aware attempted) (Aware completed)) (\<lambda>(s', persistence).
          Inr (r, completed, s', persistence)))))"

text \<open>The \<open>except\<close>: an exception of its own leaves the tick.\<close>

definition record_job_failure ::
  "'s worker \<Rightarrow> str \<Rightarrow> run_mode \<Rightarrow> instant \<times> instant \<Rightarrow> instant \<Rightarrow> py_error \<Rightarrow> 's attempt_state
     \<Rightarrow> 's attempt_state \<times> job_outcome result" where
  "record_job_failure w job_id mode window attempted exc st =
     (case st of (s, k) \<Rightarrow>
        case as_utc (wk_failed_at w k) ''clock'' of
          Inl e \<Rightarrow> ((s, Suc k), Inl e)
        | Inr failed \<Rightarrow>
            (case rp_record_failure (wk_repository w) s job_id (fst window) (snd window) (Aware attempted) (Aware failed)
                    (error_name exc) (take 2000 (error_text exc)) of
               Inl e \<Rightarrow> ((s, Suc k), Inl e)
             | Inr (s', u) \<Rightarrow>
                 ((s', Suc k), Inr ((plain_outcome job_id mode Job_Failed (Some window))
                    \<lparr>jo_error_type := Some (error_name exc), jo_error_message := Some (error_text exc)\<rparr>))))"

definition run_actions :: "'s worker \<Rightarrow> nat \<Rightarrow> post_ingestion_context \<Rightarrow> 's \<Rightarrow> 's" where
  "run_actions w k context s = foldl (\<lambda>s action. fst (action k context s)) s (wk_actions w)"

definition execute ::
  "'s worker \<Rightarrow> poll_schedule \<Rightarrow> str \<Rightarrow> run_mode \<Rightarrow> instant \<times> instant \<Rightarrow> instant \<Rightarrow> 's attempt_state
     \<Rightarrow> 's attempt_state \<times> job_outcome result" where
  "execute w schedule job_id mode window attempted st =
     (case st of (s, k) \<Rightarrow>
        if \<not> wk_acquire w k (lock_name schedule)
        then ((s, Suc k), Inr (plain_outcome job_id mode Job_Locked (Some window)))
        else case fetch_and_persist w schedule job_id window attempted (s, k) of
               Inl exc \<Rightarrow> record_job_failure w job_id mode window attempted exc (s, k)
             | Inr (r, completed, s', persistence) \<Rightarrow>
                 ((run_actions w k \<lparr>pic_job_id = job_id, pic_completed_at = completed, pic_persistence = persistence\<rparr> s',
                   Suc k),
                  Inr ((plain_outcome job_id mode Job_Succeeded (Some window))
                    \<lparr>jo_record_count := int (length (adr_records r)), jo_persistence := Some persistence\<rparr>)))"

text \<open>One job of a tick: skipped when it is not due, otherwise executed over its planned window.\<close>

definition poll_job ::
  "'s worker \<Rightarrow> poll_schedule \<Rightarrow> str \<Rightarrow> run_mode \<Rightarrow> duration
     \<Rightarrow> (ingestion_checkpoint option \<Rightarrow> (instant \<times> instant) result) \<Rightarrow> instant \<Rightarrow> 's attempt_state
     \<Rightarrow> 's attempt_state \<times> job_outcome result" where
  "poll_job w schedule job_id mode interval plan tick st =
     (let checkpoint = rp_get_checkpoint (wk_repository w) (fst st) job_id
      in if is_due checkpoint tick interval
         then case plan checkpoint of
                Inl e \<Rightarrow> (st, Inl e)
              | Inr window \<Rightarrow> execute w schedule job_id mode window tick st
         else (st, Inr (plain_outcome job_id mode Job_Not_Due None)))"

definition poll_incremental :: "'s worker \<Rightarrow> poll_schedule \<Rightarrow> instant \<Rightarrow> 's attempt_state \<Rightarrow> 's attempt_state \<times> job_outcome result" where
  "poll_incremental w schedule tick =
     poll_job w schedule (pls_job_id schedule) Incremental (pls_cadence schedule)
       (\<lambda>checkpoint. incremental_window schedule checkpoint tick) tick"

definition poll_reconciliation ::
  "'s worker \<Rightarrow> poll_schedule \<Rightarrow> duration \<Rightarrow> instant \<Rightarrow> 's attempt_state \<Rightarrow> 's attempt_state \<times> job_outcome result" where
  "poll_reconciliation w schedule every tick =
     poll_job w schedule (reconciliation_job_id schedule) Reconciliation every
       (\<lambda>checkpoint. reconciliation_window schedule tick) tick"

definition and_then :: "'st \<times> 'a result \<Rightarrow> ('st \<Rightarrow> 'a \<Rightarrow> 'st \<times> 'b result) \<Rightarrow> 'st \<times> 'b result" where
  "and_then m f = (case m of (st, Inl e) \<Rightarrow> (st, Inl e) | (st, Inr x) \<Rightarrow> f st x)"

definition poll_schedule_jobs ::
  "'s worker \<Rightarrow> poll_schedule \<Rightarrow> instant \<Rightarrow> 's attempt_state \<Rightarrow> 's attempt_state \<times> job_outcome list result" where
  "poll_schedule_jobs w schedule tick st =
     and_then (poll_incremental w schedule tick st) (\<lambda>st' first.
       case pls_reconcile_every schedule of
         None \<Rightarrow> (st', Inr [first])
       | Some every \<Rightarrow>
           and_then (poll_reconciliation w schedule every tick st') (\<lambda>st'' second. (st'', Inr [first, second])))"

fun run_schedules ::
  "'s worker \<Rightarrow> instant \<Rightarrow> poll_schedule list \<Rightarrow> 's attempt_state \<Rightarrow> 's attempt_state \<times> job_outcome list result" where
  "run_schedules w tick [] st = (st, Inr [])"
| "run_schedules w tick (schedule # rest) st =
     and_then (poll_schedule_jobs w schedule tick st) (\<lambda>st' outcomes.
     and_then (run_schedules w tick rest st') (\<lambda>st'' others. (st'', Inr (outcomes @ others))))"

definition run_once :: "'s worker \<Rightarrow> datetime \<Rightarrow> 's attempt_state \<Rightarrow> 's attempt_state \<times> job_outcome list result" where
  "run_once w now st =
     (case as_utc now ''now'' of
        Inl e \<Rightarrow> (st, Inl e)
      | Inr tick \<Rightarrow> run_schedules w tick (wk_schedules w) st)"

text \<open>The loop of \<open>run_forever\<close> over the clock readings of the ticks before the stop event: a tick
  that raises is logged and the next tick goes on.\<close>

fun run_ticks :: "'s worker \<Rightarrow> datetime list \<Rightarrow> 's attempt_state \<Rightarrow> 's attempt_state \<times> job_outcome list result list" where
  "run_ticks w [] st = (st, [])"
| "run_ticks w (now # rest) st =
     (case run_once w now st of (st', outcome) \<Rightarrow>
      case run_ticks w rest st' of (st'', outcomes) \<Rightarrow> (st'', outcome # outcomes))"

definition run_forever ::
  "'s worker \<Rightarrow> duration \<Rightarrow> datetime list \<Rightarrow> 's attempt_state \<Rightarrow> ('s attempt_state \<times> job_outcome list result list) result" where
  "run_forever w tick_interval ticks st =
     (if tick_interval \<le> 0 then Inl (ValueError ''tick_interval must be positive'') else Inr (run_ticks w ticks st))"

section \<open>Production schedules\<close>

definition production_schedule ::
  "str \<Rightarrow> str \<Rightarrow> duration \<Rightarrow> duration \<Rightarrow> duration \<Rightarrow> duration \<Rightarrow> duration option \<Rightarrow> duration \<Rightarrow> poll_schedule" where
  "production_schedule job_id source_id cadence overlap initial max_lookback every lookback =
     \<lparr>pls_job_id = job_id, pls_source_id = source_id, pls_cadence = cadence, pls_overlap = overlap,
      pls_initial_lookback = initial, pls_max_incremental_lookback = max_lookback, pls_reconcile_every = every,
      pls_reconcile_lookback = lookback\<rparr>"

definition PRODUCTION_SCHEDULES :: "poll_schedule list" where
  "PRODUCTION_SCHEDULES =
     [production_schedule ''desnz.repd'' ''desnz.repd'' day_len hour day_len (7 * day_len) None day_len,
      production_schedule ''elexon.bm-unit-reference'' ''elexon.bm-unit-reference'' day_len hour day_len (7 * day_len) None day_len,
      production_schedule ''elexon.pn'' ''elexon.pn'' (10 * minute) (10 * minute) (30 * minute) (2 * hour) None hour,
      production_schedule ''elexon.b1610'' ''elexon.b1610'' day_len hour day_len (7 * day_len) None day_len,
      production_schedule ''elexon.fuelinst'' ''elexon.fuelinst'' (2 * minute) (10 * minute) (30 * minute) (48 * hour) (Some hour) (48 * hour),
      production_schedule ''elexon.indo'' ''elexon.indo'' (5 * minute) hour (2 * hour) (48 * hour) (Some hour) (48 * hour),
      production_schedule ''elexon.freq'' ''elexon.freq'' minute (10 * minute) (10 * minute) (48 * hour) (Some hour) (48 * hour),
      production_schedule ''elexon.interconnectors'' ''elexon.interconnectors'' (2 * minute) (10 * minute) (30 * minute) (48 * hour) (Some hour) (48 * hour),
      production_schedule ''neso.carbon.national.current'' ''neso.carbon.national.current'' (5 * minute) (5 * minute) (30 * minute) (2 * hour) None hour,
      production_schedule ''neso.carbon.regional.london'' ''neso.carbon.regional.london'' (5 * minute) (5 * minute) (30 * minute) (2 * hour) None hour,
      production_schedule ''neso.carbon.national.forecast'' ''neso.carbon.national.forecast'' (30 * minute) (5 * minute) (30 * minute) (2 * hour) None hour,
      production_schedule ''elexon.ndf'' ''elexon.ndf'' (15 * minute) (2 * hour) (6 * hour) (48 * hour) (Some (6 * hour)) (48 * hour),
      production_schedule ''elexon.windfor'' ''elexon.windfor'' (30 * minute) (12 * hour) day_len (48 * hour) (Some (12 * hour)) (48 * hour),
      production_schedule ''elexon.remit.unavailability'' ''elexon.remit.unavailability'' (2 * minute) (30 * minute) (2 * hour) (48 * hour) (Some hour) (48 * hour),
      production_schedule ''elexon.syswarn'' ''elexon.syswarn'' (5 * minute) hour day_len (48 * hour) (Some (6 * hour)) (48 * hour),
      production_schedule ''ukpn.live_faults'' ''ukpn.live_faults'' (5 * minute) (10 * minute) (30 * minute) (48 * hour) None hour]"

definition build_production_schedules :: "poll_schedule list result" where
  "build_production_schedules =
     rbind (traverse mk_poll_schedule PRODUCTION_SCHEDULES) (\<lambda>schedules.
       if \<not> distinct (map pls_job_id schedules)
       then Inl (ValueError ''production poll schedule job IDs must be unique'') else Inr schedules)"

text \<open>The forward adapter asks its inner adapter for a horizon from the half hour and answers for the
  window of the scheduler.\<close>

definition floor_half_hour :: "instant \<Rightarrow> instant" where
  "floor_half_hour value = value - value mod half_hour"

definition forward_fetch ::
  "(instant \<times> instant \<Rightarrow> adapter_result result) \<Rightarrow> duration \<Rightarrow> instant \<times> instant \<Rightarrow> adapter_result result" where
  "forward_fetch fetch horizon window =
     (let anchor = floor_half_hour (snd window)
      in rbind (observation_window anchor (anchor + horizon)) (\<lambda>forecast_window.
         rbind (fetch forecast_window) (\<lambda>r.
           Inr (r\<lparr>adr_window_start := fst window, adr_window_end := snd window,
                  adr_metadata := store (store (adr_metadata r)
                    ''forecastWindowStart'' (JStr (iso_instant (fst forecast_window))))
                    ''forecastWindowEnd'' (JStr (iso_instant (snd forecast_window)))\<rparr>))))"


section \<open>Windows\<close>

definition valid_schedule :: "poll_schedule \<Rightarrow> bool" where
  "valid_schedule s \<longleftrightarrow> mk_poll_schedule s = Inr s"

lemma valid_schedule_bounds:
  assumes "valid_schedule s"
  shows "0 < pls_cadence s" and "0 < pls_overlap s" and "0 < pls_initial_lookback s"
    and "pls_overlap s < pls_max_incremental_lookback s" and "0 < pls_reconcile_lookback s"
    and "pls_reconcile_every s = Some every \<Longrightarrow> 0 < every"
  using assms by (auto simp: valid_schedule_def mk_poll_schedule_def Let_def split: option.splits if_splits)

text \<open>A planned window ends now, is not empty and no longer than the lookback allows, and begins no later
  than the last window ended unless that lies further back.\<close>

lemma incremental_window_plan:
  assumes "valid_schedule s"
  obtains start where "incremental_window s c now = Inr (start, now)" and "start < now"
    and "now - max (pls_max_incremental_lookback s) (pls_initial_lookback s) \<le> start"
    and "\<And>w. Option.bind c ick_window_end = Some w \<Longrightarrow> now - pls_max_incremental_lookback s \<le> w \<Longrightarrow> start \<le> w"
proof -
  note b = valid_schedule_bounds [OF assms]
  let ?wanted = "case Option.bind c ick_window_end of None \<Rightarrow> now - pls_initial_lookback s
      | Some window_end \<Rightarrow> window_end - pls_overlap s"
  let ?start = "max ?wanted (now - pls_max_incremental_lookback s)"
  let ?start' = "if now \<le> ?start then now - min (pls_initial_lookback s) (pls_overlap s) else ?start"
  have less: "?start' < now" using b by auto
  then have "incremental_window s c now = Inr (?start', now)"
    by (simp add: incremental_window_def observation_window_def Let_def)
  moreover have "now - max (pls_max_incremental_lookback s) (pls_initial_lookback s) \<le> ?start'" using b by auto
  moreover have "?start' \<le> w" if "Option.bind c ick_window_end = Some w" "now - pls_max_incremental_lookback s \<le> w" for w
    using that b by auto
  ultimately show thesis using less that by blast
qed

lemma reconciliation_window_plan:
  "valid_schedule s \<Longrightarrow> reconciliation_window s now = Inr (now - pls_reconcile_lookback s, now)"
  using valid_schedule_bounds(5) [of s] by (simp add: reconciliation_window_def observation_window_def)

section \<open>What the worker relies on\<close>

text \<open>A tick the worker can rely on: the clock is aware and does not run backwards, and the post-success
  actions keep the repository in shape.\<close>

definition steady :: "'s ingestion_repository \<Rightarrow> ('s \<Rightarrow> bool) \<Rightarrow> 's worker \<Rightarrow> instant \<Rightarrow> nat \<Rightarrow> bool" where
  "steady repo good w tick k0 \<longleftrightarrow> wk_repository w = repo \<and> (\<forall>k \<ge> k0. \<exists>f. wk_failed_at w k = Aware f \<and> tick \<le> f)
     \<and> (\<forall>action \<in> set (wk_actions w). \<forall>k c s. good s \<longrightarrow> good (fst (action k c s)))"

definition known_schedule :: "(str \<Rightarrow> bool) \<Rightarrow> poll_schedule \<Rightarrow> bool" where
  "known_schedule known_job x \<longleftrightarrow> valid_schedule x \<and> known_job (pls_job_id x)
     \<and> (pls_reconcile_every x \<noteq> None \<longrightarrow> known_job (reconciliation_job_id x))"

definition schedule_jobs :: "poll_schedule \<Rightarrow> (str \<times> run_mode) list" where
  "schedule_jobs x = (pls_job_id x, Incremental)
     # (case pls_reconcile_every x of None \<Rightarrow> [] | Some every \<Rightarrow> [(reconciliation_job_id x, Reconciliation)])"

text \<open>A repository never loses its shape, and in good shape it can record the failure of the jobs it
  knows.\<close>

lemma steady_later: "steady repo good w tick k \<Longrightarrow> k \<le> k' \<Longrightarrow> steady repo good w tick k'"
  by (auto simp: steady_def)

locale failure_recording =
  fixes repo :: "'s ingestion_repository" and good :: "'s \<Rightarrow> bool" and known_job :: "str \<Rightarrow> bool"
  assumes success_good: "good s \<Longrightarrow> rp_persist_success repo s j r a c = Inr (s', out) \<Longrightarrow> good s'"
    and failure_good: "good s \<Longrightarrow> rp_record_failure repo s j ws we a f name message = Inr (s', u) \<Longrightarrow> good s'"
    and failure_recorded: "good s \<Longrightarrow> known_job j \<Longrightarrow> attempted \<le> failed \<Longrightarrow>
          \<exists>s'. rp_record_failure repo s j ws we (Aware attempted) (Aware failed) name message = Inr (s', ())"
begin

lemma actions_good:
  assumes "steady repo good w tick k" and "good s"
  shows "good (run_actions w n c s)"
proof -
  have "good (foldl (\<lambda>s action. fst (action n c s)) s as)" if "set as \<subseteq> set (wk_actions w)" "good s" for as s
    using that assms(1) by (induction as arbitrary: s) (auto simp: steady_def)
  with assms(2) show ?thesis by (simp add: run_actions_def)
qed

lemma execute_returns:
  assumes "steady repo good w tick k" and "good s" and "known_job j"
  shows "\<exists>s' out. execute w schedule j mode window tick (s, k) = ((s', Suc k), Inr out) \<and> good s'
    \<and> jo_job_id out = j \<and> jo_mode out = mode \<and> jo_status out \<noteq> Job_Not_Due \<and> jo_window out = Some window"
proof (cases "wk_acquire w k (lock_name schedule)")
  case False
  with assms(2) show ?thesis by (simp add: execute_def plain_outcome_def)
next
  case True
  show ?thesis
  proof (cases "fetch_and_persist w schedule j window tick (s, k)")
    case (Inl e)
    have "\<exists>f. wk_failed_at w k = Aware f \<and> tick \<le> f" using assms(1) by (simp add: steady_def)
    then obtain f where f: "wk_failed_at w k = Aware f" "tick \<le> f" by blast
    from failure_recorded [OF assms(2,3) f(2)] obtain s' where
      r: "rp_record_failure repo s j (fst window) (snd window) (Aware tick) (Aware f) (error_name e) (take 2000 (error_text e)) = Inr (s', ())"
      by blast
    with assms(1) failure_good [OF assms(2) r] show ?thesis
      by (simp add: execute_def True Inl record_job_failure_def f as_utc_def steady_def plain_outcome_def)
  next
    case (Inr x)
    obtain r c s' p where x: "x = (r, c, s', p)" by (cases x)
    with Inr assms(1) have "rp_persist_success repo s j r (Aware tick) (Aware c) = Inr (s', p)"
      by (auto simp: fetch_and_persist_def rbind_eq_Inr steady_def)
    from success_good [OF assms(2) this] actions_good [OF assms(1)] show ?thesis
      by (simp add: execute_def True Inr x plain_outcome_def)
  qed
qed

lemma poll_job_returns:
  assumes "steady repo good w tick k" and "good s" and "known_job j" and "\<And>c. \<exists>window. plan c = Inr window"
  shows "\<exists>s' k' out. poll_job w schedule j mode interval plan tick (s, k) = ((s', k'), Inr out) \<and> good s' \<and> k \<le> k'
    \<and> jo_job_id out = j \<and> jo_mode out = mode
    \<and> (jo_status out = Job_Not_Due) = (\<not> is_due (rp_get_checkpoint repo s j) tick interval)"
proof -
  let ?c = "rp_get_checkpoint repo s j"
  from assms(4) obtain window where p: "plan ?c = Inr window" by blast
  have r: "wk_repository w = repo" using assms(1) by (simp add: steady_def)
  show ?thesis
  proof (cases "is_due ?c tick interval")
    case True
    with execute_returns [OF assms(1-3), where schedule = schedule and mode = mode and window = window] show ?thesis
      by (auto simp: poll_job_def Let_def r p)
  next
    case False
    with assms(2) show ?thesis by (simp add: poll_job_def Let_def r plain_outcome_def)
  qed
qed

lemma schedule_returns:
  assumes "steady repo good w tick k" and "good s" and "known_schedule known_job x"
  shows "\<exists>s' k' outs. poll_schedule_jobs w x tick (s, k) = ((s', k'), Inr outs) \<and> good s' \<and> k \<le> k'
    \<and> map (\<lambda>out. (jo_job_id out, jo_mode out)) outs = schedule_jobs x"
proof -
  have v: "valid_schedule x" "known_job (pls_job_id x)" using assms(3) by (simp_all add: known_schedule_def)
  have "\<exists>window. incremental_window x c tick = Inr window" for c using incremental_window_plan [OF v(1)] by blast
  from poll_job_returns [where schedule = x and mode = Incremental and interval = "pls_cadence x" and k = k
      and plan = "\<lambda>c. incremental_window x c tick", OF assms(1,2) v(2) this]
  obtain s' k' out where first: "poll_incremental w x tick (s, k) = ((s', k'), Inr out)" "good s'" "k \<le> k'"
    "jo_job_id out = pls_job_id x" "jo_mode out = Incremental" by (auto simp: poll_incremental_def)
  show ?thesis
  proof (cases "pls_reconcile_every x")
    case None
    with first show ?thesis by (simp add: poll_schedule_jobs_def and_then_def schedule_jobs_def)
  next
    case (Some every)
    then have "known_job (reconciliation_job_id x)" using assms(3) by (simp add: known_schedule_def)
    from poll_job_returns [OF steady_later [OF assms(1) first(3)] first(2) this, where schedule = x and mode = Reconciliation and interval = every
        and plan = "\<lambda>c. reconciliation_window x tick"]
    obtain s'' k'' out' where "poll_reconciliation w x every tick (s', k') = ((s'', k''), Inr out')" "good s''" "k' \<le> k''"
      "jo_job_id out' = reconciliation_job_id x" "jo_mode out' = Reconciliation"
      by (auto simp: poll_reconciliation_def reconciliation_window_plan [OF v(1)])
    with first Some show ?thesis by (simp add: poll_schedule_jobs_def and_then_def schedule_jobs_def)
  qed
qed

lemma schedules_return:
  assumes "steady repo good w tick k" and "good s" and "list_all (known_schedule known_job) xs"
  shows "\<exists>s' k' outs. run_schedules w tick xs (s, k) = ((s', k'), Inr outs) \<and> good s' \<and> k \<le> k'
    \<and> map (\<lambda>out. (jo_job_id out, jo_mode out)) outs = concat (map schedule_jobs xs)"
  using assms
proof (induction xs arbitrary: s k)
  case (Cons x xs)
  from schedule_returns [OF Cons.prems(1,2), of x] Cons.prems(3) obtain s' k' outs where
    first: "poll_schedule_jobs w x tick (s, k) = ((s', k'), Inr outs)" "good s'" "k \<le> k'"
    "map (\<lambda>out. (jo_job_id out, jo_mode out)) outs = schedule_jobs x" by auto
  from Cons.IH [OF steady_later [OF Cons.prems(1) first(3)] first(2)] Cons.prems(3) obtain s'' k'' outs' where
    "run_schedules w tick xs (s', k') = ((s'', k''), Inr outs')" "good s''" "k' \<le> k''"
    "map (\<lambda>out. (jo_job_id out, jo_mode out)) outs' = concat (map schedule_jobs xs)" by auto
  with first show ?case by (simp add: and_then_def)
qed simp

end

section \<open>The log of attempts\<close>

text \<open>Actions that leave the repository alone, adapters that answer for the window they were asked for, and
  sets of instants without a gap.\<close>

definition quiet :: "'s worker \<Rightarrow> bool" where
  "quiet w \<longleftrightarrow> (\<forall>action \<in> set (wk_actions w). \<forall>k c s. fst (action k c s) = s)"

definition answers_for_window :: "'s worker \<Rightarrow> poll_schedule \<Rightarrow> bool" where
  "answers_for_window w x \<longleftrightarrow> (\<forall>k window r. wk_fetch w k x window = Inr r \<longrightarrow>
     adr_window_start r = fst window \<and> adr_window_end r = snd window)"

definition gap_free :: "instant set \<Rightarrow> bool" where
  "gap_free A \<longleftrightarrow> (\<forall>x \<in> A. \<forall>z \<in> A. {x..z} \<subseteq> A)"

lemma gap_free_extend:
  assumes "gap_free A" and "w \<in> A" and "s \<le> w" and "w \<le> e"
  shows "gap_free (A \<union> {s..e})"
  unfolding gap_free_def
proof (intro ballI subsetI)
  fix x z y assume xz: "x \<in> A \<union> {s..e}" "z \<in> A \<union> {s..e}" "y \<in> {x..z}"
  have sub: "{u..v} \<subseteq> A" if "u \<in> A" "v \<in> A" for u v using assms(1) that by (simp add: gap_free_def)
  consider "y < s" | "e < y" | "y \<in> {s..e}" by fastforce
  then show "y \<in> A \<union> {s..e}"
  proof cases
    case 1
    with xz(1,3) have "x \<in> A" "y \<in> {x..w}" using assms(3) by auto
    with sub [OF _ assms(2)] show ?thesis by blast
  next
    case 2
    with xz(2,3) have "z \<in> A" "y \<in> {w..z}" using assms(4) by auto
    with sub [OF assms(2)] show ?thesis by blast
  qed simp
qed

lemma gap_free_interval: "gap_free {s..e}"
  by (auto simp: gap_free_def)

text \<open>The idempotency keys of an attempt are not in use, so its run is a new one.\<close>

definition fresh_keys ::
  "('s \<Rightarrow> str \<Rightarrow> adapter_result \<Rightarrow> bool) \<Rightarrow> ('s \<Rightarrow> str \<Rightarrow> instant \<Rightarrow> instant \<Rightarrow> instant \<Rightarrow> str \<Rightarrow> bool)
     \<Rightarrow> 's worker \<Rightarrow> poll_schedule \<Rightarrow> str \<Rightarrow> instant \<times> instant \<Rightarrow> instant \<Rightarrow> 's attempt_state \<Rightarrow> bool" where
  "fresh_keys unused_success unused_failure w x j window tick st \<longleftrightarrow>
     (case wk_fetch w (snd st) x window of Inl e \<Rightarrow> True | Inr r \<Rightarrow> unused_success (fst st) j r)
     \<and> (case fetch_and_persist w x j window tick st of
          Inl e \<Rightarrow> unused_failure (fst st) j (fst window) (snd window) tick (error_name e) | Inr y \<Rightarrow> True)"

definition job_untouched ::
  "'s ingestion_repository \<Rightarrow> ('s \<Rightarrow> str \<Rightarrow> instant \<Rightarrow> bool) \<Rightarrow> ('s \<Rightarrow> str \<Rightarrow> instant set) \<Rightarrow> 's \<Rightarrow> 's \<Rightarrow> str \<Rightarrow> bool" where
  "job_untouched repo settled_job cover s s' i \<longleftrightarrow> rp_get_checkpoint repo s' i = rp_get_checkpoint repo s i
     \<and> cover s' i = cover s i \<and> (\<forall>u. settled_job s i u \<longrightarrow> settled_job s' i u)"

text \<open>The last window a job completed lies within the lookback of its schedule.\<close>

definition caught_up :: "poll_schedule \<Rightarrow> ingestion_checkpoint option \<Rightarrow> instant \<Rightarrow> bool" where
  "caught_up x c tick \<longleftrightarrow> (\<forall>e. Option.bind c ick_window_end = Some e \<longrightarrow>
     tick - pls_max_incremental_lookback x \<le> e \<and> e \<le> tick)"

text \<open>What a poll does to the checkpoint of its job: an attempt is stamped with the tick, a success with
  its end and the end of its window, and the job is not due again before its cadence has passed.\<close>

definition poll_moves :: "poll_schedule \<Rightarrow> instant \<Rightarrow> ingestion_checkpoint option \<Rightarrow> ingestion_checkpoint option \<Rightarrow> job_outcome \<Rightarrow> bool" where
  "poll_moves x tick c c' out \<longleftrightarrow>
     (case jo_status out of
        Job_Not_Due \<Rightarrow> c' = c
      | Job_Locked \<Rightarrow> c' = c
      | Job_Succeeded \<Rightarrow> (\<exists>done. tick \<le> done \<and> c' = Some (checkpoint_succeeded (pls_job_id x) tick done tick))
      | Job_Failed \<Rightarrow> c' = Some (checkpoint_failed (pls_job_id x) tick c))
     \<and> (jo_status out = Job_Not_Due) = (\<not> is_due c tick (pls_cadence x))
     \<and> (jo_status out \<in> {Job_Succeeded, Job_Failed} \<longrightarrow> (\<forall>now < tick + pls_cadence x. \<not> is_due c' now (pls_cadence x)))"

definition poll_effect ::
  "'s ingestion_repository \<Rightarrow> ('s \<Rightarrow> str \<Rightarrow> instant \<Rightarrow> bool) \<Rightarrow> ('s \<Rightarrow> str \<Rightarrow> instant set) \<Rightarrow> poll_schedule \<Rightarrow> instant
     \<Rightarrow> 's \<Rightarrow> 's \<Rightarrow> job_outcome \<Rightarrow> bool" where
  "poll_effect repo settled_job cover x tick s s' out \<longleftrightarrow>
     poll_moves x tick (rp_get_checkpoint repo s (pls_job_id x)) (rp_get_checkpoint repo s' (pls_job_id x)) out
     \<and> (\<exists>done. tick \<le> done \<and> settled_job s' (pls_job_id x) done)
     \<and> (\<forall>i. i \<noteq> pls_job_id x \<longrightarrow> job_untouched repo settled_job cover s s' i)
     \<and> (gap_free (cover s (pls_job_id x)) \<and> caught_up x (rp_get_checkpoint repo s (pls_job_id x)) tick
          \<longrightarrow> gap_free (cover s' (pls_job_id x)))
     \<and> cover s (pls_job_id x) \<subseteq> cover s' (pls_job_id x)
     \<and> (jo_status out = Job_Succeeded \<longrightarrow> tick \<in> cover s' (pls_job_id x))"

lemma job_untouched_refl [simp]: "job_untouched repo settled_job cover s s i"
  by (simp add: job_untouched_def)

locale attempt_log = failure_recording repo good known_job
  for repo :: "'s ingestion_repository" and good known_job +
  fixes settled_job :: "'s \<Rightarrow> str \<Rightarrow> instant \<Rightarrow> bool" and cover :: "'s \<Rightarrow> str \<Rightarrow> instant set"
    and unused_success :: "'s \<Rightarrow> str \<Rightarrow> adapter_result \<Rightarrow> bool"
    and unused_failure :: "'s \<Rightarrow> str \<Rightarrow> instant \<Rightarrow> instant \<Rightarrow> instant \<Rightarrow> str \<Rightarrow> bool"
  assumes success_logged: "good s \<Longrightarrow> settled_job s j attempted
        \<Longrightarrow> (\<And>c. rp_get_checkpoint repo s j = Some c \<Longrightarrow> ick_last_attempted_at c < attempted)
        \<Longrightarrow> unused_success s j r \<Longrightarrow> adr_window_start r \<le> adr_window_end r
        \<Longrightarrow> rp_persist_success repo s j r (Aware attempted) (Aware completed) = Inr (s', out)
        \<Longrightarrow> settled_job s' j completed \<and> attempted \<le> completed
          \<and> rp_get_checkpoint repo s' j = Some (checkpoint_succeeded j attempted completed (adr_window_end r))
          \<and> cover s' j = cover s j \<union> {adr_window_start r .. adr_window_end r}
          \<and> (\<forall>i. i \<noteq> j \<longrightarrow> job_untouched repo settled_job cover s s' i)"
    and failure_logged: "good s \<Longrightarrow> settled_job s j attempted
        \<Longrightarrow> (\<And>c. rp_get_checkpoint repo s j = Some c \<Longrightarrow> ick_last_attempted_at c < attempted)
        \<Longrightarrow> unused_failure s j ws we attempted name
        \<Longrightarrow> rp_record_failure repo s j ws we (Aware attempted) (Aware failed) name message = Inr (s', u)
        \<Longrightarrow> settled_job s' j failed \<and> attempted \<le> failed
          \<and> rp_get_checkpoint repo s' j = Some (checkpoint_failed j attempted (rp_get_checkpoint repo s j))
          \<and> cover s' j = cover s j
          \<and> (\<forall>i. i \<noteq> j \<longrightarrow> job_untouched repo settled_job cover s s' i)"
    and covered_end: "settled_job s j t \<Longrightarrow>
        (case Option.bind (rp_get_checkpoint repo s j) ick_window_end of None \<Rightarrow> cover s j = {} | Some w \<Rightarrow> w \<in> cover s j)"
begin

lemma quiet_actions:
  assumes "quiet w"
  shows "run_actions w k c s = s"
proof -
  have "foldl (\<lambda>s action. fst (action k c s)) s as = s" if "set as \<subseteq> set (wk_actions w)" for as
    using that assms by (induction as) (auto simp: quiet_def)
  then show ?thesis by (simp add: run_actions_def)
qed

text \<open>An executed attempt moves the checkpoint of its job and nothing of another job.\<close>

lemma execute_logged:
  assumes "wk_repository w = repo" and "quiet w" and "good s" and "settled_job s j tick"
    and "\<And>c. rp_get_checkpoint repo s j = Some c \<Longrightarrow> ick_last_attempted_at c < tick"
    and "fresh_keys unused_success unused_failure w x j window tick (s, k)" and "answers_for_window w x"
    and "fst window \<le> snd window" and "execute w x j mode window tick (s, k) = ((s', k'), Inr out)"
  shows "(jo_status out = Job_Locked \<and> s' = s)
    \<or> (\<exists>done. tick \<le> done \<and> settled_job s' j done \<and> (\<forall>i. i \<noteq> j \<longrightarrow> job_untouched repo settled_job cover s s' i)
        \<and> (jo_status out = Job_Succeeded
             \<and> rp_get_checkpoint repo s' j = Some (checkpoint_succeeded j tick done (snd window))
             \<and> cover s' j = cover s j \<union> {fst window .. snd window}
           \<or> jo_status out = Job_Failed
             \<and> rp_get_checkpoint repo s' j = Some (checkpoint_failed j tick (rp_get_checkpoint repo s j))
             \<and> cover s' j = cover s j))"
proof (cases "wk_acquire w k (lock_name x)")
  case False
  with assms(9) show ?thesis by (auto simp: execute_def plain_outcome_def)
next
  case True
  show ?thesis
  proof (cases "fetch_and_persist w x j window tick (s, k)")
    case (Inl e)
    with assms(1,9) True obtain f u where
      f: "rp_record_failure repo s j (fst window) (snd window) (Aware tick) (Aware f) (error_name e) (take 2000 (error_text e)) = Inr (s', u)"
      and out: "jo_status out = Job_Failed"
      by (auto simp: execute_def record_job_failure_def as_utc_def aware_utc_Inr plain_outcome_def split: sum.splits prod.splits)
    have "unused_failure s j (fst window) (snd window) tick (error_name e)"
      using assms(6) Inl by (simp add: fresh_keys_def)
    from failure_logged [OF assms(3,4,5) this f] out show ?thesis by blast
  next
    case (Inr y)
    obtain r c s1 p where y: "y = (r, c, s1, p)" by (cases y)
    with Inr assms(1) have f: "wk_fetch w k x window = Inr r"
      and p: "rp_persist_success repo s j r (Aware tick) (Aware c) = Inr (s1, p)"
      by (auto simp: fetch_and_persist_def rbind_eq_Inr)
    have s': "s' = s1" "jo_status out = Job_Succeeded"
      using assms(9) True by (auto simp: execute_def Inr y quiet_actions [OF assms(2)] plain_outcome_def)
    have unused: "unused_success s j r" using assms(6) f by (simp add: fresh_keys_def)
    have win: "adr_window_start r = fst window" "adr_window_end r = snd window"
      using assms(7) f unfolding answers_for_window_def by blast+
    note logged = success_logged [OF assms(3,4,5) unused _ p]
    from logged s' win assms(8) show ?thesis by (intro disjI2 exI [of _ c]) simp
  qed
qed

lemma poll_logged:
  assumes "valid_schedule x" and "wk_repository w = repo" and "quiet w" and "good s"
    and "settled_job s (pls_job_id x) tick" and "answers_for_window w x"
    and "\<And>window. incremental_window x (rp_get_checkpoint repo s (pls_job_id x)) tick = Inr window \<Longrightarrow>
           fresh_keys unused_success unused_failure w x (pls_job_id x) window tick (s, k)"
    and "poll_incremental w x tick (s, k) = ((s', k'), Inr out)"
  shows "poll_effect repo settled_job cover x tick s s' out"
proof -
  let ?j = "pls_job_id x"
  let ?c = "rp_get_checkpoint repo s ?j" and ?c' = "rp_get_checkpoint repo s' ?j"
  note b = valid_schedule_bounds [OF assms(1)]
  show ?thesis
  proof (cases "is_due ?c tick (pls_cadence x)")
    case False
    with assms(2,8) have "s' = s" "jo_status out = Job_Not_Due"
      by (auto simp: poll_incremental_def poll_job_def Let_def plain_outcome_def)
    with False assms(5) show ?thesis by (auto simp: poll_effect_def poll_moves_def)
  next
    case True
    obtain start where win: "incremental_window x ?c tick = Inr (start, tick)"
      and less: "start < tick" and reach: "\<And>e. Option.bind ?c ick_window_end = Some e \<Longrightarrow> tick - pls_max_incremental_lookback x \<le> e \<Longrightarrow> start \<le> e"
      by (rule incremental_window_plan [OF assms(1), where c = ?c and now = tick]) blast
    have run: "execute w x ?j Incremental (start, tick) tick (s, k) = ((s', k'), Inr out)"
      using assms(2,8) True win by (simp add: poll_incremental_def poll_job_def Let_def)
    have due: "ick_last_attempted_at c < tick" if "?c = Some c" for c using True that b(1) by (simp add: is_due_def)
    from execute_logged [OF assms(2-5) due assms(7) [OF win] assms(6) _ run]
    have eff: "(jo_status out = Job_Locked \<and> s' = s)
      \<or> (\<exists>done. tick \<le> done \<and> settled_job s' ?j done \<and> (\<forall>i. i \<noteq> ?j \<longrightarrow> job_untouched repo settled_job cover s s' i)
        \<and> (jo_status out = Job_Succeeded \<and> ?c' = Some (checkpoint_succeeded ?j tick done tick)
             \<and> cover s' ?j = cover s ?j \<union> {start .. tick}
           \<or> jo_status out = Job_Failed \<and> ?c' = Some (checkpoint_failed ?j tick ?c) \<and> cover s' ?j = cover s ?j))"
      using less by simp
    have no_gap: "gap_free (cover s ?j \<union> {start..tick})" if "gap_free (cover s ?j)" "caught_up x ?c tick"
    proof (cases "Option.bind ?c ick_window_end")
      case None
      with covered_end [OF assms(5)] show ?thesis by (simp add: gap_free_interval)
    next
      case (Some e)
      with covered_end [OF assms(5)] have "e \<in> cover s ?j" by simp
      from gap_free_extend [OF that(1) this] reach [OF Some] that(2) Some show ?thesis
        by (simp add: caught_up_def)
    qed
    from eff no_gap True b(1) less assms(5) show ?thesis
      by (auto simp: poll_effect_def poll_moves_def is_due_def checkpoint_succeeded_def checkpoint_failed_def)
  qed
qed

end

section \<open>The repository of PostgreSQL\<close>

definition known_job :: "str \<Rightarrow> bool" where
  "known_job j \<longleftrightarrow> (case job_source_metadata_values j of Inl e \<Rightarrow> False | Inr m \<Rightarrow> True)"

definition repository_ok :: "ingestion_db \<Rightarrow> bool" where
  "repository_ok db \<longleftrightarrow> ingestion_ok db \<and> canonical_sources db \<and> named_runs db"

text \<open>The repository since an earlier state: in shape, and with that state's history.\<close>

definition repository_since :: "ingestion_db \<Rightarrow> ingestion_db \<Rightarrow> bool" where
  "repository_since db0 db \<longleftrightarrow> repository_ok db \<and> history_grows_to db0 db"

definition key_unused :: "ingestion_db \<Rightarrow> str \<Rightarrow> bool" where
  "key_unused db key \<longleftrightarrow> run_with_key (idb_runs db) key = None"

lemma put_run_named:
  assumes "\<forall>run \<in> set table. ir_id run = uuid5 RUN_NAMESPACE (ir_idempotency_key run)"
    and "ir_id new = uuid5 RUN_NAMESPACE (ir_idempotency_key new)"
    and "\<And>run. ir_id (f run) = ir_id run \<and> ir_idempotency_key (f run) = ir_idempotency_key run"
  shows "\<forall>run \<in> set (run_insert table new f). ir_id run = uuid5 RUN_NAMESPACE (ir_idempotency_key run)"
  using assms by (auto simp: run_insert_def put_row_def)

lemma success_named:
  assumes "named_runs db" and "persist_success db j r a c = Inr (db', out)"
  shows "named_runs db'"
proof -
  from assms(2) obtain m attempted completed where s: "success_transaction db j r m attempted completed = Inr (db', out)"
    by (auto simp: persist_success_def rbind_eq_Inr guard_eq_Inr)
  have started: "\<forall>run \<in> set (started_runs db j r m attempted). ir_id run = uuid5 RUN_NAMESPACE (ir_idempotency_key run)"
    unfolding started_runs_def using assms(1)
    by (intro put_run_named) (simp_all add: named_runs_def started_run_def Let_def)
  show ?thesis
    by (rule success_transaction_steps [OF s])
      (use started in \<open>auto simp: named_runs_def finish_runs_def finish_run_def\<close>)
qed

lemma failure_named:
  assumes "named_runs db" and "record_failure db j ws we a f name message = Inr (db', u)"
  shows "named_runs db'"
proof (rule record_failure_steps [OF assms(2)])
  fix attempted failed m sources new error
  assume db': "db' = db\<lparr>idb_sources := sources, idb_runs := run_insert (idb_runs db) new (failed_run failed error)\<rparr>"
    and new: "ir_idempotency_key new = failure_idempotency_key j ws we attempted name"
      "ir_id new = uuid5 RUN_NAMESPACE (failure_idempotency_key j ws we attempted name)"
  show "named_runs db'" unfolding named_runs_def db'
    using put_run_named [of "idb_runs db" new "failed_run failed error"] assms(1) new by (simp add: named_runs_def)
qed

lemma success_repository:
  assumes "repository_since db0 db" and "persist_success db j r a c = Inr (db', out)"
  shows "repository_since db0 db'"
proof -
  from assms(2) obtain m attempted completed where s: "success_transaction db j r m attempted completed = Inr (db', out)"
    by (auto simp: persist_success_def rbind_eq_Inr guard_eq_Inr)
  have ok: "ingestion_ok db" "history_grows_to db0 db" using assms(1) by (simp_all add: repository_since_def repository_ok_def)
  from success_transaction_ok [OF ok(1) s] history_grows_trans [OF ok(2)]
    persist_success_sources [OF assms(2)] success_named [OF _ assms(2)] assms(1)
  show ?thesis by (auto simp: repository_since_def repository_ok_def)
qed

interpretation recorded: failure_recording "postgres_repository v" "repository_since db0" known_job
  for v db0
proof
  show "repository_since db0 s'"
    if "repository_since db0 s" "rp_persist_success (postgres_repository v) s j r a c = Inr (s', out)" for s j r a c s' out
    using success_repository that by (simp add: postgres_repository_def)
  show "repository_since db0 s'"
    if "repository_since db0 s" "rp_record_failure (postgres_repository v) s j ws we a f name message = Inr (s', u)"
    for s j ws we a f name message s' u
  proof -
    have r: "record_failure s j ws we a f name message = Inr (s', u)" using that(2) by (simp add: postgres_repository_def)
    have ok: "ingestion_ok s" "canonical_sources s" "named_runs s" "history_grows_to db0 s"
      using that(1) by (simp_all add: repository_since_def repository_ok_def)
    from record_failure_keeps [OF ok(1,2) r] failure_named [OF ok(3) r] history_grows_trans [OF ok(4)]
    show ?thesis by (auto simp: repository_since_def repository_ok_def)
  qed
  show "\<exists>s'. rp_record_failure (postgres_repository v) s j ws we (Aware attempted) (Aware failed) name message = Inr (s', ())"
    if "repository_since db0 s" "known_job j" "attempted \<le> failed" for s j attempted failed ws we name message
  proof -
    have sources: "canonical_sources s" using that(1) by (simp add: repository_since_def repository_ok_def)
    have "\<exists>m. job_source_metadata_values j = Inr m"
      using that(2) by (auto simp: known_job_def split: sum.splits)
    with record_failure_recorded [OF sources _ that(3)] show ?thesis by (auto simp: postgres_repository_def)
  qed
qed

lemma started_before:
  assumes "settled db j t" and "\<And>c. get_checkpoint v db j = Some c \<Longrightarrow> ick_last_attempted_at c < a"
  shows "\<forall>run \<in> set (job_runs db j). ir_started_at run < a"
proof
  fix run assume run: "run \<in> set (job_runs db j)"
  then have "job_runs db j \<noteq> []" by auto
  then have "ir_started_at (last (job_runs db j)) < a" using assms(2) by (simp add: checkpoint_of_log [OF assms(1)])
  with last_attempt [OF assms(1) run] show "ir_started_at run < a" by simp
qed

lemma untouched_by_append:
  assumes "idb_runs db' = idb_runs db @ [new]" and "ir_adapter new = j" and "i \<noteq> j"
  shows "job_untouched (postgres_repository v) settled covered db db' i"
proof -
  have same: "job_runs db' i = job_runs db i" using job_runs_append [OF assms(1)] assms(2,3) by simp
  show ?thesis
    by (simp add: job_untouched_def postgres_repository_def checkpoint_same [OF same] settled_def covered_def
        job_successes_def same)
qed

interpretation logged: attempt_log "postgres_repository v" "repository_since db0" known_job settled covered
  "\<lambda>db j r. key_unused db (success_idempotency_key j r)"
  "\<lambda>db j ws we a name. key_unused db (failure_idempotency_key j ws we a name)"
  for v db0
proof
  fix s s' j r attempted completed out
  assume good: "repository_since db0 s" and s: "settled s j attempted"
    and newer: "\<And>c. rp_get_checkpoint (postgres_repository v) s j = Some c \<Longrightarrow> ick_last_attempted_at c < attempted"
    and key: "key_unused s (success_idempotency_key j r)" and win: "adr_window_start r \<le> adr_window_end r"
    and p: "rp_persist_success (postgres_repository v) s j r (Aware attempted) (Aware completed) = Inr (s', out)"
  have before: "\<forall>run \<in> set (job_runs s j). ir_started_at run < attempted"
    by (rule started_before [OF s, where v = v]) (use newer in \<open>simp add: postgres_repository_def\<close>)
  have named: "named_runs s" using good by (simp add: repository_since_def repository_ok_def)
  have run: "persist_success s j r (Aware attempted) (Aware completed) = Inr (s', out)"
    using p by (simp add: postgres_repository_def)
  obtain new where new: "idb_runs s' = idb_runs s @ [new]" "ir_adapter new = j" "ir_started_at new = attempted"
    "ir_completed_at new = Some completed" "ir_status new = Run_Succeeded" "ir_requested_from new = adr_window_start r"
    "ir_requested_to new = adr_window_end r" "attempted \<le> completed"
    by (rule success_appends_run [OF named key [unfolded key_unused_def] run]) blast
  have log: "job_runs s' j = job_runs s j @ [new]" using job_runs_append [OF new(1)] new(2) by simp
  have w: "ir_requested_from new \<le> ir_requested_to new" using new(6,7) win by simp
  note moved = settled_append [OF s order_refl before log new(3,4,8) w]
    attempt_moves_checkpoint(1) [OF s order_refl before log new(3,4,8) w new(5), where v = v]
  show "settled s' j completed \<and> attempted \<le> completed
    \<and> rp_get_checkpoint (postgres_repository v) s' j = Some (checkpoint_succeeded j attempted completed (adr_window_end r))
    \<and> covered s' j = covered s j \<union> {adr_window_start r..adr_window_end r}
    \<and> (\<forall>i. i \<noteq> j \<longrightarrow> job_untouched (postgres_repository v) settled covered s s' i)"
    using moved untouched_by_append [OF new(1,2)] job_successes_append [OF log] new
    by (auto simp: postgres_repository_def covered_def)
next
  fix s s' j ws we attempted failed name message u
  assume good: "repository_since db0 s" and s: "settled s j attempted"
    and newer: "\<And>c. rp_get_checkpoint (postgres_repository v) s j = Some c \<Longrightarrow> ick_last_attempted_at c < attempted"
    and key: "key_unused s (failure_idempotency_key j ws we attempted name)"
    and p: "rp_record_failure (postgres_repository v) s j ws we (Aware attempted) (Aware failed) name message = Inr (s', u)"
  have before: "\<forall>run \<in> set (job_runs s j). ir_started_at run < attempted"
    by (rule started_before [OF s, where v = v]) (use newer in \<open>simp add: postgres_repository_def\<close>)
  have named: "named_runs s" using good by (simp add: repository_since_def repository_ok_def)
  have run: "record_failure s j ws we (Aware attempted) (Aware failed) name message = Inr (s', u)"
    using p by (simp add: postgres_repository_def)
  obtain new where new: "idb_runs s' = idb_runs s @ [new]" "ir_adapter new = j" "ir_started_at new = attempted"
    "ir_completed_at new = Some failed" "ir_status new = Run_Failed" "attempted \<le> failed"
    by (rule failure_appends_run [OF named key [unfolded key_unused_def] run]) blast
  have log: "job_runs s' j = job_runs s j @ [new]" using job_runs_append [OF new(1)] new(2) by simp
  have w: "ir_status new = Run_Succeeded \<Longrightarrow> ir_requested_from new \<le> ir_requested_to new" using new(5) by simp
  note moved = settled_append [OF s order_refl before log new(3,4,6) w]
    attempt_moves_checkpoint(2) [OF s order_refl before log new(3,4,6) w, where v = v]
  show "settled s' j failed \<and> attempted \<le> failed
    \<and> rp_get_checkpoint (postgres_repository v) s' j
        = Some (checkpoint_failed j attempted (rp_get_checkpoint (postgres_repository v) s j))
    \<and> covered s' j = covered s j
    \<and> (\<forall>i. i \<noteq> j \<longrightarrow> job_untouched (postgres_repository v) settled covered s s' i)"
    using moved untouched_by_append [OF new(1,2)] job_successes_append [OF log] new
    by (auto simp: postgres_repository_def covered_def)
next
  fix s j t assume s: "settled s j t"
  show "case Option.bind (rp_get_checkpoint (postgres_repository v) s j) ick_window_end of
      None \<Rightarrow> covered s j = {} | Some e \<Rightarrow> e \<in> covered s j"
  proof (cases "job_successes s j = []")
    case True
    with settled_window_end [OF s, of v] show ?thesis by (simp add: postgres_repository_def covered_def)
  next
    case False
    from last_in_set [OF this] s have "ir_requested_from (last (job_successes s j)) \<le> ir_requested_to (last (job_successes s j))"
      by (auto simp: settled_def job_successes_def)
    then have "ir_requested_to (last (job_successes s j)) \<in> covered s j"
      unfolding covered_def by (intro UN_I [OF last_in_set [OF False]]) simp
    with False settled_window_end [OF s, of v] show ?thesis by (simp add: postgres_repository_def)
  qed
qed

section \<open>A tick of the worker\<close>

text \<open>C6: whatever the adapters answer and whichever locks are taken, a tick over the database returns one
  outcome for every job of every schedule in their order, the database stays well formed, and its
  immutable history only grows; the clock must be aware and not run backwards.\<close>

theorem tick_reports_every_job:
  assumes "repository_ok db" and "wk_repository w = postgres_repository v" and "quiet w"
    and "list_all (known_schedule known_job) (wk_schedules w)"
    and "\<forall>n \<ge> k. \<exists>f. wk_failed_at w n = Aware f \<and> tick \<le> f"
  shows "\<exists>db' k' outs. run_once w (Aware tick) (db, k) = ((db', k'), Inr outs) \<and> repository_ok db' \<and> history_grows_to db db'
    \<and> map (\<lambda>out. (jo_job_id out, jo_mode out)) outs = concat (map schedule_jobs (wk_schedules w))"
proof -
  have "steady (postgres_repository v) (repository_since db) w tick k"
    using assms(2,3,5) by (simp add: steady_def quiet_def)
  moreover have "repository_since db db" using assms(1) by (simp add: repository_since_def)
  ultimately obtain db' k' outs where "run_schedules w tick (wk_schedules w) (db, k) = ((db', k'), Inr outs)"
    "repository_since db db'" "map (\<lambda>out. (jo_job_id out, jo_mode out)) outs = concat (map schedule_jobs (wk_schedules w))"
    using recorded.schedules_return [OF _ _ assms(4)] by blast
  then show ?thesis by (auto simp: run_once_def as_utc_def repository_since_def)
qed

text \<open>C2: a poll of a job over the database is skipped exactly when the job is not due; an attempt stamps
  the checkpoint with the tick and the job is not due again before its cadence; a failure keeps the
  last success; a success covers a window up to the tick, and as long as the last covered window lies
  within the lookback the instants the job has covered stay without a gap.  Other jobs keep their
  checkpoints.\<close>

theorem polls_leave_no_gap:
  assumes "repository_ok db" and "wk_repository w = postgres_repository v" and "quiet w" and "valid_schedule x"
    and "settled db (pls_job_id x) tick" and "answers_for_window w x"
    and "\<And>window. incremental_window x (get_checkpoint v db (pls_job_id x)) tick = Inr window \<Longrightarrow>
           fresh_keys (\<lambda>db j r. key_unused db (success_idempotency_key j r))
             (\<lambda>db j ws we a name. key_unused db (failure_idempotency_key j ws we a name))
             w x (pls_job_id x) window tick (db, k)"
    and "poll_incremental w x tick (db, k) = ((db', k'), Inr out)"
  shows "poll_moves x tick (get_checkpoint v db (pls_job_id x)) (get_checkpoint v db' (pls_job_id x)) out
    \<and> (\<exists>done. tick \<le> done \<and> settled db' (pls_job_id x) done)
    \<and> (\<forall>i. i \<noteq> pls_job_id x \<longrightarrow> get_checkpoint v db' i = get_checkpoint v db i)
    \<and> (gap_free (covered db (pls_job_id x)) \<and> caught_up x (get_checkpoint v db (pls_job_id x)) tick
         \<longrightarrow> gap_free (covered db' (pls_job_id x)))
    \<and> covered db (pls_job_id x) \<subseteq> covered db' (pls_job_id x)
    \<and> (jo_status out = Job_Succeeded \<longrightarrow> tick \<in> covered db' (pls_job_id x))"
proof -
  have since: "repository_since db db" using assms(1) by (simp add: repository_since_def)
  have checkpoint: "rp_get_checkpoint (postgres_repository v) = get_checkpoint v" by (simp add: postgres_repository_def)
  from logged.poll_logged [where v = v, OF assms(4,2,3) since assms(5,6) _ assms(8), unfolded checkpoint, OF assms(7)]
  show ?thesis by (simp add: poll_effect_def job_untouched_def checkpoint)
qed

text \<open>A job has names when there is a letter or digit before and after its first dot.\<close>

definition letter :: "char \<Rightarrow> bool" where
  "letter c \<longleftrightarrow> list_all (\<lambda>x. \<not> is_space x \<and> is_lower_alnum (lower_char x)) [c, lower_char c, upper_char c]"

definition named_job :: "str \<Rightarrow> bool" where
  "named_job j \<longleftrightarrow> (let base = removesuffix j ''.reconcile''; p = takeWhile (\<lambda>c. c \<noteq> CHR ''.'') base
     in p \<noteq> base \<and> list_ex letter p \<and> list_ex letter (drop (length p + 1) base))"

lemma dropWhile_keeps: "x \<in> set xs \<Longrightarrow> \<not> P x \<Longrightarrow> x \<in> set (dropWhile P xs)"
  by (induction xs) auto

lemma collapse_keeps: "x \<in> set xs \<Longrightarrow> keep x \<Longrightarrow> x \<in> set (collapse keep xs)"
proof (induction keep xs rule: collapse.induct)
  case (2 keep c cs)
  then show ?case by (cases "keep c") (auto intro: dropWhile_keeps)
qed simp

lemma slug_known:
  assumes "c \<in> set v" and "\<not> is_space c" and "is_lower_alnum (lower_char c)"
  shows "\<exists>s. slug v = Inr s"
proof -
  have "c \<in> set (strip v)" using assms(1,2) by (simp add: strip_def dropWhile_keeps)
  then have "lower_char c \<in> set (lower (strip v))" by (simp add: lower_def)
  then have "lower_char c \<in> set (collapse is_lower_alnum (lower (strip v)))" using assms(3) by (rule collapse_keeps)
  moreover have "lower_char c \<noteq> CHR ''-''" using assms(3) by (auto simp: is_lower_alnum_def is_digit_def)
  ultimately have "lower_char c \<in> set (strip_dashes (collapse is_lower_alnum (lower (strip v))))"
    by (simp add: strip_dashes_def dropWhile_keeps)
  then show ?thesis by (auto simp: slug_def Let_def)
qed

lemma default_cadence: "0 < get_or DATASET_CADENCE_SECONDS key 300"
proof -
  have "list_all (\<lambda>(k, v). 0 < v) DATASET_CADENCE_SECONDS" by code_simp
  then show ?thesis
    by (auto simp: list_all_iff split: option.splits dest!: map_of_SomeD)
qed

lemma profile_slugs: "list_all (\<lambda>(k, v). case slug k of Inr s \<Rightarrow> True | Inl e \<Rightarrow> False) SOURCE_PROFILES"
  by code_simp

lemma source_metadata_known:
  assumes "c \<in> set p" and "letter c" and "d \<in> set ds" and "letter d"
  shows "\<exists>m. source_metadata_values p ds u None = Inr m"
proof -
  define key where "key = lower (strip p)"
  define root where "root = takeWhile (\<lambda>c. c \<notin> set ''.:/'') key"
  define provider where "provider = (if lookup SOURCE_PROFILES key = None \<and> lookup SOURCE_PROFILES root \<noteq> None then root else key)"
  have "lower_char c \<in> set key" "upper_char d \<in> set (upper (strip ds))"
    using assms by (auto simp: key_def strip_def lower_def upper_def letter_def intro!: imageI dropWhile_keeps)
  then have key: "\<exists>s. slug key = Inr s" and ds: "\<exists>s. slug (upper (strip ds)) = Inr s"
    using assms(2,4) by (auto intro!: slug_known simp: letter_def)
  have "\<exists>s. slug root = Inr s" if "lookup SOURCE_PROFILES root \<noteq> None"
    using that profile_slugs by (fastforce simp: list_all_iff dest: map_of_SomeD split: sum.splits)
  with key have "\<exists>s. slug provider = Inr s" by (auto simp: provider_def)
  with ds have "\<exists>i. canonical_source_id provider (upper (strip ds)) = Inr i"
    by (auto simp: canonical_source_id_def Let_def)
  then show ?thesis
    using default_cadence [of "(provider, upper (strip ds))"]
    unfolding source_metadata_values_def Let_def key_def [symmetric] root_def [symmetric] provider_def [symmetric]
    by auto
qed

lemma named_job_known:
  assumes "named_job j"
  shows "known_job j"
proof -
  define base where "base = removesuffix j ''.reconcile''"
  define p where "p = takeWhile (\<lambda>c. c \<noteq> CHR ''.'') base"
  obtain c d where c: "c \<in> set p" "letter c" and d: "d \<in> set (drop (length p + 1) base)" "letter d" and ne: "p \<noteq> base"
    using assms by (auto simp: named_job_def Let_def list_ex_iff base_def p_def)
  define u where "u = get_or
            [(''desnz'', ''https://www.gov.uk''), (''elexon'', ''https://data.elexon.co.uk''),
             (''neso'', ''https://api.carbonintensity.org.uk''),
             (''ukpn'', ''https://ukpowernetworks.opendatasoft.com'')] (lower p) ''https://50hz.app''"
  obtain m where m: "source_metadata_values p (drop (length p + 1) base) u None = Inr m"
    using source_metadata_known [OF c d, of u] by blast
  show ?thesis
    unfolding known_job_def job_source_metadata_values_def Let_def base_def [symmetric] p_def [symmetric]
    by (simp only: ne if_False prod.case u_def [symmetric] m rbind_Inr) simp
qed

lemmas production_defs = PRODUCTION_SCHEDULES_def production_schedule_def

lemma production_distinct:
  "distinct (map fst (concat (map schedule_jobs PRODUCTION_SCHEDULES)))"
  "distinct (map lock_name PRODUCTION_SCHEDULES)" "distinct (map pls_job_id PRODUCTION_SCHEDULES)"
  by (simp_all add: production_defs schedule_jobs_def lock_name_def reconciliation_job_id_def)

lemma production_valid: "list_all valid_schedule PRODUCTION_SCHEDULES"
  by (simp add: production_defs valid_schedule_def mk_poll_schedule_def time_defs)

lemma production_known:
  "list_all (\<lambda>x. known_job (pls_job_id x) \<and> (pls_reconcile_every x \<noteq> None \<longrightarrow> known_job (reconciliation_job_id x))) PRODUCTION_SCHEDULES"
proof -
  have "list_all (\<lambda>x. named_job (pls_job_id x) \<and> (pls_reconcile_every x = None \<or> named_job (reconciliation_job_id x)))
      PRODUCTION_SCHEDULES" by code_simp
  then show ?thesis by (auto simp: list_all_iff intro: named_job_known)
qed


text \<open>A worker whose adapters all fail, and one whose adapter answers its first window.\<close>

definition outage_worker :: "ingestion_db worker" where
  "outage_worker = \<lparr>wk_schedules = PRODUCTION_SCHEDULES, wk_repository = postgres_repository (\<lambda>i. 0), wk_acquire = (\<lambda>k name. True),
     wk_fetch = (\<lambda>k x window. Inl (RuntimeError ''outage'')), wk_completed_at = (\<lambda>k. Aware 1),
     wk_failed_at = (\<lambda>k. Aware (int k)), wk_actions = []\<rparr>"

lemma empty_repository_ok: "repository_ok empty_db"
  by (simp add: repository_ok_def empty_db_ok canonical_sources_def named_runs_def) (simp add: empty_db_def)

theorem tick_reports_every_job_witness:
  "\<exists>db k outs. run_once outage_worker (Aware 0) (empty_db, 0) = ((db, k), Inr outs) \<and> repository_ok db \<and> length outs = 24"
proof -
  have "list_all (known_schedule known_job) (wk_schedules outage_worker)"
    using production_valid production_known by (simp add: outage_worker_def known_schedule_def list_all_iff)
  from tick_reports_every_job [OF empty_repository_ok _ _ this, of "\<lambda>i. 0" 0 0] obtain db k outs where
    "run_once outage_worker (Aware 0) (empty_db, 0) = ((db, k), Inr outs)" "repository_ok db"
    and outs: "map (\<lambda>out. (jo_job_id out, jo_mode out)) outs = concat (map schedule_jobs PRODUCTION_SCHEDULES)"
    by (auto simp: outage_worker_def quiet_def)
  moreover have "length outs = 24" using arg_cong [OF outs, of length] by (simp add: production_defs schedule_jobs_def)
  ultimately show ?thesis by blast
qed

definition example_schedule :: poll_schedule where
  "example_schedule = production_schedule ''elexon.indo'' ''elexon.indo'' (5 * minute) hour (30 * minute) (48 * hour) None hour"

definition example_worker :: "ingestion_db worker" where
  "example_worker = \<lparr>wk_schedules = [example_schedule], wk_repository = postgres_repository (\<lambda>i. 0), wk_acquire = (\<lambda>k name. True),
     wk_fetch = (\<lambda>k x window. if window = (0, half_hour) then Inr example_result else Inl (RuntimeError ''outage'')),
     wk_completed_at = (\<lambda>k. Aware half_hour), wk_failed_at = (\<lambda>k. Aware half_hour), wk_actions = []\<rparr>"

lemma example_worker_parts:
  "wk_repository example_worker = postgres_repository (\<lambda>i. 0)" "wk_acquire example_worker = (\<lambda>k name. True)"
  "wk_actions example_worker = []" "rp_get_checkpoint (postgres_repository v) = get_checkpoint v"
  by (simp_all add: example_worker_def postgres_repository_def)

lemma example_persisted_at:
  "\<exists>db out. persist_success empty_db ''elexon.indo'' example_result (Aware t) (Aware t) = Inr (db, out)"
proof -
  from example_result_prepared obtain m y where
    m: "prepare_success example_result = Inr m" "source_metadata_upsert [] m = Inr y" "row_value m ''id'' = CStr ''elexon.indo''"
    by (auto split: sum.splits)
  have "\<exists>db c x. persist_references (empty_db\<lparr>idb_sources := y, idb_runs := rs, idb_raw := w\<rparr>) ''elexon.indo'' (adr_records example_result)
        = Inr (db, c) \<and> persist_normalized db ''elexon.indo'' raw example_result c = Inr x" for rs w raw
    using example_written [where a = y and rs = rs and w = w and raw = raw]
    by (auto split: sum.splits prod.splits) (metis sum.exhaust prod.exhaust)
  then have "\<exists>db out. success_transaction empty_db ''elexon.indo'' example_result m t t = Inr (db, out)"
    using m(2,3) by (intro success_transaction_succeeds [where sources = y and t = 0])
      (simp_all add: cell_text_def example_times)
  with m(1) show ?thesis by (simp add: persist_success_def as_utc_def)
qed

theorem polls_leave_no_gap_witness:
  "\<exists>db out. poll_incremental example_worker example_schedule half_hour (empty_db, 0) = ((db, 1), Inr out)
     \<and> jo_status out = Job_Succeeded \<and> half_hour \<in> covered db ''elexon.indo'' \<and> gap_free (covered db ''elexon.indo'')"
proof -
  let ?j = "''elexon.indo''"
  have x: "valid_schedule example_schedule" "pls_job_id example_schedule = ?j"
    by (simp_all add: example_schedule_def production_schedule_def valid_schedule_def mk_poll_schedule_def time_defs)
  have none: "get_checkpoint v empty_db ?j = None" for v by (simp add: get_checkpoint_def empty_db_def py_max_def)
  have window: "incremental_window example_schedule None half_hour = Inr (0, half_hour)"
    by (simp add: incremental_window_def example_schedule_def production_schedule_def observation_window_def time_defs)
  obtain db out where p: "persist_success empty_db ?j example_result (Aware half_hour) (Aware half_hour) = Inr (db, out)"
    using example_persisted_at by blast
  then have fetched: "fetch_and_persist example_worker example_schedule ?j (0, half_hour) half_hour (empty_db, 0)
      = Inr (example_result, half_hour, db, out)"
    by (simp add: fetch_and_persist_def example_worker_def postgres_repository_def as_utc_def)
  have poll: "poll_incremental example_worker example_schedule half_hour (empty_db, 0) = ((db, 1),
      Inr ((plain_outcome ?j Incremental Job_Succeeded (Some (0, half_hour)))
        \<lparr>jo_record_count := int (length (adr_records example_result)), jo_persistence := Some out\<rparr>))" (is "_ = (_, Inr ?out)")
    by (simp add: poll_incremental_def poll_job_def x(2) example_worker_parts none is_due_def window execute_def fetched
        run_actions_def)
  have keys: "fresh_keys (\<lambda>db j r. key_unused db (success_idempotency_key j r))
      (\<lambda>db j ws we a name. key_unused db (failure_idempotency_key j ws we a name))
      example_worker example_schedule ?j w half_hour (empty_db, 0)" for w
    by (simp add: fresh_keys_def key_unused_def run_with_key_def empty_db_def split: sum.split)
  have empty: "job_runs empty_db ?j = []" by (simp add: job_runs_def empty_db_def)
  then have settled: "settled empty_db ?j half_hour" by (simp add: settled_def)
  have answers: "answers_for_window example_worker example_schedule"
    by (simp add: answers_for_window_def example_worker_def example_result_def)
  have "covered empty_db ?j = {}" by (simp add: covered_def job_successes_def empty)
  then have start: "gap_free (covered empty_db ?j) \<and> caught_up example_schedule (get_checkpoint (\<lambda>i. 0) empty_db ?j) half_hour"
    by (simp add: gap_free_def caught_up_def none)
  from polls_leave_no_gap [OF empty_repository_ok _ _ x(1) _ answers _ poll, unfolded x(2), of "\<lambda>i. 0"] keys settled start
  have "half_hour \<in> covered db ?j \<and> gap_free (covered db ?j)"
    by (simp add: quiet_def plain_outcome_def) (simp add: example_worker_def)
  with poll show ?thesis by (simp add: plain_outcome_def)
qed

end
