(* ===== verification/Spec2Isabelle.thy ===== *)
theory Spec2Isabelle
  imports Settlement Data_Status Rate_Limit Http_Cache Call_Budget Event_Relevance Verification_Api Charging
    Worker
begin

text \<open>
  A verification library for the backend of 50Hz, a FastAPI service and a worker that show the state
  of the British electricity grid.  The library follows the Python sources under \<open>src/app/\<close>.

  \<^bold>\<open>The program.\<close>  The worker polls publishers (Elexon, NESO, UKPN, DESNZ).  A source adapter turns a
  payload into normalized records; the ingestion repository maps the records to rows and writes them
  in one transaction, where immutable tables get a new revision per change and reported notices are
  materialized into an append-only event lifecycle.  Batch jobs work on the stored rows, among them
  the job that verifies forecast vintages against the outturn.  The API reads rows, presents them
  through validated response models with their freshness, plans flexible use over a forecast
  series, ranks reported events by relevance, and answers behind a rate limiter and a
  conditional-response middleware.

  \<^bold>\<open>Shared theories.\<close>
  \<^item> \<open>Py_Base\<close>: exceptions as values of \<open>py_error\<close>, results \<open>py_error + 'a\<close> with \<open>rbind\<close>, dictionaries
    as association lists in insertion order, time as integer microseconds, and the locale
    \<open>latest_selection\<close> (one row per identity, the one of greatest rank), which the relevance ranking
    and the forecast verification interpret.
  \<^item> \<open>Float64\<close>: finite floats as rationals rounded to 53 bits, with the locale \<open>rounding\<close>.
  \<^item> \<open>Py_Text\<close>, \<open>Json\<close>: strings, SHA-256, decimal and ISO text, canonical \<open>json.dumps\<close>, all
    executable.
  \<^item> \<open>Ledger\<close>: the locale \<open>ledger\<close> of append-only revision tables under \<open>ON CONFLICT DO NOTHING\<close>,
    interpreted on the tables of forecast verification and of ingestion.

  \<^bold>\<open>Components.\<close>  Each theory holds the state, the operations in the order of the code, the lemmas of
  the operations, and its properties (\<open>C\<close> and a number).
  \<^item> \<open>Settlement\<close> (\<open>domain/settlement.py\<close>, \<open>history/calendar.py\<close>): the settlement day and its 46, 48
    or 50 periods; every instant lies in its period and the periods tile the day.
  \<^item> \<open>Fact_Models\<close> (\<open>domain/enums.py\<close>, \<open>domain/models.py\<close>), \<open>Metric_Registry\<close> (\<open>metrics/registry.py\<close>)
    and \<open>Data_Status\<close> (\<open>api/status.py\<close>, its models in \<open>api/models.py\<close>, \<open>source_health/\<close>): validated facts,
    the metric definitions and their import checks, the state of each data family, the supply
    accounting and the source health answer; presenters never trip over their own validators.
  \<^item> \<open>Rate_Limit\<close> (\<open>rate_limit.py\<close>), \<open>Http_Cache\<close> (\<open>http_cache.py\<close>), \<open>Call_Budget\<close>
    (\<open>intelligence/budget.py\<close>): the deques of the limiter refine counting over the log of admitted
    calls; a validator served by the cache revalidates; a day grants its limit.
  \<^item> \<open>Event_Models\<close> (\<open>events/models.py\<close>, \<open>identity.py\<close>, \<open>rules.py\<close>, \<open>processor.py\<close>, \<open>lifecycle.py\<close>),
    \<open>Event_Revisions\<close> (\<open>events/revisions.py\<close>), \<open>Event_Relevance\<close> (\<open>events/relevance.py\<close>): detection
    rules, the in-memory lifecycle as an inductive step relation, the append-only history (locale
    \<open>append_only\<close>), and the ranking whose groups are the components of the overlap relation (locale
    \<open>overlap_graph\<close>).
  \<^item> \<open>Forecast_Verification\<close> (\<open>forecast_verification/core.py\<close>), \<open>Verification_Store\<close> and
    \<open>Verification_Job\<close> (\<open>job.py\<close>, \<open>repository.py\<close>), \<open>Verification_Api\<close> (\<open>models.py\<close>, \<open>api.py\<close>): selection,
    pairing, statistics and checksums; the tables with their constraints; the runner with its
    checkpoints; the public answer over stored rows.
  \<^item> \<open>Charging\<close> (\<open>charging/\<close>): the flexible-use planner, its window loop with a termination proof, and
    the optimality of the recommended window.
  \<^item> \<open>Ingestion_Rows\<close> (upsert specifications, deduplication, revision allocation and both write
    statements of \<open>persistence/ingestion.py\<close>, constraints of \<open>db/models.py\<close>), \<open>Ingestion_Records\<close>
    (\<open>persistence/records.py\<close>, \<open>geography/records.py\<close>, \<open>sources/types.py\<close>, the postcode gate of
    \<open>sources/ukpn.py\<close>) and \<open>Event_Lifecycle_Store\<close> (\<open>persistence/event_lifecycle.py\<close>): rows, mappers, and
    the materializer of reported notices over \<open>Event_Revisions\<close>.
  \<^item> \<open>Ingestion_Snapshots\<close>, \<open>Ingestion\<close>, \<open>Ingestion_Invariants\<close> and \<open>Ingestion_Jobs\<close> (the rest of
    \<open>persistence/ingestion.py\<close>): the tables that hold the latest membership of a publication (locale
    \<open>keyed_rows\<close>, interpreted on the incidents, placeholders, sources and runs), the database as a
    record of tables with the transaction of a success, the record of a failure and the checkpoint, and
    what they keep: a success appends to the immutable tables and accounts for every record, a snapshot
    leaves exactly its members current, the checkpoint follows the runs, and a failure can always be
    recorded.
  \<^item> \<open>Worker\<close> (\<open>worker/scheduler.py\<close>, \<open>contracts.py\<close>, \<open>production.py\<close>): schedules, planned windows, attempts
    and ticks over an \<open>ingestion_repository\<close>, whose contracts are the locales \<open>failure_recording\<close> and
    \<open>attempt_log\<close>, interpreted on the repository of \<open>Ingestion\<close>; a failing source never stops a tick, and
    what a job has covered has no gap.

  \<^bold>\<open>Conventions.\<close>  A \<open>datetime\<close> that the code has made UTC is its microsecond count.  A pydantic model or
  frozen dataclass is a record with the function that runs its validators in order.  A database
  table is the list of its rows; an insert checks the CHECK constraints and the unique identity of
  its rows and fails as the statement would; a failed transaction leaves the tables unchanged.
  Random primary keys, column widths and creation times are left out.  SQL selections are modelled
  by the filter and the order they ask for.  Parameters of the model: the clock readings, the time
  zone transitions of Europe/London (locale \<open>london_zone\<close>, the 01:00 UTC convention), the wrapped ASGI
  application, the order of UUIDs that breaks ties of a checkpoint, the
  answers of the worker's environment by the number of the attempt, and the rows a read returns.

  \<^bold>\<open>Bounds.\<close>  No definition uses fuel: loops are structural or have a measure, and the one loop without
  a syntactic bound, the window loop of the planner, is proved to terminate.  Overflow of floats to
  infinity and subnormal numbers are outside \<open>Float64\<close>; the magnitudes of the program stay far from
  both.

  \<^bold>\<open>Not modelled.\<close>  HTTP clients and parsers of provider payloads (\<open>sources/elexon.py\<close>, \<open>neso_carbon.py\<close>,
  \<open>client.py\<close>, the adapter half of \<open>ukpn.py\<close>, \<open>geography/adapters.py\<close>, the extract parser of
  \<open>geography/repd.py\<close>): their work is network input.  SQL reads and response shaping
  (\<open>persistence/reads.py\<close>, \<open>assets/\<close>, \<open>outages/\<close>, \<open>history/\<close>, \<open>exporting/\<close>, most of \<open>api/\<close>).  Text
  composition and the language model (\<open>briefing/\<close>, \<open>intelligence/\<close> apart from the budget).  asyncio,
  advisory locks, logging, settings and start-up (\<open>persistence/locks.py\<close>, \<open>observability.py\<close>, \<open>main.py\<close>,
  \<open>runtime.py\<close>, \<open>config.py\<close>).  The forecast game (\<open>game/\<close>).  Generated migrations (\<open>alembic/\<close>).
\<close>

end
